(* ===== verification/Prelude.thy ===== *)
theory Prelude
  imports Main "HOL-Library.Word" "HOL-Library.Signed_Division"
begin

text \<open>
  Shared vocabulary of the development: what a C++ expression can do besides
  returning a value (undefined behaviour, an exception), 32-bit signed
  arithmetic, statements over a state, and counted loops with their rules.
\<close>

section \<open>Outcomes\<close>

text \<open>
  A C++ evaluation ends in a value, in a thrown standard exception, or in
  undefined behaviour. Undefined behaviour is an outcome of its own: the model
  stops there and says nothing of what the machine does next. A loop without
  end that has no effects is undefined behaviour as well; a failed assertion and
  a call of \<open>std::terminate\<close> stop the program and are listed with it.
\<close>

datatype undefined_behaviour =
    Signed_Overflow
  | Out_Of_Bounds
  | Null_Pointer
  | Dangling_Pointer
  | Stack_Overflow
  | Assertion_Failed
  | Terminated
  | No_Progress

datatype exn =
    Invalid_Argument string
  | Out_Of_Range string
  | Length_Error string
  | Runtime_Error string
  | Logic_Error string
  | Future_Error
  | Bad_Alloc
  | Type_Error
  | Parse_Error
  | Insufficient_Bytes
  | Container_Size_Overflow
  | Array_Size_Overflow
  | Map_Size_Overflow
  | Str_Size_Overflow
  | Bin_Size_Overflow
  | Ext_Size_Overflow
  | Depth_Size_Overflow

datatype fault = UB undefined_behaviour | Throw exn

type_synonym 'a result = "fault + 'a"

named_theorems outcome \<open>evaluation of results, statements and loops\<close>

fun rbind :: "'a result \<Rightarrow> ('a \<Rightarrow> 'b result) \<Rightarrow> 'b result" where
  "rbind (Inl e) f = Inl e"
| "rbind (Inr a) f = f a"

lemma rbind_Inr_iff [simp]:
  "rbind r f = Inr b \<longleftrightarrow> (\<exists>a. r = Inr a \<and> f a = Inr b)"
  by (cases r) auto

lemma rbind_Inl_iff [simp]:
  "rbind r f = Inl e \<longleftrightarrow> r = Inl e \<or> (\<exists>a. r = Inr a \<and> f a = Inl e)"
  by (cases r) auto

section \<open>32-bit signed integers\<close>

text \<open>
  A C++ \<open>int\<close> is an \<^typ>\<open>int\<close> in the 32-bit range; an operation whose exact
  result leaves the range is undefined behaviour. Division and remainder
  truncate (\<open>sdiv\<close>, \<open>smod\<close>); they are only used with positive constant
  divisors, where they cannot overflow.
\<close>

definition int_min :: int where "int_min = - 2147483648"
definition int_max :: int where "int_max = 2147483647"

definition is_int32 :: "int \<Rightarrow> bool" where
  "is_int32 a \<longleftrightarrow> int_min \<le> a \<and> a \<le> int_max"

definition c_int :: "int \<Rightarrow> int result" where
  "c_int a = (if is_int32 a then Inr a else Inl (UB Signed_Overflow))"

definition c_add :: "int \<Rightarrow> int \<Rightarrow> int result" where
  "c_add a b = c_int (a + b)"

definition c_sub :: "int \<Rightarrow> int \<Rightarrow> int result" where
  "c_sub a b = c_int (a - b)"

definition c_mul :: "int \<Rightarrow> int \<Rightarrow> int result" where
  "c_mul a b = c_int (a * b)"

definition c_neg :: "int \<Rightarrow> int result" where
  "c_neg a = c_int (- a)"

text \<open>Conversion of an integer value to \<open>int\<close>, modulo \<open>2^32\<close>.\<close>

definition narrow_int32 :: "int \<Rightarrow> int" where
  "narrow_int32 a = sint (word_of_int a :: 32 word)"

lemma c_ops_in_range:
  "is_int32 (a + b) \<Longrightarrow> c_add a b = Inr (a + b)"
  "is_int32 (a - b) \<Longrightarrow> c_sub a b = Inr (a - b)"
  "is_int32 (a * b) \<Longrightarrow> c_mul a b = Inr (a * b)"
  "is_int32 (- a) \<Longrightarrow> c_neg a = Inr (- a)"
  by (simp_all add: c_add_def c_sub_def c_mul_def c_neg_def c_int_def)

lemmas c_ops = c_add_def c_sub_def c_mul_def c_neg_def c_int_def

lemma narrow_int32_id: "is_int32 a \<Longrightarrow> narrow_int32 a = a"
proof -
  assume "is_int32 a"
  then have "- (2 ^ 31) \<le> a" and "a < 2 ^ 31"
    by (auto simp: is_int32_def int_min_def int_max_def)
  then show ?thesis
    by (simp add: narrow_int32_def signed_of_int signed_take_bit_int_eq_self)
qed

lemma is_int32_between:
  "int_min \<le> lo \<Longrightarrow> lo \<le> a \<Longrightarrow> a \<le> hi \<Longrightarrow> hi \<le> int_max \<Longrightarrow> is_int32 a"
  by (simp add: is_int32_def)

lemma sdiv_nonneg: "0 \<le> (a::int) \<Longrightarrow> 0 < b \<Longrightarrow> a sdiv b = a div b"
  by (cases "a = 0") (simp_all add: signed_divide_int_def sgn_if)

lemma smod_nonneg: "0 \<le> (a::int) \<Longrightarrow> 0 < b \<Longrightarrow> a smod b = a mod b"
  by (rule smod_mod_positive) simp_all

text \<open>Decimal notation, as streams and \<open>to_string\<close> write it.\<close>

fun show_nat :: "nat \<Rightarrow> string" where
  "show_nat n = (if n < 10 then [char_of (48 + n)] else show_nat (n div 10) @ [char_of (48 + n mod 10)])"

declare show_nat.simps [simp del]

definition show_int :: "int \<Rightarrow> string" where
  "show_int a = (if a < 0 then ''-'' @ show_nat (nat (- a)) else show_nat (nat a))"

lemma char_of_byte: "char_of (unat (of_char c :: 8 word)) = c"
proof -
  have "(of_char c :: 8 word) = of_nat (of_char c)" by (simp add: of_nat_of_char)
  then have "unat (of_char c :: 8 word) = take_bit 8 (of_char c)"
    by (simp add: unsigned_of_nat)
  then show ?thesis by (simp add: take_bit_nat_eq_self)
qed

section \<open>Statements\<close>

text \<open>
  A statement maps a state to an outcome and the state it leaves, also when
  it throws: the effects before a throw stay.
\<close>

type_synonym ('s, 'a) stm = "'s \<Rightarrow> 'a result \<times> 's"

definition skip :: "('s, unit) stm" where
  "skip s = (Inr (), s)"

definition modify :: "('s \<Rightarrow> 's) \<Rightarrow> ('s, unit) stm" where
  "modify f s = (Inr (), f s)"

definition throw :: "exn \<Rightarrow> ('s, 'a) stm" where
  "throw e s = (Inl (Throw e), s)"

definition eval_expr :: "('s \<Rightarrow> 'a result) \<Rightarrow> ('s, 'a) stm" where
  "eval_expr f s = (f s, s)"

definition and_then :: "('s, 'a) stm \<Rightarrow> ('a \<Rightarrow> ('s, 'b) stm) \<Rightarrow> ('s, 'b) stm" where
  "and_then m f s =
     (case m s of (Inl e, s') \<Rightarrow> (Inl e, s') | (Inr a, s') \<Rightarrow> f a s')"

lemma skip_eval [outcome]: "skip s = (Inr (), s)"
  by (simp add: skip_def)

lemma modify_eval [outcome]: "modify f s = (Inr (), f s)"
  by (simp add: modify_def)

lemma throw_eval [outcome]: "throw e s = (Inl (Throw e), s)"
  by (simp add: throw_def)

lemma eval_expr_eval [outcome]: "eval_expr f s = (f s, s)"
  by (simp add: eval_expr_def)

lemma and_then_Inr [outcome]: "m s = (Inr a, s') \<Longrightarrow> and_then m f s = f a s'"
  by (simp add: and_then_def)

lemma and_then_Inl [outcome]: "m s = (Inl e, s') \<Longrightarrow> and_then m f s = (Inl e, s')"
  by (simp add: and_then_def)

lemma and_then_simple [outcome]:
  "and_then skip f s = f () s"
  "and_then (modify g) f s = f () (g s)"
  "and_then (throw e) f' s = (Inl (Throw e), s)"
  by (simp_all add: and_then_def skip_def modify_def throw_def)

lemma and_then_eval_expr [outcome]:
  "and_then (eval_expr e) f s = (case e s of Inl t \<Rightarrow> (Inl t, s) | Inr a \<Rightarrow> f a s)"
  by (simp add: and_then_def eval_expr_def split: sum.split)

section \<open>Counted loops\<close>

fun for_each :: "('i \<Rightarrow> ('s, unit) stm) \<Rightarrow> 'i list \<Rightarrow> ('s, unit) stm" where
  "for_each body [] s = (Inr (), s)"
| "for_each body (i # is) s =
     (case body i s of
        (Inl e, s') \<Rightarrow> (Inl e, s')
      | (Inr _, s') \<Rightarrow> for_each body is s')"

text \<open>
  \<open>for (int i = 0; i < bound(); ++i) body\<close>. The bounds of the loops below are
  sizes that no statement of the body changes, so the bound is read once.
\<close>

definition for_upto :: "('s \<Rightarrow> int) \<Rightarrow> (int \<Rightarrow> ('s, unit) stm) \<Rightarrow> ('s, unit) stm" where
  "for_upto bound body s = for_each body [0..bound s - 1] s"

lemma for_each_append:
  "for_each body (xs @ ys) s =
     (case for_each body xs s of
        (Inl e, s') \<Rightarrow> (Inl e, s')
      | (Inr _, s') \<Rightarrow> for_each body ys s')"
  by (induction xs arbitrary: s) (auto split: sum.split prod.split)

lemma upto_snoc: "i \<le> j \<Longrightarrow> [i..j] = [i..j - 1] @ [j::int]"
  by (rule upto_rec2)

text \<open>The invariant rule: the body keeps \<open>I\<close>, counting up, and never fails.\<close>

lemma for_upto_inv:
  assumes n: "bound s = n" "0 \<le> n"
    and init: "I 0 s"
    and step: "\<And>i t. 0 \<le> i \<Longrightarrow> i < n \<Longrightarrow> I i t \<Longrightarrow> \<exists>t'. body i t = (Inr (), t') \<and> I (i + 1) t'"
  shows "\<exists>t. for_upto bound body s = (Inr (), t) \<and> I n t"
proof -
  have "int k \<le> n \<Longrightarrow> \<exists>t. for_each body [0..int k - 1] s = (Inr (), t) \<and> I (int k) t" for k
  proof (induction k)
    case 0
    then show ?case using init by simp
  next
    case (Suc k)
    then obtain t where t: "for_each body [0..int k - 1] s = (Inr (), t)" "I (int k) t"
      by auto
    from step [OF _ _ t(2)] Suc.prems obtain t' where
      "body (int k) t = (Inr (), t')" "I (int k + 1) t'" by auto
    then show ?case
      using t by (simp add: upto_snoc [of 0 "int k"] for_each_append algebra_simps)
  qed
  from this [of "nat n"] n show ?thesis
    by (simp add: for_upto_def)
qed

text \<open>What a failing body does: the loop ends with the first failure.\<close>

lemma for_upto_first_fails:
  "0 < bound s \<Longrightarrow> body 0 s = (Inl e, s') \<Longrightarrow> for_upto bound body s = (Inl e, s')"
  by (simp add: for_upto_def upto_rec1)

lemma for_upto_empty [outcome]: "bound s \<le> 0 \<Longrightarrow> for_upto bound body s = (Inr (), s)"
  by (simp add: for_upto_def)

section \<open>Invariants of statements\<close>

text \<open>A predicate that holds after a statement, whatever its outcome, if it held before.\<close>

definition keeps :: "('s \<Rightarrow> bool) \<Rightarrow> ('s, 'a) stm \<Rightarrow> bool" where
  "keeps P m \<longleftrightarrow> (\<forall>s. P s \<longrightarrow> P (snd (m s)))"

named_theorems keeps_intros \<open>rules for invariants of statements\<close>

lemma keepsI: "(\<And>s. P s \<Longrightarrow> P (snd (m s))) \<Longrightarrow> keeps P m"
  by (simp add: keeps_def)

lemma keepsD: "keeps P m \<Longrightarrow> P s \<Longrightarrow> m s = (r, s') \<Longrightarrow> P s'"
  by (auto simp: keeps_def dest: spec [of _ s])

lemma keeps_basic [keeps_intros]: "keeps P skip" "keeps P (eval_expr e)" "keeps P (throw ex)"
  by (simp_all add: keeps_def skip_def eval_expr_def throw_def)

lemma keeps_modify: "(\<And>s. P s \<Longrightarrow> P (f s)) \<Longrightarrow> keeps P (modify f)"
  by (simp add: keeps_def modify_def)

lemma keeps_and_then [keeps_intros]:
  assumes "keeps P m" "\<And>a. keeps P (f a)"
  shows "keeps P (and_then m f)"
proof (rule keepsI)
  fix s assume "P s"
  obtain r t where m: "m s = (r, t)" by force
  from keepsD [OF assms(1) \<open>P s\<close> m] assms(2) show "P (snd (and_then m f s))"
    by (cases r) (simp_all add: and_then_def m keeps_def)
qed

lemma keeps_branch [keeps_intros]:
  "keeps P m \<Longrightarrow> keeps P n \<Longrightarrow> keeps P (\<lambda>s. if b s then m s else n s)"
  by (simp add: keeps_def)

lemma keeps_for_each [keeps_intros]:
  assumes "\<And>i. keeps P (body i)"
  shows "keeps P (for_each body is)"
proof (induction "is")
  case (Cons i js)
  show ?case
  proof (rule keepsI)
    fix s assume "P s"
    obtain r t where m: "body i s = (r, t)" by force
    from keepsD [OF assms \<open>P s\<close> m] Cons.IH show "P (snd (for_each body (i # js) s))"
      by (cases r) (simp_all add: m keeps_def)
  qed
qed (simp add: keeps_def)

lemma keeps_for_upto [keeps_intros]:
  "(\<And>i. keeps P (body i)) \<Longrightarrow> keeps P (for_upto bound body)"
  unfolding for_upto_def using keeps_for_each [of P body] by (simp add: keeps_def)

end
