(* ===== verification/Strip_Index.thy ===== *)
theory Strip_Index
  imports Prelude
begin

text \<open>
  Where a pixel sits on the strip: \<open>IStripIndex\<close> and its two layouts, and
  \<open>StripRotateHelper\<close>, which turns and mirrors the image first
  (\<open>src/inc/render.hpp\<close>). The contract of an index function is the locale
  \<open>rect_index\<close>: inside the rectangle it is defined, in range and injective;
  hence every LED carries exactly one pixel.
\<close>

section \<open>Layouts\<close>

text \<open>
  An \<open>IStripIndex\<close> holds references to the \<open>width_\<close> and \<open>height_\<close> of the
  device that owns it, so a call reads their current values: they are the first
  two arguments here.
\<close>

type_synonym index_fn = "int \<Rightarrow> int \<Rightarrow> int \<Rightarrow> int \<Rightarrow> int result"

definition ISnakeStripIndex_index :: index_fn where
  "ISnakeStripIndex_index w h x y =
     (if y smod 2 = 0
      then rbind (c_mul y w) (\<lambda>row. c_add row x)
      else rbind (c_mul y w) (\<lambda>row.
           rbind (c_sub w x) (\<lambda>c.
           rbind (c_sub c 1) (\<lambda>c. c_add row c))))"

definition IVectorStripIndex_index :: index_fn where
  "IVectorStripIndex_index w h x y = rbind (c_mul y w) (\<lambda>row. c_add row x)"

section \<open>Rotation\<close>

text \<open>
  The template parameters of \<open>StripRotateHelper\<close>; the \<open>static_assert\<close> leaves
  four degrees.
\<close>

datatype degree = Deg0 | Deg90 | Deg180 | Deg270

datatype strip_rotate_helper =
  StripRotateHelper (RotateDegree: degree) (FlipX: bool) (FlipY: bool)

text \<open>The expression \<open>n - a - 1\<close>.\<close>

definition c_mirror :: "int \<Rightarrow> int \<Rightarrow> int result" where
  "c_mirror n a = rbind (c_sub n a) (\<lambda>t. c_sub t 1)"

fun rotate_point :: "degree \<Rightarrow> int \<Rightarrow> int \<Rightarrow> int \<Rightarrow> int \<Rightarrow> (int \<times> int) result" where
  "rotate_point Deg0 w h x y = Inr (x, y)"
| "rotate_point Deg90 w h x y = rbind (c_mirror h x) (\<lambda>ur_y. Inr (y, ur_y))"
| "rotate_point Deg180 w h x y =
     rbind (c_mirror w x) (\<lambda>ur_x. rbind (c_mirror h y) (\<lambda>ur_y. Inr (ur_x, ur_y)))"
| "rotate_point Deg270 w h x y = rbind (c_mirror w y) (\<lambda>ur_x. Inr (ur_x, x))"

fun StripRotateHelper_index :: "index_fn \<Rightarrow> strip_rotate_helper \<Rightarrow> index_fn" where
  "StripRotateHelper_index index (StripRotateHelper deg flip_x flip_y) w h x y =
     rbind (rotate_point deg w h x y) (\<lambda>(ur_x, ur_y).
     rbind (if flip_x then c_mirror w ur_x else Inr ur_x) (\<lambda>ur_x.
     rbind (if flip_y then c_mirror h ur_y else Inr ur_y) (\<lambda>ur_y.
       index w h ur_x ur_y)))"

section \<open>The contract of an index function\<close>

definition in_rect :: "int \<Rightarrow> int \<Rightarrow> int \<Rightarrow> int \<Rightarrow> bool" where
  "in_rect w h x y \<longleftrightarrow> 0 \<le> x \<and> x < w \<and> 0 \<le> y \<and> y < h"

definition dims_ok :: "int \<Rightarrow> int \<Rightarrow> bool" where
  "dims_ok w h \<longleftrightarrow> 0 \<le> w \<and> w \<le> int_max \<and> 0 \<le> h \<and> h \<le> int_max \<and> w * h \<le> int_max"

definition rect :: "int \<Rightarrow> int \<Rightarrow> (int \<times> int) set" where
  "rect w h = {0..<w} \<times> {0..<h}"

lemma in_rect_iff: "in_rect w h x y \<longleftrightarrow> (x, y) \<in> rect w h"
  by (auto simp: in_rect_def rect_def)

lemma card_rect: "0 \<le> w \<Longrightarrow> 0 \<le> h \<Longrightarrow> card (rect w h) = nat (w * h)"
  by (simp add: rect_def nat_mult_distrib)

lemma finite_rect [simp]: "finite (rect w h)"
  by (simp add: rect_def)

text \<open>The LED number an index function gives, as a natural number.\<close>

definition led_number :: "index_fn \<Rightarrow> int \<Rightarrow> int \<Rightarrow> int \<times> int \<Rightarrow> nat" where
  "led_number index w h p = (case index w h (fst p) (snd p) of Inr i \<Rightarrow> nat i | Inl _ \<Rightarrow> 0)"

text \<open>
  \<open>lw w h\<close> and \<open>lh w h\<close> are the sizes of the rectangle the index function is
  used on, where \<open>w\<close> and \<open>h\<close> are the physical ones.
\<close>

locale rect_index =
  fixes index :: index_fn
    and lw lh :: "int \<Rightarrow> int \<Rightarrow> int"
  assumes area: "lw w h * lh w h = w * h"
    and sizes_nonneg: "dims_ok w h \<Longrightarrow> 0 \<le> lw w h \<and> 0 \<le> lh w h"
    and index_range: "dims_ok w h \<Longrightarrow> in_rect (lw w h) (lh w h) x y \<Longrightarrow>
          \<exists>i. index w h x y = Inr i \<and> 0 \<le> i \<and> i < w * h"
    and index_inj: "dims_ok w h \<Longrightarrow> in_rect (lw w h) (lh w h) x y \<Longrightarrow>
          in_rect (lw w h) (lh w h) x' y' \<Longrightarrow> index w h x y = index w h x' y' \<Longrightarrow>
          x = x' \<and> y = y'"
begin

lemma led_number_index:
  assumes "dims_ok w h" and "in_rect (lw w h) (lh w h) x y"
  shows "index w h x y = Inr (int (led_number index w h (x, y)))"
  using index_range [OF assms] by (auto simp: led_number_def)

lemma led_number_less:
  assumes "dims_ok w h" and "in_rect (lw w h) (lh w h) x y"
  shows "led_number index w h (x, y) < nat (w * h)"
  using index_range [OF assms] by (auto simp: led_number_def)

lemma led_number_eq_iff:
  assumes "dims_ok w h" and "in_rect (lw w h) (lh w h) x y" and "in_rect (lw w h) (lh w h) x' y'"
  shows "led_number index w h (x, y) = led_number index w h (x', y') \<longleftrightarrow> x = x' \<and> y = y'"
  using index_inj [OF assms] led_number_index [OF assms(1,2)] led_number_index [OF assms(1,3)]
  by auto

text \<open>Every LED of the strip carries exactly one pixel of the rectangle.\<close>

lemma led_number_bij:
  assumes "dims_ok w h"
  shows "bij_betw (led_number index w h) (rect (lw w h) (lh w h)) {0..<nat (w * h)}"
proof -
  let ?f = "led_number index w h" and ?A = "rect (lw w h) (lh w h)"
  have inj: "inj_on ?f ?A"
  proof (rule inj_onI)
    fix p q assume "p \<in> ?A" "q \<in> ?A" "?f p = ?f q"
    then show "p = q"
      using led_number_eq_iff [OF assms, of "fst p" "snd p" "fst q" "snd q"]
      by (auto simp: in_rect_iff prod_eq_iff)
  qed
  have sub: "?f ` ?A \<subseteq> {0..<nat (w * h)}"
    using led_number_less [OF assms] by (fastforce simp: in_rect_iff)
  have "card (?f ` ?A) = card {0..<nat (w * h)}"
    using card_image [OF inj] card_rect sizes_nonneg [OF assms] area by simp
  then have "?f ` ?A = {0..<nat (w * h)}"
    using card_subset_eq [OF finite_atLeastLessThan sub] by simp
  with inj show ?thesis by (simp add: bij_betw_def)
qed

end

text \<open>An unrotated layout uses the physical rectangle itself.\<close>

locale strip_index = rect_index index "\<lambda>w h. w" "\<lambda>w h. h"
  for index :: index_fn

section \<open>The layouts satisfy the contract\<close>

lemma dims_ok_bounds:
  assumes "dims_ok w h" and "in_rect w h x y"
  shows "0 \<le> y * w" "y * w + w \<le> w * h" "w * h \<le> int_max"
proof -
  have "w * (y + 1) \<le> w * h"
    using assms by (intro mult_left_mono) (auto simp: in_rect_def)
  then show "y * w + w \<le> w * h" by (simp add: algebra_simps)
  show "0 \<le> y * w" "w * h \<le> int_max"
    using assms by (auto simp: in_rect_def dims_ok_def)
qed

lemma row_is_int32:
  assumes "dims_ok w h" and "in_rect w h x y" and "0 \<le> c" "c < w"
  shows "is_int32 (y * w)" "is_int32 (y * w + c)"
proof -
  have "int_min \<le> y * w" and "y * w + c \<le> int_max" and "y * w \<le> int_max"
    and "int_min \<le> y * w + c"
    using dims_ok_bounds [OF assms(1,2)] assms(3,4) unfolding int_min_def by linarith+
  then show "is_int32 (y * w)" "is_int32 (y * w + c)" by (simp_all add: is_int32_def)
qed

lemma column_is_int32:
  assumes "dims_ok w h" and "in_rect w h x y"
  shows "is_int32 (w - x)" "is_int32 (w - x - 1)"
  using assms by (auto simp: dims_ok_def in_rect_def is_int32_def int_min_def)

lemma IVectorStripIndex_in_rect:
  assumes "dims_ok w h" and "in_rect w h x y"
  shows "IVectorStripIndex_index w h x y = Inr (y * w + x)"
  using row_is_int32 [OF assms, of x] assms(2)
  by (simp add: IVectorStripIndex_index_def c_ops_in_range in_rect_def)

lemma ISnakeStripIndex_in_rect:
  assumes "dims_ok w h" and "in_rect w h x y"
  shows "ISnakeStripIndex_index w h x y =
           Inr (if even y then y * w + x else y * w + (w - x - 1))"
  using row_is_int32 [OF assms, of x] row_is_int32 [OF assms, of "w - x - 1"]
    column_is_int32 [OF assms] assms(2)
  by (simp add: ISnakeStripIndex_index_def c_ops_in_range in_rect_def smod_nonneg
        even_iff_mod_2_eq_zero)

lemma row_major_unique:
  fixes w :: int
  assumes "y * w + c = y' * w + c'" and "0 \<le> c" "c < w" and "0 \<le> c'" "c' < w"
  shows "y = y' \<and> c = c'"
proof -
  have "y = (y * w + c) div w" and "c = (y * w + c) mod w"
    using assms(2,3) by simp_all
  moreover have "y' = (y' * w + c') div w" and "c' = (y' * w + c') mod w"
    using assms(4,5) by simp_all
  ultimately show ?thesis using assms(1) by metis
qed

interpretation vector_layout: strip_index IVectorStripIndex_index
proof unfold_locales
  fix w h x y :: int
  assume a: "dims_ok w h" "in_rect w h x y"
  show "\<exists>i. IVectorStripIndex_index w h x y = Inr i \<and> 0 \<le> i \<and> i < w * h"
    using dims_ok_bounds [OF a] a by (auto simp: IVectorStripIndex_in_rect in_rect_def)
  fix x' y' assume b: "in_rect w h x' y'"
    and eq: "IVectorStripIndex_index w h x y = IVectorStripIndex_index w h x' y'"
  then show "x = x' \<and> y = y'"
    using row_major_unique [of y w x y' x'] a
    by (auto simp: IVectorStripIndex_in_rect in_rect_def)
qed (auto simp: dims_ok_def)

interpretation snake_layout: strip_index ISnakeStripIndex_index
proof unfold_locales
  fix w h x y :: int
  assume a: "dims_ok w h" "in_rect w h x y"
  show "\<exists>i. ISnakeStripIndex_index w h x y = Inr i \<and> 0 \<le> i \<and> i < w * h"
    using dims_ok_bounds [OF a] a by (auto simp: ISnakeStripIndex_in_rect in_rect_def)
  fix x' y' assume b: "in_rect w h x' y'"
    and eq: "ISnakeStripIndex_index w h x y = ISnakeStripIndex_index w h x' y'"
  let ?c = "\<lambda>x y. if even y then x else w - x - 1"
  have "y = y' \<and> ?c x y = ?c x' y'"
    using eq a b by (intro row_major_unique [of y w]) 
      (auto simp: ISnakeStripIndex_in_rect in_rect_def split: if_splits)
  then show "x = x' \<and> y = y'" by (auto split: if_splits)
qed (auto simp: dims_ok_def)

section \<open>Rotating and mirroring keep the contract\<close>

text \<open>The width and height the image has after the rotation.\<close>

fun swaps_sides :: "degree \<Rightarrow> bool" where
  "swaps_sides Deg0 = False"
| "swaps_sides Deg90 = True"
| "swaps_sides Deg180 = False"
| "swaps_sides Deg270 = True"

definition rotated_width :: "strip_rotate_helper \<Rightarrow> int \<Rightarrow> int \<Rightarrow> int" where
  "rotated_width r w h = (if swaps_sides (RotateDegree r) then h else w)"

definition rotated_height :: "strip_rotate_helper \<Rightarrow> int \<Rightarrow> int \<Rightarrow> int" where
  "rotated_height r w h = (if swaps_sides (RotateDegree r) then w else h)"

text \<open>The physical point of a pixel, over exact integers.\<close>

fun unrotate :: "degree \<Rightarrow> int \<Rightarrow> int \<Rightarrow> int \<times> int \<Rightarrow> int \<times> int" where
  "unrotate Deg0 w h (x, y) = (x, y)"
| "unrotate Deg90 w h (x, y) = (y, h - x - 1)"
| "unrotate Deg180 w h (x, y) = (w - x - 1, h - y - 1)"
| "unrotate Deg270 w h (x, y) = (w - y - 1, x)"

definition mirror :: "bool \<Rightarrow> int \<Rightarrow> int \<Rightarrow> int" where
  "mirror flip n a = (if flip then n - a - 1 else a)"

definition physical_point :: "strip_rotate_helper \<Rightarrow> int \<Rightarrow> int \<Rightarrow> int \<Rightarrow> int \<Rightarrow> int \<times> int" where
  "physical_point r w h x y =
     (case unrotate (RotateDegree r) w h (x, y) of
        (ux, uy) \<Rightarrow> (mirror (FlipX r) w ux, mirror (FlipY r) h uy))"

lemma mirror_involution [simp]: "mirror f n (mirror f n a) = a"
  by (simp add: mirror_def)

lemma mirror_range: "0 \<le> mirror f n a \<and> mirror f n a < n \<longleftrightarrow> 0 \<le> a \<and> a < n"
  by (auto simp: mirror_def)

lemma mirror_eq_iff [simp]: "mirror f n a = mirror f n b \<longleftrightarrow> a = b"
  by (auto simp: mirror_def)

lemma c_mirror_in_range:
  assumes "0 \<le> a" "a < n" "n \<le> int_max"
  shows "c_mirror n a = Inr (mirror True n a)"
  using assms by (simp add: c_mirror_def mirror_def c_ops is_int32_def int_min_def)

lemma physical_point_rect:
  "(case physical_point r w h x y of (px, py) \<Rightarrow> in_rect w h px py) \<longleftrightarrow>
   in_rect (rotated_width r w h) (rotated_height r w h) x y"
  by (cases "RotateDegree r")
    (auto simp: physical_point_def in_rect_def mirror_range rotated_width_def rotated_height_def mirror_def)

lemma physical_point_inj:
  "physical_point r w h x y = physical_point r w h x' y' \<longleftrightarrow> x = x' \<and> y = y'"
  by (cases "RotateDegree r") (auto simp: physical_point_def)

lemma StripRotateHelper_index_in_rect:
  assumes "dims_ok w h" and "in_rect (rotated_width r w h) (rotated_height r w h) x y"
  shows "StripRotateHelper_index index r w h x y =
     (case physical_point r w h x y of (px, py) \<Rightarrow> index w h px py)"
  using assms
  by (cases r; cases "RotateDegree r")
    (auto simp: physical_point_def dims_ok_def in_rect_def c_mirror_in_range
       rotated_width_def rotated_height_def mirror_def)

context strip_index
begin

sublocale rotated: rect_index "StripRotateHelper_index index r" "rotated_width r" "rotated_height r"
  for r :: strip_rotate_helper
proof unfold_locales
  fix w h x y :: int
  show "rotated_width r w h * rotated_height r w h = w * h"
    by (simp add: rotated_width_def rotated_height_def)
  show "dims_ok w h \<Longrightarrow> 0 \<le> rotated_width r w h \<and> 0 \<le> rotated_height r w h"
    by (simp add: rotated_width_def rotated_height_def dims_ok_def)
  assume a: "dims_ok w h" "in_rect (rotated_width r w h) (rotated_height r w h) x y"
  then show "\<exists>i. StripRotateHelper_index index r w h x y = Inr i \<and> 0 \<le> i \<and> i < w * h"
    using physical_point_rect [of w h r x y]
    by (auto simp: StripRotateHelper_index_in_rect index_range split: prod.splits)
  fix x' y' assume b: "in_rect (rotated_width r w h) (rotated_height r w h) x' y'"
    and eq: "StripRotateHelper_index index r w h x y = StripRotateHelper_index index r w h x' y'"
  then have "physical_point r w h x y = physical_point r w h x' y'"
    using a physical_point_rect [of w h r x y] physical_point_rect [of w h r x' y']
    by (auto simp: StripRotateHelper_index_in_rect split: prod.splits dest: index_inj)
  then show "x = x' \<and> y = y'" by (simp add: physical_point_inj)
qed

end

end
