(* ===== verification/Paint_Device.thy ===== *)
theory Paint_Device
  imports Strip_Index
begin

text \<open>
  \<open>IPaintSource\<close> and \<open>IPaintDevice\<close> (\<open>src/inc/render.hpp\<close>): the operations
  \<open>clear\<close>, \<open>draw\<close> and \<open>flip\<close> that every device inherits, over a table of its
  virtual functions. The locale \<open>paint_device\<close> is the contract of such a
  table (a frame of pixels, each written alone); inside it the three operations
  are shown to compute functions on images.
\<close>

section \<open>Virtual functions\<close>

type_synonym LedColor = "32 word"

definition Led_White :: LedColor where "Led_White = 0xffffff"
definition Led_Red :: LedColor where "Led_Red = 0xff0000"
definition Led_Green :: LedColor where "Led_Green = 0x00ff00"
definition Led_Blue :: LedColor where "Led_Blue = 0x0000ff"
definition Led_Yellow :: LedColor where "Led_Yellow = 0xffff00"
definition Led_Cyan :: LedColor where "Led_Cyan = 0x00ffff"
definition Led_Magenta :: LedColor where "Led_Magenta = 0xff00ff"
definition Led_Black :: LedColor where "Led_Black = 0x000000"

text \<open>
  The virtual functions of a class whose objects live in a state \<open>'s\<close>. A
  source may live in the state it is drawn into (a device drawn onto itself),
  so its functions take that state.
\<close>

record 's IPaintSource =
  width :: "'s \<Rightarrow> int"
  height :: "'s \<Rightarrow> int"
  led :: "int \<Rightarrow> int \<Rightarrow> 's \<Rightarrow> LedColor result"

text \<open>
  \<open>led_ref x y c\<close> is the assignment \<open>led_ref(x, y) = c\<close>; \<open>back_of\<close> and
  \<open>transparent_of\<close> read the members \<open>back\<close> and \<open>transparent_\<close> of the base class.
\<close>

record 's IPaintDevice = "'s IPaintSource" +
  led_ref :: "int \<Rightarrow> int \<Rightarrow> LedColor \<Rightarrow> ('s, unit) stm"
  back_of :: "'s \<Rightarrow> LedColor"
  transparent_of :: "'s \<Rightarrow> bool"

section \<open>Operations\<close>

definition clear :: "('s, 'z) IPaintDevice_scheme \<Rightarrow> ('s, unit) stm" where
  "clear dv =
     for_upto (height dv) (\<lambda>y.
       for_upto (width dv) (\<lambda>x d. led_ref dv x y (back_of dv d) d))"

definition draw ::
  "('s, 'z) IPaintDevice_scheme \<Rightarrow> ('s, 'y) IPaintSource_scheme \<Rightarrow> int \<Rightarrow> int \<Rightarrow> bool \<Rightarrow> bool \<Rightarrow>
   ('s, unit) stm" where
  "draw dv src x y flip_x flip_y =
     for_upto (height src) (\<lambda>sy.
       and_then (eval_expr (\<lambda>d. if flip_y then c_mirror (height src d) sy else Inr sy)) (\<lambda>dy.
       and_then (eval_expr (\<lambda>_. c_add y dy)) (\<lambda>py d.
       if height dv d \<le> py then skip d
       else
         for_upto (width src) (\<lambda>sx.
           and_then (eval_expr (\<lambda>d. if flip_x then c_mirror (width src d) sx else Inr sx)) (\<lambda>dx.
           and_then (eval_expr (\<lambda>_. c_add x dx)) (\<lambda>px d.
           if width dv d \<le> px then skip d
           else
             and_then (eval_expr (led src sx sy)) (\<lambda>src_led d.
             if transparent_of dv d \<and> src_led = back_of dv d then skip d
             else led_ref dv px py src_led d) d))) d)))"

text \<open>The overload without flips.\<close>

definition draw_at ::
  "('s, 'z) IPaintDevice_scheme \<Rightarrow> ('s, 'y) IPaintSource_scheme \<Rightarrow> int \<Rightarrow> int \<Rightarrow> ('s, unit) stm" where
  "draw_at dv src x y = draw dv src x y False False"

definition flip :: "('s, 'z) IPaintDevice_scheme \<Rightarrow> bool \<Rightarrow> bool \<Rightarrow> ('s, unit) stm" where
  "flip dv flip_x flip_y =
     for_upto (height dv) (\<lambda>y.
       for_upto (\<lambda>d. width dv d sdiv 2) (\<lambda>x.
         and_then (eval_expr (\<lambda>d. if flip_x then c_mirror (width dv d) x else Inr x)) (\<lambda>dx.
         and_then (eval_expr (\<lambda>d. if flip_y then c_mirror (height dv d) y else Inr y)) (\<lambda>dy.
         and_then (eval_expr (led dv x y)) (\<lambda>tmp.
         and_then (eval_expr (led dv dx dy)) (\<lambda>c.
         and_then (led_ref dv x y c) (\<lambda>_.
           led_ref dv dx dy tmp)))))))"

text \<open>The three change the state only through \<open>led_ref\<close>, also when they fail.\<close>

lemma paint_keeps:
  assumes "\<And>x y c. keeps P (led_ref dv x y c)"
  shows "keeps P (clear dv)" "keeps P (draw dv src x y flip_x flip_y)" "keeps P (flip dv flip_x flip_y)"
proof -
  show "keeps P (clear dv)"
    unfolding clear_def using assms by (intro keeps_for_upto) (simp add: keeps_def)
  show "keeps P (draw dv src x y flip_x flip_y)"
    unfolding draw_def
    by (intro keeps_branch keeps_for_upto keeps_and_then keeps_basic assms)
  show "keeps P (flip dv flip_x flip_y)"
    unfolding flip_def by (intro keeps_for_upto keeps_and_then keeps_basic assms)
qed

section \<open>Images\<close>

text \<open>
  The image a device shows: a color for each point of its frame. Painting
  overlays a partial image; points outside the frame stay outside.
\<close>

type_synonym image = "int \<times> int \<Rightarrow> LedColor option"

definition pixels :: "('s, 'z) IPaintSource_scheme \<Rightarrow> 's \<Rightarrow> image" where
  "pixels dv d = (\<lambda>(x, y).
     if in_rect (width dv d) (height dv d) x y
     then (case led dv x y d of Inr c \<Rightarrow> Some c | Inl _ \<Rightarrow> None) else None)"

definition overlay :: "image \<Rightarrow> image \<Rightarrow> image" where
  "overlay p img = (\<lambda>q. case img q of None \<Rightarrow> None
     | Some old \<Rightarrow> Some (case p q of None \<Rightarrow> old | Some c \<Rightarrow> c))"

lemma overlay_empty [simp]: "overlay Map.empty img = img"
  by (auto simp: overlay_def fun_eq_iff split: option.split)

lemma overlay_overlay [simp]: "overlay q (overlay p img) = overlay (p ++ q) img"
  by (auto simp: overlay_def fun_eq_iff map_add_def split: option.split)

lemma dom_overlay [simp]: "dom (overlay p img) = dom img"
  by (auto simp: overlay_def split: option.splits)

text \<open>What \<open>clear\<close>, \<open>draw\<close> and \<open>flip\<close> are meant to paint.\<close>

definition cleared :: "LedColor \<Rightarrow> image \<Rightarrow> image" where
  "cleared c img = map_option (\<lambda>_. c) \<circ> img"

definition stamp ::
  "int \<Rightarrow> int \<Rightarrow> (int \<Rightarrow> int \<Rightarrow> LedColor) \<Rightarrow> int \<Rightarrow> int \<Rightarrow> bool \<Rightarrow> bool \<Rightarrow> (LedColor \<Rightarrow> bool) \<Rightarrow> image" where
  "stamp sw sh f x y flip_x flip_y see_through = (\<lambda>(px, py).
     let sx = mirror flip_x sw (px - x); sy = mirror flip_y sh (py - y)
     in if in_rect sw sh sx sy \<and> \<not> see_through (f sx sy) then Some (f sx sy) else None)"

section \<open>The contract of a device\<close>

definition same_frame :: "('s, 'z) IPaintDevice_scheme \<Rightarrow> 's \<Rightarrow> 's \<Rightarrow> bool" where
  "same_frame dv d d' \<longleftrightarrow> width dv d' = width dv d \<and> height dv d' = height dv d \<and>
     back_of dv d' = back_of dv d \<and> transparent_of dv d' = transparent_of dv d"

lemma same_frame_refl [simp]: "same_frame dv d d"
  by (simp add: same_frame_def)

lemma same_frame_trans: "same_frame dv d d' \<Longrightarrow> same_frame dv d' d'' \<Longrightarrow> same_frame dv d d''"
  by (simp add: same_frame_def)

locale paint_device =
  fixes dv :: "('s, 'z) IPaintDevice_scheme"
    and ok :: "'s \<Rightarrow> bool"
  assumes frame_dims: "ok d \<Longrightarrow> 0 \<le> width dv d \<and> width dv d \<le> int_max \<and>
          0 \<le> height dv d \<and> height dv d \<le> int_max"
    and led_total: "ok d \<Longrightarrow> in_rect (width dv d) (height dv d) x y \<Longrightarrow> \<exists>c. led dv x y d = Inr c"
    and led_ref_writes: "ok d \<Longrightarrow> in_rect (width dv d) (height dv d) x y \<Longrightarrow>
          \<exists>d'. led_ref dv x y c d = (Inr (), d') \<and> ok d' \<and> same_frame dv d d' \<and>
               pixels dv d' = overlay [(x, y) \<mapsto> c] (pixels dv d)"

begin

lemma led_pixels:
  assumes "ok d" and "in_rect (width dv d) (height dv d) x y"
  shows "\<exists>c. led dv x y d = Inr c \<and> pixels dv d (x, y) = Some c"
  using led_total [OF assms] assms(2) by (auto simp: pixels_def)

lemma dom_pixels: "ok d \<Longrightarrow> dom (pixels dv d) = rect (width dv d) (height dv d)"
  using led_total by (fastforce simp: pixels_def in_rect_iff split: sum.splits if_splits)

lemma pixels_None_iff:
  "ok d \<Longrightarrow> pixels dv d (x, y) = None \<longleftrightarrow> \<not> in_rect (width dv d) (height dv d) x y"
  using dom_pixels [of d] domIff [of "(x, y)" "pixels dv d"] by (simp add: in_rect_iff)

end

lemma overlay_cong:
  "(\<And>q. q \<in> dom img \<Longrightarrow> p q = p' q) \<Longrightarrow> overlay p img = overlay p' img"
proof
  fix q assume eq: "\<And>q. q \<in> dom img \<Longrightarrow> p q = p' q"
  show "overlay p img q = overlay p' img q"
    using eq [of q] by (cases "img q") (simp_all add: overlay_def domI)
qed

section \<open>Painting loops\<close>

text \<open>
  \<open>painted d0 p d\<close>: the device has come from \<open>d0\<close> to \<open>d\<close> by painting \<open>p\<close>.
\<close>

definition painted ::
  "('s, 'z) IPaintDevice_scheme \<Rightarrow> ('s \<Rightarrow> bool) \<Rightarrow> 's \<Rightarrow> image \<Rightarrow> 's \<Rightarrow> bool" where
  "painted dv ok d0 p d \<longleftrightarrow>
     ok d \<and> same_frame dv d0 d \<and> pixels dv d = overlay p (pixels dv d0)"

text \<open>The part of a stamp whose source pixels satisfy \<open>P\<close>.\<close>

definition stamp_part ::
  "(int \<Rightarrow> int \<Rightarrow> bool) \<Rightarrow> int \<Rightarrow> int \<Rightarrow> (int \<Rightarrow> int \<Rightarrow> LedColor) \<Rightarrow> int \<Rightarrow> int \<Rightarrow> bool \<Rightarrow> bool \<Rightarrow>
   (LedColor \<Rightarrow> bool) \<Rightarrow> image" where
  "stamp_part P sw sh f x y flip_x flip_y see_through = (\<lambda>(px, py).
     let sx = mirror flip_x sw (px - x); sy = mirror flip_y sh (py - y)
     in if in_rect sw sh sx sy \<and> P sx sy \<and> \<not> see_through (f sx sy)
        then Some (f sx sy) else None)"

lemma stamp_part_all: "stamp_part (\<lambda>_ _. True) = stamp"
  by (simp add: stamp_part_def stamp_def fun_eq_iff)

definition steady_source ::
  "('s \<Rightarrow> bool) \<Rightarrow> ('s, 'y) IPaintSource_scheme \<Rightarrow> int \<Rightarrow> int \<Rightarrow> (int \<Rightarrow> int \<Rightarrow> LedColor) \<Rightarrow> bool" where
  "steady_source ok src sw sh f \<longleftrightarrow> 0 \<le> sw \<and> 0 \<le> sh \<and>
     (\<forall>d. ok d \<longrightarrow> width src d = sw \<and> height src d = sh \<and>
        (\<forall>sx sy. in_rect sw sh sx sy \<longrightarrow> led src sx sy d = Inr (f sx sy)))"

context paint_device
begin

lemma painted_refl: "ok d \<Longrightarrow> painted dv ok d Map.empty d"
  by (simp add: painted_def)

lemma painted_write:
  assumes "painted dv ok d0 p d" and "in_rect (width dv d0) (height dv d0) x y"
  shows "\<exists>d'. led_ref dv x y c d = (Inr (), d') \<and> painted dv ok d0 (p((x, y) \<mapsto> c)) d'"
  using led_ref_writes [of d x y c] assms
  by (auto simp: painted_def same_frame_def)

lemma painted_cong:
  assumes "painted dv ok d0 p d" and "ok d0"
    and "\<And>x y. in_rect (width dv d0) (height dv d0) x y \<Longrightarrow> p (x, y) = p' (x, y)"
  shows "painted dv ok d0 p' d"
  using assms overlay_cong [of "pixels dv d0" p p']
  by (auto simp: painted_def dom_pixels in_rect_iff)

lemma painted_dims:
  "painted dv ok d0 p d \<Longrightarrow> width dv d = width dv d0 \<and> height dv d = height dv d0 \<and>
     back_of dv d = back_of dv d0 \<and> transparent_of dv d = transparent_of dv d0 \<and> ok d"
  by (simp add: painted_def same_frame_def)

lemma clear_row:
  assumes d0: "ok d0" and d: "painted dv ok d0 (\<lambda>(px, py). if py < y then Some b else None) d"
    and y: "0 \<le> y" "y < height dv d0" and b: "b = back_of dv d0"
  shows "\<exists>d'. for_upto (width dv) (\<lambda>x d. led_ref dv x y (back_of dv d) d) d = (Inr (), d') \<and>
    painted dv ok d0 (\<lambda>(px, py). if py < y + 1 then Some b else None) d'"
proof -
  let ?p = "\<lambda>x (px, py). if py < y \<or> py = y \<and> px < x then Some b else None"
  have "\<exists>d'. for_upto (width dv) (\<lambda>x d. led_ref dv x y (back_of dv d) d) d = (Inr (), d') \<and>
    painted dv ok d0 (?p (width dv d0)) d'"
  proof (rule for_upto_inv [where I = "\<lambda>x. painted dv ok d0 (?p x)"])
    show "width dv d = width dv d0" "0 \<le> width dv d0"
      using painted_dims [OF d] frame_dims [OF d0] by auto
    show "painted dv ok d0 (?p 0) d"
      by (rule painted_cong [OF d d0]) (auto simp: in_rect_def)
  next
    fix x t assume x: "0 \<le> x" "x < width dv d0" and t: "painted dv ok d0 (?p x) t"
    have "in_rect (width dv d0) (height dv d0) x y" using x y by (simp add: in_rect_def)
    from painted_write [OF t this, of "back_of dv t"] obtain t' where
      "led_ref dv x y (back_of dv t) t = (Inr (), t')"
      "painted dv ok d0 ((?p x)((x, y) \<mapsto> b)) t'"
      using painted_dims [OF t] b by auto
    then show "\<exists>t'. led_ref dv x y (back_of dv t) t = (Inr (), t') \<and> painted dv ok d0 (?p (x + 1)) t'"
      by (auto elim!: painted_cong [OF _ d0])
  qed
  then show ?thesis by (auto elim!: painted_cong [OF _ d0] simp: in_rect_def)
qed

lemma clear_correct:
  assumes "ok d"
  shows "\<exists>d'. clear dv d = (Inr (), d') \<and> ok d' \<and> same_frame dv d d' \<and>
           pixels dv d' = cleared (back_of dv d) (pixels dv d)"
proof -
  let ?b = "back_of dv d"
  let ?p = "\<lambda>y (px, py). if py < y then Some ?b else None"
  have "\<exists>d'. clear dv d = (Inr (), d') \<and> painted dv ok d (?p (height dv d)) d'"
    unfolding clear_def
  proof (rule for_upto_inv [where I = "\<lambda>y. painted dv ok d (?p y)"])
    show "painted dv ok d (?p 0) d"
      by (rule painted_cong [OF painted_refl [OF assms] assms]) (auto simp: in_rect_def)
  qed (use frame_dims [OF assms] clear_row [OF assms] in auto)
  moreover have "overlay (?p (height dv d)) (pixels dv d) = cleared ?b (pixels dv d)"
    by (auto simp: overlay_def cleared_def fun_eq_iff pixels_def in_rect_def split: option.split)
  ultimately show ?thesis by (auto simp: painted_def)
qed

text \<open>
  \<open>draw\<close>: row \<open>sy\<close> of the source lands on row \<open>y + dy\<close>. The loops paint the
  stamp part by part, in the order of the source's pixels.
\<close>

lemma draw_pixel:
  assumes d0: "ok d0" and src: "steady_source ok src sw sh f"
    and t: "painted dv ok d0 (stamp_part P sw sh f x y flip_x flip_y st) t"
    and st: "st = (\<lambda>c. transparent_of dv d0 \<and> c = back_of dv d0)"
    and xy: "0 \<le> x" "0 \<le> y" "x + sw \<le> int_max" "y + sh \<le> int_max"
    and s: "in_rect sw sh sx sy"
    and py: "y + mirror flip_y sh sy < height dv d0"
    and P': "\<And>sx' sy'. P' sx' sy' \<longleftrightarrow> P sx' sy' \<or> sx' = sx \<and> sy' = sy"
  shows "\<exists>t'. (and_then (eval_expr (\<lambda>d. if flip_x then c_mirror (width src d) sx else Inr sx)) (\<lambda>dx.
           and_then (eval_expr (\<lambda>_. c_add x dx)) (\<lambda>px d.
           if width dv d \<le> px then skip d
           else
             and_then (eval_expr (led src sx sy)) (\<lambda>src_led d.
             if transparent_of dv d \<and> src_led = back_of dv d then skip d
             else led_ref dv px (y + mirror flip_y sh sy) src_led d) d))) t = (Inr (), t') \<and>
         painted dv ok d0 (stamp_part P' sw sh f x y flip_x flip_y st) t'"
proof -
  let ?dx = "mirror flip_x sw sx" and ?dy = "mirror flip_y sh sy"
  let ?px = "x + ?dx" and ?py = "y + ?dy"
  note dims = painted_dims [OF t]
  have sw: "width src t = sw" "led src sx sy t = Inr (f sx sy)"
    using src s dims by (auto simp: steady_source_def)
  have dx: "(if flip_x then c_mirror (width src t) sx else Inr sx) = Inr ?dx"
    using s sw xy by (auto simp: in_rect_def c_mirror_in_range mirror_def)
  have dx_range: "0 \<le> ?dx" "?dx < sw" "0 \<le> ?dy"
    using s mirror_range [of flip_x sw sx] mirror_range [of flip_y sh sy] by (auto simp: in_rect_def)
  have px: "c_add x ?dx = Inr ?px"
    using xy dx_range by (simp add: c_ops is_int32_def int_min_def)
  have eq: "stamp_part P' sw sh f x y flip_x flip_y st =
      (if st (f sx sy) then stamp_part P sw sh f x y flip_x flip_y st
       else (stamp_part P sw sh f x y flip_x flip_y st)((?px, ?py) \<mapsto> f sx sy))"
    using s by (auto simp: stamp_part_def fun_eq_iff P' Let_def)
  consider "width dv d0 \<le> ?px" | "?px < width dv d0" "st (f sx sy)"
    | "?px < width dv d0" "\<not> st (f sx sy)" by linarith
  then show ?thesis
  proof cases
    case 1
    have "painted dv ok d0 (stamp_part P' sw sh f x y flip_x flip_y st) t"
      using 1 by (auto intro!: painted_cong [OF t d0] simp: eq in_rect_def)
    with 1 show ?thesis by (simp add: outcome dx px dims)
  next
    case 2
    then have "painted dv ok d0 (stamp_part P' sw sh f x y flip_x flip_y st) t"
      using t eq by simp
    with 2 show ?thesis by (simp add: outcome dx px dims sw st)
  next
    case 3
    have "in_rect (width dv d0) (height dv d0) ?px ?py"
      using 3 py xy dx_range by (simp add: in_rect_def)
    from painted_write [OF t this, of "f sx sy"] obtain t' where
      "led_ref dv ?px ?py (f sx sy) t = (Inr (), t')"
      "painted dv ok d0 (stamp_part P' sw sh f x y flip_x flip_y st) t'"
      using eq 3 by auto
    with 3 show ?thesis by (auto simp: outcome dx px dims sw st)
  qed
qed

lemma draw_row:
  assumes d0: "ok d0" and src: "steady_source ok src sw sh f"
    and d: "painted dv ok d0 (stamp_part (\<lambda>_ b. b < sy) sw sh f x y flip_x flip_y st) d"
    and st: "st = (\<lambda>c. transparent_of dv d0 \<and> c = back_of dv d0)"
    and xy: "0 \<le> x" "0 \<le> y" "x + sw \<le> int_max" "y + sh \<le> int_max"
    and sy: "0 \<le> sy" "sy < sh"
    and py: "py = y + mirror flip_y sh sy" "py < height dv d0"
  shows "\<exists>d'. for_upto (width src) (\<lambda>sx.
           and_then (eval_expr (\<lambda>d. if flip_x then c_mirror (width src d) sx else Inr sx)) (\<lambda>dx.
           and_then (eval_expr (\<lambda>_. c_add x dx)) (\<lambda>px d.
           if width dv d \<le> px then skip d
           else
             and_then (eval_expr (led src sx sy)) (\<lambda>src_led d.
             if transparent_of dv d \<and> src_led = back_of dv d then skip d
             else led_ref dv px py src_led d) d))) d = (Inr (), d') \<and>
         painted dv ok d0 (stamp_part (\<lambda>_ b. b < sy + 1) sw sh f x y flip_x flip_y st) d'"
  (is "\<exists>d'. for_upto _ ?body d = _ \<and> _")
proof -
  let ?p = "\<lambda>sx. stamp_part (\<lambda>a b. b < sy \<or> b = sy \<and> a < sx) sw sh f x y flip_x flip_y st"
  have "\<exists>d'. for_upto (width src) ?body d = (Inr (), d') \<and> painted dv ok d0 (?p sw) d'"
  proof (rule for_upto_inv [where I = "\<lambda>sx. painted dv ok d0 (?p sx)"])
    show "width src d = sw" "0 \<le> sw"
      using src painted_dims [OF d] by (auto simp: steady_source_def)
    show "painted dv ok d0 (?p 0) d"
      by (rule painted_cong [OF d d0]) (auto simp: stamp_part_def in_rect_def Let_def)
  next
    fix sx t assume "0 \<le> sx" "sx < sw" and t: "painted dv ok d0 (?p sx) t"
    then have "in_rect sw sh sx sy" using sy by (simp add: in_rect_def)
    from draw_pixel [OF d0 src t st xy this,
        where P' = "\<lambda>a b. (b < sy \<or> b = sy \<and> a < sx) \<or> a = sx \<and> b = sy"] py
    obtain t' where t': "?body sx t = (Inr (), t')"
      "painted dv ok d0 (stamp_part (\<lambda>a b. (b < sy \<or> b = sy \<and> a < sx) \<or> a = sx \<and> b = sy)
         sw sh f x y flip_x flip_y st) t'"
      by auto
    have "painted dv ok d0 (?p (sx + 1)) t'"
      by (rule painted_cong [OF t'(2) d0]) (auto simp: stamp_part_def Let_def)
    with t' show "\<exists>t'. ?body sx t = (Inr (), t') \<and> painted dv ok d0 (?p (sx + 1)) t'" by blast
  qed
  then obtain d' where d': "for_upto (width src) ?body d = (Inr (), d')" "painted dv ok d0 (?p sw) d'"
    by blast
  have "painted dv ok d0 (stamp_part (\<lambda>_ b. b < sy + 1) sw sh f x y flip_x flip_y st) d'"
    by (rule painted_cong [OF d'(2) d0]) (auto simp: stamp_part_def in_rect_def Let_def)
  with d' show ?thesis by blast
qed

lemma draw_correct:
  assumes d0: "ok d" and src: "steady_source ok src sw sh f"
    and xy: "0 \<le> x" "0 \<le> y" "x + sw \<le> int_max" "y + sh \<le> int_max"
  shows "\<exists>d'. draw dv src x y flip_x flip_y d = (Inr (), d') \<and> ok d' \<and> same_frame dv d d' \<and>
           pixels dv d' =
             overlay (stamp sw sh f x y flip_x flip_y
               (\<lambda>c. transparent_of dv d \<and> c = back_of dv d)) (pixels dv d)"
proof -
  let ?st = "\<lambda>c. transparent_of dv d \<and> c = back_of dv d"
  let ?p = "\<lambda>sy. stamp_part (\<lambda>_ b. b < sy) sw sh f x y flip_x flip_y ?st"
  have "\<exists>d'. draw dv src x y flip_x flip_y d = (Inr (), d') \<and> painted dv ok d (?p sh) d'"
    unfolding draw_def
  proof (rule for_upto_inv [where I = "\<lambda>sy. painted dv ok d (?p sy)"], goal_cases)
    case 1 show ?case using src d0 by (simp add: steady_source_def)
  next
    case 2 show ?case using src by (simp add: steady_source_def)
  next
    case 3 show ?case
      by (rule painted_cong [OF painted_refl [OF d0] d0]) (auto simp: stamp_part_def in_rect_def Let_def)
  next
    case (4 sy t)
    let ?dy = "mirror flip_y sh sy"
    note dims = painted_dims [OF 4(3)]
    have "height src t = sh" using src dims by (simp add: steady_source_def)
    then have dy: "(if flip_y then c_mirror (height src t) sy else Inr sy) = Inr ?dy"
      using 4 xy by (auto simp: c_mirror_in_range mirror_def)
    have "0 \<le> ?dy" "?dy < sh" using 4 mirror_range [of flip_y sh sy] by auto
    then have py: "c_add y ?dy = Inr (y + ?dy)"
      using xy by (simp add: c_ops is_int32_def int_min_def)
    show ?case
    proof (cases "height dv d \<le> y + ?dy")
      case True
      have "painted dv ok d (?p (sy + 1)) t"
        by (rule painted_cong [OF 4(3) d0]) 
          (use True in \<open>auto simp: stamp_part_def in_rect_def Let_def mirror_def split: if_splits\<close>)
      with True show ?thesis by (simp add: outcome dy py dims)
    next
      case False
      with draw_row [OF d0 src 4(3) refl xy 4(1,2) refl] show ?thesis
        by (simp add: outcome dy py dims)
    qed
  qed
  moreover have "overlay (?p sh) (pixels dv d) =
    overlay (stamp sw sh f x y flip_x flip_y ?st) (pixels dv d)"
    by (rule overlay_cong) (auto simp: stamp_part_def stamp_def in_rect_def Let_def)
  ultimately show ?thesis by (auto simp: painted_def)
qed

text \<open>
  \<open>flip\<close>: the loops visit each point \<open>r\<close> of the left half once and exchange it
  with its mirror image. After the points of \<open>D\<close>, a pixel has moved where
  exactly one of it and its mirror image was visited.
\<close>

lemma swap_pixels:
  assumes d: "ok d" and p: "in_rect (width dv d) (height dv d) x y"
    and q: "in_rect (width dv d) (height dv d) dx dy"
  shows "\<exists>d'. (and_then (eval_expr (led dv x y)) (\<lambda>tmp.
           and_then (eval_expr (led dv dx dy)) (\<lambda>c.
           and_then (led_ref dv x y c) (\<lambda>_.
             led_ref dv dx dy tmp)))) d = (Inr (), d') \<and> ok d' \<and> same_frame dv d d' \<and>
         pixels dv d' = (\<lambda>r. if r = (x, y) then pixels dv d (dx, dy)
                             else if r = (dx, dy) then pixels dv d (x, y) else pixels dv d r)"
proof -
  from led_pixels [OF d p] obtain a where a: "led dv x y d = Inr a" "pixels dv d (x, y) = Some a"
    by blast
  from led_pixels [OF d q] obtain b where b: "led dv dx dy d = Inr b" "pixels dv d (dx, dy) = Some b"
    by blast
  from led_ref_writes [OF d p, of b] obtain t where
    t: "led_ref dv x y b d = (Inr (), t)" "ok t" "same_frame dv d t"
       "pixels dv t = overlay [(x, y) \<mapsto> b] (pixels dv d)" by blast
  then have "in_rect (width dv t) (height dv t) dx dy"
    using q by (simp add: same_frame_def)
  from led_ref_writes [OF t(2) this, of a] obtain d' where
    d': "led_ref dv dx dy a t = (Inr (), d')" "ok d'" "same_frame dv t d'"
        "pixels dv d' = overlay [(dx, dy) \<mapsto> a] (pixels dv t)" by blast
  have "pixels dv d' = (\<lambda>r. if r = (x, y) then pixels dv d (dx, dy)
          else if r = (dx, dy) then pixels dv d (x, y) else pixels dv d r)"
    using a b d'(4) t(4) by (auto simp: overlay_def fun_eq_iff split: option.split)
  with a b t d' show ?thesis by (auto simp: outcome intro: same_frame_trans)
qed

lemma flip_step:
  fixes m :: "int \<times> int \<Rightarrow> int \<times> int"
  assumes img: "img = (\<lambda>r. if (r \<in> D) \<noteq> (m r \<in> D) then img0 (m r) else img0 r)"
    and m: "\<And>r. m (m r) = r" and p: "p \<notin> D"
  shows "(\<lambda>r. if r = p then img (m p) else if r = m p then img p else img r) =
         (\<lambda>r. if (r \<in> insert p D) \<noteq> (m r \<in> insert p D) then img0 (m r) else img0 r)"
proof
  fix r
  have eq: "m r = p \<longleftrightarrow> r = m p" using m by metis
  show "(if r = p then img (m p) else if r = m p then img p else img r) =
    (if (r \<in> insert p D) \<noteq> (m r \<in> insert p D) then img0 (m r) else img0 r)"
    using p by (cases "m p = p"; cases "m p \<in> D") (auto simp: img m eq)
qed

lemma flip_correct:
  assumes d0: "ok d"
  shows "\<exists>d'. flip dv flip_x flip_y d = (Inr (), d') \<and> ok d' \<and> same_frame dv d d' \<and>
           pixels dv d' = (\<lambda>(px, py).
             if flip_x \<and> \<not> (odd (width dv d) \<and> px = width dv d div 2)
             then pixels dv d (width dv d - px - 1, mirror flip_y (height dv d) py)
             else pixels dv d (px, py))"
proof -
  let ?w = "width dv d" and ?h = "height dv d"
  let ?half = "?w div 2"
  define m where "m = (\<lambda>(px, py). (mirror flip_x ?w px, mirror flip_y ?h py))"
  define moved where "moved = (\<lambda>D r. if (r \<in> D) \<noteq> (m r \<in> D) then pixels dv d (m r) else pixels dv d r)"
  define rows where "rows = (\<lambda>y. {(px, py). 0 \<le> px \<and> px < ?half \<and> 0 \<le> py \<and> py < (y::int)})"
  let ?I = "\<lambda>D t. ok t \<and> same_frame dv d t \<and> pixels dv t = moved D"
  have mm: "m (m r) = r" for r by (simp add: m_def split: prod.split)
  have dims: "0 \<le> ?w" "?w \<le> int_max" "0 \<le> ?h" "?h \<le> int_max" using frame_dims [OF d0] by auto
  have "\<exists>d'. flip dv flip_x flip_y d = (Inr (), d') \<and> ?I (rows ?h) d'"
    unfolding flip_def
  proof (rule for_upto_inv [where I = "\<lambda>y. ?I (rows y)"], goal_cases)
    case 3 
    have "rows 0 = {}" by (auto simp: rows_def)
    then show ?case using d0 by (simp add: moved_def)
  next
    case (4 y t)
    let ?D = "\<lambda>x. rows y \<union> {(px, py). 0 \<le> px \<and> px < x \<and> py = y}"
    let ?body = "\<lambda>x. and_then (eval_expr (\<lambda>d. if flip_x then c_mirror (width dv d) x else Inr x)) (\<lambda>dx.
         and_then (eval_expr (\<lambda>d. if flip_y then c_mirror (height dv d) y else Inr y)) (\<lambda>dy.
         and_then (eval_expr (led dv x y)) (\<lambda>tmp.
         and_then (eval_expr (led dv dx dy)) (\<lambda>c.
         and_then (led_ref dv x y c) (\<lambda>_.
           led_ref dv dx dy tmp)))))"
    have "\<exists>t'. for_upto (\<lambda>d. width dv d sdiv 2) ?body t = (Inr (), t') \<and> ?I (?D ?half) t'"
    proof (rule for_upto_inv [where I = "\<lambda>x. ?I (?D x)"], goal_cases)
      case 1 show ?case using 4 dims by (simp add: same_frame_def sdiv_nonneg)
    next
      case 3
      have "?D 0 = rows y" by auto
      with 4 show ?case by simp
    next
      case (4 x s)
      then have s: "ok s" "width dv s = ?w" "height dv s = ?h" and x: "x < ?w"
        by (auto simp: same_frame_def)
      have p: "in_rect ?w ?h x y" using \<open>0 \<le> y\<close> \<open>y < ?h\<close> x 4 by (simp add: in_rect_def)
      have q: "in_rect ?w ?h (mirror flip_x ?w x) (mirror flip_y ?h y)"
        using p by (simp add: in_rect_def mirror_range)
      have e: "(if flip_x then c_mirror ?w x else Inr x) = Inr (mirror flip_x ?w x)"
        "(if flip_y then c_mirror ?h y else Inr y) = Inr (mirror flip_y ?h y)"
        using p dims by (auto simp: in_rect_def c_mirror_in_range mirror_def)
      let ?swap = "\<lambda>dx dy. and_then (eval_expr (led dv x y)) (\<lambda>tmp.
         and_then (eval_expr (led dv dx dy)) (\<lambda>c.
         and_then (led_ref dv x y c) (\<lambda>_. led_ref dv dx dy tmp)))"
      have "?body x s = ?swap (mirror flip_x ?w x) (mirror flip_y ?h y) s"
        using e by (cases flip_x; cases flip_y) (simp_all add: and_then_eval_expr s)
      with swap_pixels [of s x y "mirror flip_x ?w x" "mirror flip_y ?h y"] s p q
      obtain s' where s': "?body x s = (Inr (), s')" "ok s'" "same_frame dv s s'"
        "pixels dv s' = (\<lambda>r. if r = (x, y) then pixels dv s (mirror flip_x ?w x, mirror flip_y ?h y)
            else if r = (mirror flip_x ?w x, mirror flip_y ?h y) then pixels dv s (x, y)
            else pixels dv s r)"
        by auto
      have mxy: "(mirror flip_x ?w x, mirror flip_y ?h y) = m (x, y)" by (simp add: m_def)
      have "pixels dv s' = moved (insert (x, y) (?D x))"
        unfolding s'(4) moved_def mxy
        by (rule flip_step) (use 4 mm in \<open>auto simp: moved_def rows_def\<close>)
      moreover have "insert (x, y) (?D x) = ?D (x + 1)" using 4 by auto
      ultimately have "pixels dv s' = moved (?D (x + 1))" by (simp only:)
      with s' 4 show ?case by (metis (no_types, lifting) same_frame_trans)
    qed (use dims in auto)
    moreover have "?D ?half = rows (y + 1)" using 4 by (auto simp: rows_def)
    ultimately show ?case by simp
  qed (use dims in auto)
  moreover have "moved (rows ?h) (px, py) =
      (if flip_x \<and> \<not> (odd ?w \<and> px = ?half)
       then pixels dv d (?w - px - 1, mirror flip_y ?h py) else pixels dv d (px, py))" for px py
  proof (cases "in_rect ?w ?h px py")
    case True
    then have "(px < ?half) \<noteq> (?w - px - 1 < ?half) \<longleftrightarrow> \<not> (odd ?w \<and> px = ?half)"
      unfolding in_rect_def by presburger
    then show ?thesis
      using True mirror_range [of flip_y ?h py]
      by (auto simp: moved_def m_def rows_def in_rect_def mirror_def)
  next
    case False
    then have "\<not> in_rect ?w ?h (mirror flip_x ?w px) (mirror flip_y ?h py)"
      using mirror_range [of flip_x ?w px] mirror_range [of flip_y ?h py] by (auto simp: in_rect_def)
    with False have n: "pixels dv d (px, py) = None"
      "pixels dv d (mirror flip_x ?w px, mirror flip_y ?h py) = None"
      by (simp_all add: pixels_None_iff [OF d0])
    have "moved (rows ?h) (px, py) = None" by (simp add: moved_def m_def n)
    moreover have "pixels dv d (?w - px - 1, mirror flip_y ?h py) = None" if flip_x
      using n(2) that by (simp add: mirror_def)
    ultimately show ?thesis using n(1) by presburger
  qed
  ultimately show ?thesis by (auto simp: fun_eq_iff)
qed

end

section \<open>Sources without columns\<close>

text \<open>Five rows without a pixel: nothing is written, and only computing a row can fail.\<close>

lemma for_each_five:
  assumes "\<And>i. 0 \<le> i \<Longrightarrow> i < 5 \<Longrightarrow> body i d = (if y + i \<le> m then Inr () else Inl e, d)"
  shows "for_each body [0..5 - 1] d = (if y + 4 \<le> (m :: int) then Inr () else Inl e, d)"
proof -
  have "[0..5 - 1] = [0, 1, 2, 3, 4 :: int]" by (simp add: upto_rec1)
  then show ?thesis
    using assms [of 0] assms [of 1] assms [of 2] assms [of 3] assms [of 4] by simp
qed

lemma draw_five_empty_rows:
  assumes w: "\<And>s. width src s = 0" and h: "\<And>s. height src s = 5" and y: "is_int32 y"
  shows "draw_at dv src x y d = (if y + 4 \<le> int_max then Inr () else Inl (UB Signed_Overflow), d)"
  unfolding draw_at_def draw_def for_upto_def [of "height src"] h
  by (rule for_each_five)
    (use y in \<open>simp add: outcome w skip_def c_add_def c_int_def is_int32_def\<close>)

end
