(* ===== verification/Rotatable.thy ===== *)
theory Rotatable
  imports Paint_Device
begin

text \<open>
  \<open>IRotatablePaintDevice\<close> and the devices on it that own their pixels:
  \<open>Pixmap\<close> (a vector, row by row) and \<open>WS2811Strip\<close> (the LED array of the
  \<open>rpi_ws281x\<close> library, in snake order). A class is a record that extends its
  base class's record; a member \<open>foo_\<close> is the field \<open>foo_m\<close>
  (and \<open>back\<close>, an Isabelle keyword, \<open>back_m\<close>).
\<close>

section \<open>IRotatablePaintDevice\<close>

record paint_device_data =
  transparent_m :: bool
  back_m :: LedColor

record rotatable = paint_device_data +
  rotate_helper_m :: strip_rotate_helper
  width_m :: int
  height_m :: int
  logic_width_m :: int
  logic_height_m :: int

definition set_transparent :: "bool \<Rightarrow> 'a paint_device_data_scheme \<Rightarrow> 'a paint_device_data_scheme" where
  "set_transparent t d = d\<lparr>transparent_m := t\<rparr>"

definition set_background :: "LedColor \<Rightarrow> 'a paint_device_data_scheme \<Rightarrow> 'a paint_device_data_scheme" where
  "set_background c d = d\<lparr>back_m := c\<rparr>"

definition IRotatablePaintDevice :: "int \<Rightarrow> int \<Rightarrow> LedColor \<Rightarrow> rotatable" where
  "IRotatablePaintDevice w h b =
     \<lparr>transparent_m = False, back_m = b,
      rotate_helper_m = StripRotateHelper Deg0 False False,
      width_m = w, height_m = h, logic_width_m = w, logic_height_m = h\<rparr>"

definition set_rotate :: "int \<Rightarrow> bool \<Rightarrow> bool \<Rightarrow> ('a rotatable_scheme, unit) stm" where
  "set_rotate degree flip_x flip_y d =
     (if degree = 0 then
        (let helper =
           (if flip_x then
              (if flip_y then StripRotateHelper Deg0 True True
               else StripRotateHelper Deg0 True False)
            else
              (if flip_y then StripRotateHelper Deg0 False True
               else StripRotateHelper Deg0 False False))
         in modify (\<lambda>d. d\<lparr>rotate_helper_m := helper,
              logic_width_m := width_m d, logic_height_m := height_m d\<rparr>) d)
      else if degree = 90 then
        (let helper =
           (if flip_x then
              (if flip_y then StripRotateHelper Deg90 True True
               else StripRotateHelper Deg90 True False)
            else
              (if flip_y then StripRotateHelper Deg90 False True
               else StripRotateHelper Deg90 False False))
         in modify (\<lambda>d. d\<lparr>rotate_helper_m := helper,
              logic_width_m := height_m d, logic_height_m := width_m d\<rparr>) d)
      else if degree = 180 then
        (let helper =
           (if flip_x then
              (if flip_y then StripRotateHelper Deg180 True True
               else StripRotateHelper Deg180 True False)
            else
              (if flip_y then StripRotateHelper Deg180 False True
               else StripRotateHelper Deg180 False False))
         in modify (\<lambda>d. d\<lparr>rotate_helper_m := helper,
              logic_width_m := width_m d, logic_height_m := height_m d\<rparr>) d)
      else if degree = 270 then
        (let helper =
           (if flip_x then
              (if flip_y then StripRotateHelper Deg270 True True
               else StripRotateHelper Deg270 True False)
            else
              (if flip_y then StripRotateHelper Deg270 False True
               else StripRotateHelper Deg270 False False))
         in modify (\<lambda>d. d\<lparr>rotate_helper_m := helper,
              logic_width_m := height_m d, logic_height_m := width_m d\<rparr>) d)
      else throw (Invalid_Argument ''IRotatablePaintDevice::set_rotate'') d)"

definition rotatable_index :: "index_fn \<Rightarrow> 'a rotatable_scheme \<Rightarrow> int \<Rightarrow> int \<Rightarrow> int result" where
  "rotatable_index layout d x y =
     StripRotateHelper_index layout (rotate_helper_m d) (width_m d) (height_m d) x y"

text \<open>
  The representation invariant: sizes that fit, and logical sizes that are the
  rotated physical ones.
\<close>

definition rotatable_ok :: "'a rotatable_scheme \<Rightarrow> bool" where
  "rotatable_ok d \<longleftrightarrow> dims_ok (width_m d) (height_m d) \<and>
     logic_width_m d = rotated_width (rotate_helper_m d) (width_m d) (height_m d) \<and>
     logic_height_m d = rotated_height (rotate_helper_m d) (width_m d) (height_m d)"

definition supported_degree :: "int \<Rightarrow> degree option" where
  "supported_degree a =
     (if a = 0 then Some Deg0 else if a = 90 then Some Deg90
      else if a = 180 then Some Deg180 else if a = 270 then Some Deg270 else None)"

lemma set_rotate_cases:
  "set_rotate a fx fy d =
     (case supported_degree a of
        None \<Rightarrow> (Inl (Throw (Invalid_Argument ''IRotatablePaintDevice::set_rotate'')), d)
      | Some g \<Rightarrow> (Inr (), d\<lparr>rotate_helper_m := StripRotateHelper g fx fy,
           logic_width_m := rotated_width (StripRotateHelper g fx fy) (width_m d) (height_m d),
           logic_height_m := rotated_height (StripRotateHelper g fx fy) (width_m d) (height_m d)\<rparr>))"
  by (simp add: set_rotate_def supported_degree_def rotated_width_def rotated_height_def outcome)

lemma rotatable_ok_new: "dims_ok w h \<Longrightarrow> rotatable_ok (IRotatablePaintDevice w h b)"
  by (simp add: rotatable_ok_def IRotatablePaintDevice_def rotated_width_def rotated_height_def)

lemma rotatable_ok_setters [simp]:
  "rotatable_ok (set_transparent t d) = rotatable_ok d"
  "rotatable_ok (set_background c d) = rotatable_ok d"
  by (simp_all add: rotatable_ok_def set_transparent_def set_background_def)

lemma set_rotate_ok: "rotatable_ok d \<Longrightarrow> rotatable_ok (snd (set_rotate a fx fy d))"
  by (simp add: set_rotate_cases rotatable_ok_def split: option.split)

lemma rotatable_dims:
  "rotatable_ok d \<Longrightarrow> 0 \<le> logic_width_m d \<and> logic_width_m d \<le> int_max \<and>
     0 \<le> logic_height_m d \<and> logic_height_m d \<le> int_max"
  by (simp add: rotatable_ok_def dims_ok_def rotated_width_def rotated_height_def)

section \<open>Pixel storage\<close>

text \<open>
  \<open>std::vector\<close>'s \<open>operator[]\<close> and an array indexed through a pointer: an
  index outside the storage is undefined behaviour.
\<close>

definition vec_at :: "'a list \<Rightarrow> int \<Rightarrow> 'a result" where
  "vec_at v i = (if 0 \<le> i \<and> i < int (length v) then Inr (v ! nat i) else Inl (UB Out_Of_Bounds))"

definition vec_store :: "'a list \<Rightarrow> int \<Rightarrow> 'a \<Rightarrow> 'a list result" where
  "vec_store v i c =
     (if 0 \<le> i \<and> i < int (length v) then Inr (v[nat i := c]) else Inl (UB Out_Of_Bounds))"

section \<open>Pixmap\<close>

record pixmap = rotatable + leds_m :: "LedColor list"

text \<open>
  \<open>leds_(w * h)\<close>: a vector of zeros. A negative product converts to a size no
  vector can have. The background color is not painted.
\<close>

definition Pixmap :: "int \<Rightarrow> int \<Rightarrow> LedColor \<Rightarrow> pixmap result" where
  "Pixmap w h b =
     rbind (c_mul w h) (\<lambda>n.
     if n < 0 then Inl (Throw (Length_Error ''vector''))
     else Inr (rotatable.extend (IRotatablePaintDevice w h b) \<lparr>leds_m = replicate (nat n) 0\<rparr>))"

definition Pixmap_led :: "int \<Rightarrow> int \<Rightarrow> pixmap \<Rightarrow> LedColor result" where
  "Pixmap_led x y d =
     rbind (rotatable_index IVectorStripIndex_index d x y) (\<lambda>i. vec_at (leds_m d) i)"

definition Pixmap_led_ref :: "int \<Rightarrow> int \<Rightarrow> LedColor \<Rightarrow> (pixmap, unit) stm" where
  "Pixmap_led_ref x y c =
     and_then (eval_expr (\<lambda>d. rbind (rotatable_index IVectorStripIndex_index d x y) (\<lambda>i.
                                vec_store (leds_m d) i c))) (\<lambda>v.
       modify (\<lambda>d. d\<lparr>leds_m := v\<rparr>))"

definition Pixmap_device :: "pixmap IPaintDevice" where
  "Pixmap_device = \<lparr>width = logic_width_m, height = logic_height_m, led = Pixmap_led,
     led_ref = Pixmap_led_ref, back_of = back_m, transparent_of = transparent_m\<rparr>"

definition pixmap_ok :: "pixmap \<Rightarrow> bool" where
  "pixmap_ok d \<longleftrightarrow> rotatable_ok d \<and> length (leds_m d) = nat (width_m d * height_m d)"

section \<open>Devices on an array of LEDs\<close>

text \<open>
  What \<open>Pixmap\<close>, \<open>WS2811Strip\<close> and a \<open>Window\<close> without children share: \<open>led\<close> and
  \<open>led_ref\<close> go through the rotated index of the layout into an array that is
  exactly as large as the physical rectangle. \<open>geo\<close> gives the geometry members,
  \<open>arr\<close> the array, \<open>put\<close> replaces it.
\<close>

locale array_device = strip_index layout
  for layout :: index_fn +
  fixes dv :: "('s, 'z) IPaintDevice_scheme"
    and ok :: "'s \<Rightarrow> bool"
    and geo :: "'s \<Rightarrow> rotatable"
    and arr :: "'s \<Rightarrow> LedColor list"
    and put :: "LedColor list \<Rightarrow> 's \<Rightarrow> 's"
  assumes sizes: "width dv d = logic_width_m (geo d)" "height dv d = logic_height_m (geo d)"
    and led_reads: "ok d \<Longrightarrow>
          led dv x y d = rbind (rotatable_index layout (geo d) x y) (vec_at (arr d))"
    and led_ref_stores: "ok d \<Longrightarrow>
          led_ref dv x y c d =
            (case rbind (rotatable_index layout (geo d) x y) (\<lambda>i. vec_store (arr d) i c) of
               Inl e \<Rightarrow> (Inl e, d) | Inr v \<Rightarrow> (Inr (), put v d))"
    and ok_array: "ok d \<Longrightarrow> rotatable_ok (geo d) \<and>
          length (arr d) = nat (width_m (geo d) * height_m (geo d))"
    and put_array: "ok d \<Longrightarrow> length v = length (arr d) \<Longrightarrow>
          ok (put v d) \<and> arr (put v d) = v \<and> geo (put v d) = geo d \<and> same_frame dv d (put v d)"
begin

text \<open>The number of the LED that shows a pixel.\<close>

definition cell :: "'s \<Rightarrow> int \<times> int \<Rightarrow> nat" where
  "cell d = led_number (StripRotateHelper_index layout (rotate_helper_m (geo d)))
              (width_m (geo d)) (height_m (geo d))"

lemma cell_facts:
  assumes "ok d" and "in_rect (width dv d) (height dv d) x y"
  shows "rotatable_index layout (geo d) x y = Inr (int (cell d (x, y)))"
    and "cell d (x, y) < length (arr d)"
    and "in_rect (width dv d) (height dv d) x' y' \<Longrightarrow> cell d (x, y) = cell d (x', y') \<longleftrightarrow> x = x' \<and> y = y'"
  using assms ok_array [of d] rotated.led_number_index [of "width_m (geo d)" "height_m (geo d)"]
    rotated.led_number_less [of "width_m (geo d)" "height_m (geo d)"]
    rotated.led_number_eq_iff [of "width_m (geo d)" "height_m (geo d)"]
  by (auto simp: sizes rotatable_ok_def rotatable_index_def cell_def)

lemma pixels_array:
  assumes "ok d"
  shows "pixels dv d = (\<lambda>(x, y). if in_rect (width dv d) (height dv d) x y
                                  then Some (arr d ! cell d (x, y)) else None)"
  using cell_facts [OF assms] by (auto simp: pixels_def fun_eq_iff led_reads [OF assms] vec_at_def)

sublocale paint_device dv ok
proof unfold_locales
  fix d assume ok: "ok d"
  then show "0 \<le> width dv d \<and> width dv d \<le> int_max \<and> 0 \<le> height dv d \<and> height dv d \<le> int_max"
    using ok_array [of d] rotatable_dims [of "geo d"] by (simp add: sizes)
  fix x y c assume xy: "in_rect (width dv d) (height dv d) x y"
  show "\<exists>c. led dv x y d = Inr c"
    using cell_facts(1,2) [OF ok xy] by (simp add: led_reads [OF ok] vec_at_def)
  let ?v = "(arr d)[cell d (x, y) := c]"
  have put: "ok (put ?v d)" "arr (put ?v d) = ?v" "geo (put ?v d) = geo d" "same_frame dv d (put ?v d)"
    using put_array [OF ok, of ?v] by simp_all
  have "pixels dv (put ?v d) = overlay [(x, y) \<mapsto> c] (pixels dv d)"
    using cell_facts [OF ok xy] put
    by (auto simp: pixels_array ok fun_eq_iff overlay_def same_frame_def cell_def nth_list_update)
  with put show "\<exists>d'. led_ref dv x y c d = (Inr (), d') \<and> ok d' \<and> same_frame dv d d' \<and>
      pixels dv d' = overlay [(x, y) \<mapsto> c] (pixels dv d)"
    using cell_facts(1,2) [OF ok xy] by (simp add: led_ref_stores [OF ok] vec_store_def)
qed

text \<open>Every LED of the array shows a pixel, so the image determines the array.\<close>

lemma cell_surj:
  assumes "ok d" and "i < length (arr d)"
  shows "\<exists>x y. in_rect (width dv d) (height dv d) x y \<and> cell d (x, y) = i"
proof -
  have "dims_ok (width_m (geo d)) (height_m (geo d))" using ok_array [OF assms(1)]
    by (simp add: rotatable_ok_def)
  from rotated.led_number_bij [OF this, of "rotate_helper_m (geo d)"]
  have "cell d ` rect (width dv d) (height dv d) = {0..<length (arr d)}"
    using ok_array [OF assms(1)]
    by (simp add: bij_betw_def cell_def sizes rotatable_ok_def)
  then have "i \<in> cell d ` rect (width dv d) (height dv d)" using assms(2) by simp
  then show ?thesis by (auto simp: in_rect_iff)
qed

lemma uniform_array:
  assumes "ok d" and "\<And>p c'. pixels dv d p = Some c' \<Longrightarrow> c' = c"
  shows "arr d = replicate (length (arr d)) c"
proof (rule nth_equalityI)
  fix i assume i: "i < length (arr d)"
  from cell_surj [OF assms(1) i] obtain x y where
    "in_rect (width dv d) (height dv d) x y" "cell d (x, y) = i" by blast
  then have "pixels dv d (x, y) = Some (arr d ! i)" by (simp add: pixels_array [OF assms(1)])
  with assms(2) i show "arr d ! i = replicate (length (arr d)) c ! i" by fastforce
qed simp

end

interpretation pixmap: array_device IVectorStripIndex_index Pixmap_device pixmap_ok
  rotatable.truncate leds_m "\<lambda>v d. d\<lparr>leds_m := v\<rparr>"
  by unfold_locales
    (auto simp: Pixmap_device_def Pixmap_led_def Pixmap_led_ref_def pixmap_ok_def rotatable_ok_def
       rotatable_index_def rotatable.defs same_frame_def outcome split: sum.split)

end
