(* ===== verification/Strip.thy ===== *)
theory Strip
  imports Rotatable
begin

text \<open>
  \<open>WS2811Strip\<close> (\<open>src/inc/render.hpp\<close>): the real device. Its LED array belongs
  to the \<open>rpi_ws281x\<close> library, which is not part of the repository: its
  functions and constants are the fields of \<open>ws2811_lib\<close>, an argument of every
  operation that calls them, and what is relied on is \<open>ws2811_lib_ok\<close>.
\<close>

section \<open>The library's structures\<close>

text \<open>\<open>ws2811_channel_t\<close> and \<open>ws2811_t\<close>, the members the program touches.\<close>

record ws2811_channel =
  gpionum :: int
  count :: int
  invert :: int
  brightness :: int
  strip_type :: int
  leds :: "LedColor list option"

record ws2811 =
  freq :: int
  dmanum :: int
  channel0 :: ws2811_channel
  channel1 :: ws2811_channel

record ws2811_lib =
  WS2811_TARGET_FREQ :: int
  WS2811_STRIP_GRB :: int
  ws2811_init :: "ws2811 \<Rightarrow> int \<times> ws2811"
  ws2811_wait :: "ws2811 \<Rightarrow> int \<times> ws2811"
  ws2811_render :: "ws2811 \<Rightarrow> int \<times> ws2811"
  ws2811_fini :: "ws2811 \<Rightarrow> ws2811"

text \<open>
  Documented behaviour: a successful \<open>ws2811_init\<close> (code 0) allocates \<open>count\<close>
  LEDs for the channel; waiting and rendering leave the array as it is.
\<close>

definition ws2811_lib_ok :: "ws2811_lib \<Rightarrow> bool" where
  "ws2811_lib_ok lib \<longleftrightarrow>
     (\<forall>w. fst (ws2811_init lib w) = 0 \<longrightarrow>
        (\<exists>v. leds (channel0 (snd (ws2811_init lib w))) = Some v \<and>
             length v = nat (count (channel0 w)))) \<and>
     (\<forall>w. leds (channel0 (snd (ws2811_wait lib w))) = leds (channel0 w)) \<and>
     (\<forall>w. leds (channel0 (snd (ws2811_render lib w))) = leds (channel0 w))"

section \<open>WS2811Strip\<close>

record ws2811_strip = rotatable + ws :: ws2811

definition DMA :: int where "DMA = 10"
definition GPIO_PIN :: int where "GPIO_PIN = 18"

definition WS2811Strip :: "ws2811_lib \<Rightarrow> int \<Rightarrow> int \<Rightarrow> LedColor \<Rightarrow> ws2811_strip result" where
  "WS2811Strip lib w h b =
     rbind (c_mul w h) (\<lambda>n.
       Inr (rotatable.extend (IRotatablePaintDevice w h b)
         \<lparr>ws = \<lparr>freq = WS2811_TARGET_FREQ lib, dmanum = DMA,
            channel0 = \<lparr>gpionum = GPIO_PIN, count = n, invert = 0, brightness = 255,
                        strip_type = WS2811_STRIP_GRB lib, leds = None\<rparr>,
            channel1 = \<lparr>gpionum = 0, count = 0, invert = 0, brightness = 0,
                        strip_type = 0, leds = None\<rparr>\<rparr>\<rparr>))"

text \<open>\<open>init\<close> returns nothing: the library's return code is only logged.\<close>

definition WS2811Strip_init :: "ws2811_lib \<Rightarrow> (ws2811_strip, unit) stm" where
  "WS2811Strip_init lib = modify (\<lambda>d. d\<lparr>ws := snd (ws2811_init lib (ws d))\<rparr>)"

definition WS2811Strip_wait :: "ws2811_lib \<Rightarrow> (ws2811_strip, int) stm" where
  "WS2811Strip_wait lib d =
     (case ws2811_wait lib (ws d) of (ret, w) \<Rightarrow> (Inr ret, d\<lparr>ws := w\<rparr>))"

definition WS2811Strip_render :: "ws2811_lib \<Rightarrow> (ws2811_strip, int) stm" where
  "WS2811Strip_render lib d =
     (case ws2811_render lib (ws d) of (ret, w) \<Rightarrow> (Inr ret, d\<lparr>ws := w\<rparr>))"

definition WS2811Strip_uninit :: "ws2811_lib \<Rightarrow> (ws2811_strip, unit) stm" where
  "WS2811Strip_uninit lib = modify (\<lambda>d. d\<lparr>ws := ws2811_fini lib (ws d)\<rparr>)"

text \<open>The destructor finalises the library once more.\<close>

definition WS2811Strip_destroy :: "ws2811_lib \<Rightarrow> (ws2811_strip, unit) stm" where
  "WS2811Strip_destroy lib = modify (\<lambda>d. d\<lparr>ws := ws2811_fini lib (ws d)\<rparr>)"

text \<open>\<open>channel[0].leds[i]\<close>: a null pointer until the library has allocated it.\<close>

definition ptr_at :: "'a list option \<Rightarrow> int \<Rightarrow> 'a result" where
  "ptr_at p i = (case p of None \<Rightarrow> Inl (UB Null_Pointer) | Some v \<Rightarrow> vec_at v i)"

definition ptr_store :: "'a list option \<Rightarrow> int \<Rightarrow> 'a \<Rightarrow> 'a list option result" where
  "ptr_store p i c =
     (case p of None \<Rightarrow> Inl (UB Null_Pointer) | Some v \<Rightarrow> rbind (vec_store v i c) (\<lambda>v'. Inr (Some v')))"

definition set_leds :: "LedColor list option \<Rightarrow> ws2811_strip \<Rightarrow> ws2811_strip" where
  "set_leds p d = d\<lparr>ws := (ws d)\<lparr>channel0 := (channel0 (ws d))\<lparr>leds := p\<rparr>\<rparr>\<rparr>"

definition WS2811Strip_led :: "int \<Rightarrow> int \<Rightarrow> ws2811_strip \<Rightarrow> LedColor result" where
  "WS2811Strip_led x y d =
     rbind (rotatable_index ISnakeStripIndex_index d x y) (\<lambda>i. ptr_at (leds (channel0 (ws d))) i)"

definition WS2811Strip_led_ref :: "int \<Rightarrow> int \<Rightarrow> LedColor \<Rightarrow> (ws2811_strip, unit) stm" where
  "WS2811Strip_led_ref x y c =
     and_then (eval_expr (\<lambda>d. rbind (rotatable_index ISnakeStripIndex_index d x y) (\<lambda>i.
                                ptr_store (leds (channel0 (ws d))) i c))) (\<lambda>p.
       modify (set_leds p))"

definition WS2811Strip_device :: "ws2811_strip IPaintDevice" where
  "WS2811Strip_device = \<lparr>width = logic_width_m, height = logic_height_m, led = WS2811Strip_led,
     led_ref = WS2811Strip_led_ref, back_of = back_m, transparent_of = transparent_m\<rparr>"

section \<open>The strip is a device\<close>

definition strip_leds :: "ws2811_strip \<Rightarrow> LedColor list" where
  "strip_leds d = (case leds (channel0 (ws d)) of None \<Rightarrow> [] | Some v \<Rightarrow> v)"

definition strip_ok :: "ws2811_strip \<Rightarrow> bool" where
  "strip_ok d \<longleftrightarrow> rotatable_ok d \<and>
     (\<exists>v. leds (channel0 (ws d)) = Some v \<and> length v = nat (width_m d * height_m d))"

interpretation strip: array_device ISnakeStripIndex_index WS2811Strip_device strip_ok
  rotatable.truncate strip_leds "\<lambda>v. set_leds (Some v)"
  by unfold_locales
    (auto simp: WS2811Strip_device_def WS2811Strip_led_def WS2811Strip_led_ref_def strip_ok_def
       strip_leds_def set_leds_def rotatable_ok_def rotatable_index_def rotatable.defs
       same_frame_def ptr_at_def ptr_store_def outcome split: sum.split)

lemma WS2811Strip_in_range:
  "dims_ok w h \<Longrightarrow> \<exists>d. WS2811Strip lib w h b = Inr d \<and> rotatable_ok d \<and>
     width_m d = w \<and> height_m d = h \<and> back_m d = b \<and> \<not> transparent_m d \<and>
     count (channel0 (ws d)) = w * h \<and> leds (channel0 (ws d)) = None"
  by (auto simp: WS2811Strip_def dims_ok_def c_ops is_int32_def int_min_def rotatable_ok_def
      IRotatablePaintDevice_def rotatable.defs rotated_width_def rotated_height_def
      intro: order_trans [of _ 0])

end
