(* ===== verification/Display_Properties.thy ===== *)
theory Display_Properties
  imports Strip
begin

text \<open>
  Properties of the index functions and of the devices of
  \<open>src/inc/render.hpp\<close>: numbering, rotation, painting, the strip's life cycle.
\<close>

section \<open>Numbering and rotation\<close>

text \<open>C1: under either layout and any rotation and mirroring, the index
  of every pixel of the frame is computed without overflow, and the pixels
  number the LEDs of the strip one to one.\<close>

theorem led_numbering:
  assumes "dims_ok w h" and "layout \<in> {ISnakeStripIndex_index, IVectorStripIndex_index}"
  shows "bij_betw (\<lambda>(x, y). case StripRotateHelper_index layout r w h x y of Inr i \<Rightarrow> nat i | Inl _ \<Rightarrow> 0)
           (rect (rotated_width r w h) (rotated_height r w h)) {0..<nat (w * h)} \<and>
         (\<forall>(x, y) \<in> rect (rotated_width r w h) (rotated_height r w h).
            \<exists>i. StripRotateHelper_index layout r w h x y = Inr i \<and> 0 \<le> i \<and> i < w * h)"
proof -
  have *: "(\<lambda>(x, y). case StripRotateHelper_index layout r w h x y of Inr i \<Rightarrow> nat i | Inl _ \<Rightarrow> 0) =
      led_number (StripRotateHelper_index layout r) w h"
    by (auto simp: led_number_def fun_eq_iff split: sum.split)
  show ?thesis
    unfolding * using assms snake_layout.rotated.led_number_bij snake_layout.rotated.index_range
      vector_layout.rotated.led_number_bij vector_layout.rotated.index_range
    by (auto simp flip: in_rect_iff)
qed

lemma led_numbering_witness:
  "bij_betw (\<lambda>(x, y). case StripRotateHelper_index ISnakeStripIndex_index
        (StripRotateHelper Deg90 True False) 16 32 x y of Inr i \<Rightarrow> nat i | Inl _ \<Rightarrow> 0)
     (rect 32 16) {0..<512}"
  using led_numbering [of 16 32 ISnakeStripIndex_index "StripRotateHelper Deg90 True False"]
  by (simp add: dims_ok_def int_max_def rotated_width_def rotated_height_def)

text \<open>A half turn is the unrotated frame mirrored both
  ways, and 270 degrees is 90 degrees mirrored both ways, so \<open>set_rotate\<close> gives
  eight different frames, not sixteen.\<close>

lemma rotations_coincide:
  assumes "dims_ok w h"
  shows "(in_rect w h x y \<longrightarrow>
           StripRotateHelper_index layout (StripRotateHelper Deg180 fx fy) w h x y =
           StripRotateHelper_index layout (StripRotateHelper Deg0 (\<not> fx) (\<not> fy)) w h x y) \<and>
         (in_rect h w x y \<longrightarrow>
           StripRotateHelper_index layout (StripRotateHelper Deg270 fx fy) w h x y =
           StripRotateHelper_index layout (StripRotateHelper Deg90 (\<not> fx) (\<not> fy)) w h x y)"
  using StripRotateHelper_index_in_rect [OF assms, of "StripRotateHelper Deg180 fx fy" x y layout]
    StripRotateHelper_index_in_rect [OF assms, of "StripRotateHelper Deg0 (\<not> fx) (\<not> fy)" x y layout]
    StripRotateHelper_index_in_rect [OF assms, of "StripRotateHelper Deg270 fx fy" x y layout]
    StripRotateHelper_index_in_rect [OF assms, of "StripRotateHelper Deg90 (\<not> fx) (\<not> fy)" x y layout]
  by (simp add: rotated_width_def rotated_height_def physical_point_def mirror_def
      del: StripRotateHelper_index.simps)

lemma rotations_coincide_witness:
  "StripRotateHelper_index ISnakeStripIndex_index (StripRotateHelper Deg180 False True) 4 3 1 2 =
   StripRotateHelper_index ISnakeStripIndex_index (StripRotateHelper Deg0 True False) 4 3 1 2"
  using rotations_coincide [of 4 3 1 2 ISnakeStripIndex_index False True]
  by (simp add: dims_ok_def int_max_def in_rect_def del: StripRotateHelper_index.simps)

text \<open>One step left of an unrotated frame is no error: the
  index is that of a pixel of a neighbouring row. Row-major storage gives the last
  pixel of the row before; on the snake an even row gives the first pixel of
  the row before and an odd row the first pixel of the row after.\<close>

lemma left_of_frame_aliases:
  assumes "dims_ok w h" and "0 < w" and "0 < y" and "y < h"
  shows "IVectorStripIndex_index w h (- 1) y = IVectorStripIndex_index w h (w - 1) (y - 1) \<and>
         (even y \<longrightarrow> ISnakeStripIndex_index w h (- 1) y = ISnakeStripIndex_index w h 0 (y - 1)) \<and>
         (odd y \<and> y + 1 < h \<longrightarrow>
            ISnakeStripIndex_index w h (- 1) y = ISnakeStripIndex_index w h 0 (y + 1))"
proof -
  have row: "0 \<le> y' * w" "y' * w + w \<le> int_max" if "0 \<le> y'" "y' < h" for y'
    using dims_ok_bounds [OF assms(1), of 0 y'] that assms(2) by (auto simp: in_rect_def)
  have r: "y * w = (y - 1) * w + w" "(y + 1) * w = y * w + w" by (simp_all add: algebra_simps)
  have p: "in_rect w h (w - 1) (y - 1)" "in_rect w h 0 (y - 1)" "y + 1 < h \<Longrightarrow> in_rect w h 0 (y + 1)"
    using assms by (simp_all add: in_rect_def)
  have b: "0 \<le> (y - 1) * w" "(y - 1) * w + w \<le> int_max" "0 \<le> y * w" "y * w + w \<le> int_max"
    using row [of "y - 1"] row [of y] assms(3,4) by simp_all
  have neg: "- 2147483648 < y * w" by (rule order_less_le_trans [OF _ b(3)]) simp
  have v: "IVectorStripIndex_index w h (- 1) y = Inr (y * w - 1)"
    using b(3,4) neg assms(2) by (simp add: IVectorStripIndex_index_def c_ops is_int32_def int_min_def)
  have e: "ISnakeStripIndex_index w h (- 1) y = Inr (y * w - 1)" if "even y"
    using b(3,4) neg assms(2,3) that
    by (simp add: ISnakeStripIndex_index_def c_ops is_int32_def int_min_def smod_nonneg)
  have o: "ISnakeStripIndex_index w h (- 1) y = Inr (y * w + w)" if "odd y" "y + 1 < h"
  proof -
    have "w + 1 \<le> int_max" using row [of "y + 1"] b(3) r(2) assms(2,3) that(2) by linarith
    moreover have "0 \<le> y * w + w" using b(3) assms(2) by linarith
    ultimately show ?thesis
      using b(3,4) neg assms(2,3) that
      by (simp add: ISnakeStripIndex_index_def c_ops is_int32_def int_min_def smod_nonneg
          odd_iff_mod_2_eq_one)
  qed
  show ?thesis
    using v e o r p by (auto simp: IVectorStripIndex_in_rect [OF assms(1)] ISnakeStripIndex_in_rect [OF assms(1)])
qed

lemma left_of_frame_aliases_witness:
  "IVectorStripIndex_index 16 32 (- 1) 5 = IVectorStripIndex_index 16 32 15 4 \<and>
   ISnakeStripIndex_index 16 32 (- 1) 5 = ISnakeStripIndex_index 16 32 0 6"
  using left_of_frame_aliases [of 16 32 5] by (simp add: dims_ok_def int_max_def)

section \<open>Painting\<close>

text \<open>C15: \<open>clear\<close> on the strip sets every LED of the array, whatever the
  rotation, to the background color and changes nothing else of the frame.\<close>

theorem strip_clear:
  assumes "strip_ok d"
  shows "\<exists>d'. clear WS2811Strip_device d = (Inr (), d') \<and> strip_ok d' \<and>
           same_frame WS2811Strip_device d d' \<and>
           strip_leds d' = replicate (length (strip_leds d')) (back_m d)"
proof -
  from strip.clear_correct [OF assms] obtain d' where d':
    "clear WS2811Strip_device d = (Inr (), d')" "strip_ok d'" "same_frame WS2811Strip_device d d'"
    "pixels WS2811Strip_device d' = cleared (back_m d) (pixels WS2811Strip_device d)"
    by (auto simp: WS2811Strip_device_def)
  moreover have "strip_leds d' = replicate (length (strip_leds d')) (back_m d)"
    by (rule strip.uniform_array [OF d'(2)]) (auto simp: d'(4) cleared_def)
  ultimately show ?thesis by blast
qed

text \<open>A strip of two by two LEDs, for the witnesses.\<close>

definition demo_strip :: "LedColor list \<Rightarrow> ws2811_strip" where
  "demo_strip v = rotatable.extend (IRotatablePaintDevice 2 2 Led_Black)
     \<lparr>ws = \<lparr>freq = 800000, dmanum = DMA,
        channel0 = \<lparr>gpionum = GPIO_PIN, count = 4, invert = 0, brightness = 255,
                    strip_type = 0, leds = Some v\<rparr>,
        channel1 = \<lparr>gpionum = 0, count = 0, invert = 0, brightness = 0,
                    strip_type = 0, leds = None\<rparr>\<rparr>\<rparr>"

lemma demo_strip_ok: "length v = 4 \<Longrightarrow> strip_ok (demo_strip v)"
  by (simp add: strip_ok_def rotatable_ok_def demo_strip_def IRotatablePaintDevice_def rotatable.defs
      dims_ok_def int_max_def rotated_width_def rotated_height_def)

lemma strip_clear_witness:
  "\<exists>d'. clear WS2811Strip_device (demo_strip [1, 2, 3, 4]) = (Inr (), d') \<and>
     strip_leds d' = replicate (length (strip_leds d')) (back_m (demo_strip [1, 2, 3, 4]))"
  using strip_clear [OF demo_strip_ok [of "[1, 2, 3, 4]"]] by auto

text \<open>C9: drawing a source that has a color at each of its points, at a
  position that is not negative and far enough from the largest \<open>int\<close> to hold it, overlays the
  strip's image with the (mirrored) source, clipped to the frame on the right and at the far edge; a transparent
  strip leaves out the pixels of its background color.\<close>

theorem strip_draw:
  assumes "strip_ok d" and "steady_source strip_ok src sw sh f"
    and "0 \<le> x" "0 \<le> y" "x + sw \<le> int_max" "y + sh \<le> int_max"
  shows "\<exists>d'. draw WS2811Strip_device src x y flip_x flip_y d = (Inr (), d') \<and> strip_ok d' \<and>
           same_frame WS2811Strip_device d d' \<and>
           pixels WS2811Strip_device d' =
             overlay (stamp sw sh f x y flip_x flip_y (\<lambda>c. transparent_m d \<and> c = back_m d))
               (pixels WS2811Strip_device d)"
  using strip.draw_correct [OF assms] by (simp add: WS2811Strip_device_def)

lemma strip_draw_witness:
  "\<exists>d'. draw WS2811Strip_device \<lparr>width = \<lambda>_. 1, height = \<lambda>_. 1, led = \<lambda>_ _ _. Inr 9\<rparr> 1 0 True False
      (demo_strip [1, 2, 3, 4]) = (Inr (), d') \<and> strip_ok d'"
  using strip_draw [OF demo_strip_ok [of "[1, 2, 3, 4]"], where x = 1 and y = 0 and sw = 1 and sh = 1
      and f = "\<lambda>_ _. 9" and src = "\<lparr>width = \<lambda>_. 1, height = \<lambda>_. 1, led = \<lambda>_ _ _. Inr 9\<rparr>"
      and flip_x = True and flip_y = False]
  by (auto simp: steady_source_def int_max_def)

text \<open>C14: what \<open>flip\<close> does to the image of a pixmap. With \<open>flip_x\<close> false
  it does nothing, also when \<open>flip_y\<close> is true; otherwise it exchanges the left and
  the right half, upside down when \<open>flip_y\<close> is true, and leaves the middle column
  of an odd width as it is.\<close>

theorem flip_image:
  assumes "pixmap_ok d"
  shows "\<exists>d'. flip Pixmap_device flip_x flip_y d = (Inr (), d') \<and> pixmap_ok d' \<and>
           same_frame Pixmap_device d d' \<and>
           (\<not> flip_x \<longrightarrow> pixels Pixmap_device d' = pixels Pixmap_device d) \<and>
           (flip_x \<longrightarrow> (\<forall>x y. pixels Pixmap_device d' (x, y) =
              (if odd (logic_width_m d) \<and> x = logic_width_m d div 2 then pixels Pixmap_device d (x, y)
               else pixels Pixmap_device d
                      (logic_width_m d - x - 1, if flip_y then logic_height_m d - y - 1 else y))))"
proof -
  have dims: "width Pixmap_device d = logic_width_m d" "height Pixmap_device d = logic_height_m d"
    by (simp_all add: Pixmap_device_def)
  from pixmap.flip_correct [OF assms, of flip_x flip_y, unfolded dims] obtain d' where
    "flip Pixmap_device flip_x flip_y d = (Inr (), d')" "pixmap_ok d'" "same_frame Pixmap_device d d'"
    "pixels Pixmap_device d' = (\<lambda>(px, py).
       if flip_x \<and> \<not> (odd (logic_width_m d) \<and> px = logic_width_m d div 2)
       then pixels Pixmap_device d (logic_width_m d - px - 1, mirror flip_y (logic_height_m d) py)
       else pixels Pixmap_device d (px, py))"
    by blast
  then show ?thesis by (auto simp: mirror_def)
qed

lemma flip_image_witness:
  "\<exists>p d'. Pixmap 3 2 Led_Black = Inr p \<and> flip Pixmap_device False True p = (Inr (), d') \<and>
     pixels Pixmap_device d' = pixels Pixmap_device p"
proof -
  define p :: pixmap where "p = rotatable.extend (IRotatablePaintDevice 3 2 Led_Black) \<lparr>leds_m = replicate 6 0\<rparr>"
  have "Pixmap 3 2 Led_Black = Inr p"
    by (simp add: Pixmap_def p_def c_ops is_int32_def int_min_def int_max_def)
  moreover have "pixmap_ok p"
    by (simp add: pixmap_ok_def rotatable_ok_def p_def IRotatablePaintDevice_def rotatable.defs
        dims_ok_def int_max_def rotated_width_def rotated_height_def)
  ultimately show ?thesis using flip_image [of p False True] by blast
qed

section \<open>Rotating a device, and its life cycle\<close>

text \<open>C10: \<open>set_rotate\<close> with a supported angle replaces the
  rotation (it does not add to the one before), keeps the LEDs, and shows at
  each pixel of the new frame the LED of the turned and mirrored point; any other
  angle throws \<open>invalid_argument\<close> and leaves the strip as it was.\<close>

theorem rotation_is_absolute:
  assumes "strip_ok d"
  shows "(case supported_degree a of
     None \<Rightarrow> set_rotate a fx fy d =
       (Inl (Throw (Invalid_Argument ''IRotatablePaintDevice::set_rotate'')), d)
   | Some g \<Rightarrow> \<exists>d'. set_rotate a fx fy d = (Inr (), d') \<and> strip_ok d' \<and> strip_leds d' = strip_leds d \<and>
       (\<forall>b gx gy. set_rotate a fx fy (snd (set_rotate b gx gy d)) = set_rotate a fx fy d) \<and>
       (\<forall>x y. pixels WS2811Strip_device d' (x, y) =
          (if in_rect (rotated_width (StripRotateHelper g fx fy) (width_m d) (height_m d))
                (rotated_height (StripRotateHelper g fx fy) (width_m d) (height_m d)) x y
           then pixels WS2811Strip_device (snd (set_rotate 0 False False d))
                  (physical_point (StripRotateHelper g fx fy) (width_m d) (height_m d) x y)
           else None)))"
proof (cases "supported_degree a")
  case None
  then show ?thesis by (simp add: set_rotate_cases)
next
  case (Some g)
  let ?r = "StripRotateHelper g fx fy" and ?w = "width_m d" and ?h = "height_m d"
  define d' where "d' = snd (set_rotate a fx fy d)"
  define d0 where "d0 = snd (set_rotate 0 False False d)"
  have z: "supported_degree 0 = Some Deg0" by (simp add: supported_degree_def)
  have e: "set_rotate a fx fy d = (Inr (), d')" by (simp add: d'_def set_rotate_cases Some)
  have ok: "strip_ok d'" "strip_ok d0"
    using assms set_rotate_ok [of d a fx fy] set_rotate_ok [of d 0 False False]
    by (auto simp: strip_ok_def d'_def d0_def set_rotate_cases Some z)
  have same: "strip_leds d' = strip_leds d" "strip_leds d0 = strip_leds d"
    by (simp_all add: d'_def d0_def strip_leds_def set_rotate_cases Some z)
  have abs: "set_rotate a fx fy (snd (set_rotate b gx gy d)) = set_rotate a fx fy d" for b gx gy
    by (simp add: set_rotate_cases Some split: option.split)
  have dims: "dims_ok ?w ?h" using assms by (simp add: strip_ok_def rotatable_ok_def)
  have geo: "rotate_helper_m d' = ?r" "width_m d' = ?w" "height_m d' = ?h"
      "rotate_helper_m d0 = StripRotateHelper Deg0 False False" "width_m d0 = ?w" "height_m d0 = ?h"
      "logic_width_m d' = rotated_width ?r ?w ?h" "logic_height_m d' = rotated_height ?r ?w ?h"
      "logic_width_m d0 = ?w" "logic_height_m d0 = ?h"
    by (simp_all add: d'_def d0_def set_rotate_cases Some z rotated_width_def
        rotated_height_def)
  have "pixels WS2811Strip_device d' (x, y) =
      (if in_rect (rotated_width ?r ?w ?h) (rotated_height ?r ?w ?h) x y
       then pixels WS2811Strip_device d0 (physical_point ?r ?w ?h x y) else None)" for x y
  proof (cases "in_rect (rotated_width ?r ?w ?h) (rotated_height ?r ?w ?h) x y")
    case True
    obtain px py where p: "physical_point ?r ?w ?h x y = (px, py)" by force
    then have pin: "in_rect ?w ?h px py" using physical_point_rect [of ?w ?h ?r x y] True by simp
    have "led WS2811Strip_device x y d' = led WS2811Strip_device px py d0"
      using StripRotateHelper_index_in_rect [OF dims True, of ISnakeStripIndex_index]
        StripRotateHelper_index_in_rect [OF dims, of "StripRotateHelper Deg0 False False" px py ISnakeStripIndex_index]
        pin same p
      by (simp add: WS2811Strip_device_def WS2811Strip_led_def rotatable_index_def geo strip_leds_def
          rotated_width_def rotated_height_def physical_point_def mirror_def d'_def d0_def
          set_rotate_cases Some z del: StripRotateHelper_index.simps)
    then show ?thesis using True pin p
      by (simp add: pixels_def WS2811Strip_device_def geo)
  next
    case False
    then show ?thesis by (simp add: pixels_def WS2811Strip_device_def geo)
  qed
  with Some e ok same abs show ?thesis by (auto simp: d0_def)
qed

lemma rotation_is_absolute_witness:
  "\<exists>d'. set_rotate 90 False False (demo_strip [1, 2, 3, 4]) = (Inr (), d') \<and>
     strip_leds d' = strip_leds (demo_strip [1, 2, 3, 4])"
  using rotation_is_absolute [OF demo_strip_ok [of "[1, 2, 3, 4]"], of 90 False False]
  by (auto simp: supported_degree_def)

text \<open>C23: a strip whose library \<open>init\<close> succeeds is a sound device of the
  size it was built with; before that (or when the library allocated nothing, which
  \<open>init\<close> does not report) painting any pixel goes through a null pointer.\<close>

theorem strip_life:
  assumes "ws2811_lib_ok lib" and "dims_ok w h"
  shows "\<exists>d. WS2811Strip lib w h b = Inr d \<and>
     (fst (ws2811_init lib (ws d)) = 0 \<longrightarrow>
        (\<exists>d'. WS2811Strip_init lib d = (Inr (), d') \<and> strip_ok d' \<and>
              logic_width_m d' = w \<and> logic_height_m d' = h \<and> back_m d' = b \<and>
              strip_ok (snd (WS2811Strip_render lib d')) \<and> strip_ok (snd (WS2811Strip_wait lib d')))) \<and>
     (\<forall>d' x y c. (d' = d \<or>
           WS2811Strip_init lib d = (Inr (), d') \<and> leds (channel0 (snd (ws2811_init lib (ws d)))) = None) \<longrightarrow>
        in_rect w h x y \<longrightarrow> WS2811Strip_led_ref x y c d' = (Inl (UB Null_Pointer), d'))"
proof -
  have d0: "dims_ok w h" by (rule assms(2))
  from WS2811Strip_in_range [OF d0] obtain d where d: "WS2811Strip lib w h b = Inr d"
    "rotatable_ok d" "width_m d = w" "height_m d = h" "back_m d = b"
    "count (channel0 (ws d)) = w * h" "leds (channel0 (ws d)) = None" by blast
  have new: "rotate_helper_m d = StripRotateHelper Deg0 False False"
    "logic_width_m d = w" "logic_height_m d = h"
    using d(1) by (cases "c_mul w h"; auto simp: WS2811Strip_def IRotatablePaintDevice_def rotatable.defs)+
  have null: "WS2811Strip_led_ref x y c d' = (Inl (UB Null_Pointer), d')"
    if n: "leds (channel0 (ws d')) = None" "rotate_helper_m d' = StripRotateHelper Deg0 False False"
      "width_m d' = w" "height_m d' = h" and "in_rect w h x y" for d' x y c
    using ISnakeStripIndex_in_rect [OF d0 that(5)] n
    by (simp add: WS2811Strip_led_ref_def rotatable_index_def ptr_store_def outcome)
  define d1 where "d1 = d\<lparr>ws := snd (ws2811_init lib (ws d))\<rparr>"
  have i: "WS2811Strip_init lib d = (Inr (), d1)"
    by (simp add: d1_def WS2811Strip_init_def modify_def)
  have "strip_ok d1 \<and> strip_ok (snd (WS2811Strip_render lib d1)) \<and> strip_ok (snd (WS2811Strip_wait lib d1))"
    if "fst (ws2811_init lib (ws d)) = 0"
  proof -
    from that assms(1) d(6) obtain v where v: "leds (channel0 (snd (ws2811_init lib (ws d)))) = Some v"
      "length v = nat (w * h)" unfolding ws2811_lib_ok_def by fastforce
    moreover have "leds (channel0 (snd (ws2811_render lib u))) = leds (channel0 u)"
      "leds (channel0 (snd (ws2811_wait lib u))) = leds (channel0 u)" for u
      using assms(1) by (simp_all add: ws2811_lib_ok_def)
    ultimately show ?thesis
      using d by (simp add: d1_def strip_ok_def rotatable_ok_def WS2811Strip_render_def
          WS2811Strip_wait_def split: prod.split) (metis snd_conv)
  qed
  with d(1,5) i new null [of d] null [of d1] d(3,4,7) show ?thesis
    by (auto simp: d1_def)
qed

text \<open>A library that allocates black LEDs and always succeeds.\<close>

definition demo_lib :: ws2811_lib where
  "demo_lib = \<lparr>WS2811_TARGET_FREQ = 800000, WS2811_STRIP_GRB = 0x00081000,
     ws2811_init = (\<lambda>w. (0, w\<lparr>channel0 := (channel0 w)\<lparr>leds := Some (replicate (nat (count (channel0 w))) 0)\<rparr>\<rparr>)),
     ws2811_wait = (\<lambda>w. (0, w)), ws2811_render = (\<lambda>w. (0, w)), ws2811_fini = (\<lambda>w. w)\<rparr>"

lemma demo_lib_ok: "ws2811_lib_ok demo_lib"
  by (simp add: ws2811_lib_ok_def demo_lib_def)

lemma strip_life_witness:
  "\<exists>d d'. WS2811Strip demo_lib 16 32 Led_Black = Inr d \<and> WS2811Strip_init demo_lib d = (Inr (), d') \<and>
     strip_ok d' \<and> WS2811Strip_led_ref 0 0 1 d = (Inl (UB Null_Pointer), d)"
  using strip_life [OF demo_lib_ok, of 16 32 Led_Black]
  by (fastforce simp: dims_ok_def int_max_def in_rect_def demo_lib_def)

end
