(* ===== verification/Glyphs.thy ===== *)
theory Glyphs
  imports Rotatable
begin

unbundle bit_operations_syntax

text \<open>
  The drawable sources of \<open>src/inc/render.hpp\<close>: the two bitmap fonts, single
  glyphs (\<open>Digit3x5\<close>, \<open>Ascii4x8\<close>), numbers (\<open>DigitGroup3x5\<close>) and texts
  (\<open>Text4x8\<close>). Row 0 of a glyph is its bottom row, the lowest bits of its word.
\<close>

section \<open>SimpleAlphaGroup\<close>

record simple_alpha_group =
  color :: LedColor
  back_color :: LedColor

definition SimpleAlphaGroup :: "LedColor \<Rightarrow> LedColor \<Rightarrow> simple_alpha_group" where
  "SimpleAlphaGroup c b = \<lparr>color = c, back_color = b\<rparr>"

definition set_color :: "LedColor \<Rightarrow> 'a simple_alpha_group_scheme \<Rightarrow> 'a simple_alpha_group_scheme" where
  "set_color c g = g\<lparr>color := c\<rparr>"

definition set_back_color :: "LedColor \<Rightarrow> 'a simple_alpha_group_scheme \<Rightarrow> 'a simple_alpha_group_scheme" where
  "set_back_color c g = g\<lparr>back_color := c\<rparr>"

text \<open>\<open>(font & (1 << k)) ? color : back\<close>, on 32 bits.\<close>

definition ink :: "32 word \<Rightarrow> int \<Rightarrow> 'a simple_alpha_group_scheme \<Rightarrow> LedColor" where
  "ink font k g = (if font AND push_bit (nat k) 1 \<noteq> 0 then color g else back_color g)"

section \<open>Digits\<close>

definition digit3x5font :: "16 word list" where
  "digit3x5font = [
      0b0111101101101111, 0b0010010010010010, 0b0111001111100111, 0b0111001111001111,
      0b0101101111001001, 0b0111100111001111, 0b0111100111101111, 0b0111001001001001,
      0b0111101111101111, 0b0111101111001111]"

record digit3x5 = simple_alpha_group + digit_m :: int

definition Digit3x5 :: "int \<Rightarrow> LedColor \<Rightarrow> LedColor \<Rightarrow> digit3x5" where
  "Digit3x5 d c b = \<lparr>color = c, back_color = b, digit_m = d\<rparr>"

definition Digit3x5_led :: "int \<Rightarrow> int \<Rightarrow> 'a digit3x5_scheme \<Rightarrow> LedColor result" where
  "Digit3x5_led x y g =
     (if 0 \<le> digit_m g \<and> digit_m g < int (length digit3x5font) \<and> 0 \<le> x \<and> x < 3 \<and> 0 \<le> y \<and> y < 5
      then rbind (vec_at digit3x5font (digit_m g)) (\<lambda>font. Inr (ink (ucast font) (y * 3 + 2 - x) g))
      else Inl (Throw (Out_Of_Range
        (''Digit3x5::led<'' @ show_int (digit_m g) @ ''>('' @ show_int x @ '', '' @ show_int y @ '')''))))"

definition Digit3x5_source :: "'a digit3x5_scheme \<Rightarrow> 's IPaintSource" where
  "Digit3x5_source g =
     \<lparr>width = (\<lambda>_. 3), height = (\<lambda>_. 5), led = (\<lambda>x y _. Digit3x5_led x y g)\<rparr>"

section \<open>Characters\<close>

definition ascii4x8_unkown :: "32 word" where
  "ascii4x8_unkown = NOT 0b00000100101000100100000001000000"

definition ascii4x8font :: "32 word list" where
  "ascii4x8font = [
      ascii4x8_unkown, ascii4x8_unkown, ascii4x8_unkown, ascii4x8_unkown,
      ascii4x8_unkown, ascii4x8_unkown, ascii4x8_unkown, ascii4x8_unkown,
      ascii4x8_unkown, ascii4x8_unkown, ascii4x8_unkown, ascii4x8_unkown,
      ascii4x8_unkown, ascii4x8_unkown, ascii4x8_unkown, ascii4x8_unkown,
      ascii4x8_unkown, ascii4x8_unkown, ascii4x8_unkown, ascii4x8_unkown,
      ascii4x8_unkown, ascii4x8_unkown, ascii4x8_unkown, ascii4x8_unkown,
      ascii4x8_unkown, ascii4x8_unkown, ascii4x8_unkown, ascii4x8_unkown,
      ascii4x8_unkown, ascii4x8_unkown, ascii4x8_unkown, ascii4x8_unkown,
      0b00000000000000000000000000000000, 0b00000100010001000100000001000000,
      0b00001010101000000000000000000000, 0b00001010111010101010111010100000,
      0b00000100111011000110011011000100, 0b00000000101000100100100010100000,
      0b00000100101001001010100001100000, 0b00000000010001000000000000000000,
      0b00000010010001000100010001000010, 0b00001000010001000100010001001000,
      0b00000000010011100100101000000000, 0b00000000000001001110010000000000,
      0b00000000000000000000000001001000, 0b00000000000000001110000000000000,
      0b00000000000000000000000001000000, 0b00000010001001000100010010001000,
      0b00000100101011101010101001000000, 0b00000100110001000100010011100000,
      0b00001100001000100100100011100000, 0b00001100001001000010001011000000,
      0b00000010011010101010111000100000, 0b00001110100011000010001011000000,
      0b00000110100011001010101001000000, 0b00001110001000100100010001000000,
      0b00000100101001001010101001000000, 0b00000100101010100110001011000000,
      0b00000000000001000000000001000000, 0b00000000000001000000000001001000,
      0b00000000001001001000010000100000, 0b00000000000011100000111000000000,
      0b00000000100001000010010010000000, 0b00000100101000100100000001000000,
      0b00000100101011101110100001100000, 0b00000100101010101110101010100000,
      0b00001100101011001010101011000000, 0b00000110100010001000100001100000,
      0b00001100101010101010101011000000, 0b00001110100011101000100011100000,
      0b00001110100011101000100010000000, 0b00000110100010001010101001100000,
      0b00001010101011101010101010100000, 0b00001110010001000100010011100000,
      0b00000010001000100010101001000000, 0b00001010101011001010101010100000,
      0b00001000100010001000100011100000, 0b00001010111011101010101010100000,
      0b00001100101010101010101010100000, 0b00000100101010101010101001000000,
      0b00001100101010101100100010000000, 0b00000100101010101010101001000010,
      0b00001100101010101100101010100000, 0b00000110100001000010001011000000,
      0b00001110010001000100010001000000, 0b00001010101010101010101011100000,
      0b00001010101010101010110010000000, 0b00001010101010101110111010100000,
      0b00001010101001000100101010100000, 0b00001010101010100100010001000000,
      0b00001110001001000100100011100000, 0b00000110010001000100010001000110,
      0b00001000100001000100010000100010, 0b00000110001000100010001000100110,
      0b00000100101000000000000000000000, 0b00000000000000000000000000001110,
      0b00000100001000000000000000000000, 0b00000000000001101010101001100000,
      0b00001000100011001010101011000000, 0b00000000000001101000100001100000,
      0b00000010001001101010101001100000, 0b00000000000001101010110001100000,
      0b00000010010011100100010001000000, 0b00000000000001101010011000101100,
      0b00001000100011001010101010100000, 0b00000100000011000100010011100000,
      0b00000010000011100010001000101100, 0b00001000100010101100101010100000,
      0b00001100010001000100010001100000, 0b00000000000011001110111010100000,
      0b00000000000011001010101010100000, 0b00000000000001001010101001000000,
      0b00000000000011001010101011001000, 0b00000000000001101010101001100010,
      0b00000000000010101100100010000000, 0b00000000000001101100011011000000,
      0b00000000010011100100010000100000, 0b00000000000010101010101001100000,
      0b00000000000010101010110010000000, 0b00000000000010101010111011100000,
      0b00000000000010100100101010100000, 0b00000000000010101010011000101100,
      0b00000000000011100100100011100000, 0b00000010010001001000010001000010,
      0b00000100010001000100010001000100, 0b00001000010001000010010001001000,
      0b00000000000011000110000000000000, ascii4x8_unkown]"

text \<open>
  The value of a \<open>char\<close> as an array index. On the Raspberry Pi \<open>char\<close> is
  unsigned; where it is signed, bytes from 128 on are negative indices, outside
  the font as well.
\<close>

definition char_index :: "char \<Rightarrow> int" where
  "char_index c = of_char c"

record ascii4x8 = simple_alpha_group + char_m :: char

definition Ascii4x8 :: "char \<Rightarrow> LedColor \<Rightarrow> LedColor \<Rightarrow> ascii4x8" where
  "Ascii4x8 ch c b = \<lparr>color = c, back_color = b, char_m = ch\<rparr>"

definition Ascii4x8_led :: "int \<Rightarrow> int \<Rightarrow> 'a ascii4x8_scheme \<Rightarrow> LedColor result" where
  "Ascii4x8_led x y g =
     (if 0 \<le> char_index (char_m g) \<and> char_index (char_m g) < int (length ascii4x8font) \<and>
         0 \<le> x \<and> x < 4 \<and> 0 \<le> y \<and> y < 8
      then rbind (vec_at ascii4x8font (char_index (char_m g))) (\<lambda>font. Inr (ink font (y * 4 + 3 - x) g))
      else Inl (Throw (Out_Of_Range ''Ascii4x8::led'')))"

definition Ascii4x8_source :: "'a ascii4x8_scheme \<Rightarrow> 's IPaintSource" where
  "Ascii4x8_source g =
     \<lparr>width = (\<lambda>_. 4), height = (\<lambda>_. 8), led = (\<lambda>x y _. Ascii4x8_led x y g)\<rparr>"

section \<open>Numbers\<close>

record digit_group3x5 = simple_alpha_group +
  digits_m :: int
  digits_width_m :: int

text \<open>\<open>while (digits != 0) { digits_width_++; digits /= 10; }\<close>\<close>

function count_digits :: "int \<Rightarrow> int \<Rightarrow> int" where
  "count_digits digits w = (if digits \<noteq> 0 then count_digits (digits sdiv 10) (w + 1) else w)"
  by pat_completeness auto
termination
  by (relation "measure (\<lambda>(digits, w). nat \<bar>digits\<bar>)")
    (auto simp: signed_divide_int_def abs_mult zabs_def sgn_if)

declare count_digits.simps [simp del]

definition set_digits :: "int \<Rightarrow> 'a digit_group3x5_scheme \<Rightarrow> 'a digit_group3x5_scheme result" where
  "set_digits digits g =
     rbind (if digits < 0 then c_neg digits else Inr digits) (\<lambda>digits.
       Inr (g\<lparr>digits_m := digits, digits_width_m := count_digits digits 0\<rparr>))"

definition DigitGroup3x5 :: "int \<Rightarrow> LedColor \<Rightarrow> LedColor \<Rightarrow> digit_group3x5 result" where
  "DigitGroup3x5 digits c b =
     set_digits digits \<lparr>color = c, back_color = b, digits_m = 0, digits_width_m = 0\<rparr>"

definition DigitGroup3x5_width :: "'a digit_group3x5_scheme \<Rightarrow> int" where
  "DigitGroup3x5_width g = digits_width_m g * 3"

definition DigitGroup3x5_height :: "'a digit_group3x5_scheme \<Rightarrow> int" where
  "DigitGroup3x5_height g = 5"

text \<open>\<open>std::pow(10, n)\<close> is exact for the exponents 0 to 9 that occur here.\<close>

definition DigitGroup3x5_led :: "int \<Rightarrow> int \<Rightarrow> 'a digit_group3x5_scheme \<Rightarrow> LedColor result" where
  "DigitGroup3x5_led x y g =
     (if 0 \<le> x \<and> x < DigitGroup3x5_width g \<and> 0 \<le> y \<and> y < DigitGroup3x5_height g
      then
        (let digit = (digits_m g sdiv 10 ^ nat (digits_width_m g - x sdiv 3 - 1)) smod 10
         in rbind (vec_at digit3x5font digit) (\<lambda>font.
              Inr (ink (ucast font) (y * 3 + 2 - x smod 3) g)))
      else Inl (Throw (Out_Of_Range ''DigitGroup3x5::led'')))"

definition DigitGroup3x5_source :: "'a digit_group3x5_scheme \<Rightarrow> 's IPaintSource" where
  "DigitGroup3x5_source g =
     \<lparr>width = (\<lambda>_. DigitGroup3x5_width g), height = (\<lambda>_. DigitGroup3x5_height g),
      led = (\<lambda>x y _. DigitGroup3x5_led x y g)\<rparr>"

section \<open>Texts\<close>

record text4x8 = simple_alpha_group + text_m :: string

definition Text4x8 :: "string \<Rightarrow> LedColor \<Rightarrow> LedColor \<Rightarrow> text4x8" where
  "Text4x8 s c b = \<lparr>color = c, back_color = b, text_m = s\<rparr>"

definition Text4x8_width :: "'a text4x8_scheme \<Rightarrow> int" where
  "Text4x8_width t = narrow_int32 (int (length (text_m t)) * 4)"

definition Text4x8_height :: "'a text4x8_scheme \<Rightarrow> int" where
  "Text4x8_height t = 8"

definition Text4x8_led :: "int \<Rightarrow> int \<Rightarrow> 'a text4x8_scheme \<Rightarrow> LedColor result" where
  "Text4x8_led x y t =
     (if 0 \<le> x \<and> x < Text4x8_width t \<and> 0 \<le> y \<and> y < Text4x8_height t
      then rbind (vec_at (text_m t) (x sdiv 4)) (\<lambda>c.
           rbind (vec_at ascii4x8font (char_index c)) (\<lambda>font.
             Inr (ink font (y * 4 + 3 - x smod 4) t)))
      else Inl (Throw (Out_Of_Range ''Text4x8::led'')))"

definition Text4x8_source :: "'a text4x8_scheme \<Rightarrow> 's IPaintSource" where
  "Text4x8_source t =
     \<lparr>width = (\<lambda>_. Text4x8_width t), height = (\<lambda>_. Text4x8_height t),
      led = (\<lambda>x y _. Text4x8_led x y t)\<rparr>"

text \<open>The user-defined literals \<open>_d\<close>: a text, and a number narrowed to \<open>int\<close>.\<close>

definition literal_text :: "string \<Rightarrow> text4x8" where
  "literal_text s = Text4x8 s Led_White Led_Black"

definition literal_number :: "64 word \<Rightarrow> digit_group3x5 result" where
  "literal_number digits = DigitGroup3x5 (narrow_int32 (uint digits)) Led_White Led_Black"

section \<open>Fonts\<close>

lemma length_fonts [simp]: "length digit3x5font = 10" "length ascii4x8font = 128"
  by (simp_all add: digit3x5font_def ascii4x8font_def)

lemma ink_bit: "ink font k g = (if bit font (nat k) then color g else back_color g)"
  by (simp add: ink_def bit_iff_and_push_bit_not_eq_0)

lemma glyph_determined:
  fixes f f' :: "32 word"
  assumes "color g \<noteq> back_color g"
    and "\<And>k. 0 \<le> k \<Longrightarrow> k < 32 \<Longrightarrow> ink f k g = ink f' k g"
  shows "f = f'"
proof (rule bit_word_eqI)
  fix n assume "n < LENGTH(32)"
  then have "ink f (int n) g = ink f' (int n) g" by (intro assms(2)) auto
  with assms(1) show "bit f n = bit f' n" by (auto simp: ink_bit split: if_splits)
qed

lemma digits_distinct: "distinct (map (\<lambda>f. ucast f :: 32 word) digit3x5font)"
  by (simp add: digit3x5font_def)

lemma printable_glyphs_distinct: "distinct (map uint (take 95 (drop 32 ascii4x8font)))"
  by (simp add: ascii4x8font_def)

definition printable :: "char \<Rightarrow> bool" where
  "printable c \<longleftrightarrow> 32 \<le> char_index c \<and> char_index c < 127"

lemma printable_glyph_inj:
  assumes "printable a" "printable b"
    and "ascii4x8font ! nat (char_index a) = ascii4x8font ! nat (char_index b)"
  shows "a = b"
proof -
  let ?g = "take 95 (drop 32 ascii4x8font)"
  define i j where "i = nat (char_index a) - 32" and "j = nat (char_index b) - 32"
  have ij: "i < 95" "j < 95" "nat (char_index a) = 32 + i" "nat (char_index b) = 32 + j"
    using assms by (auto simp: printable_def i_def j_def)
  then have "?g ! i = ?g ! j" using assms(3) by simp
  moreover have "distinct ?g" using printable_glyphs_distinct by (simp add: distinct_map)
  ultimately have "i = j"
    using ij nth_eq_iff_index_eq [of "take 95 (drop 32 ascii4x8font)" i j] by simp
  with ij assms have "char_index a = char_index b" by (auto simp: printable_def)
  then show ?thesis by (simp add: char_index_def)
qed

section \<open>Texts on the display\<close>

definition ascii :: "char \<Rightarrow> bool" where
  "ascii c \<longleftrightarrow> char_index c < 128"

text \<open>What a text shows at a point: a bit of the glyph of the character there.\<close>

definition text_color :: "'a text4x8_scheme \<Rightarrow> int \<Rightarrow> int \<Rightarrow> LedColor" where
  "text_color t x y =
     ink (ascii4x8font ! nat (char_index (text_m t ! nat (x div 4)))) (y * 4 + 3 - x mod 4) t"

lemma char_index_nonneg [simp]: "0 \<le> char_index c"
  unfolding char_index_def by (metis of_nat_0_le_iff of_nat_of_char)

lemma Text4x8_width_fits: "int (length (text_m t)) * 4 \<le> int_max \<Longrightarrow>
    Text4x8_width t = int (length (text_m t)) * 4"
  by (simp add: Text4x8_width_def narrow_int32_id is_int32_def int_min_def)

lemma Text4x8_led_column:
  assumes fits: "int (length (text_m t)) * 4 \<le> int_max"
    and x: "0 \<le> x" "x < Text4x8_width t" and y: "0 \<le> y" "y < 8"
  shows "Text4x8_led x y t =
    (let c = text_m t ! nat (x div 4)
     in if ascii c then Inr (text_color t x y) else Inl (UB Out_Of_Bounds))"
proof -
  have "x div 4 < int (length (text_m t))" "0 \<le> x div 4"
    using x by (simp_all add: Text4x8_width_fits [OF fits])
  then show ?thesis
    using x y by (simp add: Text4x8_led_def Text4x8_height_def sdiv_nonneg smod_nonneg vec_at_def
        ascii_def text_color_def Let_def)
qed

lemma Text4x8_steady:
  assumes fits: "int (length (text_m t)) * 4 \<le> int_max" and "\<forall>c \<in> set (text_m t). ascii c"
  shows "steady_source ok (Text4x8_source t) (int (length (text_m t)) * 4) 8 (text_color t)"
proof -
  have "Text4x8_led x y t = Inr (text_color t x y)"
    if "in_rect (int (length (text_m t)) * 4) 8 x y" for x y
  proof -
    from that have "nat (x div 4) < length (text_m t)" by (auto simp: in_rect_def)
    then have "ascii (text_m t ! nat (x div 4))" using assms(2) by simp
    then show ?thesis
      using that Text4x8_led_column [OF fits, of x y]
      by (simp add: in_rect_def Text4x8_width_fits [OF fits] Let_def)
  qed
  then show ?thesis
    by (simp add: steady_source_def Text4x8_source_def Text4x8_width_fits [OF fits] Text4x8_height_def)
qed

lemma Text4x8_cell:
  assumes fits: "int (length (text_m t)) * 4 \<le> int_max"
    and i: "i < length (text_m t)" "ascii (text_m t ! i)" and c: "0 \<le> c" "c < 4" and y: "0 \<le> y" "y < 8"
  shows "Text4x8_led (int i * 4 + c) y t =
    Inr (ink (ascii4x8font ! nat (char_index (text_m t ! i))) (y * 4 + 3 - c) t)"
proof -
  have "(int i * 4 + c) div 4 = int i" "(int i * 4 + c) mod 4 = c" using c by simp_all
  then show ?thesis
    using i c y Text4x8_led_column [OF fits, of "int i * 4 + c" y]
    by (simp add: Text4x8_width_fits [OF fits] text_color_def Let_def)
qed

text \<open>A glyph in a text is the glyph that \<open>Ascii4x8\<close> shows.\<close>

lemma Text4x8_is_Ascii4x8:
  assumes "int (length (text_m t)) * 4 \<le> int_max"
    and "i < length (text_m t)" "ascii (text_m t ! i)" and "0 \<le> c" "c < 4" and "0 \<le> y" "y < 8"
  shows "Text4x8_led (int i * 4 + c) y t =
    Ascii4x8_led c y \<lparr>color = color t, back_color = back_color t, char_m = text_m t ! i\<rparr>"
  using assms Text4x8_cell [OF assms]
  by (simp add: Ascii4x8_led_def ascii_def vec_at_def ink_def)

lemma bit_position:
  fixes k :: int
  assumes "0 \<le> k" "k < 32"
  obtains c y where "0 \<le> c" "c < 4" "0 \<le> y" "y < 8" "y * 4 + 3 - c = k"
  using assms by (intro that [of "3 - k mod 4" "k div 4"]) auto

lemma Ascii4x8_from_128:
  "128 \<le> char_index ch \<Longrightarrow>
   Ascii4x8_led u v (Ascii4x8 ch k k') = Inl (Throw (Out_Of_Range ''Ascii4x8::led''))"
  by (simp add: Ascii4x8_led_def Ascii4x8_def)

text \<open>Printable texts of the same color that look alike are equal.\<close>

lemma Text4x8_legible:
  assumes c: "c \<noteq> b" and s: "\<forall>a \<in> set s. printable a" "\<forall>a \<in> set s'. printable a"
    and fits: "int (length s) * 4 \<le> int_max" "int (length s') * 4 \<le> int_max"
    and same: "\<And>x y. Text4x8_led x y (Text4x8 s c b) = Text4x8_led x y (Text4x8 s' c b)"
  shows "s = s'"
proof (rule nth_equalityI)
  have le: "length u \<le> length v"
    if "int (length u) * 4 \<le> int_max" "int (length v) * 4 \<le> int_max"
      and uv: "\<And>x y. Text4x8_led x y (Text4x8 u c b) = Text4x8_led x y (Text4x8 v c b)"
      and u: "\<forall>a \<in> set u. printable a" for u v
  proof (rule ccontr)
    assume n: "\<not> length u \<le> length v"
    let ?x = "int (length v) * 4"
    from n have "printable (u ! length v)" using u by simp
    then have "\<exists>a. Text4x8_led ?x 0 (Text4x8 u c b) = Inr a"
      using n that(1) Text4x8_cell [of "Text4x8 u c b" "length v" 0 0]
      by (auto simp: Text4x8_def printable_def ascii_def)
    moreover have "Text4x8_led ?x 0 (Text4x8 v c b) = Inl (Throw (Out_Of_Range ''Text4x8::led''))"
      using that(2) Text4x8_width_fits [of "Text4x8 v c b"] by (simp add: Text4x8_led_def Text4x8_def)
    ultimately show False using uv by simp
  qed
  show len: "length s = length s'"
    using le [OF fits same s(1)] le [OF fits(2,1) same [symmetric] s(2)] by simp
  fix i assume i: "i < length s"
  have pr: "printable (s ! i)" "printable (s' ! i)" using s i len by auto
  let ?g = "\<lambda>u. ascii4x8font ! nat (char_index (u ! i))"
  have "?g s = ?g s'"
  proof (rule glyph_determined [of "Text4x8 s c b"])
    show "color (Text4x8 s c b) \<noteq> back_color (Text4x8 s c b)" using c by (simp add: Text4x8_def)
    fix k :: int assume "0 \<le> k" "k < 32"
    then obtain d y where k: "0 \<le> d" "d < 4" "0 \<le> y" "y < 8" "y * 4 + 3 - d = k"
      by (rule bit_position)
    show "ink (?g s) k (Text4x8 s c b) = ink (?g s') k (Text4x8 s c b)"
      using same [of "int i * 4 + d" y] i len pr fits k
        Text4x8_cell [of "Text4x8 s c b" i d y] Text4x8_cell [of "Text4x8 s' c b" i d y]
      by (simp add: Text4x8_def printable_def ascii_def ink_def)
  qed
  then show "s ! i = s' ! i" by (rule printable_glyph_inj [OF pr])
qed

section \<open>Numbers on the display\<close>

lemma sdiv_10_smaller: "n \<noteq> 0 \<Longrightarrow> nat \<bar>n sdiv 10\<bar> < nat \<bar>n::int\<bar>"
  by (auto simp: signed_divide_int_def abs_mult zabs_def sgn_if)

lemma count_digits_shift: "count_digits n k = count_digits n 0 + k"
proof (induction "nat \<bar>n\<bar>" arbitrary: n k rule: less_induct)
  case less
  show ?case
  proof (cases "n = 0")
    case True
    then show ?thesis by (simp add: count_digits.simps)
  next
    case False
    from less [OF sdiv_10_smaller [OF False]] have
      "count_digits (n sdiv 10) (k + 1) = count_digits (n sdiv 10) 0 + (k + 1)"
      "count_digits (n sdiv 10) 1 = count_digits (n sdiv 10) 0 + 1" by blast+
    with False show ?thesis by (simp add: count_digits.simps [of n])
  qed
qed

lemma count_digits_0 [simp]: "count_digits 0 0 = 0"
  by (simp add: count_digits.simps)

lemma count_digits_step: "0 < n \<Longrightarrow> count_digits n 0 = count_digits (n div 10) 0 + 1"
  using count_digits.simps [of n 0] count_digits_shift [of "n div 10" 1] by (simp add: sdiv_nonneg)

text \<open>The decimal digits a group shows, most significant first.\<close>

definition shown_digits :: "int \<Rightarrow> int list" where
  "shown_digits n = (let w = nat (count_digits n 0) in map (\<lambda>i. n div 10 ^ (w - i - 1) mod 10) [0..<w])"

lemma count_digits_nonneg: "0 \<le> count_digits n 0"
proof (induction "nat \<bar>n\<bar>" arbitrary: n rule: less_induct)
  case less
  show ?case
    using less [OF sdiv_10_smaller] count_digits.simps [of n 0] count_digits_shift [of "n sdiv 10" 1]
    by (cases "n = 0") auto
qed

lemma shown_digits_0 [simp]: "shown_digits 0 = []"
  by (simp add: shown_digits_def)

lemma length_shown_digits: "length (shown_digits n) = nat (count_digits n 0)"
  by (simp add: shown_digits_def Let_def)

lemma shown_digits_step: "0 < n \<Longrightarrow> shown_digits n = shown_digits (n div 10) @ [n mod 10]"
proof -
  assume n: "0 < n"
  let ?w = "nat (count_digits (n div 10) 0)"
  have w: "nat (count_digits n 0) = Suc ?w"
    using count_digits_step [OF n] count_digits_nonneg [of "n div 10"] by simp
  have "n div 10 ^ (Suc ?w - i - 1) = n div 10 div 10 ^ (?w - i - 1)" if "i < ?w" for i
  proof -
    have "Suc ?w - i - 1 = Suc (?w - i - 1)" using that by simp
    then show ?thesis by (simp add: zdiv_zmult2_eq)
  qed
  then show ?thesis by (simp add: shown_digits_def Let_def w)
qed

lemma shown_digits_range: "d \<in> set (shown_digits n) \<Longrightarrow> 0 \<le> d \<and> d < 10"
  by (auto simp: shown_digits_def Let_def)

text \<open>Read as a decimal numeral, they give the number back.\<close>

definition decimal_value :: "int list \<Rightarrow> int" where
  "decimal_value ds = foldl (\<lambda>v d. v * 10 + d) 0 ds"

lemma decimal_value_shown: "0 \<le> n \<Longrightarrow> decimal_value (shown_digits n) = n"
proof (induction "nat n" arbitrary: n rule: less_induct)
  case less
  show ?case
  proof (cases "n = 0")
    case False
    with less have "decimal_value (shown_digits (n div 10)) = n div 10" by simp
    with False less.prems show ?thesis
      by (simp add: shown_digits_step decimal_value_def)
  qed (simp add: decimal_value_def)
qed

lemma shown_digits_no_leading_zero: "0 < n \<Longrightarrow> hd (shown_digits n) \<noteq> 0 \<and> shown_digits n \<noteq> []"
proof (induction "nat n" arbitrary: n rule: less_induct)
  case less
  show ?case
  proof (cases "n div 10 = 0")
    case True
    then have "n mod 10 = n" using less.prems by (simp add: zdiv_eq_0_iff)
    with True less.prems show ?thesis by (simp add: shown_digits_step)
  next
    case False
    with less.prems have "nat (n div 10) < nat n" "0 < n div 10" by auto
    from less.hyps [OF this] show ?thesis
      using less.prems by (simp add: shown_digits_step hd_append)
  qed
qed

definition group_ok :: "'a digit_group3x5_scheme \<Rightarrow> bool" where
  "group_ok g \<longleftrightarrow> 0 \<le> digits_m g \<and> digits_width_m g = count_digits (digits_m g) 0"

lemma DigitGroup3x5_led_cell:
  assumes g: "group_ok g" and i: "i < length (shown_digits (digits_m g))"
    and c: "0 \<le> c" "c < 3" and y: "0 \<le> y" "y < 5"
  shows "DigitGroup3x5_led (int i * 3 + c) y g =
    Inr (ink (ucast (digit3x5font ! nat (shown_digits (digits_m g) ! i))) (y * 3 + 2 - c) g)"
proof -
  let ?n = "digits_m g" and ?w = "nat (count_digits (digits_m g) 0)"
  have i': "i < ?w" using i by (simp add: length_shown_digits)
  have x: "(int i * 3 + c) sdiv 3 = int i" "(int i * 3 + c) smod 3 = c"
    "int i * 3 + c < DigitGroup3x5_width g"
    using c i' g by (auto simp: sdiv_nonneg smod_nonneg DigitGroup3x5_width_def group_ok_def)
  have e: "nat (digits_width_m g - int i - 1) = ?w - i - 1"
    using g by (simp add: group_ok_def nat_diff_distrib')
  have "(?n sdiv 10 ^ (?w - i - 1)) smod 10 = shown_digits ?n ! i"
    using g i' by (simp add: shown_digits_def Let_def group_ok_def sdiv_nonneg smod_nonneg
        pos_imp_zdiv_nonneg_iff)
  moreover have "0 \<le> shown_digits ?n ! i" "shown_digits ?n ! i < 10"
    using shown_digits_range [of "shown_digits ?n ! i" ?n] i by simp_all
  ultimately show ?thesis
    using x y c by (simp add: DigitGroup3x5_led_def DigitGroup3x5_height_def Let_def e vec_at_def)
qed

text \<open>A digit of a group is the digit that \<open>Digit3x5\<close> shows.\<close>

lemma DigitGroup3x5_is_Digit3x5:
  assumes "group_ok g" and "i < length (shown_digits (digits_m g))"
    and "0 \<le> c" "c < 3" and "0 \<le> y" "y < 5"
  shows "DigitGroup3x5_led (int i * 3 + c) y g =
    Digit3x5_led c y \<lparr>color = color g, back_color = back_color g,
                      digit_m = shown_digits (digits_m g) ! i\<rparr>"
  using assms shown_digits_range [of "shown_digits (digits_m g) ! i" "digits_m g"]
    DigitGroup3x5_led_cell [OF assms]
  by (simp add: Digit3x5_led_def vec_at_def ink_def)

lemma DigitGroup3x5_new:
  assumes "is_int32 n" "n \<noteq> int_min"
  shows "DigitGroup3x5 n c b = Inr \<lparr>color = c, back_color = b, digits_m = \<bar>n\<bar>,
           digits_width_m = count_digits \<bar>n\<bar> 0\<rparr>"
  using assms by (auto simp: DigitGroup3x5_def set_digits_def c_neg_def c_int_def is_int32_def
      int_min_def int_max_def)

lemma DigitGroup3x5_ok: "DigitGroup3x5 n c b = Inr g \<Longrightarrow> group_ok g \<and> color g = c \<and> back_color g = b"
  by (auto simp: DigitGroup3x5_def set_digits_def group_ok_def c_neg_def c_int_def split: if_splits)

lemma count_digits_le: "0 \<le> n \<Longrightarrow> n < 10 ^ k \<Longrightarrow> count_digits n 0 \<le> int k"
proof (induction k arbitrary: n)
  case 0
  then have "n = 0" by simp
  then show ?case by simp
next
  case (Suc k)
  show ?case
  proof (cases "n = 0")
    case False
    with Suc.prems have "count_digits (n div 10) 0 \<le> int k" by (intro Suc.IH) auto
    with False Suc.prems show ?thesis by (simp add: count_digits_step)
  qed simp
qed

lemma digits_width_bound: "0 \<le> n \<Longrightarrow> n \<le> int_max \<Longrightarrow> count_digits n 0 \<le> 10"
  using count_digits_le [of n 10] by (simp add: int_max_def)

text \<open>What a number shows at a point.\<close>

definition number_color :: "'a digit_group3x5_scheme \<Rightarrow> int \<Rightarrow> int \<Rightarrow> LedColor" where
  "number_color g x y =
     ink (ucast (digit3x5font ! nat (shown_digits (digits_m g) ! nat (x div 3)))) (y * 3 + 2 - x mod 3) g"

lemma DigitGroup3x5_steady:
  assumes "group_ok g"
  shows "steady_source ok (DigitGroup3x5_source g) (DigitGroup3x5_width g) 5 (number_color g)"
proof -
  have "DigitGroup3x5_led x y g = Inr (number_color g x y)"
    if "in_rect (DigitGroup3x5_width g) 5 x y" for x y
  proof -
    have "nat (x div 3) < length (shown_digits (digits_m g))"
      using that assms by (auto simp: in_rect_def DigitGroup3x5_width_def group_ok_def length_shown_digits)
    moreover have "int (nat (x div 3)) * 3 + x mod 3 = x" using that by (simp add: in_rect_def)
    ultimately show ?thesis
      using DigitGroup3x5_led_cell [OF assms, of "nat (x div 3)" "x mod 3" y] that
      by (simp add: in_rect_def number_color_def)
  qed
  moreover have "0 \<le> DigitGroup3x5_width g"
    using assms count_digits_nonneg by (simp add: DigitGroup3x5_width_def group_ok_def)
  ultimately show ?thesis
    by (simp add: steady_source_def DigitGroup3x5_source_def DigitGroup3x5_height_def)
qed

lemma digit_glyphs_distinct: "distinct (map uint digit3x5font)"
  by (simp add: digit3x5font_def)

lemma digit_glyphs_15_bits: "map (take_bit 15) digit3x5font = digit3x5font"
  by (simp add: digit3x5font_def)

lemma digit_glyph_inj:
  fixes g :: "'a simple_alpha_group_scheme"
  assumes d: "0 \<le> d" "d < 10" "0 \<le> e" "e < 10" and g: "color g \<noteq> back_color g"
    and same: "\<And>c y. 0 \<le> c \<Longrightarrow> c < 3 \<Longrightarrow> 0 \<le> y \<Longrightarrow> y < 5 \<Longrightarrow>
      ink (ucast (digit3x5font ! nat d)) (y * 3 + 2 - c) g = ink (ucast (digit3x5font ! nat e)) (y * 3 + 2 - c) g"
  shows "d = e"
proof -
  let ?f = "\<lambda>d. digit3x5font ! nat d"
  have low: "take_bit 15 (?f a) = ?f a" if "0 \<le> a" "a < 10" for a
    using arg_cong [OF digit_glyphs_15_bits, of "\<lambda>l. l ! nat a"] that by simp
  have "bit (?f d) k = bit (?f e) k" if "k < 15" for k
  proof -
    have "ink (ucast (?f d)) (int (k div 3) * 3 + 2 - (2 - int (k mod 3))) g =
          ink (ucast (?f e)) (int (k div 3) * 3 + 2 - (2 - int (k mod 3))) g"
      using that by (intro same) auto
    moreover have "int (k div 3) * 3 + 2 - (2 - int (k mod 3)) = int k"
      by (simp flip: of_nat_add of_nat_mult add: zdiv_int zmod_int)
    ultimately show ?thesis using g that
      by (auto simp: ink_bit bit_ucast_iff split: if_splits)
  qed
  then have "take_bit 15 (?f d) = take_bit 15 (?f e)"
    by (auto simp: bit_eq_iff bit_take_bit_iff)
  then have "?f d = ?f e" using low d by simp
  moreover have "distinct digit3x5font" using digit_glyphs_distinct by (simp add: distinct_map)
  ultimately have "nat d = nat e" using d nth_eq_iff_index_eq [of digit3x5font "nat d" "nat e"] by simp
  with d show ?thesis by simp
qed

text \<open>Numbers of the same color that look alike have the same digits.\<close>

lemma DigitGroup3x5_legible:
  fixes g g' :: "'c digit_group3x5_scheme"
  assumes g: "group_ok g" "group_ok g'" and col: "color g \<noteq> back_color g"
      "color g' = color g" "back_color g' = back_color g"
    and same: "\<And>x y. DigitGroup3x5_led x y g = DigitGroup3x5_led x y g'"
  shows "digits_m g = digits_m g'"
proof -
  let ?d = "\<lambda>g. shown_digits (digits_m g)"
  have le: "length (?d u) \<le> length (?d v)"
    if "group_ok u" "group_ok v" and uv: "\<And>x y. DigitGroup3x5_led x y u = DigitGroup3x5_led x y v"
    for u v :: "'c digit_group3x5_scheme"
  proof (rule ccontr)
    assume "\<not> length (?d u) \<le> length (?d v)"
    then have "\<exists>c. DigitGroup3x5_led (int (length (?d v)) * 3 + 0) 0 u = Inr c"
      using DigitGroup3x5_led_cell [OF that(1), of "length (?d v)" 0 0] by auto
    moreover have "DigitGroup3x5_led (int (length (?d v)) * 3 + 0) 0 v =
        Inl (Throw (Out_Of_Range ''DigitGroup3x5::led''))"
      using that(2) count_digits_nonneg
      by (simp add: DigitGroup3x5_led_def DigitGroup3x5_width_def group_ok_def length_shown_digits)
    ultimately show False using uv by simp
  qed
  have "?d g = ?d g'"
  proof (rule nth_equalityI)
    show len: "length (?d g) = length (?d g')"
      using le [OF g same] le [OF g(2,1) same [symmetric]] by simp
    fix i assume i: "i < length (?d g)"
    have r: "0 \<le> ?d h ! i" "?d h ! i < 10" if "i < length (?d h)" for h :: "'c digit_group3x5_scheme"
      using shown_digits_range [of "?d h ! i" "digits_m h"] that by simp_all
    show "?d g ! i = ?d g' ! i"
    proof (rule digit_glyph_inj [OF _ _ _ _ col(1)])
      fix c y :: int assume cy: "0 \<le> c" "c < 3" "0 \<le> y" "y < 5"
      let ?ink = "\<lambda>u. ink (ucast (digit3x5font ! nat (?d u ! i))) (y * 3 + 2 - c)"
      have i': "i < length (?d g')" using i len by simp
      have "Inr (?ink g g) = (Inr (?ink g' g') :: LedColor result)"
        by (rule trans [OF DigitGroup3x5_led_cell [OF g(1) i cy, symmetric]
              trans [OF same DigitGroup3x5_led_cell [OF g(2) i' cy]]])
      moreover have "ink f k g' = ink f k g" for f k by (simp only: ink_def col(2,3))
      ultimately show "?ink g g = ?ink g' g" by (simp only: Inr_inject)
    qed (use r [of g] r [of g'] i len in simp_all)
  qed
  moreover have "0 \<le> digits_m g" "0 \<le> digits_m g'" using g by (simp_all add: group_ok_def)
  ultimately show ?thesis by (metis decimal_value_shown)
qed

end
