(* ===== verification/Text_Properties.thy ===== *)
theory Text_Properties
  imports Display_Properties Glyphs
begin

text \<open>
  Properties of the texts and numbers of \<open>src/inc/render.hpp\<close>: what they look
  like, that different ones look different, and where they fail.
\<close>

text \<open>C24: a pixel of a text (short enough that its width fits an \<open>int\<close>) is the pixel of
  its character's glyph, as \<open>Ascii4x8\<close> shows that character alone; off the text it throws. For a byte
  from 128 on \<open>Ascii4x8\<close> throws at every point, but the text reads past the font table.\<close>

theorem text_glyphs:
  assumes "int (length (text_m t)) * 4 \<le> int_max"
  shows "Text4x8_led x y t =
    (if in_rect (int (length (text_m t)) * 4) 8 x y
     then (let ch = text_m t ! nat (x div 4)
           in if char_index ch < 128
              then Ascii4x8_led (x mod 4) y \<lparr>color = color t, back_color = back_color t, char_m = ch\<rparr>
              else Inl (UB Out_Of_Bounds))
     else Inl (Throw (Out_Of_Range ''Text4x8::led''))) \<and>
    (\<forall>ch u v k k'. 128 \<le> char_index ch \<longrightarrow>
       Ascii4x8_led u v (Ascii4x8 ch k k') = Inl (Throw (Out_Of_Range ''Ascii4x8::led'')))"
proof (cases "in_rect (int (length (text_m t)) * 4) 8 x y")
  case True
  then have r: "0 \<le> x" "x < Text4x8_width t" "0 \<le> y" "y < 8"
    by (simp_all add: in_rect_def Text4x8_width_fits [OF assms])
  have i: "nat (x div 4) < length (text_m t)" "int (nat (x div 4)) * 4 + x mod 4 = x"
    using True by (auto simp: in_rect_def)
  from Text4x8_led_column [OF assms r] Text4x8_is_Ascii4x8 [OF assms i(1), of "x mod 4" y] i(2) r True
  show ?thesis by (auto simp: Let_def ascii_def Ascii4x8_from_128)
next
  case False
  then show ?thesis
    by (auto simp: Text4x8_led_def in_rect_def Text4x8_width_fits [OF assms] Text4x8_height_def Ascii4x8_from_128)
qed

lemma text_glyphs_witness:
  "Text4x8_led 5 3 (Text4x8 [CHR ''A'', CHR 0xC8] 1 0) = Inl (UB Out_Of_Bounds) \<and>
   Text4x8_led 1 3 (Text4x8 [CHR ''A'', CHR 0xC8] 1 0) =
     Ascii4x8_led 1 3 \<lparr>color = 1, back_color = 0, char_m = CHR ''A''\<rparr> \<and>
   Ascii4x8_led 1 3 (Ascii4x8 (CHR 0xC8) 1 0) = Inl (Throw (Out_Of_Range ''Ascii4x8::led''))"
  using text_glyphs [of "Text4x8 [CHR ''A'', CHR 0xC8] 1 0" 5 3]
    text_glyphs [of "Text4x8 [CHR ''A'', CHR 0xC8] 1 0" 1 3]
  by (simp add: Text4x8_def in_rect_def int_max_def char_index_def)

text \<open>C12: two different printable texts, short enough that their widths fit an \<open>int\<close>,
  in the same two different colors differ in some pixel.\<close>

theorem text_legible:
  assumes "c \<noteq> b" and "list_all printable s" "list_all printable s'" and "s \<noteq> s'"
    and "int (length s) * 4 \<le> int_max" "int (length s') * 4 \<le> int_max"
  shows "\<exists>x y. Text4x8_led x y (Text4x8 s c b) \<noteq> Text4x8_led x y (Text4x8 s' c b)"
  using Text4x8_legible [OF assms(1) _ _ assms(5,6)] assms(2-4) by (auto simp: list_all_iff)

lemma text_legible_witness:
  "\<exists>x y. Text4x8_led x y (Text4x8 ''Oh'' 1 0) \<noteq> Text4x8_led x y (Text4x8 ''0h'' 1 0)"
  using text_legible [of 1 0 "''Oh''" "''0h''"] by (simp add: printable_def char_index_def int_max_def)

text \<open>C13: a number (any but the smallest \<open>int\<close>) shows its absolute value in decimal, without leading
  zeros: column block \<open>i\<close> is the glyph of digit \<open>i\<close> as \<open>Digit3x5\<close> shows it, and the
  width is three columns per digit. Zero has no digits and no width.\<close>

theorem number_digits:
  assumes "is_int32 n" and "n \<noteq> int_min"
  shows "\<exists>g ds. DigitGroup3x5 n c b = Inr g \<and> DigitGroup3x5_width g = 3 * int (length ds) \<and>
     decimal_value ds = \<bar>n\<bar> \<and> (n \<noteq> 0 \<longrightarrow> hd ds \<noteq> 0) \<and> (n = 0 \<longrightarrow> ds = []) \<and>
     (\<forall>x y. DigitGroup3x5_led x y g =
        (if in_rect (3 * int (length ds)) 5 x y
         then Digit3x5_led (x mod 3) y \<lparr>color = c, back_color = b, digit_m = ds ! nat (x div 3)\<rparr>
         else Inl (Throw (Out_Of_Range ''DigitGroup3x5::led''))))"
proof -
  let ?g = "\<lparr>color = c, back_color = b, digits_m = \<bar>n\<bar>, digits_width_m = count_digits \<bar>n\<bar> 0\<rparr>"
  let ?ds = "shown_digits \<bar>n\<bar>"
  have new: "DigitGroup3x5 n c b = Inr ?g" by (rule DigitGroup3x5_new [OF assms])
  have g: "group_ok ?g" using DigitGroup3x5_ok [OF new] by simp
  have width: "DigitGroup3x5_width ?g = 3 * int (length ?ds)"
    using count_digits_nonneg by (simp add: DigitGroup3x5_width_def length_shown_digits)
  have "DigitGroup3x5_led x y ?g =
        (if in_rect (3 * int (length ?ds)) 5 x y
         then Digit3x5_led (x mod 3) y \<lparr>color = c, back_color = b, digit_m = ?ds ! nat (x div 3)\<rparr>
         else Inl (Throw (Out_Of_Range ''DigitGroup3x5::led'')))" for x y
  proof (cases "in_rect (3 * int (length ?ds)) 5 x y")
    case True
    then have "nat (x div 3) < length ?ds" "int (nat (x div 3)) * 3 + x mod 3 = x"
      by (auto simp: in_rect_def)
    with DigitGroup3x5_is_Digit3x5 [OF g, of "nat (x div 3)" "x mod 3" y] True show ?thesis
      by (simp add: in_rect_def)
  next
    case False
    then show ?thesis
      using width by (auto simp: DigitGroup3x5_led_def in_rect_def DigitGroup3x5_height_def)
  qed
  moreover have "decimal_value ?ds = \<bar>n\<bar>" by (rule decimal_value_shown) simp
  moreover have "n \<noteq> 0 \<Longrightarrow> hd ?ds \<noteq> 0" using shown_digits_no_leading_zero [of "\<bar>n\<bar>"] by simp
  moreover have "n = 0 \<Longrightarrow> ?ds = []" by simp
  ultimately show ?thesis using new width by blast
qed

lemma number_digits_witness:
  "\<exists>g ds. DigitGroup3x5 (- 407) 1 0 = Inr g \<and> decimal_value ds = 407 \<and>
     DigitGroup3x5_width g = 3 * int (length ds)"
  using number_digits [of "- 407" 1 0] by (auto simp: is_int32_def int_min_def int_max_def)

text \<open>C28: two numbers of different absolute value in the same two
  colors differ in some pixel; a number and its negation look the same.\<close>

theorem number_legible:
  assumes "DigitGroup3x5 n c b = Inr g" and "DigitGroup3x5 n' c b = Inr g'" and "c \<noteq> b"
  shows "(\<bar>n\<bar> \<noteq> \<bar>n'\<bar> \<longrightarrow> (\<exists>x y. DigitGroup3x5_led x y g \<noteq> DigitGroup3x5_led x y g')) \<and>
         (\<bar>n\<bar> = \<bar>n'\<bar> \<longrightarrow> g = g')"
proof -
  have abs: "u = \<lparr>color = c, back_color = b, digits_m = \<bar>k\<bar>, digits_width_m = count_digits \<bar>k\<bar> 0\<rparr>"
    if "DigitGroup3x5 k c b = Inr u" for k u
    using that by (auto simp: DigitGroup3x5_def set_digits_def c_neg_def c_int_def split: if_splits)
  note u = abs [OF assms(1)] abs [OF assms(2)]
  have "digits_m g = digits_m g'" if "\<And>x y. DigitGroup3x5_led x y g = DigitGroup3x5_led x y g'"
    using DigitGroup3x5_ok [OF assms(1)] DigitGroup3x5_ok [OF assms(2)] assms(3) that
    by (intro DigitGroup3x5_legible) auto
  then show ?thesis using u by auto
qed

lemma number_legible_witness:
  "\<exists>g g' x y. DigitGroup3x5 18 1 0 = Inr g \<and> DigitGroup3x5 (- 16) 1 0 = Inr g' \<and>
     DigitGroup3x5_led x y g \<noteq> DigitGroup3x5_led x y g'"
proof -
  have "is_int32 18" "is_int32 (- 16)" by (simp_all add: is_int32_def int_min_def int_max_def)
  then obtain g g' where "DigitGroup3x5 18 1 0 = Inr g" "DigitGroup3x5 (- 16) 1 0 = Inr g'"
    using DigitGroup3x5_new [of 18 1 0] DigitGroup3x5_new [of "- 16" 1 0] by (auto simp: int_min_def)
  with number_legible [OF this] show ?thesis by auto
qed

text \<open>C29: the two numbers that do not show. Drawing zero at any position changes nothing at
  all on the strip, whatever its state; only where one of the five rows is beyond the largest
  \<open>int\<close> does computing its coordinate overflow. The smallest \<open>int\<close> overflows when it is negated.\<close>

theorem number_edges:
  assumes "is_int32 y"
  shows "(\<exists>g. DigitGroup3x5 0 c b = Inr g \<and>
            draw_at WS2811Strip_device (DigitGroup3x5_source g) x y d =
              (if y + 4 \<le> int_max then Inr () else Inl (UB Signed_Overflow), d)) \<and>
         DigitGroup3x5 int_min c b = Inl (UB Signed_Overflow)"
proof -
  have z: "is_int32 0" by (simp add: is_int32_def int_min_def int_max_def)
  let ?g = "\<lparr>color = c, back_color = b, digits_m = 0, digits_width_m = 0\<rparr>"
  have new: "DigitGroup3x5 0 c b = Inr ?g" using DigitGroup3x5_new [OF z] by (simp add: int_min_def)
  have "width (DigitGroup3x5_source ?g) s = 0" "height (DigitGroup3x5_source ?g) s = 5"
    for s :: ws2811_strip
    by (simp_all add: DigitGroup3x5_source_def DigitGroup3x5_width_def DigitGroup3x5_height_def)
  from draw_five_empty_rows [OF this assms, of WS2811Strip_device x d]
  have "draw_at WS2811Strip_device (DigitGroup3x5_source ?g) x y d =
      (if y + 4 \<le> int_max then Inr () else Inl (UB Signed_Overflow), d)" .
  moreover have "DigitGroup3x5 int_min c b = Inl (UB Signed_Overflow)"
    by (simp add: DigitGroup3x5_def set_digits_def c_neg_def c_int_def is_int32_def int_min_def int_max_def)
  ultimately show ?thesis using new by blast
qed

lemma number_edges_witness:
  "\<exists>g. DigitGroup3x5 0 1 0 = Inr g \<and>
     draw_at WS2811Strip_device (DigitGroup3x5_source g) (- 7) (- 2) (demo_strip [1, 2, 3, 4]) =
       (Inr (), demo_strip [1, 2, 3, 4])"
  using number_edges [of "- 2" 1 0 "- 7" "demo_strip [1, 2, 3, 4]"]
  by (auto simp: is_int32_def int_min_def int_max_def)

end
