(* ===== verification/Window.thy ===== *)
theory Window
  imports Rotatable "HOL-Library.AList" "HOL-Library.Multiset"
begin

text \<open>
  \<open>Window\<close> and \<open>WS2811StripFakeDeviceDebug\<close> (\<open>src/inc/render.hpp\<close>): windows
  point to their parent and to their children, so they live in a heap. The
  links between windows are the invariant \<open>links_ok\<close>; reading a pixel descends
  through the children, with the stack depth as an argument.
\<close>

section \<open>Objects\<close>

type_synonym addr = nat

text \<open>
  \<open>children_\<close> is an \<open>unordered_map\<close>: an association list with distinct keys,
  whose order is the (unspecified) iteration order.
\<close>

record window = rotatable +
  win_leds_m :: "LedColor list"
  parent_m :: "addr option"
  children_m :: "(addr \<times> int \<times> int) list"

text \<open>A paint source that is no window is known by its size and its pixels.\<close>

datatype paint_object =
    Window_Object window
  | Source_Object int int "int \<Rightarrow> int \<Rightarrow> LedColor result"

type_synonym heap = "addr \<Rightarrow> paint_object option"

definition obj_at :: "addr \<Rightarrow> heap \<Rightarrow> paint_object result" where
  "obj_at a h = (case h a of None \<Rightarrow> Inl (UB Dangling_Pointer) | Some ob \<Rightarrow> Inr ob)"

text \<open>\<open>dynamic_cast<Window*>\<close>\<close>

fun as_window :: "paint_object \<Rightarrow> window option" where
  "as_window (Window_Object w) = Some w"
| "as_window (Source_Object _ _ _) = None"

definition win_at :: "addr \<Rightarrow> heap \<Rightarrow> window result" where
  "win_at a h = rbind (obj_at a h) (\<lambda>ob.
     case as_window ob of None \<Rightarrow> Inl (UB Dangling_Pointer) | Some w \<Rightarrow> Inr w)"

definition put_win :: "addr \<Rightarrow> window \<Rightarrow> (heap, unit) stm" where
  "put_win a w = modify (\<lambda>h. h(a \<mapsto> Window_Object w))"

fun obj_width :: "paint_object \<Rightarrow> int" where
  "obj_width (Window_Object w) = logic_width_m w"
| "obj_width (Source_Object cw ch f) = cw"

fun obj_height :: "paint_object \<Rightarrow> int" where
  "obj_height (Window_Object w) = logic_height_m w"
| "obj_height (Source_Object cw ch f) = ch"

section \<open>Linking and unlinking\<close>

definition Window_remove :: "addr \<Rightarrow> addr \<Rightarrow> (heap, unit) stm" where
  "Window_remove this child =
     and_then (eval_expr (win_at this)) (\<lambda>w.
     and_then (put_win this (w\<lparr>children_m := AList.delete child (children_m w)\<rparr>)) (\<lambda>_.
     and_then (eval_expr (obj_at child)) (\<lambda>ob.
       case as_window ob of
         None \<Rightarrow> skip
       | Some cw \<Rightarrow> put_win child (cw\<lparr>parent_m := None\<rparr>))))"

definition Window_add :: "addr \<Rightarrow> addr \<Rightarrow> int \<Rightarrow> int \<Rightarrow> (heap, unit) stm" where
  "Window_add this child x y =
     and_then (eval_expr (win_at this)) (\<lambda>w.
     and_then (put_win this (w\<lparr>children_m := AList.update child (x, y) (children_m w)\<rparr>)) (\<lambda>_.
     and_then (eval_expr (obj_at child)) (\<lambda>ob.
       case as_window ob of
         None \<Rightarrow> skip
       | Some cw \<Rightarrow>
           and_then (case parent_m cw of None \<Rightarrow> skip | Some p \<Rightarrow> Window_remove p child) (\<lambda>_.
           and_then (eval_expr (win_at child)) (\<lambda>cw.
             put_win child (cw\<lparr>parent_m := Some this\<rparr>))))))"

definition Window_move :: "addr \<Rightarrow> int \<Rightarrow> int \<Rightarrow> (heap, unit) stm" where
  "Window_move this x y =
     and_then (eval_expr (win_at this)) (\<lambda>w.
       case parent_m w of
         None \<Rightarrow> skip
       | Some p \<Rightarrow>
           and_then (eval_expr (win_at p)) (\<lambda>pw.
             put_win p (pw\<lparr>children_m := AList.update this (x, y) (children_m pw)\<rparr>)))"

definition Window_pos :: "addr \<Rightarrow> heap \<Rightarrow> (int \<times> int) result" where
  "Window_pos this h =
     rbind (win_at this h) (\<lambda>w.
       case parent_m w of
         None \<Rightarrow> Inr (0, 0)
       | Some p \<Rightarrow> rbind (win_at p h) (\<lambda>pw.
           case map_of (children_m pw) this of None \<Rightarrow> Inr (0, 0) | Some pos \<Rightarrow> Inr pos))"

definition Window_x :: "addr \<Rightarrow> heap \<Rightarrow> int result" where
  "Window_x this h = rbind (Window_pos this h) (\<lambda>pos. Inr (fst pos))"

definition Window_y :: "addr \<Rightarrow> heap \<Rightarrow> int result" where
  "Window_y this h = rbind (Window_pos this h) (\<lambda>pos. Inr (snd pos))"

definition children_count :: "addr \<Rightarrow> heap \<Rightarrow> nat result" where
  "children_count this h = rbind (win_at this h) (\<lambda>w. Inr (length (children_m w)))"

text \<open>The constructor, at the address of the new object, and the destructor.\<close>

definition new_window :: "int \<Rightarrow> int \<Rightarrow> window result" where
  "new_window w h =
     rbind (c_mul w h) (\<lambda>n.
     if n < 0 then Inl (Throw (Length_Error ''vector''))
     else Inr (rotatable.extend (IRotatablePaintDevice w h Led_Black)
       \<lparr>win_leds_m = replicate (nat n) 0, parent_m = None, children_m = []\<rparr>))"

definition Window_new :: "addr \<Rightarrow> int \<Rightarrow> int \<Rightarrow> addr option \<Rightarrow> int \<Rightarrow> int \<Rightarrow> (heap, unit) stm" where
  "Window_new this w h parent x y =
     and_then (eval_expr (\<lambda>_. new_window w h)) (\<lambda>win.
     and_then (put_win this win) (\<lambda>_.
       case parent of None \<Rightarrow> skip | Some p \<Rightarrow> Window_add p this x y))"

definition Window_destroy :: "addr \<Rightarrow> (heap, unit) stm" where
  "Window_destroy this =
     and_then (eval_expr (win_at this)) (\<lambda>w.
     and_then (case parent_m w of None \<Rightarrow> skip | Some p \<Rightarrow> Window_remove p this) (\<lambda>_.
       modify (\<lambda>h. h(this := None))))"

text \<open>The members a window inherits change in place.\<close>

definition Window_inherited :: "addr \<Rightarrow> (window, unit) stm \<Rightarrow> (heap, unit) stm" where
  "Window_inherited this f =
     and_then (eval_expr (win_at this)) (\<lambda>w h.
       case f w of (r, w') \<Rightarrow> (r, h(this \<mapsto> Window_Object w')))"

definition Window_set_rotate :: "addr \<Rightarrow> int \<Rightarrow> bool \<Rightarrow> bool \<Rightarrow> (heap, unit) stm" where
  "Window_set_rotate this a fx fy = Window_inherited this (set_rotate a fx fy)"

definition Window_set_transparent :: "addr \<Rightarrow> bool \<Rightarrow> (heap, unit) stm" where
  "Window_set_transparent this t = Window_inherited this (modify (set_transparent t))"

definition Window_set_background :: "addr \<Rightarrow> LedColor \<Rightarrow> (heap, unit) stm" where
  "Window_set_background this c = Window_inherited this (modify (set_background c))"

section \<open>Pixels\<close>

text \<open>The hit test of a child at \<open>(cx, cy)\<close>, with its short-circuit evaluation.\<close>

definition covers :: "paint_object \<Rightarrow> int \<Rightarrow> int \<Rightarrow> int \<Rightarrow> int \<Rightarrow> bool result" where
  "covers ob cx cy x y =
     (if x < cx then Inr False
      else rbind (c_add cx (obj_width ob)) (\<lambda>r.
        if r \<le> x then Inr False
        else if y < cy then Inr False
        else rbind (c_add cy (obj_height ob)) (\<lambda>t. Inr (y < t))))"

text \<open>
  \<open>Window::led\<close>: the first child that covers the point and does not show
  through, else the window's own LED. \<open>rec\<close> is the virtual call on a child.
\<close>

fun led_children ::
  "(addr \<Rightarrow> int \<Rightarrow> int \<Rightarrow> LedColor result) \<Rightarrow> heap \<Rightarrow> window \<Rightarrow> (addr \<times> int \<times> int) list \<Rightarrow>
   int \<Rightarrow> int \<Rightarrow> LedColor result" where
  "led_children rec h w [] x y =
     rbind (rotatable_index IVectorStripIndex_index w x y) (vec_at (win_leds_m w))"
| "led_children rec h w ((c, cx, cy) # cs) x y =
     rbind (obj_at c h) (\<lambda>ob.
     rbind (covers ob cx cy x y) (\<lambda>hit.
     if hit then
       rbind (c_sub x cx) (\<lambda>dx. rbind (c_sub y cy) (\<lambda>dy.
       rbind (rec c dx dy) (\<lambda>child_led.
         if transparent_m w \<and> child_led = back_m w then led_children rec h w cs x y
         else Inr child_led)))
     else led_children rec h w cs x y))"

text \<open>\<open>stack\<close> is the number of calls the stack has room for.\<close>

fun obj_led :: "nat \<Rightarrow> heap \<Rightarrow> addr \<Rightarrow> int \<Rightarrow> int \<Rightarrow> LedColor result" where
  "obj_led 0 h a x y = Inl (UB Stack_Overflow)"
| "obj_led (Suc stack) h a x y =
     rbind (obj_at a h) (\<lambda>ob.
       case ob of
         Window_Object w \<Rightarrow> led_children (obj_led stack h) h w (children_m w) x y
       | Source_Object cw ch f \<Rightarrow> f x y)"

definition Window_led_ref :: "addr \<Rightarrow> int \<Rightarrow> int \<Rightarrow> LedColor \<Rightarrow> (heap, unit) stm" where
  "Window_led_ref this x y c =
     and_then (eval_expr (win_at this)) (\<lambda>w.
     and_then (eval_expr (\<lambda>_. rbind (rotatable_index IVectorStripIndex_index w x y) (\<lambda>i.
                                vec_store (win_leds_m w) i c))) (\<lambda>v.
       put_win this (w\<lparr>win_leds_m := v\<rparr>)))"

text \<open>A window as a device; its members, where it is alive.\<close>

definition the_window :: "addr \<Rightarrow> heap \<Rightarrow> window" where
  "the_window this h =
     (case win_at this h of
        Inr w \<Rightarrow> w
      | Inl _ \<Rightarrow> rotatable.extend (IRotatablePaintDevice 0 0 Led_Black)
          \<lparr>win_leds_m = [], parent_m = None, children_m = []\<rparr>)"

definition Window_device :: "nat \<Rightarrow> addr \<Rightarrow> heap IPaintDevice" where
  "Window_device stack this =
     \<lparr>width = (\<lambda>h. logic_width_m (the_window this h)),
      height = (\<lambda>h. logic_height_m (the_window this h)),
      led = (\<lambda>x y h. obj_led stack h this x y),
      led_ref = Window_led_ref this,
      back_of = (\<lambda>h. back_m (the_window this h)),
      transparent_of = (\<lambda>h. transparent_m (the_window this h))\<rparr>"

section \<open>The debug device\<close>

text \<open>
  \<open>WS2811StripFakeDeviceDebug\<close> is a window without a parent whose \<open>init\<close> does
  nothing and whose \<open>render\<close> logs one line per row; the result is the list of
  lines (the return code is always 0).
\<close>

definition FakeDevice_new :: "addr \<Rightarrow> int \<Rightarrow> int \<Rightarrow> (heap, unit) stm" where
  "FakeDevice_new this w h = Window_new this w h None 0 0"

definition FakeDevice_init :: "addr \<Rightarrow> (heap, int) stm" where
  "FakeDevice_init this = eval_expr (\<lambda>_. Inr 0)"

fun render_row :: "nat \<Rightarrow> addr \<Rightarrow> int \<Rightarrow> int list \<Rightarrow> heap \<Rightarrow> string result" where
  "render_row stack this y [] h = Inr []"
| "render_row stack this y (x # xs) h =
     rbind (obj_led stack h this x y) (\<lambda>c.
     rbind (render_row stack this y xs h) (\<lambda>line.
       Inr ((if c = Led_Black then CHR '' '' else CHR ''*'') # line)))"

fun render_rows :: "nat \<Rightarrow> addr \<Rightarrow> int list \<Rightarrow> heap \<Rightarrow> string list result" where
  "render_rows stack this [] h = Inr []"
| "render_rows stack this (y # ys) h =
     rbind (render_row stack this y [0..logic_width_m (the_window this h) - 1] h) (\<lambda>line.
     rbind (render_rows stack this ys h) (\<lambda>lines. Inr (line # lines)))"

definition FakeDevice_render :: "nat \<Rightarrow> addr \<Rightarrow> heap \<Rightarrow> string list result" where
  "FakeDevice_render stack this h =
     render_rows stack this [0..logic_height_m (the_window this h) - 1] h"

section \<open>Reading pixels: stack depth\<close>

lemma obj_at_simps [simp]:
  "h a = Some ob \<Longrightarrow> obj_at a h = Inr ob"
  "h a = None \<Longrightarrow> obj_at a h = Inl (UB Dangling_Pointer)"
  by (simp_all add: obj_at_def)

lemma win_at_simps [simp]:
  "h a = Some (Window_Object w) \<Longrightarrow> win_at a h = Inr w"
  "h a = None \<Longrightarrow> win_at a h = Inl (UB Dangling_Pointer)"
  by (simp_all add: win_at_def)

lemma the_window_simp [simp]: "h a = Some (Window_Object w) \<Longrightarrow> the_window a h = w"
  by (simp add: the_window_def)

text \<open>A result other than running out of stack.\<close>

definition calm :: "'a result \<Rightarrow> bool" where
  "calm r \<longleftrightarrow> r \<noteq> Inl (UB Stack_Overflow)"

lemma calm_Inr [simp]: "calm (Inr a)"
  by (simp add: calm_def)

lemma calm_rbind: "calm r \<Longrightarrow> (\<And>a. r = Inr a \<Longrightarrow> calm (f a)) \<Longrightarrow> calm (rbind r f)"
  by (cases r) (simp_all add: calm_def)

lemma calm_arith [simp]: "calm (c_add a b)" "calm (c_sub a b)" "calm (c_mul a b)" "calm (c_mirror a b)"
  by (simp_all add: calm_def c_mirror_def c_ops)

lemma calm_access [simp]: "calm (vec_at v i)" "calm (obj_at a h)" "calm (covers ob cx cy x y)"
  by (auto simp: calm_def vec_at_def obj_at_def covers_def c_ops split: option.split)

lemma calm_index [simp]: "calm (rotatable_index IVectorStripIndex_index w x y)"
proof -
  have "calm (rotate_point g a b c d)" for g a b c d
    by (cases g) (auto intro!: calm_rbind)
  then show ?thesis
    unfolding rotatable_index_def
    by (cases "rotate_helper_m w")
      (auto simp: IVectorStripIndex_index_def intro!: calm_rbind split: prod.split)
qed

lemma led_children_calm:
  assumes "\<And>c cx cy dx dy. (c, cx, cy) \<in> set cs \<Longrightarrow> calm (rec c dx dy)"
  shows "calm (led_children rec h w cs x y)"
  using assms
proof (induction cs)
  case (Cons child cs)
  obtain c cx cy where child: "child = (c, cx, cy)" by (cases child) auto
  have "calm (led_children rec h w cs x y)"
    using Cons.prems by (intro Cons.IH) (meson list.set_intros(2))
  moreover have "calm (rec c dx dy)" for dx dy
    using Cons.prems [of c cx cy] child by simp
  ultimately show ?case unfolding child by (auto intro!: calm_rbind)
qed (auto intro!: calm_rbind)

text \<open>\<open>rk\<close> is larger at a window than at its children: no window contains itself.\<close>

definition ranked :: "(addr \<Rightarrow> nat) \<Rightarrow> heap \<Rightarrow> bool" where
  "ranked rk h \<longleftrightarrow> (\<forall>a w. h a = Some (Window_Object w) \<longrightarrow>
     (\<forall>c \<in> fst ` set (children_m w). rk c < rk a))"

definition calm_sources :: "heap \<Rightarrow> bool" where
  "calm_sources h \<longleftrightarrow> (\<forall>a cw ch f. h a = Some (Source_Object cw ch f) \<longrightarrow> (\<forall>x y. calm (f x y)))"

lemma obj_led_enough_stack:
  assumes "ranked rk h" and "calm_sources h" and "rk a < stack"
  shows "calm (obj_led stack h a x y)"
  using assms(3)
proof (induction stack arbitrary: a x y)
  case (Suc stack)
  show ?case
  proof (cases "h a")
    case (Some ob)
    show ?thesis
    proof (cases ob)
      case (Window_Object w)
      have "calm (led_children (obj_led stack h) h w (children_m w) x y)"
      proof (rule led_children_calm)
        fix c cx cy dx dy assume "(c, cx, cy) \<in> set (children_m w)"
        then have "rk c < rk a"
          using assms(1) Some Window_Object by (force simp: ranked_def)
        then show "calm (obj_led stack h c dx dy)" using Suc by simp
      qed
      with Some Window_Object show ?thesis by simp
    next
      case (Source_Object cw ch f)
      with Some assms(2) show ?thesis by (simp add: calm_sources_def)
    qed
  qed (simp add: calm_def)
qed simp

text \<open>More stack never changes a result.\<close>

lemma led_children_mono:
  assumes "\<And>c dx dy. calm (rec c dx dy) \<Longrightarrow> rec' c dx dy = rec c dx dy"
    and "calm (led_children rec h w cs x y)"
  shows "led_children rec' h w cs x y = led_children rec h w cs x y"
  using assms(2)
proof (induction cs)
  case (Cons child cs)
  obtain c cx cy where child: "child = (c, cx, cy)" by (cases child) auto
  show ?case
  proof (cases "rbind (obj_at c h) (\<lambda>ob. covers ob cx cy x y)")
    case (Inr hit)
    then obtain ob where ob: "obj_at c h = Inr ob" "covers ob cx cy x y = Inr hit" by auto
    show ?thesis
    proof (cases hit)
      case True
      show ?thesis
        using Cons ob True assms(1) [of c]
        by (cases "c_sub x cx"; cases "c_sub y cy"; cases "rec c (x - cx) (y - cy)")
          (auto simp: child calm_def c_sub_def c_int_def split: if_splits)
    next
      case False
      with Cons ob show ?thesis by (simp add: child)
    qed
  qed (auto simp: child)
qed simp

lemma obj_led_more_stack:
  "calm (obj_led stack h a x y) \<Longrightarrow> obj_led (Suc stack) h a x y = obj_led stack h a x y"
proof (induction stack arbitrary: a x y)
  case (Suc stack)
  show ?case
  proof (cases "h a")
    case (Some ob)
    show ?thesis
    proof (cases ob)
      case (Window_Object w)
      have "led_children (obj_led (Suc stack) h) h w (children_m w) x y =
            led_children (obj_led stack h) h w (children_m w) x y"
        using Suc Some Window_Object by (intro led_children_mono) auto
      with Some Window_Object show ?thesis by simp
    qed (use Some in simp)
  qed simp
qed (simp add: calm_def)

section \<open>Reading pixels: the order of the children\<close>

text \<open>A child covers a point; all children being alive and in range.\<close>

definition hits :: "heap \<Rightarrow> int \<Rightarrow> int \<Rightarrow> addr \<times> int \<times> int \<Rightarrow> bool" where
  "hits h x y = (\<lambda>(c, cx, cy).
     rbind (obj_at c h) (\<lambda>ob. covers ob cx cy x y) = Inr True)"

definition placed :: "heap \<Rightarrow> addr \<times> int \<times> int \<Rightarrow> bool" where
  "placed h = (\<lambda>(c, cx, cy).
     (\<exists>ob. h c = Some ob \<and> is_int32 (cx + obj_width ob) \<and> is_int32 (cy + obj_height ob)))"

lemma covers_exact:
  "is_int32 (cx + obj_width ob) \<Longrightarrow> is_int32 (cy + obj_height ob) \<Longrightarrow>
   covers ob cx cy x y =
     Inr (cx \<le> x \<and> x < cx + obj_width ob \<and> cy \<le> y \<and> y < cy + obj_height ob)"
  by (auto simp: covers_def c_ops)

lemma led_children_skips:
  assumes "\<forall>child \<in> set cs. placed h child"
  shows "led_children rec h w cs x y = led_children rec h w (filter (hits h x y) cs) x y"
  using assms
proof (induction cs)
  case (Cons child cs)
  obtain c cx cy where child: "child = (c, cx, cy)" by (cases child) auto
  from Cons.prems obtain ob hit where "obj_at c h = Inr ob" "covers ob cx cy x y = Inr hit"
    by (auto simp: placed_def child covers_exact)
  moreover from this have "hits h x y child = hit" by (simp add: hits_def child)
  ultimately show ?case using Cons by (cases hit) (simp_all add: child cong: if_cong)
qed simp

text \<open>Where at most one child covers a point, the order of the map does not show.\<close>

lemma led_children_order:
  assumes placed: "\<forall>child \<in> set cs. placed h child" and perm: "mset cs' = mset cs"
    and one: "length (filter (hits h x y) cs) \<le> 1"
  shows "led_children rec h w cs' x y = led_children rec h w cs x y"
proof -
  have eq: "mset (filter (hits h x y) cs') = mset (filter (hits h x y) cs)"
    using perm by (simp add: mset_filter)
  have "filter (hits h x y) cs' = filter (hits h x y) cs"
  proof (cases "filter (hits h x y) cs")
    case Nil
    with eq show ?thesis by (metis mset.simps(1) mset_zero_iff)
  next
    case (Cons a as)
    with one have a: "filter (hits h x y) cs = [a]" by simp
    have "mset (filter (hits h x y) cs') = {#a#}" unfolding eq a by simp
    then show ?thesis unfolding a by (rule iffD1 [OF mset_single_iff])
  qed
  moreover have "\<forall>child \<in> set cs'. placed h child" using placed perm by (metis set_mset_mset)
  ultimately show ?thesis using placed led_children_skips by metis
qed

section \<open>A window without children is a device\<close>

definition leaf_ok :: "nat \<Rightarrow> addr \<Rightarrow> heap \<Rightarrow> bool" where
  "leaf_ok stack this h \<longleftrightarrow> 0 < stack \<and>
     (\<exists>w. h this = Some (Window_Object w) \<and> rotatable_ok w \<and> children_m w = [] \<and>
          length (win_leds_m w) = nat (width_m w * height_m w))"

lemma leaf_array_device:
  "array_device IVectorStripIndex_index (Window_device stack this) (leaf_ok stack this)
     (\<lambda>h. rotatable.truncate (the_window this h)) (\<lambda>h. win_leds_m (the_window this h))
     (\<lambda>v h. h(this \<mapsto> Window_Object ((the_window this h)\<lparr>win_leds_m := v\<rparr>)))"
proof unfold_locales
  fix h :: heap and x y c
  assume ok: "leaf_ok stack this h"
  then obtain w n where w: "h this = Some (Window_Object w)" "rotatable_ok w" "children_m w = []"
      "length (win_leds_m w) = nat (width_m w * height_m w)" "stack = Suc n"
    by (auto simp: leaf_ok_def gr0_conv_Suc)
  have idx: "rotatable_index IVectorStripIndex_index (rotatable.truncate w) x y =
      rotatable_index IVectorStripIndex_index w x y"
    by (simp add: rotatable_index_def rotatable.defs)
  show "led (Window_device stack this) x y h =
      rbind (rotatable_index IVectorStripIndex_index (rotatable.truncate (the_window this h)) x y)
        (vec_at (win_leds_m (the_window this h)))"
    using w by (simp add: Window_device_def idx)
  show "led_ref (Window_device stack this) x y c h =
      (case rbind (rotatable_index IVectorStripIndex_index (rotatable.truncate (the_window this h)) x y)
          (\<lambda>i. vec_store (win_leds_m (the_window this h)) i c) of
         Inl e \<Rightarrow> (Inl e, h)
       | Inr v \<Rightarrow> (Inr (), h(this \<mapsto> Window_Object ((the_window this h)\<lparr>win_leds_m := v\<rparr>))))"
    using w by (auto simp: Window_device_def Window_led_ref_def put_win_def outcome idx
        split: sum.split)
  show "rotatable_ok (rotatable.truncate (the_window this h)) \<and>
      length (win_leds_m (the_window this h)) =
        nat (width_m (rotatable.truncate (the_window this h)) *
             height_m (rotatable.truncate (the_window this h)))"
    using w by (simp add: rotatable_ok_def rotatable.defs)
  fix v :: "LedColor list" assume "length v = length (win_leds_m (the_window this h))"
  then show "leaf_ok stack this (h(this \<mapsto> Window_Object ((the_window this h)\<lparr>win_leds_m := v\<rparr>))) \<and>
      win_leds_m (the_window this (h(this \<mapsto> Window_Object ((the_window this h)\<lparr>win_leds_m := v\<rparr>)))) = v \<and>
      rotatable.truncate (the_window this (h(this \<mapsto> Window_Object ((the_window this h)\<lparr>win_leds_m := v\<rparr>)))) =
        rotatable.truncate (the_window this h) \<and>
      same_frame (Window_device stack this) h
        (h(this \<mapsto> Window_Object ((the_window this h)\<lparr>win_leds_m := v\<rparr>)))"
    using w by (simp add: leaf_ok_def rotatable_ok_def rotatable.defs same_frame_def Window_device_def)
qed (auto simp: Window_device_def rotatable.defs)

interpretation leaf: array_device IVectorStripIndex_index "Window_device stack this" "leaf_ok stack this"
  "\<lambda>h. rotatable.truncate (the_window this h)" "\<lambda>h. win_leds_m (the_window this h)"
  "\<lambda>v h. h(this \<mapsto> Window_Object ((the_window this h)\<lparr>win_leds_m := v\<rparr>))"
  for stack :: nat and this :: addr
  by (rule leaf_array_device)

end
