(* ===== verification/Window_Links.thy ===== *)
theory Window_Links
  imports Window
begin

text \<open>
  The links between windows: what each operation of \<open>Window\<close> does to the
  children maps and the parent pointers, the invariant that the two agree and
  that no window is inside itself, and the runs that keep it.
\<close>

section \<open>Views of the heap\<close>

definition kidmap :: "heap \<Rightarrow> addr \<Rightarrow> (addr \<rightharpoonup> int \<times> int)" where
  "kidmap h a = (case h a of Some (Window_Object w) \<Rightarrow> map_of (children_m w) | _ \<Rightarrow> Map.empty)"

definition par :: "heap \<Rightarrow> addr \<Rightarrow> addr option" where
  "par h a = (case h a of Some (Window_Object w) \<Rightarrow> parent_m w | _ \<Rightarrow> None)"

definition is_win :: "heap \<Rightarrow> addr \<Rightarrow> bool" where
  "is_win h a = (case h a of Some (Window_Object w) \<Rightarrow> True | _ \<Rightarrow> False)"

definition alive :: "heap \<Rightarrow> addr \<Rightarrow> bool" where
  "alive h a \<longleftrightarrow> h a \<noteq> None"

named_theorems views \<open>the views after one write\<close>

lemma views_put [views]:
  "kidmap (h(a \<mapsto> Window_Object w)) = (kidmap h)(a := map_of (children_m w))"
  "par (h(a \<mapsto> Window_Object w)) = (par h)(a := parent_m w)"
  "is_win (h(a \<mapsto> Window_Object w)) = (is_win h)(a := True)"
  "alive (h(a \<mapsto> ob)) = (alive h)(a := True)"
  by (auto simp: kidmap_def par_def is_win_def alive_def fun_eq_iff)

lemma views_source [views]:
  "kidmap (h(a \<mapsto> Source_Object cw ch f)) = (kidmap h)(a := Map.empty)"
  "par (h(a \<mapsto> Source_Object cw ch f)) = (par h)(a := None)"
  "is_win (h(a \<mapsto> Source_Object cw ch f)) = (is_win h)(a := False)"
  by (auto simp: kidmap_def par_def is_win_def fun_eq_iff)

lemma views_free [views]:
  "kidmap (h(a := None)) = (kidmap h)(a := Map.empty)"
  "par (h(a := None)) = (par h)(a := None)"
  "is_win (h(a := None)) = (is_win h)(a := False)"
  "alive (h(a := None)) = (alive h)(a := False)"
  by (auto simp: kidmap_def par_def is_win_def alive_def fun_eq_iff)

lemma is_winE:
  assumes "is_win h a"
  obtains w where "h a = Some (Window_Object w)" "kidmap h a = map_of (children_m w)" "par h a = parent_m w"
  using assms by (auto simp: is_win_def kidmap_def par_def split: option.splits paint_object.splits)

lemma not_win_source:
  "alive h a \<Longrightarrow> \<not> is_win h a \<Longrightarrow> \<exists>cw ch f. h a = Some (Source_Object cw ch f)"
  by (auto simp: alive_def is_win_def split: option.splits paint_object.splits)

lemma not_win_views: "\<not> is_win h a \<Longrightarrow> kidmap h a = Map.empty \<and> par h a = None"
  by (auto simp: is_win_def kidmap_def par_def split: option.splits paint_object.splits)

lemma is_win_alive: "is_win h a \<Longrightarrow> alive h a"
  by (auto simp: is_win_def alive_def split: option.splits)

section \<open>Effects of the operations\<close>

text \<open>
  \<open>becomes k p w l m h h'\<close>: an operation ends normally in a heap \<open>h'\<close> with these
  children maps, parent pointers, windows and live objects.
\<close>

definition ends_with ::
  "(addr \<Rightarrow> (addr \<rightharpoonup> int \<times> int)) \<Rightarrow> (addr \<Rightarrow> addr option) \<Rightarrow> (addr \<Rightarrow> bool) \<Rightarrow> (addr \<Rightarrow> bool) \<Rightarrow>
   (heap, unit) stm \<Rightarrow> heap \<Rightarrow> bool" where
  "ends_with ks ps ws as m h \<longleftrightarrow>
     (\<exists>h'. m h = (Inr (), h') \<and> kidmap h' = ks \<and> par h' = ps \<and> is_win h' = ws \<and> alive h' = as)"

lemma Window_remove_effect:
  assumes "is_win h p" and "alive h c"
  shows "ends_with ((kidmap h)(p := (kidmap h p)(c := None)))
           (if is_win h c then (par h)(c := None) else par h) (is_win h) (alive h)
           (Window_remove p c) h"
proof -
  from assms(1) obtain w where w: "h p = Some (Window_Object w)" "kidmap h p = map_of (children_m w)"
    "par h p = parent_m w" by (rule is_winE)
  note al = is_win_alive [OF assms(1)]
  show ?thesis
  proof (cases "is_win h c")
    case True
    then obtain cw where cw: "h c = Some (Window_Object cw)" "kidmap h c = map_of (children_m cw)"
      "par h c = parent_m cw" by (rule is_winE)
    define h' where "h' = h(p \<mapsto> Window_Object (w\<lparr>children_m := AList.delete c (children_m w)\<rparr>),
       c \<mapsto> Window_Object (if c = p then w\<lparr>children_m := AList.delete c (children_m w), parent_m := None\<rparr>
                          else cw\<lparr>parent_m := None\<rparr>))"
    have "Window_remove p c h = (Inr (), h')"
      using w cw by (cases "c = p") (auto simp: Window_remove_def outcome put_win_def h'_def)
    moreover have "kidmap h' = (kidmap h)(p := (kidmap h p)(c := None))" "par h' = (par h)(c := None)"
      "is_win h' = is_win h" "alive h' = alive h"
      using w cw assms True al by (auto simp: h'_def views delete_conv' fun_eq_iff)
    ultimately show ?thesis using True by (auto simp: ends_with_def)
  next
    case False
    then obtain cw ch f where "h c = Some (Source_Object cw ch f)"
      using not_win_source assms(2) by blast
    moreover from this w have "c \<noteq> p" by auto
    ultimately show ?thesis
      using w assms False al
      by (auto simp: ends_with_def Window_remove_def outcome put_win_def views delete_conv' fun_upd_idem)
  qed
qed

lemma Window_add_source_effect:
  assumes "is_win h this" and "alive h c" and "\<not> is_win h c"
  shows "ends_with ((kidmap h)(this := (kidmap h this)(c \<mapsto> (x, y)))) (par h) (is_win h) (alive h)
           (Window_add this c x y) h"
proof -
  from assms(1) obtain w where w: "h this = Some (Window_Object w)" "kidmap h this = map_of (children_m w)"
    "par h this = parent_m w" by (rule is_winE)
  obtain cw ch f where "h c = Some (Source_Object cw ch f)" using not_win_source assms by blast
  moreover have "c \<noteq> this" using assms by auto
  ultimately show ?thesis
    using w assms is_win_alive [OF assms(1)]
    by (auto simp: ends_with_def Window_add_def outcome put_win_def views update_conv' fun_upd_idem)
qed

text \<open>
  Adding a window: the new entry, then the old parent forgets the child, then
  the child's pointer. Where the old parent is the new one, its entry is lost.
\<close>

lemma Window_add_window_effect:
  assumes t: "is_win h this" and c: "is_win h c" and p: "\<And>p. par h c = Some p \<Longrightarrow> is_win h p"
  shows "ends_with
           (let ks = (kidmap h)(this := (kidmap h this)(c \<mapsto> (x, y)))
            in case par h c of None \<Rightarrow> ks | Some p \<Rightarrow> ks(p := (ks p)(c := None)))
           ((par h)(c := Some this)) (is_win h) (alive h)
           (Window_add this c x y) h"
proof -
  from t obtain w where w: "h this = Some (Window_Object w)" "kidmap h this = map_of (children_m w)"
    "par h this = parent_m w" by (rule is_winE)
  from c obtain cw where cw: "h c = Some (Window_Object cw)" "kidmap h c = map_of (children_m cw)"
    "par h c = parent_m cw" by (rule is_winE)
  define h1 where "h1 = h(this \<mapsto> Window_Object (w\<lparr>children_m := AList.update c (x, y) (children_m w)\<rparr>))"
  have h1: "kidmap h1 = (kidmap h)(this := (kidmap h this)(c \<mapsto> (x, y)))" "par h1 = par h"
    "is_win h1 = is_win h" "alive h1 = alive h"
    using w t is_win_alive [OF t] by (auto simp: h1_def views update_conv' fun_upd_idem)
  obtain cw1 where cw1: "h1 c = Some (Window_Object cw1)" "parent_m cw1 = par h c"
    using w cw by (cases "c = this") (auto simp: h1_def)
  have finish: "ends_with (kidmap h2) ((par h2)(c := Some this)) (is_win h2) (alive h2)
      (and_then (eval_expr (win_at c)) (\<lambda>cw. put_win c (cw\<lparr>parent_m := Some this\<rparr>))) h2"
    if "is_win h2 c" for h2
  proof -
    from that obtain cw2 where "h2 c = Some (Window_Object cw2)" "kidmap h2 c = map_of (children_m cw2)"
      by (rule is_winE)
    then show ?thesis using that is_win_alive [OF that]
      by (auto simp: ends_with_def outcome put_win_def views fun_upd_idem)
  qed
  show ?thesis
  proof (cases "par h c")
    case None
    then show ?thesis
      using finish [of h1] c w cw1 h1
      by (simp add: ends_with_def Window_add_def outcome put_win_def flip: h1_def)
  next
    case (Some p)
    with p have "is_win h1 p" using h1 by simp
    from Window_remove_effect [OF this, of c] c h1 is_win_alive [OF c]
    obtain h2 where h2: "Window_remove p c h1 = (Inr (), h2)"
      "kidmap h2 = (kidmap h1)(p := (kidmap h1 p)(c := None))" "par h2 = (par h)(c := None)"
      "is_win h2 = is_win h" "alive h2 = alive h"
      by (auto simp: ends_with_def)
    with finish [of h2] c Some w cw1 h1 show ?thesis
      by (auto simp: ends_with_def Window_add_def outcome put_win_def simp flip: h1_def)
  qed
qed

lemma Window_move_effect:
  assumes t: "is_win h this" and p: "par h this = Some p" "is_win h p"
  shows "ends_with ((kidmap h)(p := (kidmap h p)(this \<mapsto> (x, y)))) (par h) (is_win h) (alive h)
           (Window_move this x y) h"
proof -
  from t obtain w where "h this = Some (Window_Object w)" "par h this = parent_m w" by (rule is_winE)
  moreover from this(2) p(1) have "parent_m w = Some p" by simp
  moreover from p(2) obtain pw where "h p = Some (Window_Object pw)" "kidmap h p = map_of (children_m pw)"
    "par h p = parent_m pw" by (rule is_winE)
  ultimately show ?thesis
    using p is_win_alive [OF p(2)]
    by (auto simp: ends_with_def Window_move_def outcome put_win_def views update_conv' fun_upd_idem)
qed

lemma Window_destroy_effect:
  assumes t: "is_win h this" and p: "\<And>p. par h this = Some p \<Longrightarrow> is_win h p"
  shows "ends_with
           ((case par h this of None \<Rightarrow> kidmap h
             | Some p \<Rightarrow> (kidmap h)(p := (kidmap h p)(this := None)))(this := Map.empty))
           ((par h)(this := None)) ((is_win h)(this := False)) ((alive h)(this := False))
           (Window_destroy this) h"
proof -
  from t obtain w where w: "h this = Some (Window_Object w)" "par h this = parent_m w" by (rule is_winE)
  show ?thesis
  proof (cases "par h this")
    case None
    with w show ?thesis
      by (auto simp: ends_with_def Window_destroy_def outcome views)
  next
    case (Some p)
    from Window_remove_effect [OF p [OF Some] is_win_alive [OF t]] t
    obtain h2 where "Window_remove p this h = (Inr (), h2)"
      "kidmap h2 = (kidmap h)(p := (kidmap h p)(this := None))" "par h2 = (par h)(this := None)"
      "is_win h2 = is_win h" "alive h2 = alive h"
      by (auto simp: ends_with_def)
    with Some w show ?thesis
      by (auto simp: ends_with_def Window_destroy_def outcome views)
  qed
qed

lemma Window_pos_views:
  assumes "is_win h this" and "\<And>p. par h this = Some p \<Longrightarrow> is_win h p"
  shows "Window_pos this h = Inr (case par h this of None \<Rightarrow> (0, 0)
           | Some p \<Rightarrow> (case kidmap h p this of None \<Rightarrow> (0, 0) | Some pos \<Rightarrow> pos))"
proof -
  from assms(1) obtain w where w: "h this = Some (Window_Object w)" "par h this = parent_m w" by (rule is_winE)
  show ?thesis
  proof (cases "par h this")
    case (Some p)
    with assms(2) obtain pw where "h p = Some (Window_Object pw)" "kidmap h p = map_of (children_m pw)"
      by (auto elim: is_winE)
    with Some w show ?thesis by (auto simp: Window_pos_def split: option.split)
  qed (use w in \<open>simp add: Window_pos_def\<close>)
qed

section \<open>The invariant\<close>

text \<open>
  Children are alive, a child window points back to its parent, and a parent
  pointer is matched by an entry; and windows are nested, not cyclic.
\<close>

definition links_ok :: "heap \<Rightarrow> bool" where
  "links_ok h \<longleftrightarrow>
     (\<forall>p c. kidmap h p c \<noteq> None \<longrightarrow> alive h c \<and> (is_win h c \<longrightarrow> par h c = Some p)) \<and>
     (\<forall>c p. par h c = Some p \<longrightarrow> kidmap h p c \<noteq> None)"

definition nested :: "heap \<Rightarrow> bool" where
  "nested h \<longleftrightarrow> (\<exists>rk :: addr \<Rightarrow> nat. \<forall>p c. kidmap h p c \<noteq> None \<longrightarrow> rk c < rk p)"

definition windows_ok :: "heap \<Rightarrow> bool" where
  "windows_ok h \<longleftrightarrow> links_ok h \<and> nested h"

text \<open>\<open>inside h a c\<close>: \<open>a\<close> is \<open>c\<close> or lies inside it.\<close>

inductive inside :: "heap \<Rightarrow> addr \<Rightarrow> addr \<Rightarrow> bool" for h where
  inside_refl: "inside h a a"
| inside_step: "kidmap h p a \<noteq> None \<Longrightarrow> inside h p c \<Longrightarrow> inside h a c"

lemma links_okD:
  assumes "links_ok h"
  shows "kidmap h p c \<noteq> None \<Longrightarrow> alive h c"
    and "kidmap h p c \<noteq> None \<Longrightarrow> is_win h c \<Longrightarrow> par h c = Some p"
    and "par h c = Some p \<Longrightarrow> kidmap h p c \<noteq> None"
    and "par h c = Some p \<Longrightarrow> is_win h p"
proof -
  show a: "kidmap h p c \<noteq> None \<Longrightarrow> alive h c"
    and "kidmap h p c \<noteq> None \<Longrightarrow> is_win h c \<Longrightarrow> par h c = Some p"
    and k: "par h c = Some p \<Longrightarrow> kidmap h p c \<noteq> None"
    using assms unfolding links_ok_def by blast+
  show "par h c = Some p \<Longrightarrow> is_win h p"
    using k not_win_views [of h p] by (cases "is_win h p") simp_all
qed

lemma links_okI:
  assumes "\<And>p c. kidmap h p c \<noteq> None \<Longrightarrow> alive h c"
    and "\<And>p c. kidmap h p c \<noteq> None \<Longrightarrow> is_win h c \<Longrightarrow> par h c = Some p"
    and "\<And>p c. par h c = Some p \<Longrightarrow> kidmap h p c \<noteq> None"
  shows "links_ok h"
  using assms unfolding links_ok_def by blast

text \<open>A window that points elsewhere is nobody's child but its parent's.\<close>

lemma links_ok_none:
  "links_ok h \<Longrightarrow> is_win h c \<Longrightarrow> par h c \<noteq> Some p \<Longrightarrow> kidmap h p c = None"
  using links_okD(2) by blast

lemma nested_add:
  assumes n: "nested h" and no: "\<not> inside h this c"
    and sub: "\<And>p a. kidmap h' p a \<noteq> None \<Longrightarrow> kidmap h p a \<noteq> None \<or> p = this \<and> a = c"
  shows "nested h'"
proof -
  from n obtain rk :: "addr \<Rightarrow> nat" where rk: "\<And>p a. kidmap h p a \<noteq> None \<Longrightarrow> rk a < rk p"
    by (auto simp: nested_def)
  define rk' where "rk' = (\<lambda>a. if inside h this a then rk a + rk c + 1 else rk a)"
  have "rk' a < rk' p" if "kidmap h' p a \<noteq> None" for p a
    using sub [OF that]
  proof
    assume k: "kidmap h p a \<noteq> None"
    have "inside h this p" if "inside h this a"
      using that k
    proof (induction rule: inside.induct)
      case (inside_refl b)
      then show ?case by (blast intro: inside.intros)
    next
      case (inside_step q b d)
      then show ?case by (blast intro: inside.intros)
    qed
    with rk [OF k] show ?thesis by (auto simp: rk'_def)
  next
    assume "p = this \<and> a = c"
    with no show ?thesis by (auto simp: rk'_def intro: inside.intros)
  qed
  then show ?thesis by (auto simp: nested_def)
qed

lemma nested_mono:
  "nested h \<Longrightarrow> (\<And>p a. kidmap h' p a \<noteq> None \<Longrightarrow> kidmap h p a \<noteq> None) \<Longrightarrow> nested h'"
  unfolding nested_def by meson

lemma nested_irrefl: "nested h \<Longrightarrow> kidmap h a a = None"
  by (metis less_irrefl nested_def)

text \<open>Each operation, used as the interface means it, keeps the invariant.\<close>

lemma Window_add_ok:
  assumes ok: "windows_ok h" and this: "is_win h this" and c: "is_win h c"
    and new: "par h c \<noteq> Some this" and no: "\<not> inside h this c"
  shows "\<exists>h'. Window_add this c x y h = (Inr (), h') \<and> windows_ok h' \<and>
           Window_pos c h' = Inr (x, y) \<and> par h' c = Some this \<and>
           (\<forall>p. kidmap h' p c \<noteq> None \<longleftrightarrow> p = this)"
proof -
  have l: "links_ok h" and n: "nested h" using ok by (simp_all add: windows_ok_def)
  let ?ks = "(kidmap h)(this := (kidmap h this)(c \<mapsto> (x, y)))"
  have pw: "is_win h p" if "par h c = Some p" for p using links_okD(4) [OF l that] .
  from Window_add_window_effect [OF \<open>is_win h this\<close> c pw, where x = x and y = y]
  obtain h' where h': "Window_add this c x y h = (Inr (), h')"
    "kidmap h' = (case par h c of None \<Rightarrow> ?ks | Some p \<Rightarrow> ?ks(p := (?ks p)(c := None)))"
    "par h' = (par h)(c := Some this)" "is_win h' = is_win h" "alive h' = alive h"
    by (auto simp: ends_with_def Let_def)
  have ne: "this \<noteq> c" using no by (auto intro: inside.intros)
  have km: "kidmap h' p a = (if a = c then (if p = this then Some (x, y) else None) else kidmap h p a)" for p a
    using h'(2) new links_ok_none [OF l c, of p] by (cases "par h c") auto
  have "links_ok h'"
    by (rule links_okI; simp only: h'(3-5) km split: if_splits)
      (use l c is_win_alive [OF c] in \<open>auto dest: links_okD\<close>)
  moreover have "nested h'"
    by (rule nested_add [OF n no]) (auto simp: km split: if_splits)
  moreover have "Window_pos c h' = Inr (x, y)"
    using Window_pos_views [of h' c] c \<open>is_win h this\<close> h'(3,4) by (simp add: km)
  moreover have "kidmap h' p c \<noteq> None \<longleftrightarrow> p = this" for p by (simp add: km)
  ultimately show ?thesis using h'(1,3) by (simp add: windows_ok_def)
qed

lemma Window_add_source_ok:
  assumes ok: "windows_ok h" and this: "is_win h this" and c: "alive h c" "\<not> is_win h c"
  shows "\<exists>h'. Window_add this c x y h = (Inr (), h') \<and> windows_ok h'"
proof -
  have l: "links_ok h" and n: "nested h" using ok by (simp_all add: windows_ok_def)
  from Window_add_source_effect [OF \<open>is_win h this\<close> c]
  obtain h' where h': "Window_add this c x y h = (Inr (), h')"
    "kidmap h' = (kidmap h)(this := (kidmap h this)(c \<mapsto> (x, y)))"
    "par h' = par h" "is_win h' = is_win h" "alive h' = alive h"
    unfolding ends_with_def by blast
  have km: "kidmap h' p a = (if p = this \<and> a = c then Some (x, y) else kidmap h p a)" for p a
    by (simp add: h'(2))
  have "links_ok h'"
    by (rule links_okI; simp only: h'(3-5) km split: if_splits)
      (use l c in \<open>auto dest: links_okD\<close>)
  moreover have "\<not> inside h this c"
  proof
    assume "inside h this c"
    then show False
      using c(2) \<open>is_win h this\<close>
    proof (induction rule: inside.induct)
      case (inside_step p a d)
      then show ?case using not_win_views [of h p] by (cases "is_win h p") auto
    qed simp
  qed
  then have "nested h'" by (rule nested_add [OF n]) (auto simp: h'(2) split: if_splits)
  ultimately show ?thesis using h'(1) by (auto simp: windows_ok_def)
qed

lemma Window_remove_ok:
  assumes ok: "windows_ok h" and c: "kidmap h this c \<noteq> None"
  shows "\<exists>h'. Window_remove this c h = (Inr (), h') \<and> windows_ok h' \<and>
           kidmap h' this c = None \<and> par h' c = None"
proof -
  have l: "links_ok h" and n: "nested h" using ok by (simp_all add: windows_ok_def)
  have t: "is_win h this" using c not_win_views [of h this] by (cases "is_win h this") auto
  have al: "alive h c" by (rule links_okD(1) [OF l c])
  from Window_remove_effect [OF t al]
  obtain h' where h': "Window_remove this c h = (Inr (), h')"
    "kidmap h' = (kidmap h)(this := (kidmap h this)(c := None))"
    "par h' = (if is_win h c then (par h)(c := None) else par h)" "is_win h' = is_win h" "alive h' = alive h"
    unfolding ends_with_def by blast
  have pc: "par h' c = None" using h'(3) not_win_views [of h c] by (cases "is_win h c") auto
  have km: "kidmap h' p a = (if p = this \<and> a = c then None else kidmap h p a)" for p a
    by (simp add: h'(2))
  have pr: "par h' a = (if a = c then None else par h a)" for a
    using h'(3) pc by auto
  have "links_ok h'"
    by (rule links_okI; simp only: h'(4,5) pr km split: if_splits)
      (use l links_okD(2) [OF l c] in \<open>auto dest: links_okD\<close>)
  moreover have "nested h'" by (rule nested_mono [OF n]) (auto simp: h'(2) split: if_splits)
  ultimately show ?thesis using h' pc by (auto simp: windows_ok_def)
qed

lemma Window_move_ok:
  assumes ok: "windows_ok h" and t: "is_win h this"
  shows "\<exists>h'. Window_move this x y h = (Inr (), h') \<and> windows_ok h' \<and>
           Window_pos this h' = Inr (if par h this = None then (0, 0) else (x, y))"
proof (cases "par h this")
  case None
  from t obtain w where "h this = Some (Window_Object w)" "par h this = parent_m w" by (rule is_winE)
  with None ok show ?thesis
    using Window_pos_views [OF t] by (simp add: Window_move_def outcome)
next
  case (Some p)
  have l: "links_ok h" and n: "nested h" using ok by (simp_all add: windows_ok_def)
  have pw: "is_win h p" by (rule links_okD(4) [OF l Some])
  from Window_move_effect [OF t Some pw]
  obtain h' where h': "Window_move this x y h = (Inr (), h')"
    "kidmap h' = (kidmap h)(p := (kidmap h p)(this \<mapsto> (x, y)))"
    "par h' = par h" "is_win h' = is_win h" "alive h' = alive h"
    unfolding ends_with_def by blast
  note k = links_okD(3) [OF l Some]
  have km: "kidmap h' q a = (if q = p \<and> a = this then Some (x, y) else kidmap h q a)" for q a
    by (simp add: h'(2))
  have "links_ok h'"
    by (rule links_okI; simp only: h'(3-5) km split: if_splits)
      (use l Some is_win_alive [OF t] in \<open>auto dest: links_okD\<close>)
  moreover have "nested h'" by (rule nested_mono [OF n]) (use k in \<open>auto simp: h'(2) split: if_splits\<close>)
  moreover have "Window_pos this h' = Inr (x, y)"
    using Window_pos_views [of h' this] t pw Some h'(2-4) by simp
  ultimately show ?thesis using h'(1) Some by (auto simp: windows_ok_def)
qed

text \<open>Destroying a window is safe when no window is left inside it.\<close>

lemma Window_destroy_ok:
  assumes ok: "windows_ok h" and t: "is_win h this"
    and empty: "\<And>c. kidmap h this c \<noteq> None \<Longrightarrow> \<not> is_win h c"
  shows "\<exists>h'. Window_destroy this h = (Inr (), h') \<and> windows_ok h' \<and> \<not> alive h' this"
proof -
  have l: "links_ok h" and n: "nested h" using ok by (simp_all add: windows_ok_def)
  have pw: "is_win h p" if "par h this = Some p" for p by (rule links_okD(4) [OF l that])
  from Window_destroy_effect [OF t pw]
  obtain h' where h': "Window_destroy this h = (Inr (), h')"
    "kidmap h' = (case par h this of None \<Rightarrow> kidmap h
             | Some p \<Rightarrow> (kidmap h)(p := (kidmap h p)(this := None)))(this := Map.empty)"
    "par h' = (par h)(this := None)" "is_win h' = (is_win h)(this := False)"
    "alive h' = (alive h)(this := False)"
    by (auto simp: ends_with_def)
  have km: "kidmap h' p c = (if p = this \<or> c = this then None else kidmap h p c)" for p c
    using h'(2) links_ok_none [OF l t, of p] nested_irrefl [OF n, of this]
    by (cases "par h this") auto
  have nopar: "par h c \<noteq> Some this" for c
    using empty [of c] links_okD(3) [OF l, of c this] not_win_views [of h c] by auto
  have "links_ok h'"
    by (rule links_okI; simp only: h'(3-5) km fun_upd_apply split: if_splits)
      (use l nopar in \<open>auto dest: links_okD\<close>)
  moreover have "nested h'" by (rule nested_mono [OF n]) (auto simp: km split: if_splits)
  ultimately show ?thesis using h' by (auto simp: windows_ok_def)
qed

end
