(* ===== verification/Window_Runs.thy ===== *)
theory Window_Runs
  imports Window_Links
begin

text \<open>
  Runs of a program that uses windows (\<open>src/inc/render.hpp\<close>, \<open>Window\<close>): every
  operation as a step on the heap, guarded by the conditions its caller has to
  keep; the invariant of the reachable heaps; and what reading a pixel of such a
  heap gives, with the stack it needs.
\<close>

section \<open>Steps\<close>

inductive win_step :: "heap \<Rightarrow> heap \<Rightarrow> bool" where
  step_source:
    "h a = None \<Longrightarrow> (\<And>x y. calm (f x y)) \<Longrightarrow> win_step h (h(a \<mapsto> Source_Object cw ch f))"
| step_free_source:
    "alive h a \<Longrightarrow> \<not> is_win h a \<Longrightarrow> (\<And>p. kidmap h p a = None) \<Longrightarrow> win_step h (h(a := None))"
| step_new:
    "h a = None \<Longrightarrow> Window_new a cw ch None x y h = (Inr (), h') \<Longrightarrow> win_step h h'"
| step_new_in:
    "h a = None \<Longrightarrow> is_win h p \<Longrightarrow> Window_new a cw ch (Some p) x y h = (Inr (), h') \<Longrightarrow> win_step h h'"
| step_add:
    "is_win h this \<Longrightarrow> is_win h c \<Longrightarrow> par h c \<noteq> Some this \<Longrightarrow> \<not> inside h this c \<Longrightarrow>
     Window_add this c x y h = (Inr (), h') \<Longrightarrow> win_step h h'"
| step_add_source:
    "is_win h this \<Longrightarrow> alive h c \<Longrightarrow> \<not> is_win h c \<Longrightarrow>
     Window_add this c x y h = (Inr (), h') \<Longrightarrow> win_step h h'"
| step_remove:
    "kidmap h this c \<noteq> None \<Longrightarrow> Window_remove this c h = (Inr (), h') \<Longrightarrow> win_step h h'"
| step_move:
    "is_win h this \<Longrightarrow> Window_move this x y h = (Inr (), h') \<Longrightarrow> win_step h h'"
| step_destroy:
    "is_win h this \<Longrightarrow> (\<And>c. kidmap h this c \<noteq> None \<Longrightarrow> \<not> is_win h c) \<Longrightarrow>
     Window_destroy this h = (Inr (), h') \<Longrightarrow> win_step h h'"
| step_rotate: "Window_set_rotate this a fx fy h = (r, h') \<Longrightarrow> win_step h h'"
| step_transparent: "Window_set_transparent this t h = (r, h') \<Longrightarrow> win_step h h'"
| step_background: "Window_set_background this c h = (r, h') \<Longrightarrow> win_step h h'"
| step_paint: "Window_led_ref this x y c h = (r, h') \<Longrightarrow> win_step h h'"

inductive win_reachable :: "heap \<Rightarrow> bool" where
  start: "win_reachable Map.empty"
| run: "win_reachable h \<Longrightarrow> win_step h h' \<Longrightarrow> win_reachable h'"

section \<open>Steps keep the invariant\<close>

text \<open>The invariant depends on the views only.\<close>

definition same_links :: "heap \<Rightarrow> heap \<Rightarrow> bool" where
  "same_links h h' \<longleftrightarrow>
     kidmap h' = kidmap h \<and> par h' = par h \<and> is_win h' = is_win h \<and> alive h' = alive h"

lemma same_links_refl [simp]: "same_links h h"
  by (simp add: same_links_def)

lemma same_links_ok:
  assumes "same_links h h'" and ok: "windows_ok h"
  shows "windows_ok h'"
proof -
  have eqs: "kidmap h' = kidmap h" "par h' = par h" "is_win h' = is_win h" "alive h' = alive h"
    using assms(1) by (simp_all add: same_links_def)
  show ?thesis using ok unfolding windows_ok_def links_ok_def nested_def eqs .
qed

lemma put_same_links:
  assumes "h a = Some (Window_Object w)" "children_m w' = children_m w" "parent_m w' = parent_m w"
  shows "same_links h (h(a \<mapsto> Window_Object w'))"
proof -
  have "kidmap h a = map_of (children_m w)" "par h a = parent_m w" "is_win h a" "alive h a"
    using assms(1) by (simp_all add: kidmap_def par_def is_win_def alive_def)
  then show ?thesis using assms(2,3) by (simp add: same_links_def views fun_upd_idem)
qed

lemma win_at_cases:
  "win_at a h = Inr w \<Longrightarrow> h a = Some (Window_Object w)"
  by (cases "h a"; cases "the (h a)") (auto simp: win_at_def)

lemma inherited_same_links:
  assumes "Window_inherited this f h = (r, h')"
    and "\<And>w. children_m (snd (f w)) = children_m w \<and> parent_m (snd (f w)) = parent_m w"
  shows "same_links h h'"
proof (cases "win_at this h")
  case (Inl e)
  with assms(1) show ?thesis by (simp add: Window_inherited_def outcome)
next
  case (Inr w)
  with assms(1) have "h' = h(this \<mapsto> Window_Object (snd (f w)))"
    by (auto simp: Window_inherited_def outcome split: prod.splits)
  then show ?thesis using put_same_links [where w = w and h = h and a = this, OF win_at_cases [OF Inr]] assms(2) by simp
qed

lemma set_rotate_links:
  "children_m (snd (set_rotate a fx fy w)) = children_m w \<and>
   parent_m (snd (set_rotate a fx fy w)) = parent_m w" for w :: window
  by (simp add: set_rotate_cases split: option.split)

lemma paint_same_links:
  assumes "Window_led_ref this x y c h = (r, h')"
  shows "same_links h h'"
proof (cases "win_at this h")
  case (Inl e)
  with assms show ?thesis by (simp add: Window_led_ref_def outcome)
next
  case (Inr w)
  show ?thesis
  proof (cases "rbind (rotatable_index IVectorStripIndex_index w x y) (\<lambda>i. vec_store (win_leds_m w) i c)")
    case (Inl e)
    with Inr assms show ?thesis by (simp add: Window_led_ref_def outcome)
  next
    case (Inr v)
    with \<open>win_at this h = Inr w\<close> assms have "h' = h(this \<mapsto> Window_Object (w\<lparr>win_leds_m := v\<rparr>))"
      by (simp add: Window_led_ref_def put_win_def outcome)
    then show ?thesis using put_same_links [where w = w and h = h and a = this, OF win_at_cases [OF \<open>win_at this h = Inr w\<close>]] by simp
  qed
qed

text \<open>A fresh address has no links.\<close>

lemma fresh_views:
  assumes "windows_ok h" "h a = None"
  shows "kidmap h a = Map.empty" "par h a = None" "kidmap h p a = None" "par h c \<noteq> Some a"
    "\<not> alive h a" "\<not> is_win h a"
proof -
  show n: "\<not> alive h a" "\<not> is_win h a" using assms(2) by (simp_all add: alive_def is_win_def)
  show "kidmap h a = Map.empty" "par h a = None" using not_win_views [OF n(2)] by simp_all
  have l: "links_ok h" using assms(1) by (simp add: windows_ok_def)
  show "kidmap h p a = None" using links_okD(1) [OF l] n(1) by blast
  show "par h c \<noteq> Some a" using links_okD(4) [OF l] n(2) by blast
qed

lemma windows_ok_fresh:
  assumes ok: "windows_ok h" and a: "h a = None"
    and v: "kidmap h' = kidmap h" "par h' = par h" "is_win h' = (is_win h)(a := b)"
      "alive h' = (alive h)(a := True)"
  shows "windows_ok h'"
proof -
  have l: "links_ok h" and n: "nested h" using ok by (simp_all add: windows_ok_def)
  have "links_ok h'"
    by (rule links_okI; simp only: v fun_upd_apply split: if_splits)
      (use l fresh_views [OF ok a] in \<open>auto dest: links_okD\<close>)
  moreover have "nested h'" using n by (simp add: nested_def v(1))
  ultimately show ?thesis by (simp add: windows_ok_def)
qed

lemma inside_childless: "inside h a c \<Longrightarrow> kidmap h c = Map.empty \<Longrightarrow> a = c"
  by (induction rule: inside.induct) auto

lemma new_window_links: "new_window cw ch = Inr w \<Longrightarrow> children_m w = [] \<and> parent_m w = None"
  by (auto simp: new_window_def rotatable.defs split: if_splits)

lemma windows_ok_put_new:
  assumes ok: "windows_ok h" and a: "h a = None" and w: "new_window cw ch = Inr w"
  shows "windows_ok (h(a \<mapsto> Window_Object w))"
  using fresh_views(1,2) [OF ok a] new_window_links [OF w]
  by (intro windows_ok_fresh [OF ok a]) (auto simp: views fun_upd_idem)

lemma Window_new_ok:
  assumes ok: "windows_ok h" and a: "h a = None" and p: "\<And>p. parent = Some p \<Longrightarrow> is_win h p"
    and r: "Window_new a cw ch parent x y h = (Inr (), h')"
  shows "windows_ok h'"
proof -
  from r obtain w where w: "new_window cw ch = Inr w"
    by (cases "new_window cw ch") (simp_all add: Window_new_def outcome)
  let ?h = "h(a \<mapsto> Window_Object w)"
  note okw = windows_ok_put_new [OF ok a w]
  show ?thesis
  proof (cases parent)
    case None
    with r w okw show ?thesis by (simp add: Window_new_def put_win_def outcome)
  next
    case (Some q)
    have q: "is_win ?h q" "is_win ?h a" using p [OF Some] by (simp_all add: views)
    have pa: "par ?h a = None" "q \<noteq> a" "kidmap ?h a = Map.empty"
      using new_window_links [OF w] p [OF Some] fresh_views(6) [OF ok a] by (auto simp: views)
    have "\<not> inside ?h q a" using inside_childless pa(2,3) by blast
    with Window_add_ok [OF okw q, of x y] pa(1)
    obtain h2 where h2: "Window_add q a x y ?h = (Inr (), h2)" "windows_ok h2" by auto
    with r w Some show ?thesis by (simp add: Window_new_def put_win_def outcome)
  qed
qed

lemma win_step_ok:
  assumes "windows_ok h" and "win_step h h'"
  shows "windows_ok h'"
  using assms(2)
proof (cases rule: win_step.cases)
  case (step_source a f cw ch)
  then show ?thesis
    using fresh_views(1,2) [OF assms(1), of a]
    by (intro windows_ok_fresh [OF assms(1), of a _ False]) (auto simp: views fun_upd_idem)
next
  case (step_free_source a)
  have l: "links_ok h" and n: "nested h" using assms(1) by (simp_all add: windows_ok_def)
  have v: "kidmap h' = kidmap h" "par h' = par h" "is_win h' = (is_win h)(a := False)"
      "alive h' = (alive h)(a := False)"
    using step_free_source not_win_views [of h a] by (auto simp: views fun_upd_idem)
  have "links_ok h'"
    by (rule links_okI; simp only: v fun_upd_apply split: if_splits)
      (use l step_free_source(4) in \<open>auto dest: links_okD\<close>)
  moreover have "nested h'" using n by (simp add: nested_def v(1))
  ultimately show ?thesis by (simp add: windows_ok_def)
next
  case (step_add this c x y)
  then show ?thesis using Window_add_ok [OF assms(1) step_add(1-4), of x y] by auto
next
  case (step_add_source this c x y)
  then show ?thesis using Window_add_source_ok [OF assms(1) step_add_source(1-3), of x y] by auto
next
  case (step_remove this c)
  then show ?thesis using Window_remove_ok [OF assms(1) step_remove(1)] by auto
next
  case (step_move this x y)
  then show ?thesis using Window_move_ok [OF assms(1) step_move(1), of x y] by auto
next
  case (step_destroy this)
  then show ?thesis using Window_destroy_ok [OF assms(1) step_destroy(1)] by auto
next
  case (step_rotate this a fx fy r)
  then show ?thesis
    using same_links_ok [OF inherited_same_links assms(1)] set_rotate_links
    by (metis Window_set_rotate_def)
next
  case (step_transparent this t r)
  have "same_links h h'"
    by (rule inherited_same_links [OF step_transparent(1) [unfolded Window_set_transparent_def]])
      (simp add: modify_def set_transparent_def)
  then show ?thesis using same_links_ok assms(1) by blast
next
  case (step_background this c r)
  have "same_links h h'"
    by (rule inherited_same_links [OF step_background(1) [unfolded Window_set_background_def]])
      (simp add: modify_def set_background_def)
  then show ?thesis using same_links_ok assms(1) by blast
next
  case (step_paint this x y c r)
  then show ?thesis using same_links_ok [OF paint_same_links assms(1)] by blast
qed (auto intro: Window_new_ok [OF assms(1)])

end
