(* ===== verification/Window_Pixels.thy ===== *)
theory Window_Pixels
  imports Window_Runs
begin

text \<open>
  Reading the pixels of a tree of windows (\<open>src/inc/render.hpp\<close>,
  \<open>Window::led\<close>): no run of the operations leaves a tree too deep for a stack
  with one call per live object, and in a sound scene every pixel has a colour,
  given by the first child that covers the point and does not show through.
\<close>

section \<open>Runs: sources stay, the heap stays finite\<close>

definition tame :: "(heap, 'a) stm \<Rightarrow> bool" where
  "tame m \<longleftrightarrow> (\<forall>h r h'. m h = (r, h') \<longrightarrow>
     (finite (dom h) \<longrightarrow> finite (dom h')) \<and>
     (\<forall>a. h' a = h a \<or> h' a = None \<or> (\<exists>w. h' a = Some (Window_Object w))))"

named_theorems tame_intros

lemma tame_basic [tame_intros]:
  "tame skip" "tame (eval_expr e)" "tame (put_win a w)" "tame (modify (\<lambda>h. h(a := None)))"
  by (auto simp: tame_def skip_def eval_expr_def put_win_def modify_def)

lemma tame_and_then [tame_intros]:
  assumes "tame m" "\<And>a. tame (f a)"
  shows "tame (and_then m f)"
  unfolding tame_def
proof (intro allI impI)
  fix h r h' assume e: "and_then m f h = (r, h')"
  obtain r1 h1 where m: "m h = (r1, h1)" by force
  with assms(1) have t: "finite (dom h) \<longrightarrow> finite (dom h1)"
    "h1 a = h a \<or> h1 a = None \<or> (\<exists>w. h1 a = Some (Window_Object w))" for a
    unfolding tame_def by blast+
  show "(finite (dom h) \<longrightarrow> finite (dom h')) \<and>
     (\<forall>a. h' a = h a \<or> h' a = None \<or> (\<exists>w. h' a = Some (Window_Object w)))"
  proof (cases r1)
    case (Inl e1)
    with e m t show ?thesis by (auto simp: outcome)
  next
    case (Inr b)
    with e m have "f b h1 = (r, h')" by (simp add: outcome)
    with assms(2) [of b] t show ?thesis unfolding tame_def by metis
  qed
qed

lemma tame_cases [tame_intros]:
  "(\<And>x. tame (f x)) \<Longrightarrow> tame g \<Longrightarrow> tame (case ob of None \<Rightarrow> g | Some x \<Rightarrow> f x)"
  by (cases ob) simp_all

lemma tame_remove [tame_intros]: "tame (Window_remove a c)"
  unfolding Window_remove_def by (intro tame_intros)

lemma tame_add [tame_intros]: "tame (Window_add a c x y)"
  unfolding Window_add_def by (intro tame_intros)

lemma tame_move [tame_intros]: "tame (Window_move a x y)"
  unfolding Window_move_def by (intro tame_intros)

lemma tame_new [tame_intros]: "tame (Window_new a cw ch p x y)"
  unfolding Window_new_def by (intro tame_intros)

lemma tame_destroy [tame_intros]: "tame (Window_destroy a)"
  unfolding Window_destroy_def by (intro tame_intros)

lemma tame_led_ref [tame_intros]: "tame (Window_led_ref a x y c)"
  unfolding Window_led_ref_def by (intro tame_intros)

lemma tame_inherited [tame_intros]: "tame (Window_inherited a f)"
proof -
  have "tame (\<lambda>h. case f w of (r, w') \<Rightarrow> (r, h(a \<mapsto> Window_Object w')))" for w
    by (auto simp: tame_def split: prod.splits)
  then show ?thesis unfolding Window_inherited_def by (intro tame_intros)
qed

lemma tame_setters:
  "tame (Window_set_rotate a n fx fy)" "tame (Window_set_transparent a t)"
  "tame (Window_set_background a c)"
  by (simp_all add: Window_set_rotate_def Window_set_transparent_def Window_set_background_def
      tame_inherited)

definition heap_ok :: "heap \<Rightarrow> bool" where
  "heap_ok h \<longleftrightarrow> windows_ok h \<and> calm_sources h \<and> finite (dom h)"

lemma tame_heap:
  assumes "tame m" "m h = (r, h')" "calm_sources h" "finite (dom h)"
  shows "calm_sources h' \<and> finite (dom h')"
proof -
  have "h' a = h a \<or> h' a = None \<or> (\<exists>w. h' a = Some (Window_Object w))" for a
    using assms(1,2) unfolding tame_def by blast
  then have "h a = Some (Source_Object cw ch f)" if "h' a = Some (Source_Object cw ch f)" for a cw ch f
    using that by (metis option.distinct(1) option.inject paint_object.distinct(1))
  then show ?thesis using assms unfolding tame_def calm_sources_def by blast
qed

lemma win_step_heap_ok:
  assumes ok: "heap_ok h" and step: "win_step h h'"
  shows "heap_ok h'"
proof -
  have s: "calm_sources h" "finite (dom h)" using ok by (simp_all add: heap_ok_def)
  have "calm_sources h' \<and> finite (dom h')"
    using step
  proof (cases rule: win_step.cases)
    case (step_source a f cw ch)
    then show ?thesis using s by (auto simp: calm_sources_def)
  next
    case (step_free_source a)
    then show ?thesis using s by (auto simp: calm_sources_def)
  qed (erule tame_heap [OF tame_new _ s]
    | erule tame_heap [OF tame_add _ s]
    | erule tame_heap [OF tame_remove _ s]
    | erule tame_heap [OF tame_move _ s]
    | erule tame_heap [OF tame_destroy _ s]
    | erule tame_heap [OF tame_led_ref _ s]
    | erule tame_heap [OF tame_setters(1) _ s]
    | erule tame_heap [OF tame_setters(2) _ s]
    | erule tame_heap [OF tame_setters(3) _ s])+
  then show ?thesis using ok win_step_ok step by (auto simp: heap_ok_def)
qed

lemma win_reachable_heap_ok: "win_reachable h \<Longrightarrow> heap_ok h"
proof (induction rule: win_reachable.induct)
  case start
  show ?case
    by (simp add: heap_ok_def windows_ok_def links_ok_def nested_def calm_sources_def
        kidmap_def par_def)
qed (rule win_step_heap_ok)

section \<open>The stack a tree needs\<close>

lemma inside_trans: "inside h a b \<Longrightarrow> inside h b c \<Longrightarrow> inside h a c"
  by (induction rule: inside.induct) (auto intro: inside.intros)

lemma nested_not_inside_child:
  assumes "nested h" "kidmap h p c \<noteq> None"
  shows "\<not> inside h p c"
proof
  assume i: "inside h p c"
  from assms(1) obtain rk :: "addr \<Rightarrow> nat" where rk: "\<And>p a. kidmap h p a \<noteq> None \<Longrightarrow> rk a < rk p"
    unfolding nested_def by blast
  from i have "rk p \<le> rk c"
  proof (induction rule: inside.induct)
    case (inside_step q a d)
    with rk [OF inside_step(1)] show ?case by simp
  qed simp
  with rk [OF assms(2)] show False by simp
qed

lemma inside_alive: "inside h a c \<Longrightarrow> links_ok h \<Longrightarrow> alive h c \<Longrightarrow> alive h a"
  by (induction rule: inside.induct) (auto dest: links_okD(1))

text \<open>How many objects are inside an object, itself apart.\<close>

definition depth_bound :: "heap \<Rightarrow> addr \<Rightarrow> nat" where
  "depth_bound h a = card {b. inside h b a} - 1"

lemma inside_dom:
  "windows_ok h \<Longrightarrow> alive h a \<Longrightarrow> {b. inside h b a} \<subseteq> dom h"
  using inside_alive [of h _ a] by (auto simp: windows_ok_def alive_def)

lemma kids_member:
  "h a = Some (Window_Object w) \<Longrightarrow> c \<in> fst ` set (children_m w) \<longleftrightarrow> kidmap h a c \<noteq> None"
  by (simp add: kidmap_def map_of_eq_None_iff)

lemma depth_bound_ranked:
  assumes ok: "windows_ok h" and fin: "finite (dom h)"
  shows "ranked (depth_bound h) h"
  unfolding ranked_def
proof (intro allI impI ballI)
  fix a w c assume w: "h a = Some (Window_Object w)" and "c \<in> fst ` set (children_m w)"
  then have k: "kidmap h a c \<noteq> None" using kids_member [where h = h and a = a and w = w] w by blast
  have l: "links_ok h" and n: "nested h" using ok by (simp_all add: windows_ok_def)
  have al: "alive h a" "alive h c" using w links_okD(1) [OF l k] by (simp_all add: alive_def)
  have fa: "finite {b. inside h b a}" "finite {b. inside h b c}"
    using inside_dom [OF ok] al fin by (meson finite_subset)+
  have "{b. inside h b c} \<subset> {b. inside h b a}"
    using k nested_not_inside_child [OF n k] inside_step [OF k inside_refl] inside_trans
    by (blast intro: inside.inside_refl)
  from psubset_card_mono [OF fa(1) this]
  have "card {b. inside h b c} < card {b. inside h b a}" .
  moreover have "0 < card {b. inside h b c}"
    using fa(2) by (auto simp: card_gt_0_iff intro: inside_refl)
  ultimately show "depth_bound h c < depth_bound h a" by (simp add: depth_bound_def)
qed

lemma depth_bound_less:
  assumes "windows_ok h" "finite (dom h)" "alive h a"
  shows "depth_bound h a < card (dom h)"
proof -
  have "card {b. inside h b a} \<le> card (dom h)"
    by (rule card_mono [OF assms(2) inside_dom [OF assms(1,3)]])
  moreover have "0 < card (dom h)" using assms(2,3) by (auto simp: card_gt_0_iff alive_def)
  ultimately show ?thesis by (simp add: depth_bound_def)
qed

lemma obj_led_calm:
  "heap_ok h \<Longrightarrow> alive h a \<Longrightarrow> card (dom h) \<le> stack \<Longrightarrow> calm (obj_led stack h a x y)"
  using obj_led_enough_stack [OF depth_bound_ranked] depth_bound_less
  by (metis heap_ok_def order_less_le_trans)

section \<open>Composition\<close>

text \<open>
  A sound scene: windows with their storage, children placed within the range of
  \<open>int\<close>, and sources that have a colour at each of their pixels.
\<close>

definition object_ok :: "heap \<Rightarrow> paint_object \<Rightarrow> bool" where
  "object_ok h ob = (case ob of
     Window_Object w \<Rightarrow>
       rotatable_ok w \<and> length (win_leds_m w) = nat (width_m w * height_m w) \<and>
       (\<forall>child \<in> set (children_m w). placed h child)
   | Source_Object cw ch f \<Rightarrow>
       cw \<le> int_max \<and> ch \<le> int_max \<and> (\<forall>x y. in_rect cw ch x y \<longrightarrow> (\<exists>c. f x y = Inr c)))"

definition scene_ok :: "heap \<Rightarrow> bool" where
  "scene_ok h \<longleftrightarrow> heap_ok h \<and> (\<forall>a ob. h a = Some ob \<longrightarrow> object_ok h ob)"

text \<open>The colour of a window's own LED, under its children.\<close>

definition own_led :: "window \<Rightarrow> int \<Rightarrow> int \<Rightarrow> LedColor" where
  "own_led w x y = win_leds_m w !
     led_number (StripRotateHelper_index IVectorStripIndex_index (rotate_helper_m w))
       (width_m w) (height_m w) (x, y)"

text \<open>The child shown at a point, given the pixels of the children.\<close>

definition top_child ::
  "(addr \<Rightarrow> int \<Rightarrow> int \<Rightarrow> LedColor result) \<Rightarrow> heap \<Rightarrow> window \<Rightarrow> int \<Rightarrow> int \<Rightarrow>
   (addr \<times> int \<times> int) option" where
  "top_child rec h w x y =
     find (\<lambda>(c, cx, cy). hits h x y (c, cx, cy) \<and>
             \<not> (transparent_m w \<and> rec c (x - cx) (y - cy) = Inr (back_m w))) (children_m w)"

lemma top_childD:
  assumes "top_child rec h w x y = Some (c, cx, cy)"
  shows "(c, cx, cy) \<in> set (children_m w)" "hits h x y (c, cx, cy)"
  using assms unfolding top_child_def by (auto simp: find_Some_iff in_set_conv_nth)

lemma own_led_read:
  assumes "rotatable_ok w" "length (win_leds_m w) = nat (width_m w * height_m w)"
    and "in_rect (logic_width_m w) (logic_height_m w) x y"
  shows "rbind (rotatable_index IVectorStripIndex_index w x y) (vec_at (win_leds_m w)) =
         Inr (own_led w x y)"
  using assms vector_layout.rotated.led_number_index [of "width_m w" "height_m w" "rotate_helper_m w" x y]
    vector_layout.rotated.led_number_less [of "width_m w" "height_m w" "rotate_helper_m w" x y]
  by (simp add: rotatable_ok_def rotatable_index_def own_led_def vec_at_def nat_less_iff zless_nat_eq_int_zless)

text \<open>A child that covers a point is asked for a pixel of its own rectangle.\<close>

lemma object_ok_size:
  "object_ok h ob \<Longrightarrow> obj_width ob \<le> int_max \<and> obj_height ob \<le> int_max"
  using rotatable_dims by (cases ob) (auto simp: object_ok_def)

lemma hits_in_rect:
  assumes "scene_ok h" "placed h (c, cx, cy)" "hits h x y (c, cx, cy)"
  shows "\<exists>ob. h c = Some ob \<and> in_rect (obj_width ob) (obj_height ob) (x - cx) (y - cy) \<and>
           c_sub x cx = Inr (x - cx) \<and> c_sub y cy = Inr (y - cy)"
proof -
  from assms(2) obtain ob where ob: "h c = Some ob" "is_int32 (cx + obj_width ob)"
      "is_int32 (cy + obj_height ob)"
    by (auto simp: placed_def)
  with assms(3) have r: "cx \<le> x" "x < cx + obj_width ob" "cy \<le> y" "y < cy + obj_height ob"
    by (simp_all add: hits_def covers_exact)
  have "obj_width ob \<le> int_max \<and> obj_height ob \<le> int_max"
    using object_ok_size assms(1) ob(1) by (auto simp: scene_ok_def)
  with r ob(1) show ?thesis
    by (auto simp: in_rect_def c_ops is_int32_def int_max_def int_min_def)
qed

lemma scene_object: "scene_ok h \<Longrightarrow> h a = Some ob \<Longrightarrow> object_ok h ob"
  by (simp add: scene_ok_def)

lemma led_children_find:
  assumes ok: "scene_ok h" and placed: "\<forall>child \<in> set cs. placed h child"
    and kids: "\<And>c cx cy. (c, cx, cy) \<in> set cs \<Longrightarrow> hits h x y (c, cx, cy) \<Longrightarrow>
          \<exists>col. rec c (x - cx) (y - cy) = Inr col"
    and own: "rbind (rotatable_index IVectorStripIndex_index w x y) (vec_at (win_leds_m w)) = Inr col"
  shows "led_children rec h w cs x y =
    (case find (\<lambda>(c, cx, cy). hits h x y (c, cx, cy) \<and>
             \<not> (transparent_m w \<and> rec c (x - cx) (y - cy) = Inr (back_m w))) cs of
       None \<Rightarrow> Inr col
     | Some (c, cx, cy) \<Rightarrow> rec c (x - cx) (y - cy))"
  using placed kids
proof (induction cs)
  case Nil
  then show ?case by (simp add: own)
next
  case (Cons child cs)
  obtain c cx cy where child: "child = (c, cx, cy)" by (cases child) auto
  have pl: "placed h (c, cx, cy)" using Cons.prems(1) child by simp
  have IH: "led_children rec h w cs x y =
    (case find (\<lambda>(c, cx, cy). hits h x y (c, cx, cy) \<and>
             \<not> (transparent_m w \<and> rec c (x - cx) (y - cy) = Inr (back_m w))) cs of
       None \<Rightarrow> Inr col
     | Some (c, cx, cy) \<Rightarrow> rec c (x - cx) (y - cy))"
    using Cons.prems by (intro Cons.IH) auto
  show ?case
  proof (cases "hits h x y (c, cx, cy)")
    case True
    from hits_in_rect [OF ok pl True] obtain ob where ob: "h c = Some ob"
        "c_sub x cx = Inr (x - cx)" "c_sub y cy = Inr (y - cy)" by blast
    from Cons.prems(2) [of c cx cy] True child obtain kc where kc: "rec c (x - cx) (y - cy) = Inr kc"
      by auto
    have "covers ob cx cy x y = Inr True" using True ob(1) by (simp add: hits_def)
    with ob kc True IH show ?thesis by (simp add: child)
  next
    case False
    from pl obtain ob b where ob: "h c = Some ob" "covers ob cx cy x y = Inr b"
      by (auto simp: placed_def covers_exact)
    with False have "\<not> b" by (simp add: hits_def)
    with ob False IH show ?thesis by (simp add: child)
  qed
qed

lemma scene_depth:
  assumes "scene_ok h" "h a = Some (Window_Object w)" "(c, cx, cy) \<in> set (children_m w)"
  shows "depth_bound h c < depth_bound h a"
proof -
  have "ranked (depth_bound h) h"
    using assms(1) depth_bound_ranked by (auto simp: scene_ok_def heap_ok_def)
  then show ?thesis using assms(2,3) unfolding ranked_def by force
qed

lemma obj_led_defined:
  assumes ok: "scene_ok h" and "h a = Some ob" and "in_rect (obj_width ob) (obj_height ob) x y"
    and "depth_bound h a < stack"
  shows "\<exists>c. obj_led stack h a x y = Inr c"
  using assms(2-4)
proof (induction stack arbitrary: a ob x y)
  case (Suc stack)
  have oo: "object_ok h ob" by (rule scene_object [OF ok Suc.prems(1)])
  show ?case
  proof (cases ob)
    case (Window_Object w)
    have w: "rotatable_ok w" "length (win_leds_m w) = nat (width_m w * height_m w)"
        "\<forall>child \<in> set (children_m w). placed h child"
      using oo Window_Object by (simp_all add: object_ok_def)
    have kid: "\<exists>col. obj_led stack h c (x - cx) (y - cy) = Inr col"
      if k: "(c, cx, cy) \<in> set (children_m w)" and hit: "hits h x y (c, cx, cy)" for c cx cy
    proof -
      from hits_in_rect [OF ok bspec [OF w(3) k] hit] obtain ob' where
        "h c = Some ob'" "in_rect (obj_width ob') (obj_height ob') (x - cx) (y - cy)" by blast
      moreover have "depth_bound h c < stack"
        using scene_depth [OF ok _ k] Suc.prems(1,3) Window_Object by fastforce
      ultimately show ?thesis by (rule Suc.IH)
    qed
    have own: "rbind (rotatable_index IVectorStripIndex_index w x y) (vec_at (win_leds_m w)) =
        Inr (own_led w x y)"
      using Suc.prems(2) Window_Object by (intro own_led_read w) simp
    have "led_children (obj_led stack h) h w (children_m w) x y =
        (case top_child (obj_led stack h) h w x y of None \<Rightarrow> Inr (own_led w x y)
         | Some (c, cx, cy) \<Rightarrow> obj_led stack h c (x - cx) (y - cy))"
      unfolding top_child_def by (rule led_children_find [where rec = "obj_led stack h", OF ok w(3) kid own])
    moreover have "\<exists>col. (case top_child (obj_led stack h) h w x y of None \<Rightarrow> Inr (own_led w x y)
         | Some (c, cx, cy) \<Rightarrow> obj_led stack h c (x - cx) (y - cy)) = Inr col"
      using kid top_childD by (auto split: option.split)
    ultimately show ?thesis using Suc.prems(1) Window_Object by simp
  next
    case (Source_Object cw ch f)
    with oo Suc.prems show ?thesis by (simp add: object_ok_def)
  qed
qed simp

text \<open>A stack with a call per live object gives what any larger stack gives.\<close>

lemma obj_led_stack_extra:
  "calm (obj_led stack h a x y) \<Longrightarrow> stack \<le> stack' \<Longrightarrow> obj_led stack' h a x y = obj_led stack h a x y"
proof (induction "stack' - stack" arbitrary: stack')
  case (Suc n)
  then obtain m where m: "stack' = Suc m" by (cases stack') auto
  with Suc have "obj_led m h a x y = obj_led stack h a x y" by auto
  with m Suc.prems(1) show ?case using obj_led_more_stack by metis
qed simp

lemma obj_led_front_to_back:
  assumes ok: "scene_ok h" and a: "h a = Some (Window_Object w)"
    and r: "in_rect (logic_width_m w) (logic_height_m w) x y" and stack: "card (dom h) \<le> stack"
  shows "obj_led stack h a x y =
    (case top_child (obj_led stack h) h w x y of
       None \<Rightarrow> Inr (own_led w x y)
     | Some (c, cx, cy) \<Rightarrow> obj_led stack h c (x - cx) (y - cy))"
proof -
  have hp: "windows_ok h" "calm_sources h" "finite (dom h)"
    using ok by (simp_all add: scene_ok_def heap_ok_def)
  have d: "depth_bound h a < stack"
    using depth_bound_less [OF hp(1,3), of a] a stack by (simp add: alive_def)
  then obtain n where n: "stack = Suc n" by (cases stack) auto
  have w: "rotatable_ok w" "length (win_leds_m w) = nat (width_m w * height_m w)"
      "\<forall>child \<in> set (children_m w). placed h child"
    using scene_object [OF ok a] by (simp_all add: object_ok_def)
  have dn: "depth_bound h c < n" if "(c, cx, cy) \<in> set (children_m w)" for c cx cy
    using scene_depth [OF ok a that] d n by simp
  have same: "obj_led stack h c dx dy = obj_led n h c dx dy"
    if "(c, cx, cy) \<in> set (children_m w)" for c cx cy dx dy
    unfolding n using obj_led_enough_stack [OF depth_bound_ranked [OF hp(1,3)] hp(2) dn [OF that]]
    by (rule obj_led_more_stack)
  have kid: "\<exists>col. obj_led n h c (x - cx) (y - cy) = Inr col"
    if k: "(c, cx, cy) \<in> set (children_m w)" and hit: "hits h x y (c, cx, cy)" for c cx cy
    using hits_in_rect [OF ok bspec [OF w(3) k] hit] obj_led_defined [OF ok _ _ dn [OF k]] by blast
  have "obj_led stack h a x y = led_children (obj_led n h) h w (children_m w) x y"
    using a n by simp
  also have "\<dots> = (case top_child (obj_led n h) h w x y of None \<Rightarrow> Inr (own_led w x y)
       | Some (c, cx, cy) \<Rightarrow> obj_led n h c (x - cx) (y - cy))"
    unfolding top_child_def by (rule led_children_find [where rec = "obj_led n h", OF ok w(3) kid own_led_read [OF w(1,2) r]])
  also have "top_child (obj_led n h) h w x y = top_child (obj_led stack h) h w x y"
    unfolding top_child_def by (rule find_cong) (auto simp: same)
  also have "(case top_child (obj_led stack h) h w x y of None \<Rightarrow> Inr (own_led w x y)
       | Some (c, cx, cy) \<Rightarrow> obj_led n h c (x - cx) (y - cy)) =
      (case top_child (obj_led stack h) h w x y of None \<Rightarrow> Inr (own_led w x y)
       | Some (c, cx, cy) \<Rightarrow> obj_led stack h c (x - cx) (y - cy))"
    using same top_childD(1) by (fastforce split: option.split)
  finally show ?thesis .
qed

text \<open>The same choice, with the rectangles of the children written out.\<close>

lemma hits_rectangle:
  assumes "placed h (c, cx, cy)"
  shows "hits h x y (c, cx, cy) \<longleftrightarrow>
    (case h c of
       None \<Rightarrow> False
     | Some (Window_Object v) \<Rightarrow>
         cx \<le> x \<and> x \<le> cx + logic_width_m v - 1 \<and> cy \<le> y \<and> y \<le> cy + logic_height_m v - 1
     | Some (Source_Object cw ch f) \<Rightarrow> cx \<le> x \<and> x \<le> cx + cw - 1 \<and> cy \<le> y \<and> y \<le> cy + ch - 1)"
proof -
  from assms obtain ob where "h c = Some ob" "is_int32 (cx + obj_width ob)" "is_int32 (cy + obj_height ob)"
    by (auto simp: placed_def)
  then show ?thesis by (cases ob) (auto simp: hits_def covers_exact)
qed

lemma top_child_rectangles:
  assumes "scene_ok h" and "h a = Some (Window_Object w)"
  shows "top_child rec h w x y =
    find (\<lambda>(c, cx, cy).
        (case h c of
           None \<Rightarrow> False
         | Some (Window_Object v) \<Rightarrow>
             cx \<le> x \<and> x \<le> cx + logic_width_m v - 1 \<and> cy \<le> y \<and> y \<le> cy + logic_height_m v - 1
         | Some (Source_Object cw ch f) \<Rightarrow> cx \<le> x \<and> x \<le> cx + cw - 1 \<and> cy \<le> y \<and> y \<le> cy + ch - 1) \<and>
        \<not> (transparent_m w \<and> rec c (x - cx) (y - cy) = Inr (back_m w)))
      (children_m w)"
proof -
  have "\<forall>child \<in> set (children_m w). placed h child"
    using scene_object [OF assms] by (simp add: object_ok_def)
  then show ?thesis unfolding top_child_def by (intro find_cong) (auto simp: hits_rectangle)
qed

end
