(* ===== verification/Window_Properties.thy ===== *)
theory Window_Properties
  imports Window_Pixels
begin

text \<open>
  Properties of the windows of \<open>src/inc/render.hpp\<close>: the links that every
  disciplined run keeps, the uses that break them, and the pixels of a tree.
\<close>

section \<open>A tree for the witnesses\<close>

definition bare :: "int \<Rightarrow> int \<Rightarrow> addr option \<Rightarrow> (addr \<times> int \<times> int) list \<Rightarrow> window" where
  "bare w h p ks = rotatable.extend (IRotatablePaintDevice w h Led_Black)
     \<lparr>win_leds_m = replicate (nat (w * h)) 0, parent_m = p, children_m = ks\<rparr>"

text \<open>Window 1 of 4 by 4 LEDs holds window 2 of 2 by 2 at \<open>(1, 1)\<close>; window 3 is free.\<close>

definition demo_heap :: heap where
  "demo_heap = [1 \<mapsto> Window_Object (bare 4 4 None [(2, 1, 1)]),
                2 \<mapsto> Window_Object (bare 2 2 (Some 1) []),
                3 \<mapsto> Window_Object (bare 2 2 None [])]"

lemma bare_members [simp]:
  "children_m (bare w h p ks) = ks" "parent_m (bare w h p ks) = p"
  "logic_width_m (bare w h p ks) = w" "logic_height_m (bare w h p ks) = h"
  "win_leds_m (bare w h p ks) = replicate (nat (w * h)) 0"
  "width_m (bare w h p ks) = w" "height_m (bare w h p ks) = h"
  "transparent_m (bare w h p ks) = False"
  by (simp_all add: bare_def IRotatablePaintDevice_def rotatable.defs)

lemma demo_views:
  "kidmap demo_heap = (\<lambda>_. Map.empty)(1 := [2 \<mapsto> (1, 1)])"
  "par demo_heap = [2 \<mapsto> 1]" "is_win demo_heap a \<longleftrightarrow> a \<in> {1, 2, 3}" "alive demo_heap a \<longleftrightarrow> a \<in> {1, 2, 3}"
  by (auto simp: demo_heap_def kidmap_def par_def is_win_def alive_def fun_eq_iff)

lemma demo_ok: "windows_ok demo_heap"
  unfolding windows_ok_def
proof
  show "links_ok demo_heap"
    by (rule links_okI) (auto simp: demo_views split: if_splits)
  show "nested demo_heap"
    unfolding nested_def
    by (rule exI [of _ "\<lambda>a. if a = 1 then 1 else 0"]) (auto simp: demo_views split: if_splits)
qed

section \<open>Links\<close>

text \<open>C3: in every heap a disciplined run of the operations
  reaches, children are alive, a child window's parent pointer and its parent's
  entry agree, and no window is inside itself.\<close>

theorem window_runs_keep_links:
  assumes "win_reachable h"
  shows "windows_ok h"
  using win_reachable_heap_ok [OF assms] by (simp add: heap_ok_def)

lemma window_runs_keep_links_witness:
  "windows_ok ([7 \<mapsto> Source_Object 1 1 (\<lambda>_ _. Inr 5)])"
  using window_runs_keep_links [OF win_reachable.run [OF win_reachable.start
        win_step.step_source [of Map.empty 7 "\<lambda>_ _. Inr 5" 1 1]]] by simp

text \<open>C18: adding a window to another one (not inside itself, not
  its present parent) takes it from its old parent: it is then in exactly one
  children map, its parent pointer is the new parent, and it is where it was put.\<close>

theorem window_add_moves_child:
  assumes "windows_ok h" and "is_win h this" "is_win h c"
    and "par h c \<noteq> Some this" "\<not> inside h this c"
  shows "\<exists>h'. Window_add this c x y h = (Inr (), h') \<and> windows_ok h' \<and>
           Window_pos c h' = Inr (x, y) \<and> par h' c = Some this \<and>
           (\<forall>p. kidmap h' p c \<noteq> None \<longleftrightarrow> p = this)"
  by (rule Window_add_ok [OF assms])

lemma demo_not_inside: "\<not> inside demo_heap 3 2"
proof
  assume "inside demo_heap 3 2"
  then show False
    using inside_childless [of demo_heap 3 2] by (simp add: demo_views)
qed

lemma window_add_moves_child_witness:
  "\<exists>h'. Window_add 3 2 0 1 demo_heap = (Inr (), h') \<and> Window_pos 2 h' = Inr (0, 1) \<and>
        par h' 2 = Some 3"
  using window_add_moves_child [OF demo_ok, of 3 2 0 1] demo_not_inside
  by (auto simp: demo_views)

text \<open>\<open>Window::move\<close> changes where a window with a parent is and nothing
  else; \<open>x\<close> and \<open>y\<close> report it. Without a parent it has no effect and both are 0.\<close>

lemma window_move_pos:
  assumes "windows_ok h" and "is_win h this"
  shows "\<exists>h'. Window_move this x y h = (Inr (), h') \<and> windows_ok h' \<and>
     (case par h this of
        None \<Rightarrow> h' = h \<and> Window_x this h' = Inr 0 \<and> Window_y this h' = Inr 0
      | Some p \<Rightarrow> Window_x this h' = Inr x \<and> Window_y this h' = Inr y \<and>
          kidmap h' = (kidmap h)(p := (kidmap h p)(this \<mapsto> (x, y))) \<and> par h' = par h)"
proof -
  from Window_move_ok [OF assms, of x y] obtain h' where h': "Window_move this x y h = (Inr (), h')"
    "windows_ok h'" "Window_pos this h' = Inr (if par h this = None then (0, 0) else (x, y))" by blast
  show ?thesis
  proof (cases "par h this")
    case None
    from assms(2) obtain w where "h this = Some (Window_Object w)" "par h this = parent_m w"
      by (rule is_winE)
    with None h'(1) have "h' = h" by (simp add: Window_move_def outcome)
    with None h' show ?thesis by (simp add: Window_x_def Window_y_def)
  next
    case (Some p)
    have "is_win h p" using links_okD(4) [OF _ Some] assms(1) by (simp add: windows_ok_def)
    from Window_move_effect [OF assms(2) Some this, of x y] h'(1)
    have "kidmap h' = (kidmap h)(p := (kidmap h p)(this \<mapsto> (x, y)))" "par h' = par h"
      by (auto simp: ends_with_def)
    with Some h' show ?thesis by (simp add: Window_x_def Window_y_def)
  qed
qed

lemma window_move_pos_witness:
  "\<exists>h'. Window_move 2 0 1 demo_heap = (Inr (), h') \<and> Window_x 2 h' = Inr 0 \<and> Window_y 2 h' = Inr 1"
  using window_move_pos [OF demo_ok, of 2 0 1] by (auto simp: demo_views)

text \<open>C16: two calls that nothing forbids break the links. Adding a
  window again to the parent it has erases it from the children it should stay in;
  removing it from a window that is not its parent clears the pointer to its parent,
  which keeps the entry.\<close>

theorem misused_links_break:
  assumes "windows_ok h" and "is_win h c" and "par h c = Some p"
  shows "(\<exists>h'. Window_add p c x y h = (Inr (), h') \<and>
            kidmap h' p c = None \<and> par h' c = Some p \<and> \<not> links_ok h') \<and>
         (\<forall>q. is_win h q \<and> q \<noteq> p \<longrightarrow> (\<exists>h'. Window_remove q c h = (Inr (), h') \<and>
            kidmap h' p c \<noteq> None \<and> par h' c = None \<and> \<not> links_ok h'))"
proof -
  have l: "links_ok h" using assms(1) by (simp add: windows_ok_def)
  have pw: "is_win h p" by (rule links_okD(4) [OF l assms(3)])
  have pw': "par h c = Some q \<Longrightarrow> is_win h q" for q using pw assms(3) by simp
  from Window_add_window_effect [OF pw assms(2) pw', where x = x and y = y]
  obtain h' where h': "Window_add p c x y h = (Inr (), h')" "kidmap h' p c = None" "par h' c = Some p"
    by (auto simp: ends_with_def assms(3) Let_def)
  then have "\<not> links_ok h'" using links_okD(3) by blast
  with h' have "\<exists>h'. Window_add p c x y h = (Inr (), h') \<and>
      kidmap h' p c = None \<and> par h' c = Some p \<and> \<not> links_ok h'" by blast
  moreover have "\<exists>h'. Window_remove q c h = (Inr (), h') \<and>
      kidmap h' p c \<noteq> None \<and> par h' c = None \<and> \<not> links_ok h'" if q: "is_win h q" "q \<noteq> p" for q
  proof -
    from Window_remove_effect [OF q(1) is_win_alive [OF assms(2)]] obtain h2 where
      h2: "Window_remove q c h = (Inr (), h2)" "kidmap h2 = (kidmap h)(q := (kidmap h q)(c := None))"
        "par h2 = (par h)(c := None)" "is_win h2 = is_win h"
      using assms(2) by (auto simp: ends_with_def)
    have k: "kidmap h2 p c \<noteq> None" using h2(2) q(2) links_okD(3) [OF l assms(3)] by auto
    then have "\<not> links_ok h2" using links_okD(2) [of h2 p c] h2(3,4) assms(2) by auto
    with h2 k show ?thesis by auto
  qed
  ultimately show ?thesis by blast
qed

lemma misused_links_break_witness:
  "\<exists>h'. Window_add 1 2 3 3 demo_heap = (Inr (), h') \<and> kidmap h' 1 2 = None \<and> par h' 2 = Some 1"
  using misused_links_break [OF demo_ok, of 2 1 3 3] by (auto simp: demo_views)

text \<open>C17: destroying a window of a sound heap takes it from its parent's children: no
  map of children holds it any more, and every other entry of the maps of the other windows stays.
  With no window inside, the links stay sound; a window that was inside keeps a pointer
  to the destroyed parent, and asking where it is then reads freed memory, as does its destructor.\<close>

theorem destroy_detaches:
  assumes "windows_ok h" and "is_win h this"
  shows "\<exists>h'. Window_destroy this h = (Inr (), h') \<and> \<not> alive h' this \<and>
     (\<forall>p. kidmap h' p = (if p = this then Map.empty else (kidmap h p)(this := None))) \<and>
     ((\<forall>c. kidmap h this c \<noteq> None \<longrightarrow> \<not> is_win h c) \<longrightarrow> windows_ok h') \<and>
     (\<forall>c. kidmap h this c \<noteq> None \<and> is_win h c \<longrightarrow>
        Window_pos c h' = Inl (UB Dangling_Pointer) \<and> Window_destroy c h' = (Inl (UB Dangling_Pointer), h'))"
proof -
  have l: "links_ok h" and n: "nested h" using assms(1) by (simp_all add: windows_ok_def)
  have pw: "par h this = Some p \<Longrightarrow> is_win h p" for p by (rule links_okD(4) [OF l])
  from Window_destroy_effect [OF assms(2) pw] obtain h' where h': "Window_destroy this h = (Inr (), h')"
    "par h' = (par h)(this := None)" "is_win h' = (is_win h)(this := False)"
    "alive h' = (alive h)(this := False)"
    and kids: "kidmap h' = (case par h this of None \<Rightarrow> kidmap h
      | Some p \<Rightarrow> (kidmap h)(p := (kidmap h p)(this := None)))(this := Map.empty)"
    by (auto simp: ends_with_def)
  have maps: "kidmap h' p = (if p = this then Map.empty else (kidmap h p)(this := None))" for p
    using links_ok_none [OF l assms(2), of p] by (cases "par h this = Some p") (auto simp: kids split: option.split)
  have "Window_pos c h' = Inl (UB Dangling_Pointer) \<and> Window_destroy c h' = (Inl (UB Dangling_Pointer), h')"
    if c: "kidmap h this c \<noteq> None" "is_win h c" for c
  proof -
    have ne: "c \<noteq> this" using c(1) nested_irrefl [OF n] by auto
    have "is_win h' c" "par h' c = Some this"
      using h'(2,3) ne c links_okD(2) [OF l c] by simp_all
    from is_winE [OF this(1)] obtain w where "h' c = Some (Window_Object w)" "parent_m w = Some this"
      using \<open>par h' c = Some this\<close> by metis
    moreover have "h' this = None" using fun_cong [OF h'(4), of this] by (simp add: alive_def)
    ultimately show ?thesis
      by (simp add: Window_pos_def Window_destroy_def Window_remove_def and_then_def eval_expr_def)
  qed
  moreover have "windows_ok h'" if "\<forall>c. kidmap h this c \<noteq> None \<longrightarrow> \<not> is_win h c"
    using Window_destroy_ok [OF assms] that h'(1) by auto
  ultimately show ?thesis using h' maps by (intro exI [of _ h'] conjI allI) (auto simp: alive_def dest: fun_cong [of "alive h'" _ this])
qed

lemma destroy_detaches_witness:
  "(\<exists>h'. Window_destroy 1 demo_heap = (Inr (), h') \<and> Window_pos 2 h' = Inl (UB Dangling_Pointer)) \<and>
   (\<exists>h'. Window_destroy 2 demo_heap = (Inr (), h') \<and> kidmap h' 1 = Map.empty)"
  using destroy_detaches [OF demo_ok, of 1] destroy_detaches [OF demo_ok, of 2] by (auto simp: demo_views)

section \<open>Pixels\<close>

text \<open>C11: in every heap a disciplined run reaches, reading a pixel of a
  live object nests at most as many calls as there are live objects.\<close>

theorem stack_suffices:
  assumes "win_reachable h" and "alive h a" and "card (dom h) \<le> stack"
  shows "obj_led stack h a x y \<noteq> Inl (UB Stack_Overflow)"
  using obj_led_calm [OF win_reachable_heap_ok [OF assms(1)] assms(2,3)] by (simp add: calm_def)

lemma stack_suffices_witness:
  "obj_led 1 ([7 \<mapsto> Source_Object 1 1 (\<lambda>_ _. Inr 5)]) 7 0 0 \<noteq> Inl (UB Stack_Overflow)"
  using stack_suffices [OF win_reachable.run [OF win_reachable.start
        win_step.step_source [of Map.empty 7 "\<lambda>_ _. Inr 5" 1 1]], of 7 1 0 0]
  by (simp add: alive_def)



text \<open>C2: in a sound scene every pixel of a window is defined: it is that
  of the first child, in the order of the children, whose rectangle (its position in the window and
  its logical size, the last column and row included) holds the point and whose pixel there does
  not show through, and the window's own LED where there is none. A pixel shows through when the
  window is transparent and the pixel has the window's background colour.\<close>

theorem front_to_back:
  assumes "scene_ok h" and "h a = Some (Window_Object w)"
    and "in_rect (logic_width_m w) (logic_height_m w) x y" and "card (dom h) \<le> stack"
  shows "(\<exists>c. obj_led stack h a x y = Inr c) \<and>
     obj_led stack h a x y =
      (case find (\<lambda>(c, cx, cy).
               (case h c of
                  None \<Rightarrow> False
                | Some (Window_Object v) \<Rightarrow>
                    cx \<le> x \<and> x \<le> cx + logic_width_m v - 1 \<and> cy \<le> y \<and> y \<le> cy + logic_height_m v - 1
                | Some (Source_Object cw ch f) \<Rightarrow> cx \<le> x \<and> x \<le> cx + cw - 1 \<and> cy \<le> y \<and> y \<le> cy + ch - 1) \<and>
               \<not> (transparent_m w \<and> obj_led stack h c (x - cx) (y - cy) = Inr (back_m w)))
             (children_m w) of
         None \<Rightarrow> Inr (own_led w x y)
       | Some (c, cx, cy) \<Rightarrow> obj_led stack h c (x - cx) (y - cy))"
proof
  have hp: "windows_ok h" "finite (dom h)" using assms(1) by (simp_all add: scene_ok_def heap_ok_def)
  have "depth_bound h a < stack"
    using depth_bound_less [OF hp, of a] assms(2,4) by (simp add: alive_def)
  then show "\<exists>c. obj_led stack h a x y = Inr c"
    using obj_led_defined [OF assms(1,2), of x y stack] assms(3) by simp
qed (rule obj_led_front_to_back [OF assms, unfolded top_child_rectangles [OF assms(1,2)]])

lemma demo_scene: "scene_ok demo_heap"
proof -
  have d: "demo_heap a = Some ob \<Longrightarrow> (a = 1 \<and> ob = Window_Object (bare 4 4 None [(2, 1, 1)])) \<or>
      (a = 2 \<and> ob = Window_Object (bare 2 2 (Some 1) [])) \<or> (a = 3 \<and> ob = Window_Object (bare 2 2 None []))" for a ob
    by (auto simp: demo_heap_def split: if_splits)
  have r: "rotatable_ok (bare w w p ks)" if "w = 2 \<or> w = 4" for w p ks
    using that by (auto simp: rotatable_ok_def bare_def rotatable.defs IRotatablePaintDevice_def dims_ok_def
        int_max_def rotated_width_def rotated_height_def)
  have "placed demo_heap (2, 1, 1)"
    by (simp add: placed_def demo_heap_def is_int32_def int_min_def int_max_def)
  then have "object_ok demo_heap ob" if "demo_heap a = Some ob" for a ob
    using d [OF that] r by (auto simp: object_ok_def)
  moreover have "calm_sources demo_heap" using d by (auto simp: calm_sources_def)
  moreover have "finite (dom demo_heap)" by (simp add: demo_heap_def)
  ultimately show ?thesis using demo_ok by (simp add: scene_ok_def heap_ok_def)
qed

lemma front_to_back_witness:
  "obj_led 3 demo_heap 1 1 2 = obj_led 3 demo_heap 2 0 1"
proof -
  have "card (dom demo_heap) \<le> 3" by (simp add: demo_heap_def)
  then show ?thesis
    using front_to_back [OF demo_scene, of 1 "bare 4 4 None [(2, 1, 1)]" 1 2 3]
    by (simp add: demo_heap_def in_rect_def)
qed

end
