(* ===== verification/App.thy ===== *)
theory App
  imports Strip Glyphs
begin

text \<open>
  \<open>src/main.cpp\<close>: the strip of 16 by 32 LEDs, the flag \<open>auto_render\<close>, one
  definition per handler registered with the server, and the render thread.
  The interleaving of handlers and render thread is a step relation whose steps
  are whole handlers; the code holds no lock, so this is the order a sound
  schedule would have, not a promise of the code.
\<close>

section \<open>State\<close>

record app =
  the_strip :: ws2811_strip
  auto_render :: bool

text \<open>What a handler returns, to be packed after the result code.\<close>

datatype reply = Void | Int_Reply int | Color_Reply LedColor | Bool_Reply bool

definition on_strip :: "(ws2811_strip, 'a) stm \<Rightarrow> (app, 'a) stm" where
  "on_strip m = (\<lambda>a. case m (the_strip a) of (r, d) \<Rightarrow> (r, a\<lparr>the_strip := d\<rparr>))"

definition returning :: "reply \<Rightarrow> ('s, 'a) stm \<Rightarrow> ('s, reply) stm" where
  "returning v m = and_then m (\<lambda>_ s. (Inr v, s))"

text \<open>The start of \<open>main\<close>: the strip is built and initialised.\<close>

definition main_start :: "ws2811_lib \<Rightarrow> app result" where
  "main_start lib =
     rbind (WS2811Strip lib 16 32 Led_Black) (\<lambda>d.
       Inr \<lparr>the_strip = snd (WS2811Strip_init lib d), auto_render = False\<rparr>)"

section \<open>Handlers\<close>

definition handler_render :: "ws2811_lib \<Rightarrow> (app, reply) stm" where
  "handler_render lib = returning Void (on_strip (WS2811Strip_render lib))"

definition handler_draw_pixel :: "int \<Rightarrow> int \<Rightarrow> LedColor \<Rightarrow> (app, reply) stm" where
  "handler_draw_pixel x y c = returning Void (on_strip (WS2811Strip_led_ref x y c))"

definition handler_draw_text :: "int \<Rightarrow> int \<Rightarrow> string \<Rightarrow> LedColor \<Rightarrow> LedColor \<Rightarrow> (app, reply) stm" where
  "handler_draw_text x y str c background =
     returning Void (on_strip (draw_at WS2811Strip_device
       (Text4x8_source (set_back_color background (set_color c (Text4x8 str Led_White Led_Black)))) x y))"

text \<open>The parameter \<open>background\<close> is not used.\<close>

definition handler_draw_number :: "int \<Rightarrow> int \<Rightarrow> int \<Rightarrow> LedColor \<Rightarrow> LedColor \<Rightarrow> (app, reply) stm" where
  "handler_draw_number x y number c background =
     and_then (eval_expr (\<lambda>_. DigitGroup3x5 number Led_White Led_Black)) (\<lambda>g.
       returning Void (on_strip (draw_at WS2811Strip_device (DigitGroup3x5_source (set_color c g)) x y)))"

definition handler_clear :: "(app, reply) stm" where
  "handler_clear = returning Void (on_strip (clear WS2811Strip_device))"

definition handler_width :: "(app, reply) stm" where
  "handler_width = eval_expr (\<lambda>a. Inr (Int_Reply (logic_width_m (the_strip a))))"

definition handler_height :: "(app, reply) stm" where
  "handler_height = eval_expr (\<lambda>a. Inr (Int_Reply (logic_height_m (the_strip a))))"

definition handler_pixel :: "int \<Rightarrow> int \<Rightarrow> (app, reply) stm" where
  "handler_pixel x y =
     eval_expr (\<lambda>a. rbind (WS2811Strip_led x y (the_strip a)) (\<lambda>c. Inr (Color_Reply c)))"

definition handler_set_rotate :: "int \<Rightarrow> bool \<Rightarrow> bool \<Rightarrow> (app, reply) stm" where
  "handler_set_rotate deg flip_x flip_y = returning Void (on_strip (set_rotate deg flip_x flip_y))"

definition handler_set_transparent :: "bool \<Rightarrow> (app, reply) stm" where
  "handler_set_transparent t = returning Void (on_strip (modify (set_transparent t)))"

definition handler_set_background :: "LedColor \<Rightarrow> (app, reply) stm" where
  "handler_set_background c = returning Void (on_strip (modify (set_background c)))"

definition handler_set_auto_render :: "bool \<Rightarrow> (app, reply) stm" where
  "handler_set_auto_render b = (\<lambda>a. (Inr (Bool_Reply b), a\<lparr>auto_render := b\<rparr>))"

text \<open>A call of one of the registered handlers.\<close>

datatype request =
    Render
  | Draw_Pixel int int LedColor
  | Draw_Text int int string LedColor LedColor
  | Draw_Number int int int LedColor LedColor
  | Clear
  | Get_Width
  | Get_Height
  | Pixel int int
  | Set_Rotate int bool bool
  | Set_Transparent bool
  | Set_Background LedColor
  | Set_Auto_Render bool

fun handle :: "ws2811_lib \<Rightarrow> request \<Rightarrow> (app, reply) stm" where
  "handle lib Render = handler_render lib"
| "handle lib (Draw_Pixel x y c) = handler_draw_pixel x y c"
| "handle lib (Draw_Text x y t c b) = handler_draw_text x y t c b"
| "handle lib (Draw_Number x y n c b) = handler_draw_number x y n c b"
| "handle lib Clear = handler_clear"
| "handle lib Get_Width = handler_width"
| "handle lib Get_Height = handler_height"
| "handle lib (Pixel x y) = handler_pixel x y"
| "handle lib (Set_Rotate a fx fy) = handler_set_rotate a fx fy"
| "handle lib (Set_Transparent t) = handler_set_transparent t"
| "handle lib (Set_Background c) = handler_set_background c"
| "handle lib (Set_Auto_Render b) = handler_set_auto_render b"

text \<open>One turn of the render thread.\<close>

definition render_thread_turn :: "ws2811_lib \<Rightarrow> (app, unit) stm" where
  "render_thread_turn lib =
     (\<lambda>a. if auto_render a then and_then (on_strip (WS2811Strip_render lib)) (\<lambda>_. skip) a else skip a)"

inductive app_step :: "ws2811_lib \<Rightarrow> app \<Rightarrow> app \<Rightarrow> bool" for lib where
  request_done: "handle lib req a = (Inr v, a') \<Longrightarrow> app_step lib a a'"
| request_throws: "handle lib req a = (Inl (Throw e), a') \<Longrightarrow> app_step lib a a'"
| render_turn: "render_thread_turn lib a = (Inr (), a') \<Longrightarrow> app_step lib a a'"

inductive app_reachable :: "ws2811_lib \<Rightarrow> app \<Rightarrow> bool" for lib where
  app_start: "main_start lib = Inr a \<Longrightarrow> app_reachable lib a"
| app_run: "app_reachable lib a \<Longrightarrow> app_step lib a a' \<Longrightarrow> app_reachable lib a'"

section \<open>The invariant\<close>

definition app_ok :: "app \<Rightarrow> bool" where
  "app_ok a \<longleftrightarrow> strip_ok (the_strip a) \<and> width_m (the_strip a) = 16 \<and> height_m (the_strip a) = 32"

text \<open>The library's \<open>init\<close> succeeds on the strip of the program.\<close>

definition init_succeeds :: "ws2811_lib \<Rightarrow> bool" where
  "init_succeeds lib \<longleftrightarrow>
     (\<forall>d. WS2811Strip lib 16 32 Led_Black = Inr d \<longrightarrow> fst (ws2811_init lib (ws d)) = 0)"

lemma on_strip_eval [outcome]:
  "m (the_strip a) = (r, d) \<Longrightarrow> on_strip m a = (r, a\<lparr>the_strip := d\<rparr>)"
  by (simp add: on_strip_def)

lemma returning_eval:
  "m s = (r, s') \<Longrightarrow> returning v m s = (case r of Inl e \<Rightarrow> Inl e | Inr _ \<Rightarrow> Inr v, s')"
  by (cases r) (simp_all add: returning_def and_then_def)

lemma main_start_ok:
  assumes "ws2811_lib_ok lib" "init_succeeds lib"
  shows "\<exists>a. main_start lib = Inr a \<and> app_ok a \<and> \<not> auto_render a"
proof -
  have "dims_ok 16 32" by (simp add: dims_ok_def int_max_def)
  from WS2811Strip_in_range [OF this] obtain d where d: "WS2811Strip lib 16 32 Led_Black = Inr d"
    "rotatable_ok d" "width_m d = 16" "height_m d = 32" "count (channel0 (ws d)) = 512" by auto
  with assms have "fst (ws2811_init lib (ws d)) = 0" by (simp add: init_succeeds_def)
  with assms(1) d(5) obtain v where "leds (channel0 (snd (ws2811_init lib (ws d)))) = Some v"
    "length v = 512" unfolding ws2811_lib_ok_def by fastforce
  with d show ?thesis
    by (simp add: main_start_def WS2811Strip_init_def modify_def app_ok_def strip_ok_def rotatable_ok_def)
qed

end
