(* ===== verification/App_Correct.thy ===== *)
theory App_Correct
  imports App
begin

text \<open>
  What the handlers of \<open>src/main.cpp\<close> do to the strip: the invariant that every
  outcome of every handler keeps, the requests that are never undefined, and the
  image that each of them paints.
\<close>

section \<open>Every outcome keeps the invariant\<close>

definition strip16 :: "ws2811_strip \<Rightarrow> bool" where
  "strip16 d \<longleftrightarrow> strip_ok d \<and> width_m d = 16 \<and> height_m d = 32"

lemma app_ok_iff: "app_ok a \<longleftrightarrow> strip16 (the_strip a)"
  by (simp add: app_ok_def strip16_def)

lemma led_ref_keeps: "keeps strip16 (WS2811Strip_led_ref x y c)"
proof (rule keepsI)
  fix d assume "strip16 d"
  then show "strip16 (snd (WS2811Strip_led_ref x y c d))"
    by (cases "rbind (rotatable_index ISnakeStripIndex_index d x y)
          (\<lambda>i. ptr_store (leds (channel0 (ws d))) i c)")
      (auto simp: WS2811Strip_led_ref_def outcome strip16_def strip_ok_def set_leds_def
         rotatable_ok_def ptr_store_def vec_store_def split: if_splits)
qed

lemma device_led_ref: "led_ref WS2811Strip_device = WS2811Strip_led_ref"
  by (simp add: WS2811Strip_device_def)

lemma paint_keeps_strip:
  "keeps strip16 (clear WS2811Strip_device)"
  "keeps strip16 (draw_at WS2811Strip_device src x y)"
  using paint_keeps [where dv = WS2811Strip_device and P = strip16] led_ref_keeps
  by (simp_all add: device_led_ref draw_at_def)

lemma render_keeps: "ws2811_lib_ok lib \<Longrightarrow> keeps strip16 (WS2811Strip_render lib)"
  by (auto simp: keeps_def WS2811Strip_render_def ws2811_lib_ok_def strip16_def strip_ok_def
      rotatable_ok_def split: prod.split) (metis snd_conv)+

lemma members_keep:
  "keeps strip16 (set_rotate deg fx fy)"
  "keeps strip16 (modify (set_transparent t))"
  "keeps strip16 (modify (set_background c))"
proof -
  show "keeps strip16 (set_rotate deg fx fy)"
  proof (rule keepsI)
    fix d assume "strip16 d"
    moreover from this have "rotatable_ok (snd (set_rotate deg fx fy d))"
      by (simp add: strip16_def strip_ok_def set_rotate_ok)
    ultimately show "strip16 (snd (set_rotate deg fx fy d))"
      by (auto simp: strip16_def strip_ok_def set_rotate_cases split: option.splits)
  qed
qed (auto simp: keeps_def modify_def strip16_def strip_ok_def set_transparent_def set_background_def
    rotatable_ok_def)

lemma on_strip_keeps: "keeps strip16 m \<Longrightarrow> keeps app_ok (on_strip m)"
  by (fastforce simp: keeps_def on_strip_def app_ok_iff split: prod.split)

lemma returning_keeps: "keeps P m \<Longrightarrow> keeps P (returning v m)"
  unfolding returning_def by (intro keeps_and_then) (simp_all add: keeps_def)

lemma handle_keeps:
  assumes "ws2811_lib_ok lib"
  shows "keeps app_ok (handle lib req)"
proof -
  have "keeps app_ok (handler_set_auto_render b)" for b
    by (simp add: keeps_def handler_set_auto_render_def app_ok_def)
  then show ?thesis
    by (cases req)
      (simp_all add: handler_render_def handler_draw_pixel_def handler_draw_text_def
        handler_draw_number_def handler_clear_def handler_width_def handler_height_def
        handler_pixel_def handler_set_rotate_def handler_set_transparent_def
        handler_set_background_def keeps_basic keeps_and_then returning_keeps on_strip_keeps
        led_ref_keeps paint_keeps_strip render_keeps [OF assms] members_keep)
qed

lemma render_turn_keeps: "ws2811_lib_ok lib \<Longrightarrow> keeps app_ok (render_thread_turn lib)"
  unfolding render_thread_turn_def
  by (intro keeps_branch keeps_and_then on_strip_keeps render_keeps keeps_basic)

lemma app_reachable_ok:
  assumes "app_reachable lib a" "ws2811_lib_ok lib" "init_succeeds lib"
  shows "app_ok a"
  using assms(1)
proof (induction rule: app_reachable.induct)
  case (app_start a)
  then show ?case using main_start_ok [OF assms(2,3)] by auto
next
  case (app_run a a')
  from app_run(2) show ?case
    by (cases rule: app_step.cases)
      (auto dest: keepsD [OF handle_keeps [OF assms(2)] app_run.IH]
        keepsD [OF render_turn_keeps [OF assms(2)] app_run.IH])
qed

section \<open>What the handlers paint\<close>

definition screen :: "app \<Rightarrow> image" where
  "screen a = pixels WS2811Strip_device (the_strip a)"

definition on_screen :: "app \<Rightarrow> int \<Rightarrow> int \<Rightarrow> bool" where
  "on_screen a x y \<longleftrightarrow> in_rect (logic_width_m (the_strip a)) (logic_height_m (the_strip a)) x y"

definition see_through :: "app \<Rightarrow> LedColor \<Rightarrow> bool" where
  "see_through a c \<longleftrightarrow> transparent_m (the_strip a) \<and> c = back_m (the_strip a)"

text \<open>\<open>painted_app a img a'\<close>: only the picture has changed, and it is \<open>img\<close>.\<close>

definition painted_app :: "app \<Rightarrow> image \<Rightarrow> app \<Rightarrow> bool" where
  "painted_app a img a' \<longleftrightarrow> app_ok a' \<and> screen a' = img \<and> auto_render a' = auto_render a \<and>
     same_frame WS2811Strip_device (the_strip a) (the_strip a')"

lemma app_okD: "app_ok a \<Longrightarrow> strip_ok (the_strip a)"
  by (simp add: app_ok_def)

lemma device_views:
  "width WS2811Strip_device d = logic_width_m d" "height WS2811Strip_device d = logic_height_m d"
  "back_of WS2811Strip_device d = back_m d" "transparent_of WS2811Strip_device d = transparent_m d"
  "led WS2811Strip_device x y d = WS2811Strip_led x y d"
  by (simp_all add: WS2811Strip_device_def)

lemma painted_appI:
  assumes ok: "app_ok a" and m: "m (the_strip a) = (Inr r, d')" and keeps: "keeps strip16 m"
    and frame: "same_frame WS2811Strip_device (the_strip a) d'"
    and img: "pixels WS2811Strip_device d' = img"
  shows "\<exists>a'. returning v (on_strip m) a = (Inr v, a') \<and> painted_app a img a'"
proof -
  have "strip16 d'" using keepsD [OF keeps _ m] ok by (simp add: app_ok_iff)
  then show ?thesis
    using returning_eval [where m = "on_strip m" and s = a and v = v, OF on_strip_eval [where m = m and a = a, OF m]] frame img
    by (simp add: painted_app_def app_ok_iff screen_def)
qed

lemma draw_pixel_paints:
  assumes "app_ok a" "on_screen a x y"
  shows "\<exists>a'. handler_draw_pixel x y c a = (Inr Void, a') \<and>
           painted_app a (overlay [(x, y) \<mapsto> c] (screen a)) a'"
proof -
  from strip.led_ref_writes [OF app_okD [OF assms(1)], of x y c] assms(2)
  obtain d' where "WS2811Strip_led_ref x y c (the_strip a) = (Inr (), d')"
    "same_frame WS2811Strip_device (the_strip a) d'"
    "pixels WS2811Strip_device d' = overlay [(x, y) \<mapsto> c] (screen a)"
    by (auto simp: on_screen_def device_views device_led_ref screen_def)
  then show ?thesis
    unfolding handler_draw_pixel_def by (rule painted_appI [OF assms(1) _ led_ref_keeps])
qed

lemma pixel_reads:
  assumes "app_ok a" "on_screen a x y"
  shows "\<exists>c. handler_pixel x y a = (Inr (Color_Reply c), a) \<and> screen a (x, y) = Some c"
  using strip.led_pixels [OF app_okD [OF assms(1)], of x y] assms(2)
  by (auto simp: on_screen_def device_views handler_pixel_def outcome screen_def)

lemma clear_paints:
  assumes "app_ok a"
  shows "\<exists>a'. handler_clear a = (Inr Void, a') \<and>
           painted_app a (cleared (back_m (the_strip a)) (screen a)) a'"
proof -
  from strip.clear_correct [OF app_okD [OF assms]]
  obtain d' where "clear WS2811Strip_device (the_strip a) = (Inr (), d')"
    "same_frame WS2811Strip_device (the_strip a) d'"
    "pixels WS2811Strip_device d' = cleared (back_m (the_strip a)) (screen a)"
    by (auto simp: device_views screen_def)
  then show ?thesis
    unfolding handler_clear_def by (rule painted_appI [OF assms _ paint_keeps_strip(1)])
qed

lemma draw_source_paints:
  assumes ok: "app_ok a" and s: "steady_source strip_ok src sw sh f"
    and xy: "0 \<le> x" "0 \<le> y" "x + sw \<le> int_max" "y + sh \<le> int_max"
  shows "\<exists>a'. returning v (on_strip (draw_at WS2811Strip_device src x y)) a = (Inr v, a') \<and>
           painted_app a (overlay (stamp sw sh f x y False False (see_through a)) (screen a)) a'"
proof -
  from strip.draw_correct [OF app_okD [OF ok] s xy, of False False]
  obtain d' where "draw_at WS2811Strip_device src x y (the_strip a) = (Inr (), d')"
    "same_frame WS2811Strip_device (the_strip a) d'"
    "pixels WS2811Strip_device d' =
       overlay (stamp sw sh f x y False False (see_through a)) (screen a)"
    by (auto simp: device_views screen_def draw_at_def see_through_def [abs_def])
  then show ?thesis by (rule painted_appI [OF ok _ paint_keeps_strip(2)])
qed

lemma draw_text_paints:
  assumes ok: "app_ok a" and str: "\<forall>ch \<in> set str. ascii ch"
    and xy: "0 \<le> x" "0 \<le> y" "x + int (length str) * 4 \<le> int_max" "y + 8 \<le> int_max"
  shows "\<exists>a'. handler_draw_text x y str c b a = (Inr Void, a') \<and>
           painted_app a (overlay (stamp (int (length str) * 4) 8 (text_color (Text4x8 str c b)) x y
             False False (see_through a)) (screen a)) a'"
proof -
  let ?t = "Text4x8 str c b"
  have t: "set_back_color b (set_color c (Text4x8 str Led_White Led_Black)) = ?t"
    by (simp add: Text4x8_def set_back_color_def set_color_def)
  have "steady_source strip_ok (Text4x8_source ?t) (int (length str) * 4) 8 (text_color ?t)"
    using Text4x8_steady [of ?t strip_ok] str xy by (simp add: Text4x8_def)
  from draw_source_paints [OF ok this xy] show ?thesis
    by (simp add: handler_draw_text_def t)
qed

lemma draw_number_paints:
  assumes ok: "app_ok a" and n: "is_int32 n" "n \<noteq> int_min"
    and xy: "0 \<le> x" "0 \<le> y" "x + 30 \<le> int_max" "y + 5 \<le> int_max"
  shows "\<exists>a' g. handler_draw_number x y n c b a = (Inr Void, a') \<and>
           DigitGroup3x5 n c Led_Black = Inr g \<and>
           painted_app a (overlay (stamp (DigitGroup3x5_width g) 5 (number_color g) x y
             False False (see_through a)) (screen a)) a'"
proof -
  let ?g = "\<lparr>color = c, back_color = Led_Black, digits_m = \<bar>n\<bar>, digits_width_m = count_digits \<bar>n\<bar> 0\<rparr>"
  have new: "DigitGroup3x5 n c Led_Black = Inr ?g" by (rule DigitGroup3x5_new [OF n])
  have col: "set_color c \<lparr>color = Led_White, back_color = Led_Black, digits_m = \<bar>n\<bar>,
      digits_width_m = count_digits \<bar>n\<bar> 0\<rparr> = ?g"
    by (simp add: set_color_def)
  have g: "group_ok ?g" using DigitGroup3x5_ok [OF new] by simp
  have "\<bar>n\<bar> \<le> int_max" using n by (auto simp: is_int32_def int_min_def int_max_def)
  then have "DigitGroup3x5_width ?g \<le> 30"
    using digits_width_bound [of "\<bar>n\<bar>"] by (simp add: DigitGroup3x5_width_def)
  then have "x + DigitGroup3x5_width ?g \<le> int_max" using xy by simp
  from draw_source_paints [OF ok DigitGroup3x5_steady [OF g] xy(1,2) this xy(4), of Void]
  obtain a' where "returning Void (on_strip (draw_at WS2811Strip_device (DigitGroup3x5_source ?g) x y)) a
      = (Inr Void, a')" and "painted_app a (overlay (stamp (DigitGroup3x5_width ?g) 5 (number_color ?g) x y
             False False (see_through a)) (screen a)) a'" by blast
  moreover have "handler_draw_number x y n c b a =
      returning Void (on_strip (draw_at WS2811Strip_device (DigitGroup3x5_source ?g) x y)) a"
    unfolding handler_draw_number_def
    by (simp add: outcome DigitGroup3x5_new [OF n] col)
  ultimately show ?thesis using new by auto
qed

section \<open>Requests without undefined behaviour\<close>

fun request_safe :: "app \<Rightarrow> request \<Rightarrow> bool" where
  "request_safe a (Draw_Pixel x y c) = on_screen a x y"
| "request_safe a (Pixel x y) = on_screen a x y"
| "request_safe a (Draw_Text x y str c b) =
     ((\<forall>ch \<in> set str. ascii ch) \<and> 0 \<le> x \<and> 0 \<le> y \<and>
      x + int (length str) * 4 \<le> int_max \<and> y + 8 \<le> int_max)"
| "request_safe a (Draw_Number x y n c b) =
     (is_int32 n \<and> n \<noteq> int_min \<and> 0 \<le> x \<and> 0 \<le> y \<and> x + 30 \<le> int_max \<and> y + 5 \<le> int_max)"
| "request_safe a _ = True"

lemma set_rotate_handler:
  "handler_set_rotate deg fx fy a =
     (case supported_degree deg of
        None \<Rightarrow> (Inl (Throw (Invalid_Argument ''IRotatablePaintDevice::set_rotate'')), a)
      | Some g \<Rightarrow> (Inr Void, a\<lparr>the_strip := snd (set_rotate deg fx fy (the_strip a))\<rparr>))"
  by (simp add: handler_set_rotate_def returning_def on_strip_def set_rotate_cases and_then_def
      split: option.split)

lemma handle_safe:
  assumes ok: "app_ok a" and safe: "request_safe a req"
  shows "(\<exists>v a'. handle lib req a = (Inr v, a')) \<or>
         (\<exists>deg fx fy. req = Set_Rotate deg fx fy \<and> supported_degree deg = None \<and>
            handle lib req a =
              (Inl (Throw (Invalid_Argument ''IRotatablePaintDevice::set_rotate'')), a))"
proof (cases req)
  case (Draw_Text x y str c b)
  with draw_text_paints [OF ok, of str x y c b] safe show ?thesis by auto
next
  case (Draw_Number x y n c b)
  with draw_number_paints [OF ok, of n x y c b] safe show ?thesis by auto
next
  case (Draw_Pixel x y c)
  with draw_pixel_paints [OF ok, of x y c] safe show ?thesis by auto
next
  case (Pixel x y)
  with pixel_reads [OF ok, of x y] safe show ?thesis by auto
next
  case Clear
  with clear_paints [OF ok] show ?thesis by auto
next
  case (Set_Rotate deg fx fy)
  then show ?thesis by (simp add: set_rotate_handler split: option.split)
next
  case Render
  then show ?thesis
    by (simp add: handler_render_def returning_def on_strip_def WS2811Strip_render_def and_then_def
        split: prod.split)
next
  case (Set_Transparent t)
  then show ?thesis
    by (simp add: handler_set_transparent_def returning_def on_strip_def and_then_def modify_def)
next
  case (Set_Background c)
  then show ?thesis
    by (simp add: handler_set_background_def returning_def on_strip_def and_then_def modify_def)
qed (simp_all add: handler_width_def handler_height_def handler_set_auto_render_def outcome)

section \<open>Pixels that are not checked\<close>

text \<open>The number of the LED that the unrotated strip takes for a pixel, on the screen or not.\<close>

definition snake_number :: "int \<Rightarrow> int \<Rightarrow> int" where
  "snake_number x y = (if even y then 16 * y + x else 16 * y + 15 - x)"

lemma smod_2_even: "(y :: int) smod 2 = 0 \<longleftrightarrow> even y"
proof -
  have "\<bar>y\<bar> mod 2 = 0 \<longleftrightarrow> even y" by presburger
  then show ?thesis by (auto simp: signed_modulo_int_def sgn_0_0)
qed

lemma snake_index_16:
  assumes "\<bar>x\<bar> \<le> 2 ^ 26" "\<bar>y\<bar> \<le> 2 ^ 26"
  shows "ISnakeStripIndex_index 16 32 x y = Inr (snake_number x y)"
proof -
  have "- 67108864 \<le> x" "x \<le> 67108864" "- 67108864 \<le> y" "y \<le> 67108864"
    using assms by (simp_all add: abs_le_iff)
  then have "is_int32 (y * 16)" "is_int32 (y * 16 + x)" "is_int32 (16 - x)" "is_int32 (16 - x - 1)"
    "is_int32 (y * 16 + (16 - x - 1))"
    by (simp_all add: is_int32_def int_min_def int_max_def)
  then show ?thesis
    by (simp add: ISnakeStripIndex_index_def snake_number_def smod_2_even c_ops_in_range)
qed

lemma unrotated_index:
  assumes "app_ok a" "rotate_helper_m (the_strip a) = StripRotateHelper Deg0 False False"
  shows "rotatable_index ISnakeStripIndex_index (the_strip a) x y = ISnakeStripIndex_index 16 32 x y"
  using assms by (simp add: rotatable_index_def app_ok_def)

lemma same_number:
  assumes "app_ok a" "rotate_helper_m (the_strip a) = StripRotateHelper Deg0 False False"
    and "ISnakeStripIndex_index 16 32 x y = ISnakeStripIndex_index 16 32 px py"
  shows "handle lib (Draw_Pixel x y c) a = handle lib (Draw_Pixel px py c) a \<and>
         handle lib (Pixel x y) a = handle lib (Pixel px py) a"
  by (simp add: handler_draw_pixel_def handler_pixel_def returning_def on_strip_def WS2811Strip_led_ref_def
      WS2811Strip_led_def unrotated_index [OF assms(1,2)] assms(3) and_then_def eval_expr_def)

lemma outside_number:
  assumes "app_ok a" "rotate_helper_m (the_strip a) = StripRotateHelper Deg0 False False"
    and i: "ISnakeStripIndex_index 16 32 x y = Inr i" "\<not> (0 \<le> i \<and> i < 512)"
  shows "handle lib (Draw_Pixel x y c) a = (Inl (UB Out_Of_Bounds), a) \<and>
         handle lib (Pixel x y) a = (Inl (UB Out_Of_Bounds), a)"
proof -
  let ?d = "the_strip a"
  from assms(1) obtain v where v: "leds (channel0 (ws ?d)) = Some v" "length v = 512"
    by (auto simp: app_ok_def strip_ok_def)
  note idx = unrotated_index [OF assms(1,2)]
  have "WS2811Strip_led_ref x y c ?d = (Inl (UB Out_Of_Bounds), ?d)"
    using i by (simp only: WS2811Strip_led_ref_def idx and_then_eval_expr rbind.simps ptr_store_def
        vec_store_def v option.case of_nat_numeral if_False sum.case)
  moreover have "WS2811Strip_led x y ?d = Inl (UB Out_Of_Bounds)"
    using i by (simp only: WS2811Strip_led_def idx rbind.simps ptr_at_def vec_at_def v option.case
        of_nat_numeral if_False)
  ultimately show ?thesis
    by (simp add: handler_draw_pixel_def handler_pixel_def returning_def on_strip_def and_then_def
        eval_expr_def)
qed

end
