(* ===== verification/App_Properties.thy ===== *)
theory App_Properties
  imports App_Correct Display_Properties
begin

text \<open>
  Properties of the program of \<open>src/main.cpp\<close>: what stays true in every
  interleaving of its handlers and its render thread, what each handler paints,
  and the requests that go wrong.
\<close>

section \<open>The program with a library that works\<close>

lemma demo_init: "init_succeeds demo_lib"
  by (simp add: init_succeeds_def demo_lib_def)

lemma demo_app: obtains a where "main_start demo_lib = Inr a" "app_ok a"
  using main_start_ok [OF demo_lib_ok demo_init] by blast

lemma demo_app_frame:
  assumes "main_start lib = Inr a"
  shows "rotate_helper_m (the_strip a) = StripRotateHelper Deg0 False False"
    "logic_width_m (the_strip a) = 16" "logic_height_m (the_strip a) = 32"
    "transparent_m (the_strip a) = False"
  using assms
  by (auto simp: main_start_def WS2811Strip_def WS2811Strip_init_def modify_def IRotatablePaintDevice_def
      rotatable.defs c_ops split: if_splits)

section \<open>Invariant\<close>

text \<open>C4: in every interleaving of requests (answered or failed with
  an exception) and turns of the render thread the strip stays a sound device of
  16 by 32 LEDs, provided the library keeps its promises and its \<open>init\<close> succeeds.\<close>

theorem app_always_sound:
  assumes "app_reachable lib a" and "ws2811_lib_ok lib" and "init_succeeds lib"
  shows "strip_ok (the_strip a) \<and> length (strip_leds (the_strip a)) = 512 \<and>
     {logic_width_m (the_strip a), logic_height_m (the_strip a)} = {16, 32}"
proof -
  have "app_ok a" by (rule app_reachable_ok [OF assms])
  then show ?thesis
    by (auto simp: app_ok_def strip_ok_def strip_leds_def rotatable_ok_def rotated_width_def rotated_height_def)
qed

lemma app_always_sound_witness:
  "\<exists>a a'. main_start demo_lib = Inr a \<and> handle demo_lib (Set_Rotate 90 False False) a = (Inr Void, a') \<and>
     strip_ok (the_strip a')"
proof -
  obtain a where a: "main_start demo_lib = Inr a" "app_ok a" by (rule demo_app)
  have "handle demo_lib (Set_Rotate 90 False False) a =
      (Inr Void, a\<lparr>the_strip := snd (set_rotate 90 False False (the_strip a))\<rparr>)" (is "_ = (_, ?a)")
    by (simp add: set_rotate_handler supported_degree_def)
  with app_always_sound [OF app_run [OF app_start [OF a(1)] request_done [OF this]] demo_lib_ok demo_init] a(1)
  show ?thesis by blast
qed

text \<open>C7: a request whose coordinates are on the screen (for a
  text or number: not negative and not near the largest \<open>int\<close>), whose text is
  ASCII and whose number is not the smallest \<open>int\<close> is answered without undefined
  behaviour; the only exception is that of \<open>set_rotate\<close> with an angle it does
  not support, which changes nothing.\<close>

theorem safe_requests_answered:
  assumes "app_ok a" and "request_safe a req"
  shows "(\<exists>v a'. handle lib req a = (Inr v, a')) \<or>
         (\<exists>deg fx fy. req = Set_Rotate deg fx fy \<and> deg \<notin> {0, 90, 180, 270} \<and>
            handle lib req a =
              (Inl (Throw (Invalid_Argument ''IRotatablePaintDevice::set_rotate'')), a))"
  using handle_safe [OF assms, of lib] by (auto simp: supported_degree_def split: if_splits)

lemma safe_requests_answered_witness:
  "\<exists>a. main_start demo_lib = Inr a \<and>
     (\<exists>v a'. handle demo_lib (Draw_Text 3 30 ''Hi!'' 7 0) a = (Inr v, a'))"
proof -
  obtain a where a: "main_start demo_lib = Inr a" "app_ok a" by (rule demo_app)
  have "request_safe a (Draw_Text 3 30 ''Hi!'' 7 0)"
    by (simp add: ascii_def char_index_def int_max_def)
  from safe_requests_answered [OF a(2) this, of demo_lib] a(1) show ?thesis by auto
qed

section \<open>Painting\<close>

text \<open>C21: a pixel drawn on the screen is read back, and every other
  pixel reads as before.\<close>

theorem draw_pixel_read_back:
  assumes "app_ok a" and "on_screen a x y"
  shows "\<exists>a'. handle lib (Draw_Pixel x y c) a = (Inr Void, a') \<and>
     handle lib (Pixel x y) a' = (Inr (Color_Reply c), a') \<and>
     (\<forall>x' y'. on_screen a x' y' \<and> (x', y') \<noteq> (x, y) \<longrightarrow>
        fst (handle lib (Pixel x' y') a') = fst (handle lib (Pixel x' y') a))"
proof -
  from draw_pixel_paints [OF assms, of c] obtain a' where a': "handler_draw_pixel x y c a = (Inr Void, a')"
    "app_ok a'" "screen a' = overlay [(x, y) \<mapsto> c] (screen a)"
    "same_frame WS2811Strip_device (the_strip a) (the_strip a')"
    by (auto simp: painted_app_def)
  have on: "on_screen a' = on_screen a" using a'(4)
    by (simp add: on_screen_def [abs_def] same_frame_def device_views)
  have read: "handle lib (Pixel x' y') a' = (Inr (Color_Reply k), a')"
    if "on_screen a x' y'" "screen a' (x', y') = Some k" for x' y' k
    using pixel_reads [OF a'(2), of x' y'] on that by auto
  have old: "\<exists>k. fst (handle lib (Pixel x' y') a) = Inr (Color_Reply k) \<and> screen a (x', y') = Some k"
    if "on_screen a x' y'" for x' y'
    using pixel_reads [OF assms(1) that] by auto
  have "fst (handle lib (Pixel x' y') a') = fst (handle lib (Pixel x' y') a)"
    if "on_screen a x' y'" "(x', y') \<noteq> (x, y)" for x' y'
    using old [OF that(1)] read [OF that(1)] that(2) by (auto simp: a'(3) overlay_def)
  moreover have "handle lib (Pixel x y) a' = (Inr (Color_Reply c), a')"
    using old [OF assms(2)] by (intro read [OF assms(2)]) (auto simp: a'(3) overlay_def)
  ultimately show ?thesis using a'(1) by auto
qed

lemma draw_pixel_read_back_witness:
  "\<exists>a a'. main_start demo_lib = Inr a \<and> handle demo_lib (Draw_Pixel 15 31 9) a = (Inr Void, a') \<and>
     handle demo_lib (Pixel 15 31) a' = (Inr (Color_Reply 9), a')"
proof -
  obtain a where a: "main_start demo_lib = Inr a" "app_ok a" by (rule demo_app)
  have "on_screen a 15 31" using demo_app_frame [OF a(1)] by (simp add: on_screen_def in_rect_def)
  from draw_pixel_read_back [OF a(2) this, of demo_lib 9] a(1) show ?thesis by blast
qed

text \<open>C8: for a text of ASCII characters at a position that is not negative and
  whose far edges are within the range of \<open>int\<close>, \<open>draw_text\<close> overlays the screen with the glyphs of
  the text in the color and background it was given, clipped at the right and the far edge,
  leaving out the strip's background color when the strip is transparent. The handler checks none
  of these conditions.\<close>

theorem draw_text_shows:
  assumes "app_ok a" and "list_all ascii str" and "0 \<le> x" "0 \<le> y"
    and "x + int (length str) * 4 \<le> int_max" "y + 8 \<le> int_max"
  shows "\<exists>a'. handle lib (Draw_Text x y str c b) a = (Inr Void, a') \<and> app_ok a' \<and>
     (\<forall>px py. screen a' (px, py) =
        (if on_screen a px py \<and> in_rect (int (length str) * 4) 8 (px - x) (py - y)
         then (case Text4x8_led (px - x) (py - y) (Text4x8 str c b) of
                 Inr k \<Rightarrow> if transparent_m (the_strip a) \<and> k = back_m (the_strip a)
                          then screen a (px, py) else Some k
               | Inl _ \<Rightarrow> None)
         else screen a (px, py)))"
proof -
  let ?t = "Text4x8 str c b" and ?n = "int (length str) * 4"
  have chars: "\<forall>ch \<in> set str. ascii ch" using assms(2) by (simp add: list_all_iff)
  from draw_text_paints [OF assms(1) chars assms(3-6), of c b] obtain a' where
    a': "handler_draw_text x y str c b a = (Inr Void, a')" "app_ok a'"
      "screen a' = overlay (stamp ?n 8 (text_color ?t) x y False False (see_through a)) (screen a)"
    by (auto simp: painted_app_def)
  have "steady_source strip_ok (Text4x8_source ?t) ?n 8 (text_color ?t)"
    using Text4x8_steady [of ?t strip_ok] chars assms(3,5) by (simp add: Text4x8_def)
  then have led: "Text4x8_led u v ?t = Inr (text_color ?t u v)" if "in_rect ?n 8 u v" for u v
    using that app_okD [OF assms(1)] by (auto simp: steady_source_def Text4x8_source_def)
  have dom: "screen a (px, py) = None \<longleftrightarrow> \<not> on_screen a px py" for px py
    using strip.pixels_None_iff [OF app_okD [OF assms(1)], of px py]
    by (simp add: screen_def on_screen_def device_views)
  have "screen a' (px, py) =
        (if on_screen a px py \<and> in_rect ?n 8 (px - x) (py - y)
         then (case Text4x8_led (px - x) (py - y) ?t of
                 Inr k \<Rightarrow> if transparent_m (the_strip a) \<and> k = back_m (the_strip a)
                          then screen a (px, py) else Some k
               | Inl _ \<Rightarrow> None)
         else screen a (px, py))" for px py
    using dom [of px py] led [of "px - x" "py - y"]
    by (cases "screen a (px, py)") (auto simp: a'(3) overlay_def stamp_def mirror_def see_through_def Let_def)
  with a' show ?thesis by auto
qed

lemma draw_text_shows_witness:
  "\<exists>a a'. main_start demo_lib = Inr a \<and> handle demo_lib (Draw_Text 14 0 ''A'' 5 6) a = (Inr Void, a') \<and>
     app_ok a'"
proof -
  obtain a where a: "main_start demo_lib = Inr a" "app_ok a" by (rule demo_app)
  have "list_all ascii ''A''" by (simp add: ascii_def char_index_def)
  from draw_text_shows [OF a(2) this, of 14 0 demo_lib 5 6] a(1) show ?thesis by (auto simp: int_max_def)
qed



text \<open>C20: \<open>draw_pixel\<close> and \<open>pixel\<close> do not check their coordinates. On
  the unrotated strip, for coordinates of at most $2^{26}$ in size, the pixel $(x, y)$ is the LED
  number $16 y + x$ where \<open>y\<close> is even and $16 y + 15 - x$ where it is odd. If that number is one of
  the 512 LEDs, both requests do what they do for the pixel on the screen that has this number,
  which is in another row whenever \<open>x\<close> is left or right of the screen; otherwise both access memory
  outside the LED array. In particular every pixel above or below the screen, in one of its
  columns, is outside the array.\<close>

theorem off_screen_pixels:
  assumes "app_ok a" and "rotate_helper_m (the_strip a) = StripRotateHelper Deg0 False False"
    and "\<bar>x\<bar> \<le> 2 ^ 26" and "\<bar>y\<bar> \<le> 2 ^ 26"
  shows "(let i = (if even y then 16 * y + x else 16 * y + 15 - x);
              py = i div 16;
              px = (if even py then i mod 16 else 15 - i mod 16)
          in if 0 \<le> i \<and> i < 512
             then 0 \<le> px \<and> px < 16 \<and> 0 \<le> py \<and> py < 32 \<and> (x < 0 \<or> 16 \<le> x \<longrightarrow> py \<noteq> y) \<and>
               handle lib (Draw_Pixel x y c) a = handle lib (Draw_Pixel px py c) a \<and>
               handle lib (Pixel x y) a = handle lib (Pixel px py) a
             else handle lib (Draw_Pixel x y c) a = (Inl (UB Out_Of_Bounds), a) \<and>
               handle lib (Pixel x y) a = (Inl (UB Out_Of_Bounds), a)) \<and>
         (0 \<le> x \<and> x < 16 \<and> (y < 0 \<or> 32 \<le> y) \<longrightarrow>
            handle lib (Draw_Pixel x y c) a = (Inl (UB Out_Of_Bounds), a) \<and>
            handle lib (Pixel x y) a = (Inl (UB Out_Of_Bounds), a))"
proof -
  define i where "i = (if even y then 16 * y + x else 16 * y + 15 - x)"
  define py where "py = i div 16"
  define px where "px = (if even py then i mod 16 else 15 - i mod 16)"
  have i: "snake_number x y = i" by (simp add: snake_number_def i_def)
  have same: "snake_number px py = i"
    using div_mult_mod_eq [of i 16] by (auto simp: snake_number_def px_def py_def)
  have box: "0 \<le> px \<and> px < 16" by (auto simp: px_def)
  have row: "py \<noteq> y" if "x < 0 \<or> 16 \<le> x"
    using that by (auto simp: py_def i_def split: if_splits)
  have out: "\<not> (0 \<le> i \<and> i < 512)" if "0 \<le> x" "x < 16" "y < 0 \<or> 32 \<le> y"
    using that by (auto simp: i_def)
  note at = snake_index_16 [OF assms(3,4), unfolded i]
  show ?thesis
  proof (cases "0 \<le> i \<and> i < 512")
    case True
    then have py: "0 \<le> py \<and> py < 32" by (auto simp: py_def)
    with box have "ISnakeStripIndex_index 16 32 px py = Inr i"
      using snake_index_16 [of px py] same by simp
    from same_number [OF assms(1,2), of x y px py lib c] at this box py True row out show ?thesis
      unfolding Let_def i_def [symmetric] py_def [symmetric] px_def [symmetric] by auto
  next
    case False
    with outside_number [OF assms(1,2) at False, of lib c] show ?thesis
      unfolding Let_def i_def [symmetric] by (simp only: if_False simp_thms)
  qed
qed

lemma off_screen_pixels_witness:
  "\<exists>a. main_start demo_lib = Inr a \<and>
     handle demo_lib (Draw_Pixel 3 (- 1) 9) a = (Inl (UB Out_Of_Bounds), a) \<and>
     handle demo_lib (Pixel (- 1) 0) a = (Inl (UB Out_Of_Bounds), a) \<and>
     handle demo_lib (Pixel (- 3) 2) a = handle demo_lib (Pixel 2 1) a \<and>
     handle demo_lib (Pixel (- 3) 5) a = handle demo_lib (Pixel 2 6) a \<and>
     handle demo_lib (Pixel 17 5) a = handle demo_lib (Pixel 14 4) a"
proof -
  obtain a where a: "main_start demo_lib = Inr a" "app_ok a" by (rule demo_app)
  note off = off_screen_pixels [OF a(2) demo_app_frame(1) [OF a(1)], of _ _ demo_lib 9]
  show ?thesis
    using off [of 3 "- 1"] off [of "- 1" 0] off [of "- 3" 2] off [of "- 3" 5] off [of 17 5] a(1)
    by (auto simp: Let_def)
qed

end
