(* ===== verification/Md5.thy ===== *)
theory Md5
  imports Prelude "HOL-Library.Word"
begin

unbundle bit_operations_syntax

text \<open>
  The hash that turns a handler's name into its key
  (\<open>src/3rd/inc/rest_rpc/md5.hpp\<close>), operation by operation, on words of the
  code's widths; and the hash of RFC 1321 on lists of bytes, which it computes.
\<close>

section \<open>The code\<close>

type_synonym byte = "8 word"

record IntermediateData =
  md_a :: "32 word"
  md_b :: "32 word"
  md_c :: "32 word"
  md_d :: "32 word"

definition kConstants :: "32 word list" where
  "kConstants =
    [0xd76aa478, 0xe8c7b756, 0x242070db, 0xc1bdceee, 0xf57c0faf, 0x4787c62a,
     0xa8304613, 0xfd469501, 0x698098d8, 0x8b44f7af, 0xffff5bb1, 0x895cd7be,
     0x6b901122, 0xfd987193, 0xa679438e, 0x49b40821, 0xf61e2562, 0xc040b340,
     0x265e5a51, 0xe9b6c7aa, 0xd62f105d, 0x02441453, 0xd8a1e681, 0xe7d3fbc8,
     0x21e1cde6, 0xc33707d6, 0xf4d50d87, 0x455a14ed, 0xa9e3e905, 0xfcefa3f8,
     0x676f02d9, 0x8d2a4c8a, 0xfffa3942, 0x8771f681, 0x6d9d6122, 0xfde5380c,
     0xa4beea44, 0x4bdecfa9, 0xf6bb4b60, 0xbebfbc70, 0x289b7ec6, 0xeaa127fa,
     0xd4ef3085, 0x04881d05, 0xd9d4d039, 0xe6db99e5, 0x1fa27cf8, 0xc4ac5665,
     0xf4292244, 0x432aff97, 0xab9423a7, 0xfc93a039, 0x655b59c3, 0x8f0ccc92,
     0xffeff47d, 0x85845dd1, 0x6fa87e4f, 0xfe2ce6e0, 0xa3014314, 0x4e0811a1,
     0xf7537e82, 0xbd3af235, 0x2ad7d2bb, 0xeb86d391]"

definition kShifts :: "nat list" where
  "kShifts = [7, 12, 17, 22, 5, 9, 14, 20, 4, 11, 16, 23, 6, 10, 15, 21]"

definition kInitialIntermediateData :: IntermediateData where
  "kInitialIntermediateData =
     \<lparr>md_a = 0x67452301, md_b = 0xefcdab89, md_c = 0x98badcfe, md_d = 0x10325476\<rparr>"

definition GetPaddedMessageLength :: "32 word \<Rightarrow> 32 word" where
  "GetPaddedMessageLength n = (((n + 1 + 8) + 63) div 64) * 64"

text \<open>\<open>i\<close> is below 8.\<close>

definition ExtractByte :: "64 word \<Rightarrow> 32 word \<Rightarrow> byte" where
  "ExtractByte v i = ucast (drop_bit (unat (i * 8)) v AND 0xff)"

text \<open>The argument \<open>data\<close> is the memory at the pointer; \<open>n * 8\<close> is on 32 bits.\<close>

definition GetPaddedMessageByte :: "byte list \<Rightarrow> 32 word \<Rightarrow> 32 word \<Rightarrow> 32 word \<Rightarrow> byte" where
  "GetPaddedMessageByte data n m i =
     (if i < n then data ! unat i
      else if i = n then 0x80
      else if i \<ge> m - 8 then ExtractByte (ucast (n * 8)) (i - (m - 8))
      else 0)"

definition GetPaddedMessageWord :: "byte list \<Rightarrow> 32 word \<Rightarrow> 32 word \<Rightarrow> 32 word \<Rightarrow> 32 word" where
  "GetPaddedMessageWord data n m i =
     ucast (GetPaddedMessageByte data n m i) OR
     push_bit 8 (ucast (GetPaddedMessageByte data n m (i + 1))) OR
     push_bit 16 (ucast (GetPaddedMessageByte data n m (i + 2))) OR
     push_bit 24 (ucast (GetPaddedMessageByte data n m (i + 3)))"

definition GetRoundData :: "byte list \<Rightarrow> 32 word \<Rightarrow> 32 word \<Rightarrow> 32 word \<Rightarrow> 32 word list" where
  "GetRoundData data n m i =
     [GetPaddedMessageWord data n m i, GetPaddedMessageWord data n m (i + 4),
      GetPaddedMessageWord data n m (i + 8), GetPaddedMessageWord data n m (i + 12),
      GetPaddedMessageWord data n m (i + 16), GetPaddedMessageWord data n m (i + 20),
      GetPaddedMessageWord data n m (i + 24), GetPaddedMessageWord data n m (i + 28),
      GetPaddedMessageWord data n m (i + 32), GetPaddedMessageWord data n m (i + 36),
      GetPaddedMessageWord data n m (i + 40), GetPaddedMessageWord data n m (i + 44),
      GetPaddedMessageWord data n m (i + 48), GetPaddedMessageWord data n m (i + 52),
      GetPaddedMessageWord data n m (i + 56), GetPaddedMessageWord data n m (i + 60)]"

text \<open>The number of a round step is below 64, so it is a \<open>nat\<close>.\<close>

definition CalcF :: "nat \<Rightarrow> 32 word \<Rightarrow> 32 word \<Rightarrow> 32 word \<Rightarrow> 32 word" where
  "CalcF i b c d =
     (if i < 16 then d XOR (b AND (c XOR d))
      else if i < 32 then c XOR (d AND (b XOR c))
      else if i < 48 then b XOR c XOR d
      else c XOR (b OR NOT d))"

definition CalcG :: "nat \<Rightarrow> nat" where
  "CalcG i =
     (if i < 16 then i
      else if i < 32 then (5 * i + 1) mod 16
      else if i < 48 then (3 * i + 5) mod 16
      else (7 * i) mod 16)"

definition GetShift :: "nat \<Rightarrow> nat" where
  "GetShift i = kShifts ! ((i div 16) * 4 + i mod 4)"

definition LeftRotate :: "32 word \<Rightarrow> nat \<Rightarrow> 32 word" where
  "LeftRotate v bits = push_bit bits v OR drop_bit (32 - bits) v"

definition ApplyStep :: "nat \<Rightarrow> 32 word list \<Rightarrow> IntermediateData \<Rightarrow> IntermediateData" where
  "ApplyStep i data im =
     (let g = CalcG i;
          f = CalcF i (md_b im) (md_c im) (md_d im) + md_a im + kConstants ! i + data ! g;
          s = GetShift i
      in \<lparr>md_a = md_d im, md_b = md_b im + LeftRotate f s, md_c = md_b im, md_d = md_c im\<rparr>)"

definition Add :: "IntermediateData \<Rightarrow> IntermediateData \<Rightarrow> IntermediateData" where
  "Add p q = \<lparr>md_a = md_a p + md_a q, md_b = md_b p + md_b q,
              md_c = md_c p + md_c q, md_d = md_d p + md_d q\<rparr>"

text \<open>
  The padded length is a multiple of 64, so the outer loop makes one turn for
  each block, at the offsets 0, 64, and so on.
\<close>

definition ProcessMessage :: "byte list \<Rightarrow> 32 word \<Rightarrow> IntermediateData" where
  "ProcessMessage message n =
     (let m = GetPaddedMessageLength n
      in foldl (\<lambda>intermediate0 k.
           let data = GetRoundData message n m (of_nat (64 * k))
           in Add intermediate0 (foldl (\<lambda>im i. ApplyStep i data im) intermediate0 [0..<64]))
         kInitialIntermediateData [0..<unat m div 64])"

text \<open>The length of the C string at a pointer: the bytes before the first zero.\<close>

definition StringLength :: "byte list \<Rightarrow> 32 word" where
  "StringLength s = of_nat (length (takeWhile (\<lambda>b. b \<noteq> 0) s))"

definition SwapEndian :: "32 word \<Rightarrow> 32 word" where
  "SwapEndian a =
     push_bit 24 (a AND 0xff) OR push_bit 16 (drop_bit 8 a AND 0xff) OR
     push_bit 8 (drop_bit 16 a AND 0xff) OR (drop_bit 24 a AND 0xff)"

definition Hash64 :: "byte list \<Rightarrow> 32 word \<Rightarrow> 64 word" where
  "Hash64 data n =
     (let im = ProcessMessage data n
      in push_bit 32 (ucast (SwapEndian (md_a im))) OR ucast (SwapEndian (md_b im)))"

definition Hash32 :: "byte list \<Rightarrow> 32 word \<Rightarrow> 32 word" where
  "Hash32 data n = SwapEndian (md_a (ProcessMessage data n))"

definition MD5Hash32 :: "byte list \<Rightarrow> 32 word" where
  "MD5Hash32 s = Hash32 s (StringLength s)"

text \<open>\<open>std::string::data()\<close>: the bytes of the string and the terminating zero.\<close>

definition c_str :: "string \<Rightarrow> byte list" where
  "c_str s = map of_char s @ [0]"

section \<open>The hash of RFC 1321\<close>

text \<open>
  As the RFC has it: the steps with the words \<open>k\<close>, the shifts \<open>s\<close> and the table \<open>T\<close> that it
  lists, on four registers that begin with the bytes that it lists. Nothing of the code above is
  used here. The table is in decimal: entry \<open>i\<close> is $\lfloor 2^{32} |\sin (i + 1)| \rfloor$.
\<close>

type_synonym rfc_registers = "32 word \<times> 32 word \<times> 32 word \<times> 32 word"

definition rfc_T :: "nat list" where
  "rfc_T =
     [3614090360, 3905402710, 606105819, 3250441966, 4118548399, 1200080426,
      2821735955, 4249261313, 1770035416, 2336552879, 4294925233, 2304563134,
      1804603682, 4254626195, 2792965006, 1236535329, 4129170786, 3225465664,
      643717713, 3921069994, 3593408605, 38016083, 3634488961, 3889429448,
      568446438, 3275163606, 4107603335, 1163531501, 2850285829, 4243563512,
      1735328473, 2368359562, 4294588738, 2272392833, 1839030562, 4259657740,
      2763975236, 1272893353, 4139469664, 3200236656, 681279174, 3936430074,
      3572445317, 76029189, 3654602809, 3873151461, 530742520, 3299628645,
      4096336452, 1126891415, 2878612391, 4237533241, 1700485571, 2399980690,
      4293915773, 2240044497, 1873313359, 4264355552, 2734768916, 1309151649,
      4149444226, 3174756917, 718787259, 3951481745]"

definition rfc_k :: "nat list" where
  "rfc_k =
     [0, 1, 2, 3, 4, 5, 6, 7, 8, 9, 10, 11, 12, 13, 14, 15,
      1, 6, 11, 0, 5, 10, 15, 4, 9, 14, 3, 8, 13, 2, 7, 12,
      5, 8, 11, 14, 1, 4, 7, 10, 13, 0, 3, 6, 9, 12, 15, 2,
      0, 7, 14, 5, 12, 3, 10, 1, 8, 15, 6, 13, 4, 11, 2, 9]"

definition rfc_s :: "nat list list" where
  "rfc_s = [[7, 12, 17, 22], [5, 9, 14, 20], [4, 11, 16, 23], [6, 10, 15, 21]]"

definition rfc_mix :: "nat \<Rightarrow> 32 word \<Rightarrow> 32 word \<Rightarrow> 32 word \<Rightarrow> 32 word" where
  "rfc_mix i x y z =
     (if i < 16 then (x AND y) OR (NOT x AND z)
      else if i < 32 then (x AND z) OR (y AND NOT z)
      else if i < 48 then x XOR y XOR z
      else y XOR (x OR NOT z))"

definition le_bytes :: "nat \<Rightarrow> nat \<Rightarrow> byte list" where
  "le_bytes k n = map (\<lambda>j. of_nat (n div 256 ^ j)) [0..<k]"

definition le_word :: "byte list \<Rightarrow> 32 word" where
  "le_word bs = of_nat (\<Sum>j<4. unat (bs ! j) * 256 ^ j)"

definition rfc_init :: rfc_registers where
  "rfc_init =
     (le_word [0x01, 0x23, 0x45, 0x67], le_word [0x89, 0xab, 0xcd, 0xef],
      le_word [0xfe, 0xdc, 0xba, 0x98], le_word [0x76, 0x54, 0x32, 0x10])"

definition rfc_pad :: "byte list \<Rightarrow> byte list" where
  "rfc_pad msg = msg @ [0x80] @ replicate ((119 - length msg mod 64) mod 64) 0 @ le_bytes 8 (8 * length msg)"

definition rfc_block :: "byte list \<Rightarrow> nat \<Rightarrow> 32 word list" where
  "rfc_block padded k = map (\<lambda>j. le_word (take 4 (drop (64 * k + 4 * j) padded))) [0..<16]"

text \<open>The step \<open>[abcd k s i]\<close>; the next one has the registers turned by one place.\<close>

definition rfc_step :: "nat \<Rightarrow> 32 word list \<Rightarrow> rfc_registers \<Rightarrow> rfc_registers" where
  "rfc_step i X = (\<lambda>(a, b, c, d).
     (d, b + word_rotl (rfc_s ! (i div 16) ! (i mod 4)) (a + rfc_mix i b c d + X ! (rfc_k ! i) + of_nat (rfc_T ! i)), b, c))"

definition rfc_rounds :: "32 word list \<Rightarrow> rfc_registers \<Rightarrow> rfc_registers" where
  "rfc_rounds X r =
     (let (a, b, c, d) = r; (a', b', c', d') = foldl (\<lambda>r i. rfc_step i X r) r [0..<64]
      in (a + a', b + b', c + c', d + d'))"

definition rfc_md5 :: "byte list \<Rightarrow> rfc_registers" where
  "rfc_md5 msg =
     (let p = rfc_pad msg in foldl (\<lambda>r k. rfc_rounds (rfc_block p k) r) rfc_init [0..<length p div 64])"

lemma CalcF_rfc: "CalcF i x y z = rfc_mix i x y z"
  by (rule bit_word_eqI) (auto simp: CalcF_def rfc_mix_def bit_simps)

lemma GetShift_range: "i < 64 \<Longrightarrow> 0 < GetShift i \<and> GetShift i < 32"
proof -
  assume "i < 64"
  then have "i div 16 < 4" "i mod 4 < 4" by (simp_all add: less_mult_imp_div_less)
  then have "(i div 16) * 4 + i mod 4 < 16" by linarith
  then have "GetShift i \<in> set kShifts" unfolding GetShift_def by (intro nth_mem) (simp add: kShifts_def)
  then show ?thesis by (auto simp: kShifts_def)
qed

lemma LeftRotate_rotl:
  assumes "s < 32"
  shows "LeftRotate v s = word_rotl s v"
proof (rule bit_word_eqI)
  fix n assume n: "n < LENGTH(32)"
  show "bit (LeftRotate v s) n \<longleftrightarrow> bit (word_rotl s v) n"
  proof (cases "s \<le> n")
    case True
    then have "(n + (32 - s)) mod 32 = n - s" "\<not> bit v (32 - s + n)"
      using assms n bit_imp_le_length [of v "32 - s + n"] by (auto simp: mod_if)
    with True n assms show ?thesis by (simp add: LeftRotate_def bit_word_rotl_iff bit_simps)
  next
    case False
    then have "(n + (32 - s)) mod 32 = 32 - s + n" using assms n by simp
    with False n assms show ?thesis by (simp add: LeftRotate_def bit_word_rotl_iff bit_simps)
  qed
qed

text \<open>The tables of the code are those of the RFC.\<close>

lemma kConstants_rfc:
  assumes "i < 64"
  shows "kConstants ! i = of_nat (rfc_T ! i)"
proof -
  have "kConstants = map of_nat rfc_T" by (simp add: kConstants_def rfc_T_def)
  moreover have "i < length rfc_T" using assms by (simp add: rfc_T_def)
  ultimately show ?thesis by (metis nth_map)
qed

lemma CalcG_rfc: "i < 64 \<Longrightarrow> CalcG i = rfc_k ! i"
proof -
  have "map CalcG [0..<64] = rfc_k" by (simp add: CalcG_def rfc_k_def upt_rec)
  moreover assume "i < 64"
  ultimately show ?thesis by (metis add_0 diff_zero length_upt nth_map nth_upt)
qed

lemma GetShift_rfc: "i < 64 \<Longrightarrow> GetShift i = rfc_s ! (i div 16) ! (i mod 4)"
proof -
  have "map GetShift [0..<64] = map (\<lambda>i. rfc_s ! (i div 16) ! (i mod 4)) [0..<64]"
    by (simp add: GetShift_def kShifts_def rfc_s_def upt_rec)
  moreover assume "i < 64"
  ultimately show ?thesis by (simp add: map_eq_conv)
qed

definition registers :: "IntermediateData \<Rightarrow> rfc_registers" where
  "registers im = (md_a im, md_b im, md_c im, md_d im)"

lemma registers_init: "registers kInitialIntermediateData = rfc_init"
proof -
  have "{..<4 :: nat} = {0, 1, 2, 3}" by auto
  then show ?thesis
    by (simp add: registers_def kInitialIntermediateData_def rfc_init_def le_word_def)
qed

lemma ApplyStep_rfc: "i < 64 \<Longrightarrow> registers (ApplyStep i data im) = rfc_step i data (registers im)"
  using GetShift_range [of i]
  by (simp add: registers_def ApplyStep_def rfc_step_def CalcF_rfc LeftRotate_rotl Let_def CalcG_rfc
      kConstants_rfc GetShift_rfc [symmetric] ac_simps)

lemma foldl_commutes:
  "(\<And>a x. x \<in> set xs \<Longrightarrow> h (f a x) = g (h a) x) \<Longrightarrow> h (foldl f a xs) = foldl g (h a) xs"
  by (induction xs arbitrary: a) auto

lemma Add_rfc:
  "registers (Add im (foldl (\<lambda>im i. ApplyStep i data im) im [0..<64])) = rfc_rounds data (registers im)"
proof -
  have "registers (foldl (\<lambda>im i. ApplyStep i data im) im [0..<64]) =
      foldl (\<lambda>r i. rfc_step i data r) (registers im) [0..<64]"
    by (rule foldl_commutes) (simp add: ApplyStep_rfc)
  then show ?thesis unfolding rfc_rounds_def by (auto simp: registers_def Add_def Let_def split: prod.split)
qed

text \<open>Padding, for messages whose bit length fits in 32 bits.\<close>

lemma length_rfc_pad: "length (rfc_pad msg) = (length msg + 72) div 64 * 64"
proof -
  define q r where "q = length msg div 64" and "r = length msg mod 64"
  then have n: "length msg = r + 64 * q" and r: "r < 64" by simp_all
  have "(length msg + 72) div 64 = q + (r + 72) div 64" by (simp add: n)
  moreover have "length (rfc_pad msg) = r + 64 * q + 1 + (119 - r) mod 64 + 8"
    by (simp add: rfc_pad_def le_bytes_def n r)
  moreover have "r + 1 + (119 - r) mod 64 + 8 = (r + 72) div 64 * 64"
  proof (cases "r \<le> 55")
    case True
    then have "119 - r = (55 - r) + 64" by simp
    then have "(119 - r) mod 64 = 55 - r" by (metis mod_add_self2 mod_less less_imp_diff_less numeral_less_iff semiring_norm(76,78,81))
    moreover have "(r + 72) div 64 = 1" using True by (intro div_nat_eqI) auto
    ultimately show ?thesis using True by simp
  next
    case False
    then have "(119 - r) mod 64 = 119 - r" using r by simp
    moreover have "(r + 72) div 64 = 2" using False r by (intro div_nat_eqI) auto
    ultimately show ?thesis using r by simp
  qed
  ultimately show ?thesis by (simp add: algebra_simps)
qed

lemma padded_length:
  assumes "length msg < 2 ^ 29"
  shows "unat (GetPaddedMessageLength (of_nat (length msg))) = length (rfc_pad msg)"
proof -
  have "of_nat (length msg) + 1 + 8 + 63 = (of_nat (length msg + 72) :: 32 word)" by simp
  then have n: "unat (of_nat (length msg) + 1 + 8 + 63 :: 32 word) = length msg + 72"
    using assms by (simp only: unat_of_nat) simp
  have "unat ((of_nat (length msg) + 1 + 8 + 63 :: 32 word) div 64 * 64) = (length msg + 72) div 64 * 64"
    unfolding unat_word_ariths(2) unat_div n using assms by simp
  then show ?thesis by (simp add: GetPaddedMessageLength_def length_rfc_pad)
qed


lemma unat_less_msg: "n < 2 ^ 29 \<Longrightarrow> unat (of_nat n :: 32 word) = n"
  by (simp add: unat_of_nat)

lemma and_255: "(m :: nat) AND 255 = m mod 256"
  using take_bit_eq_mask [of 8 m] by (simp add: take_bit_eq_mod mask_eq_exp_minus_1)

lemma ExtractByte_le:
  assumes "n < 2 ^ 29" "j < 8"
  shows "ExtractByte (ucast (of_nat n * 8 :: 32 word)) (of_nat j) = le_bytes 8 (8 * n) ! j"
proof -
  have j: "unat (of_nat j * 8 :: 32 word) = 8 * j" using assms(2) by (simp add: unat_word_ariths unat_of_nat)
  have "of_nat n * 8 = (of_nat (8 * n) :: 32 word)" by simp
  then have n: "unat (of_nat n * 8 :: 32 word) = 8 * n"
    using assms(1) by (simp only: unat_of_nat) simp
  have "unat (ExtractByte (ucast (of_nat n * 8 :: 32 word)) (of_nat j)) = 8 * n div 256 ^ j mod 256"
    unfolding ExtractByte_def j unsigned_ucast_eq unsigned_and_eq unat_drop_bit_eq n
    using assms(1) by (simp add: and_255 drop_bit_eq_div take_bit_eq_mod power_mult)
  moreover have "unat (le_bytes 8 (8 * n) ! j) = 8 * n div 256 ^ j mod 256"
    using assms(2) by (simp add: le_bytes_def unat_of_nat)
  ultimately show ?thesis by (simp add: word_unat_eq_iff)
qed

lemma GetPaddedMessageByte_pad:
  assumes n: "length msg < 2 ^ 29" and i: "i < length (rfc_pad msg)"
  shows "GetPaddedMessageByte msg (of_nat (length msg)) (GetPaddedMessageLength (of_nat (length msg)))
           (of_nat i) = rfc_pad msg ! i"
proof -
  let ?n = "length msg" and ?m = "length (rfc_pad msg)"
  define z where "z = (119 - ?n mod 64) mod 64"
  have m: "?m = ?n + 1 + z + 8" by (simp add: rfc_pad_def le_bytes_def z_def)
  have "?m < 2 ^ 30" using n by (simp add: length_rfc_pad)
  then have u: "unat (of_nat ?n :: 32 word) = ?n" "unat (of_nat i :: 32 word) = i"
      "unat (GetPaddedMessageLength (of_nat ?n)) = ?m"
    using n i padded_length [OF n] by (simp_all add: unat_of_nat)
  have "GetPaddedMessageLength (of_nat ?n) = of_nat ?m" using u(3) \<open>?m < 2 ^ 30\<close> by (simp add: word_unat_eq_iff unat_of_nat)
  then have l: "GetPaddedMessageLength (of_nat ?n) - 8 = of_nat (?m - 8)" using m by (simp add: of_nat_diff)
  have ul: "unat (of_nat (?m - 8) :: 32 word) = ?m - 8" using \<open>?m < 2 ^ 30\<close> by (simp add: unat_of_nat)
  have pad: "rfc_pad msg = (msg @ 0x80 # replicate z 0) @ le_bytes 8 (8 * ?n)"
    by (simp add: rfc_pad_def z_def)
  consider "i < ?n" | "i = ?n" | "?n < i" "i < ?m - 8" | "?m - 8 \<le> i" using m by linarith
  then show ?thesis
  proof cases
    case 3
    then have "i - Suc ?n < z" using m by linarith
    then have "rfc_pad msg ! i = 0" using 3 m by (simp add: pad nth_append nth_Cons')
    with 3 u ul show ?thesis
      by (simp add: GetPaddedMessageByte_def l word_less_nat_alt word_le_nat_alt word_unat_eq_iff)
  next
    case 4
    then have "(of_nat i :: 32 word) - of_nat (?m - 8) = of_nat (i - (?m - 8))" by (simp add: of_nat_diff)
    moreover have "rfc_pad msg ! i = le_bytes 8 (8 * ?n) ! (i - (?m - 8))"
      using 4 m by (simp only: pad nth_append length_append length_Cons length_replicate) simp
    moreover have "i - (?m - 8) < 8" using 4 i by linarith
    ultimately show ?thesis
      using 4 u ul m ExtractByte_le [OF n, of "i - (?m - 8)"]
      by (simp add: GetPaddedMessageByte_def l word_less_nat_alt word_le_nat_alt word_unat_eq_iff)
  qed (use u ul m in \<open>simp_all add: GetPaddedMessageByte_def l word_less_nat_alt word_le_nat_alt
        word_unat_eq_iff pad nth_append nth_Cons'\<close>)
qed

lemma byte_less: "unat (b :: byte) < 256"
proof -
  have "unat b < 2 ^ LENGTH(8)" by (rule unsigned_less)
  then show ?thesis by simp
qed

lemma unat_or_disjoint:
  "unat (ucast a OR push_bit 8 (ucast b) OR push_bit 16 (ucast c) OR push_bit 24 (ucast d) :: 32 word) =
   unat a + unat b * 256 + unat c * 65536 + unat d * 16777216" for a b c d :: byte
proof -
  have a: "push_bit 16 (ucast c) AND push_bit 24 (ucast d) = (0 :: 32 word)"
    "push_bit 8 (ucast b) AND (push_bit 16 (ucast c) OR push_bit 24 (ucast d)) = (0 :: 32 word)"
    "ucast a AND (push_bit 8 (ucast b) OR push_bit 16 (ucast c) OR push_bit 24 (ucast d)) = (0 :: 32 word)"
    by (auto simp: bit_eq_iff bit_simps dest: bit_imp_le_length)
  have u: "unat (push_bit k (ucast e :: 32 word)) = unat e * 2 ^ k" if "k \<le> 24" for k and e :: byte
  proof -
    have "unat e * 2 ^ k < 2 ^ 8 * 2 ^ 24"
      using byte_less [of e] power_increasing [of k 24 "2 :: nat"] that
      by (intro mult_less_le_imp_less) simp_all
    then show ?thesis
      unfolding unsigned_push_bit_eq unsigned_ucast_eq using byte_less [of e]
      by (simp add: take_bit_eq_mod push_bit_eq_mult)
  qed
  have s: "unat (v OR w) = unat v + unat w" if "v AND w = 0" for v w :: "32 word"
  proof -
    have "unat v AND unat w = 0" using that by (metis unsigned_and_eq unsigned_0)
    then show ?thesis by (simp add: unsigned_or_eq disjunctive_add_eq_or)
  qed
  show ?thesis using u [of 0 a] u [of 8 b] u [of 16 c] u [of 24 d]
    by (simp add: s [OF a(3)] s [OF a(2)] s [OF a(1)])
qed

lemma GetPaddedMessageWord_pad:
  assumes n: "length msg < 2 ^ 29" and i: "i + 4 \<le> length (rfc_pad msg)"
  shows "GetPaddedMessageWord msg (of_nat (length msg)) (GetPaddedMessageLength (of_nat (length msg)))
           (of_nat i) = le_word (take 4 (drop i (rfc_pad msg)))"
proof -
  let ?B = "GetPaddedMessageByte msg (of_nat (length msg)) (GetPaddedMessageLength (of_nat (length msg)))"
  have b: "?B (of_nat i + of_nat k) = take 4 (drop i (rfc_pad msg)) ! k" if "k < 4" for k
    using GetPaddedMessageByte_pad [OF n, of "i + k"] i that by simp
  have lt: "unat (p ! 0) + unat (p ! 1) * 256 + unat (p ! 2) * 65536 + unat (p ! 3) * 16777216 < 2 ^ 32"
    for p :: "byte list"
    using byte_less [of "p ! 0"] byte_less [of "p ! 1"] byte_less [of "p ! 2"] byte_less [of "p ! 3"] by simp
  have "unat (le_word p) = unat (p ! 0) + unat (p ! 1) * 256 + unat (p ! 2) * 65536 + unat (p ! 3) * 16777216"
    for p
  proof -
    have "{..<4 :: nat} = {0, 1, 2, 3}" by auto
    then have "(\<Sum>j<4. unat (p ! j) * 256 ^ j) =
        unat (p ! 0) + unat (p ! 1) * 256 + unat (p ! 2) * 65536 + unat (p ! 3) * 16777216" by simp
    then show ?thesis using lt [of p] by (simp only: le_word_def unat_of_nat) simp
  qed
  then show ?thesis
    unfolding GetPaddedMessageWord_def word_unat_eq_iff unat_or_disjoint
    using b [of 0] b [of 1] b [of 2] b [of 3] by simp
qed

lemma GetRoundData_block:
  assumes n: "length msg < 2 ^ 29" and k: "64 * k + 64 \<le> length (rfc_pad msg)"
  shows "GetRoundData msg (of_nat (length msg)) (GetPaddedMessageLength (of_nat (length msg)))
           (of_nat (64 * k)) = rfc_block (rfc_pad msg) k"
proof -
  let ?W = "GetPaddedMessageWord msg (of_nat (length msg)) (GetPaddedMessageLength (of_nat (length msg)))"
  have w: "?W (of_nat (64 * k) + of_nat (4 * j)) = le_word (take 4 (drop (64 * k + 4 * j) (rfc_pad msg)))"
    if "j < 16" for j
    using GetPaddedMessageWord_pad [OF n, of "64 * k + 4 * j"] k that by simp
  show ?thesis
    using w [of 0] w [of 1] w [of 2] w [of 3] w [of 4] w [of 5] w [of 6] w [of 7] w [of 8] w [of 9]
      w [of 10] w [of 11] w [of 12] w [of 13] w [of 14] w [of 15]
    by (simp add: GetRoundData_def rfc_block_def upt_rec)
qed

lemma ProcessMessage_rfc:
  assumes "length msg < 2 ^ 29"
  shows "registers (ProcessMessage msg (of_nat (length msg))) = rfc_md5 msg"
  unfolding ProcessMessage_def rfc_md5_def Let_def padded_length [OF assms] registers_init [symmetric]
  by (rule foldl_commutes) (simp add: Add_rfc GetRoundData_block [OF assms] del: of_nat_mult)

end
