(* ===== verification/Md5_Eval.thy ===== *)
theory Md5_Eval
  imports Md5
begin

text \<open>
  Evaluation of the hash of \<open>src/3rd/inc/rest_rpc/md5.hpp\<close> in the kernel: the
  same steps on integers, where numerals stay small, shown to be those on words,
  and the keys of the handlers of \<open>src/main.cpp\<close>.
\<close>

section \<open>Evaluation over integers\<close>

definition mix_int :: "nat \<Rightarrow> int \<Rightarrow> int \<Rightarrow> int \<Rightarrow> int" where
  "mix_int i b c d =
     (if i < 16 then d XOR (b AND (c XOR d))
      else if i < 32 then c XOR (d AND (b XOR c))
      else if i < 48 then b XOR c XOR d
      else c XOR (b OR (d XOR 0xffffffff)))"

definition rot_int :: "int \<Rightarrow> nat \<Rightarrow> int" where
  "rot_int f s = f * 2 ^ s mod 4294967296 + f div 2 ^ (32 - s)"

fun run_int :: "(nat \<times> int \<times> nat \<times> nat) list \<Rightarrow> int list \<Rightarrow> int \<Rightarrow> int \<Rightarrow> int \<Rightarrow> int \<Rightarrow> int \<times> int \<times> int \<times> int" where
  "run_int [] data a b c d = (a, b, c, d)"
| "run_int ((i, k, s, g) # steps) data a b c d =
     run_int steps data d
       ((b + rot_int ((mix_int i b c d + a + k + data ! g) mod 4294967296) s) mod 4294967296) b c"

definition step_int :: "nat \<Rightarrow> nat \<times> int \<times> nat \<times> nat" where
  "step_int i = (i, uint (kConstants ! i), GetShift i, CalcG i)"

lemma mod_add_mid: "(b + (x mod N + y)) mod N = (b + (x + y)) mod (N :: int)"
  using mod_add_left_eq [of x N "b + y"] by (simp add: ac_simps)

lemma mod_add_inner: "(b + (x mod N + y) mod N) mod N = (b + (x + y)) mod (N :: int)"
  by (simp add: mod_simps)

lemma uint_LeftRotate:
  assumes "0 < s" "s < 32"
  shows "uint (b + LeftRotate f s) = (uint b + rot_int (uint f) s) mod 4294967296"
proof -
  have "push_bit s f AND drop_bit (32 - s) f = 0"
    using assms by (auto simp: bit_eq_iff bit_simps dest: bit_imp_le_length)
  then have "LeftRotate f s = push_bit s f + drop_bit (32 - s) f"
    by (simp add: LeftRotate_def disjunctive_add_eq_or)
  moreover have "uint (push_bit s f) = uint f * 2 ^ s mod 4294967296"
    unfolding unsigned_push_bit_eq by (simp add: take_bit_eq_mod push_bit_eq_mult)
  moreover have "uint (drop_bit (32 - s) f) = uint f div 2 ^ (32 - s)"
  proof -
    have "int (unat (drop_bit (32 - s) f)) = int (unat f div 2 ^ (32 - s))"
      unfolding unat_drop_bit_eq by (simp add: drop_bit_eq_div)
    then show ?thesis by (simp add: zdiv_int)
  qed
  ultimately show ?thesis
    by (simp add: rot_int_def uint_word_ariths mod_add_mid mod_add_inner)
qed

lemma not_xor: "NOT d = d XOR (0xffffffff :: 32 word)"
proof -
  have m: "(0xffffffff :: 32 word) = - 1" by simp
  show ?thesis unfolding m by simp
qed

lemma uint_CalcF: "uint (CalcF i b c d) = mix_int i (uint b) (uint c) (uint d)"
  by (simp add: CalcF_def mix_int_def not_xor unsigned_and_eq unsigned_or_eq unsigned_xor_eq)

lemma run_int_steps:
  assumes "\<forall>i \<in> set is. i < 64" and "length data = 16"
  shows "run_int (map step_int is) (map uint data) (uint (md_a im)) (uint (md_b im)) (uint (md_c im)) (uint (md_d im)) =
    (let r = foldl (\<lambda>im i. ApplyStep i data im) im is
     in (uint (md_a r), uint (md_b r), uint (md_c r), uint (md_d r)))"
  using assms(1)
proof (induction "is" arbitrary: im)
  case (Cons i js)
  have g: "CalcG i < 16" using Cons.prems by (simp add: CalcG_def)
  let ?f = "CalcF i (md_b im) (md_c im) (md_d im) + md_a im + kConstants ! i + data ! CalcG i"
  have f: "uint ?f = (mix_int i (uint (md_b im)) (uint (md_c im)) (uint (md_d im)) + uint (md_a im) +
      uint (kConstants ! i) + uint (data ! CalcG i)) mod 4294967296"
    by (simp add: uint_word_ariths uint_CalcF mod_simps add.assoc)
  show ?case
    using Cons.IH [of "ApplyStep i data im"] Cons.prems GetShift_range [of i] g assms(2)
    by (simp add: step_int_def ApplyStep_def Let_def uint_LeftRotate f [symmetric] nth_map)
qed (simp add: Let_def)

lemma steps_int: "map step_int [0..<64] =
    [(0, 3614090360, 7, 0), (1, 3905402710, 12, 1), (2, 606105819, 17, 2),
     (3, 3250441966, 22, 3), (4, 4118548399, 7, 4), (5, 1200080426, 12, 5),
     (6, 2821735955, 17, 6), (7, 4249261313, 22, 7), (8, 1770035416, 7, 8),
     (9, 2336552879, 12, 9), (10, 4294925233, 17, 10), (11, 2304563134, 22, 11),
     (12, 1804603682, 7, 12), (13, 4254626195, 12, 13), (14, 2792965006, 17, 14),
     (15, 1236535329, 22, 15), (16, 4129170786, 5, 1), (17, 3225465664, 9, 6),
     (18, 643717713, 14, 11), (19, 3921069994, 20, 0), (20, 3593408605, 5, 5),
     (21, 38016083, 9, 10), (22, 3634488961, 14, 15), (23, 3889429448, 20, 4),
     (24, 568446438, 5, 9), (25, 3275163606, 9, 14), (26, 4107603335, 14, 3),
     (27, 1163531501, 20, 8), (28, 2850285829, 5, 13), (29, 4243563512, 9, 2),
     (30, 1735328473, 14, 7), (31, 2368359562, 20, 12), (32, 4294588738, 4, 5),
     (33, 2272392833, 11, 8), (34, 1839030562, 16, 11), (35, 4259657740, 23, 14),
     (36, 2763975236, 4, 1), (37, 1272893353, 11, 4), (38, 4139469664, 16, 7),
     (39, 3200236656, 23, 10), (40, 681279174, 4, 13), (41, 3936430074, 11, 0),
     (42, 3572445317, 16, 3), (43, 76029189, 23, 6), (44, 3654602809, 4, 9),
     (45, 3873151461, 11, 12), (46, 530742520, 16, 15), (47, 3299628645, 23, 2),
     (48, 4096336452, 6, 0), (49, 1126891415, 10, 7), (50, 2878612391, 15, 14),
     (51, 4237533241, 21, 5), (52, 1700485571, 6, 12), (53, 2399980690, 10, 3),
     (54, 4293915773, 15, 10), (55, 2240044497, 21, 1), (56, 1873313359, 6, 8),
     (57, 4264355552, 10, 15), (58, 2734768916, 15, 6), (59, 1309151649, 21, 13),
     (60, 4149444226, 6, 4), (61, 3174756917, 10, 11), (62, 718787259, 15, 2),
     (63, 3951481745, 21, 9)]"
  by (simp add: step_int_def upt_rec kConstants_def GetShift_def kShifts_def CalcG_def)

text \<open>A message of at most 55 bytes is one block.\<close>

lemma MD5Hash32_short:
  assumes "length s < 56" "\<forall>c \<in> set s. (of_char c :: byte) \<noteq> 0"
    and "GetRoundData (map of_char s) (of_nat (length s)) 64 0 = data"
    and "run_int (map step_int [0..<64]) (map uint data) 1732584193 4023233417 2562383102 271733878 = (a, b, c, d)"
  shows "MD5Hash32 (c_str s) = SwapEndian (word_of_int (1732584193 + a))"
proof -
  let ?m = "map of_char s :: byte list"
  have "takeWhile (\<lambda>b. b \<noteq> 0) (c_str s) = ?m"
    using assms(2) by (subst c_str_def, subst takeWhile_append2) auto
  then have len: "StringLength (c_str s) = of_nat (length s)" by (simp add: StringLength_def)
  have "length (rfc_pad ?m) = 64"
    using assms(1) length_rfc_pad [of ?m] div_nat_eqI [of 1 64 "length s + 72"] by simp
  then have m: "unat (GetPaddedMessageLength (of_nat (length s))) = 64"
    using padded_length [of ?m] assms(1) by simp
  then have m64: "GetPaddedMessageLength (of_nat (length s)) = 64" by (simp add: word_unat_eq_iff)
  have same: "GetPaddedMessageByte (c_str s) (of_nat (length s)) 64 i =
      GetPaddedMessageByte ?m (of_nat (length s)) 64 i" for i
    using assms(1) by (auto simp: GetPaddedMessageByte_def c_str_def nth_append word_less_nat_alt unat_of_nat)
  have data: "GetRoundData (c_str s) (of_nat (length s)) 64 0 = data"
    using assms(3) by (simp add: GetRoundData_def GetPaddedMessageWord_def same)
  have l: "length data = 16" using assms(3) by (auto simp: GetRoundData_def)
  let ?r = "foldl (\<lambda>im i. ApplyStep i data im) kInitialIntermediateData [0..<64]"
  have "uint (md_a ?r) = a"
    using run_int_steps [of "[0..<64]" data kInitialIntermediateData] l assms(4)
    by (simp add: kInitialIntermediateData_def Let_def)
  then have "md_a ?r = word_of_int a" by (metis word_of_int_uint)
  moreover have "ProcessMessage (c_str s) (of_nat (length s)) = Add kInitialIntermediateData ?r"
    by (simp add: ProcessMessage_def m m64 data Let_def)
  ultimately have "md_a (ProcessMessage (c_str s) (of_nat (length s))) = word_of_int (1732584193 + a)"
    by (simp add: Add_def kInitialIntermediateData_def)
  then show ?thesis by (simp add: MD5Hash32_def Hash32_def len)
qed

lemmas round_data_defs = GetRoundData_def GetPaddedMessageWord_def GetPaddedMessageByte_def ExtractByte_def
lemmas run_int_defs = steps_int mix_int_def rot_int_def

section \<open>The keys of the handlers\<close>

lemma key_render: "MD5Hash32 (c_str ''render'') = 0x9e5f0bb3"
proof -
  have data: "GetRoundData (map of_char ''render'') (of_nat (length ''render'')) 64 0 =
      [1684956530, 8417893, 0, 0, 0, 0, 0, 0, 0, 0, 0, 0, 0, 0, 48, 0]"
    by (simp add: round_data_defs)
  have run: "run_int (map step_int [0..<64]) (map uint ([1684956530, 8417893, 0, 0, 0, 0, 0, 0, 0, 0, 0, 0, 0, 0, 48, 0] :: 32 word list))
      1732584193 4023233417 2562383102 271733878 = (1271282845, 1753188519, 980795661, 1568244162)"
    by (simp add: run_int_defs)
  show ?thesis by (simp add: MD5Hash32_short [OF _ _ data run] SwapEndian_def)
qed

lemma key_draw_pixel: "MD5Hash32 (c_str ''draw_pixel'') = 0xdb4c9fa6"
proof -
  have data: "GetRoundData (map of_char ''draw_pixel'') (of_nat (length ''draw_pixel'')) 64 0 =
      [2002874980, 2020175967, 8416357, 0, 0, 0, 0, 0, 0, 0, 0, 0, 0, 0, 80, 0]"
    by (simp add: round_data_defs)
  have run: "run_int (map step_int [0..<64]) (map uint ([2002874980, 2020175967, 8416357, 0, 0, 0, 0, 0, 0, 0, 0, 0, 0, 0, 80, 0] :: 32 word list))
      1732584193 4023233417 2562383102 271733878 = (1062873562, 2589414885, 929779812, 2404203350)"
    by (simp add: run_int_defs)
  show ?thesis by (simp add: MD5Hash32_short [OF _ _ data run] SwapEndian_def)
qed

lemma key_draw_text: "MD5Hash32 (c_str ''draw_text'') = 0xa368bda1"
proof -
  have data: "GetRoundData (map of_char ''draw_text'') (of_nat (length ''draw_text'')) 64 0 =
      [2002874980, 2019914847, 32884, 0, 0, 0, 0, 0, 0, 0, 0, 0, 0, 0, 72, 0]"
    by (simp add: round_data_defs)
  have run: "run_int (map step_int [0..<64]) (map uint ([2002874980, 2019914847, 32884, 0, 0, 0, 0, 0, 0, 0, 0, 0, 0, 0, 72, 0] :: 32 word list))
      1732584193 4023233417 2562383102 271733878 = (980960674, 2525505724, 4014357574, 578362808)"
    by (simp add: run_int_defs)
  show ?thesis by (simp add: MD5Hash32_short [OF _ _ data run] SwapEndian_def)
qed

lemma key_draw_number: "MD5Hash32 (c_str ''draw_number'') = 0xd99a8100"
proof -
  have data: "GetRoundData (map of_char ''draw_number'') (of_nat (length ''draw_number'')) 64 0 =
      [2002874980, 1836412511, 2154980706, 0, 0, 0, 0, 0, 0, 0, 0, 0, 0, 0, 88, 0]"
    by (simp add: round_data_defs)
  have run: "run_int (map step_int [0..<64]) (map uint ([2002874980, 1836412511, 2154980706, 0, 0, 0, 0, 0, 0, 0, 0, 0, 0, 0, 88, 0] :: 32 word list))
      1732584193 4023233417 2562383102 271733878 = (2570876888, 1873886232, 2884696085, 765297159)"
    by (simp add: run_int_defs)
  show ?thesis by (simp add: MD5Hash32_short [OF _ _ data run] SwapEndian_def)
qed

lemma key_clear: "MD5Hash32 (c_str ''clear'') = 0x01bc6f8e"
proof -
  have data: "GetRoundData (map of_char ''clear'') (of_nat (length ''clear'')) 64 0 =
      [1634036835, 32882, 0, 0, 0, 0, 0, 0, 0, 0, 0, 0, 0, 0, 40, 0]"
    by (simp add: round_data_defs)
  have run: "run_int (map step_int [0..<64]) (map uint ([1634036835, 32882, 0, 0, 0, 0, 0, 0, 0, 0, 0, 0, 0, 0, 40, 0] :: 32 word list))
      1732584193 4023233417 2562383102 271733878 = (657103104, 2452920177, 1698281504, 542692736)"
    by (simp add: run_int_defs)
  show ?thesis by (simp add: MD5Hash32_short [OF _ _ data run] SwapEndian_def)
qed

lemma key_width: "MD5Hash32 (c_str ''width'') = 0xeaae26a6"
proof -
  have data: "GetRoundData (map of_char ''width'') (of_nat (length ''width'')) 64 0 =
      [1952737655, 32872, 0, 0, 0, 0, 0, 0, 0, 0, 0, 0, 0, 0, 40, 0]"
    by (simp add: round_data_defs)
  have run: "run_int (map step_int [0..<64]) (map uint ([1952737655, 32872, 0, 0, 0, 0, 0, 0, 0, 0, 0, 0, 0, 0, 40, 0] :: 32 word list))
      1732584193 4023233417 2562383102 271733878 = (1054968809, 1327461746, 2734125815, 3152852868)"
    by (simp add: run_int_defs)
  show ?thesis by (simp add: MD5Hash32_short [OF _ _ data run] SwapEndian_def)
qed

lemma key_height: "MD5Hash32 (c_str ''height'') = 0xb435e227"
proof -
  have data: "GetRoundData (map of_char ''height'') (of_nat (length ''height'')) 64 0 =
      [1734960488, 8418408, 0, 0, 0, 0, 0, 0, 0, 0, 0, 0, 0, 0, 48, 0]"
    by (simp add: round_data_defs)
  have run: "run_int (map step_int [0..<64]) (map uint ([1734960488, 8418408, 0, 0, 0, 0, 0, 0, 0, 0, 0, 0, 0, 0, 48, 0] :: 32 word list))
      1732584193 4023233417 2562383102 271733878 = (3231519411, 777204300, 603425561, 1903725628)"
    by (simp add: run_int_defs)
  show ?thesis by (simp add: MD5Hash32_short [OF _ _ data run] SwapEndian_def)
qed

lemma key_pixel: "MD5Hash32 (c_str ''pixel'') = 0xab4086ec"
proof -
  have data: "GetRoundData (map of_char ''pixel'') (of_nat (length ''pixel'')) 64 0 =
      [1702390128, 32876, 0, 0, 0, 0, 0, 0, 0, 0, 0, 0, 0, 0, 40, 0]"
    by (simp add: round_data_defs)
  have run: "run_int (map step_int [0..<64]) (map uint ([1702390128, 32876, 0, 0, 0, 0, 0, 0, 0, 0, 0, 0, 0, 0, 40, 0] :: 32 word list))
      1732584193 4023233417 2562383102 271733878 = (2235637162, 2642989387, 79218781, 2137400266)"
    by (simp add: run_int_defs)
  show ?thesis by (simp add: MD5Hash32_short [OF _ _ data run] SwapEndian_def)
qed

lemma key_set_rotate: "MD5Hash32 (c_str ''set_rotate'') = 0xc27b9251"
proof -
  have data: "GetRoundData (map of_char ''set_rotate'') (of_nat (length ''set_rotate'')) 64 0 =
      [1601463667, 1635020658, 8414580, 0, 0, 0, 0, 0, 0, 0, 0, 0, 0, 0, 80, 0]"
    by (simp add: round_data_defs)
  have run: "run_int (map step_int [0..<64]) (map uint ([1601463667, 1635020658, 8414580, 0, 0, 0, 0, 0, 0, 0, 0, 0, 0, 0, 80, 0] :: 32 word list))
      1732584193 4023233417 2562383102 271733878 = (3930937537, 136491265, 754554773, 3177613981)"
    by (simp add: run_int_defs)
  show ?thesis by (simp add: MD5Hash32_short [OF _ _ data run] SwapEndian_def)
qed

lemma key_set_transparent: "MD5Hash32 (c_str ''set_transparent'') = 0xb42224b8"
proof -
  have data: "GetRoundData (map of_char ''set_transparent'') (of_nat (length ''set_transparent'')) 64 0 =
      [1601463667, 1851880052, 1918988403, 2155114085, 0, 0, 0, 0, 0, 0, 0, 0, 0, 0, 120, 0]"
    by (simp add: round_data_defs)
  have run: "run_int (map step_int [0..<64]) (map uint ([1601463667, 1851880052, 1918988403, 2155114085, 0, 0, 0, 0, 0, 0, 0, 0, 0, 0, 120, 0] :: 32 word list))
      1732584193 4023233417 2562383102 271733878 = (1356791731, 3383315107, 3383480038, 598887890)"
    by (simp add: run_int_defs)
  show ?thesis by (simp add: MD5Hash32_short [OF _ _ data run] SwapEndian_def)
qed

lemma key_set_background: "MD5Hash32 (c_str ''set_background'') = 0xfcf7457c"
proof -
  have data: "GetRoundData (map of_char ''set_background'') (of_nat (length ''set_background'')) 64 0 =
      [1601463667, 1801675106, 1970238055, 8414318, 0, 0, 0, 0, 0, 0, 0, 0, 0, 0, 112, 0]"
    by (simp add: round_data_defs)
  have run: "run_int (map step_int [0..<64]) (map uint ([1601463667, 1801675106, 1970238055, 8414318, 0, 0, 0, 0, 0, 0, 0, 0, 0, 0, 112, 0] :: 32 word list))
      1732584193 4023233417 2562383102 271733878 = (352376059, 1630232464, 164201014, 1776242690)"
    by (simp add: run_int_defs)
  show ?thesis by (simp add: MD5Hash32_short [OF _ _ data run] SwapEndian_def)
qed

lemma key_set_auto_render: "MD5Hash32 (c_str ''set_auto_render'') = 0x21481bad"
proof -
  have data: "GetRoundData (map of_char ''set_auto_render'') (of_nat (length ''set_auto_render'')) 64 0 =
      [1601463667, 1869903201, 1852142175, 2154980708, 0, 0, 0, 0, 0, 0, 0, 0, 0, 0, 120, 0]"
    by (simp add: round_data_defs)
  have run: "run_int (map step_int [0..<64]) (map uint ([1601463667, 1869903201, 1852142175, 2154980708, 0, 0, 0, 0, 0, 0, 0, 0, 0, 0, 120, 0] :: 32 word list))
      1732584193 4023233417 2562383102 271733878 = (1171662112, 2035632891, 1633771972, 4258942194)"
    by (simp add: run_int_defs)
  show ?thesis by (simp add: MD5Hash32_short [OF _ _ data run] SwapEndian_def)
qed

end
