(* ===== verification/Md5_Properties.thy ===== *)
theory Md5_Properties
  imports Md5_Eval
begin

text \<open>Properties of the hash that turns the name of a handler into its key.\<close>

text \<open>C31: the hash of \<open>md5.hpp\<close> is MD5 as RFC 1321 defines it: for every message of
  less than $2^{29}$ bytes, \<open>ProcessMessage\<close> returns the four registers of \<open>rfc_md5\<close>. That function is
  written from the RFC alone, with none of the definitions of the code: the padding with the length
  in bits as eight bytes, the table \<open>T\<close> in decimal, the order in which the words of the block are
  used and the amounts of the rotations as lists, the four functions F, G, H and I as bit
  operations, the initial registers as bytes, and the 64 steps on a tuple of registers.\<close>

theorem hash_is_md5:
  assumes "length msg < 2 ^ 29"
  shows "registers (ProcessMessage msg (of_nat (length msg))) = rfc_md5 msg"
  using assms by (rule ProcessMessage_rfc)

lemma hash_is_md5_witness:
  "registers (ProcessMessage (map of_char ''render'') 6) = rfc_md5 (map of_char ''render'')"
  using hash_is_md5 [of "map of_char ''render''"] by simp

end
