(* ===== verification/Msgpack_Bytes.thy ===== *)
theory Msgpack_Bytes
  imports Prelude
begin

unbundle bit_operations_syntax

text \<open>
  Integers in network byte order: the macros of
  \<open>src/3rd/inc/msgpack/sysdep.hpp\<close>, on the little-endian machine the program is
  built for. \<open>memory16\<close>, \<open>memory32\<close> and \<open>memory64\<close> are the bytes of an integer in
  memory, which the macros copy with \<open>memcpy\<close>.
\<close>

type_synonym byte = "8 word"

named_theorems byte_order \<open>stores, loads and the values between them\<close>

section \<open>Memory\<close>

definition memory16 :: "16 word \<Rightarrow> byte list" where
  "memory16 x = map (\<lambda>i. ucast (drop_bit (8 * i) x)) [0, 1]"

definition memory32 :: "32 word \<Rightarrow> byte list" where
  "memory32 x = map (\<lambda>i. ucast (drop_bit (8 * i) x)) [0, 1, 2, 3]"

definition memory64 :: "64 word \<Rightarrow> byte list" where
  "memory64 x = map (\<lambda>i. ucast (drop_bit (8 * i) x)) [0, 1, 2, 3, 4, 5, 6, 7]"

fun value_of_memory :: "byte list \<Rightarrow> 'a::len word" where
  "value_of_memory [] = 0"
| "value_of_memory (b # bs) = ucast b OR push_bit 8 (value_of_memory bs)"

section \<open>Byte order\<close>

definition msgpack_be16 :: "16 word \<Rightarrow> 16 word" where
  "msgpack_be16 x = push_bit 8 x OR drop_bit 8 x"

definition msgpack_be32 :: "32 word \<Rightarrow> 32 word" where
  "msgpack_be32 x =
     push_bit 24 x OR (push_bit 8 x AND 0x00ff0000) OR
     (drop_bit 8 x AND 0x0000ff00) OR drop_bit 24 x"

definition msgpack_be64 :: "64 word \<Rightarrow> 64 word" where
  "msgpack_be64 x =
     push_bit 56 x OR
     (push_bit 40 x AND 0x00ff000000000000) OR
     (push_bit 24 x AND 0x0000ff0000000000) OR
     (push_bit 8 x AND 0x000000ff00000000) OR
     (drop_bit 8 x AND 0x00000000ff000000) OR
     (drop_bit 24 x AND 0x0000000000ff0000) OR
     (drop_bit 40 x AND 0x000000000000ff00) OR
     drop_bit 56 x"

definition msgpack_store16 :: "16 word \<Rightarrow> byte list" where
  "msgpack_store16 num = memory16 (msgpack_be16 num)"

definition msgpack_store32 :: "32 word \<Rightarrow> byte list" where
  "msgpack_store32 num = memory32 (msgpack_be32 num)"

definition msgpack_store64 :: "64 word \<Rightarrow> byte list" where
  "msgpack_store64 num = memory64 (msgpack_be64 num)"

definition msgpack_load16 :: "byte list \<Rightarrow> 16 word" where
  "msgpack_load16 from = msgpack_be16 (value_of_memory (take 2 from))"

definition msgpack_load32 :: "byte list \<Rightarrow> 32 word" where
  "msgpack_load32 from = msgpack_be32 (value_of_memory (take 4 from))"

definition msgpack_load64 :: "byte list \<Rightarrow> 64 word" where
  "msgpack_load64 from = msgpack_be64 (value_of_memory (take 8 from))"

section \<open>Loads after stores\<close>

lemma byte_cases:
  obtains r where "r < 8" "n = r" | r where "r < 8" "n = 8 + r"
  | r where "r < 8" "n = 16 + r" | r where "r < 8" "n = 24 + r"
  | r where "r < 8" "n = 32 + r" | r where "r < 8" "n = 40 + r"
  | r where "r < 8" "n = 48 + r" | r where "r < 8" "n = 56 + r"
  | "64 \<le> (n::nat)"
proof -
  consider "n < 8" | "8 \<le> n" "n < 16" | "16 \<le> n" "n < 24" | "24 \<le> n" "n < 32"
    | "32 \<le> n" "n < 40" | "40 \<le> n" "n < 48" | "48 \<le> n" "n < 56" | "56 \<le> n" "n < 64"
    | "64 \<le> n" by linarith
  then show thesis
    by cases (use that in \<open>auto simp: le_iff_add\<close>)
qed

lemma value_of_memory16: "value_of_memory (memory16 x) = x"
proof (rule bit_word_eqI)
  show "bit (value_of_memory (memory16 x) :: 16 word) n = bit x n" if "n < LENGTH(16)" for n
    using that by (cases n rule: byte_cases) (simp_all add: memory16_def bit_simps)
qed

lemma value_of_memory32: "value_of_memory (memory32 x) = x"
proof (rule bit_word_eqI)
  show "bit (value_of_memory (memory32 x) :: 32 word) n = bit x n" if "n < LENGTH(32)" for n
    using that by (cases n rule: byte_cases) (simp_all add: memory32_def bit_simps)
qed

lemma value_of_memory64: "value_of_memory (memory64 x) = x"
proof (rule bit_word_eqI)
  show "bit (value_of_memory (memory64 x) :: 64 word) n = bit x n" if "n < LENGTH(64)" for n
    using that by (cases n rule: byte_cases) (simp_all add: memory64_def bit_simps)
qed

lemma mask_numerals:
  "(0x00ff0000 :: 32 word) = push_bit 16 (mask 8)"
  "(0x0000ff00 :: 32 word) = push_bit 8 (mask 8)"
  "(0x00ff000000000000 :: 64 word) = push_bit 48 (mask 8)"
  "(0x0000ff0000000000 :: 64 word) = push_bit 40 (mask 8)"
  "(0x000000ff00000000 :: 64 word) = push_bit 32 (mask 8)"
  "(0x00000000ff000000 :: 64 word) = push_bit 24 (mask 8)"
  "(0x0000000000ff0000 :: 64 word) = push_bit 16 (mask 8)"
  "(0x000000000000ff00 :: 64 word) = push_bit 8 (mask 8)"
  by (simp_all add: push_bit_eq_mult mask_eq_exp_minus_1)

lemmas msgpack_be_defs = msgpack_be16_def msgpack_be32_def msgpack_be64_def mask_numerals

lemma msgpack_be_involution:
  "msgpack_be16 (msgpack_be16 a) = a"
  "msgpack_be32 (msgpack_be32 b) = b"
  "msgpack_be64 (msgpack_be64 c) = c"
proof -
  show "msgpack_be16 (msgpack_be16 a) = a"
  proof (rule bit_word_eqI)
    show "bit (msgpack_be16 (msgpack_be16 a)) n = bit a n" if "n < LENGTH(16)" for n
      unfolding msgpack_be_defs using that
      by (cases n rule: byte_cases) (auto simp: bit_simps dest: bit_imp_le_length)
  qed
  show "msgpack_be32 (msgpack_be32 b) = b"
  proof (rule bit_word_eqI)
    show "bit (msgpack_be32 (msgpack_be32 b)) n = bit b n" if "n < LENGTH(32)" for n
      unfolding msgpack_be_defs using that
      by (cases n rule: byte_cases) (auto simp: bit_simps dest: bit_imp_le_length)
  qed
  show "msgpack_be64 (msgpack_be64 c) = c"
  proof (rule bit_word_eqI)
    show "bit (msgpack_be64 (msgpack_be64 c)) n = bit c n" if "n < LENGTH(64)" for n
      unfolding msgpack_be_defs using that
      by (cases n rule: byte_cases) (auto simp: bit_simps dest: bit_imp_le_length)
  qed
qed

lemma length_msgpack_store [simp]:
  "length (msgpack_store16 a) = 2"
  "length (msgpack_store32 b) = 4"
  "length (msgpack_store64 c) = 8"
  by (simp_all add: msgpack_store16_def msgpack_store32_def msgpack_store64_def
      memory16_def memory32_def memory64_def)

lemma msgpack_load_store [byte_order]:
  "msgpack_load16 (msgpack_store16 a @ rest) = a"
  "msgpack_load32 (msgpack_store32 b @ rest) = b"
  "msgpack_load64 (msgpack_store64 c @ rest) = c"
proof -
  note length_msgpack_store [unfolded msgpack_store16_def msgpack_store32_def msgpack_store64_def, simp]
  show "msgpack_load16 (msgpack_store16 a @ rest) = a"
    by (simp add: msgpack_load16_def msgpack_store16_def value_of_memory16 msgpack_be_involution)
  show "msgpack_load32 (msgpack_store32 b @ rest) = b"
    by (simp add: msgpack_load32_def msgpack_store32_def value_of_memory32 msgpack_be_involution)
  show "msgpack_load64 (msgpack_store64 c @ rest) = c"
    by (simp add: msgpack_load64_def msgpack_store64_def value_of_memory64 msgpack_be_involution)
qed

end
