(* ===== verification/Sbuffer.thy ===== *)
theory Sbuffer
  imports Msgpack_Bytes
begin

text \<open>
  The growing byte buffer of \<open>src/3rd/inc/msgpack/v1/sbuffer.hpp\<close>, and the
  contract that the packer asks of its output stream: a successful write appends
  its bytes to what the stream holds, and the only failure is the allocator's.

  A block of memory is the list of its bytes; \<open>avail\<close> is the size of the largest
  block the allocator can give. Bytes that were never written are shown as 0; the
  operations below read only what was written. A \<open>size_t\<close> has 64 bits.
\<close>

section \<open>The contract of an output stream\<close>

text \<open>
  \<open>emits m bs\<close>: from every good stream, \<open>m\<close> appends exactly \<open>bs\<close> or runs out of
  memory, where \<open>oom\<close> says that it can; contents never reach \<open>2^64\<close> bytes.
\<close>

definition appends :: "bool \<Rightarrow> ('s \<Rightarrow> bool) \<Rightarrow> ('s \<Rightarrow> byte list) \<Rightarrow> ('s \<Rightarrow> 's result) \<Rightarrow> byte list \<Rightarrow> bool" where
  "appends oom good content m bs \<longleftrightarrow>
     (\<forall>s. good s \<longrightarrow> length (content s) + length bs < 2 ^ 64 \<longrightarrow>
        (case m s of
           Inl e \<Rightarrow> oom \<and> e = Throw Bad_Alloc
         | Inr s' \<Rightarrow> good s' \<and> content s' = content s @ bs))"

locale stream =
  fixes oom :: bool
    and good :: "'s \<Rightarrow> bool"
    and content :: "'s \<Rightarrow> byte list"
    and wr :: "'s \<Rightarrow> byte list \<Rightarrow> 's result"
  assumes wr_appends: "appends oom good content (\<lambda>s. wr s bs) bs"
begin

definition emits :: "('s \<Rightarrow> 's result) \<Rightarrow> byte list \<Rightarrow> bool" where
  "emits = appends oom good content"

lemma emits_wr: "emits (\<lambda>s. wr s bs) bs"
  unfolding emits_def by (rule wr_appends)

lemma emits_nothing: "emits (\<lambda>s. Inr s) []"
  by (simp add: emits_def appends_def)

lemma emits_seq:
  assumes "emits m bs" "emits n cs"
  shows "emits (\<lambda>s. rbind (m s) n) (bs @ cs)"
  unfolding emits_def appends_def
proof (intro allI impI)
  fix s assume s: "good s" "length (content s) + length (bs @ cs) < 2 ^ 64"
  then have len: "length (content s) + length bs < 2 ^ 64" by simp
  show "case rbind (m s) n of Inl e \<Rightarrow> oom \<and> e = Throw Bad_Alloc
      | Inr s' \<Rightarrow> good s' \<and> content s' = content s @ bs @ cs"
  proof (cases "m s")
    case (Inl e)
    with assms(1) s len show ?thesis unfolding emits_def appends_def by auto
  next
    case (Inr t)
    with assms(1) s len have t: "good t" "content t = content s @ bs"
      unfolding emits_def appends_def by (auto dest: spec [of _ s])
    from assms(2) have "case n t of Inl e \<Rightarrow> oom \<and> e = Throw Bad_Alloc
        | Inr s' \<Rightarrow> good s' \<and> content s' = content t @ cs"
      unfolding emits_def appends_def using t s(2) by simp
    then show ?thesis by (simp add: Inr t(2) split: sum.splits)
  qed
qed

lemma emits_total:
  assumes "emits m bs" "\<not> oom" "good s" "length (content s) + length bs < 2 ^ 64"
  shows "\<exists>s'. m s = Inr s' \<and> good s' \<and> content s' = content s @ bs"
proof -
  from assms(1,3,4) have "case m s of Inl e \<Rightarrow> oom \<and> e = Throw Bad_Alloc
      | Inr s' \<Rightarrow> good s' \<and> content s' = content s @ bs"
    unfolding emits_def appends_def by blast
  with assms(2) show ?thesis by (cases "m s") simp_all
qed

lemma emits_append:
  assumes "emits m bs" "good s" "length (content s) + length bs < 2 ^ 64" "m s = Inr s'"
  shows "content s' = content s @ bs"
  using assms unfolding emits_def appends_def by (auto dest: spec [of _ s])

end

section \<open>The buffer\<close>

definition MSGPACK_SBUFFER_INIT_SIZE :: nat where
  "MSGPACK_SBUFFER_INIT_SIZE = 8192"

record sbuffer =
  m_size :: nat
  m_data :: "byte list"
  m_alloc :: nat

definition sbuffer_new :: "nat \<Rightarrow> nat \<Rightarrow> sbuffer result" where
  "sbuffer_new avail initsz =
     (if initsz = 0 then Inr \<lparr>m_size = 0, m_data = [], m_alloc = 0\<rparr>
      else if avail < initsz then Inl (Throw Bad_Alloc)
      else Inr \<lparr>m_size = 0, m_data = replicate initsz 0, m_alloc = initsz\<rparr>)"

text \<open>The loop of \<open>expand_buffer\<close>: doubling, up to the size asked for.\<close>

function expanded_size :: "nat \<Rightarrow> nat \<Rightarrow> nat" where
  "expanded_size need nsize =
     (if nsize < need then
        (let tmp_nsize = nsize * 2 mod 2 ^ 64 in
         if tmp_nsize \<le> nsize then need else expanded_size need tmp_nsize)
      else nsize)"
  by pat_completeness auto
termination
  by (relation "measure (\<lambda>(need, nsize). need - nsize)") auto

declare expanded_size.simps [simp del]

definition realloc :: "byte list \<Rightarrow> nat \<Rightarrow> byte list" where
  "realloc block nsize = take nsize block @ replicate (nsize - length block) 0"

definition expand_buffer :: "nat \<Rightarrow> sbuffer \<Rightarrow> nat \<Rightarrow> sbuffer result" where
  "expand_buffer avail b len =
     (let start = (if m_alloc b > 0 then m_alloc b * 2 mod 2 ^ 64 else MSGPACK_SBUFFER_INIT_SIZE);
          nsize = expanded_size ((m_size b + len) mod 2 ^ 64) start
      in if avail < nsize then Inl (Throw Bad_Alloc)
         else Inr (b\<lparr>m_data := realloc (m_data b) nsize, m_alloc := nsize\<rparr>))"

definition memcpy :: "byte list \<Rightarrow> nat \<Rightarrow> byte list \<Rightarrow> byte list result" where
  "memcpy block at_pos buf =
     (if at_pos + length buf \<le> length block
      then Inr (take at_pos block @ buf @ drop (at_pos + length buf) block)
      else Inl (UB Out_Of_Bounds))"

definition sbuffer_write :: "nat \<Rightarrow> sbuffer \<Rightarrow> byte list \<Rightarrow> sbuffer result" where
  "sbuffer_write avail b buf =
     rbind (if m_alloc b - m_size b < length buf then expand_buffer avail b (length buf) else Inr b)
       (\<lambda>b. rbind (memcpy (m_data b) (m_size b) buf)
         (\<lambda>block. Inr (b\<lparr>m_data := block, m_size := (m_size b + length buf) mod 2 ^ 64\<rparr>)))"

definition sbuffer_size :: "sbuffer \<Rightarrow> nat" where
  "sbuffer_size b = m_size b"

definition sbuffer_release :: "sbuffer \<Rightarrow> byte list \<times> sbuffer" where
  "sbuffer_release b = (m_data b, b\<lparr>m_size := 0, m_data := [], m_alloc := 0\<rparr>)"

definition sbuffer_clear :: "sbuffer \<Rightarrow> sbuffer" where
  "sbuffer_clear b = b\<lparr>m_size := 0\<rparr>"

text \<open>Moving a buffer leaves the source empty and without memory.\<close>

definition sbuffer_move :: "sbuffer \<Rightarrow> sbuffer \<times> sbuffer" where
  "sbuffer_move other =
     (\<lparr>m_size = m_size other, m_data = m_data other, m_alloc = m_alloc other\<rparr>,
      other\<lparr>m_size := 0, m_alloc := 0, m_data := []\<rparr>)"

section \<open>The buffer keeps the contract\<close>

definition sbuffer_good :: "sbuffer \<Rightarrow> bool" where
  "sbuffer_good b \<longleftrightarrow>
     length (m_data b) = m_alloc b \<and> m_size b \<le> m_alloc b \<and> m_alloc b < 2 ^ 64"

definition sbuffer_content :: "sbuffer \<Rightarrow> byte list" where
  "sbuffer_content b = take (m_size b) (m_data b)"

lemma expanded_size_enough: "need \<le> expanded_size need nsize"
  by (induction need nsize rule: expanded_size.induct)
    (subst expanded_size.simps, auto simp: Let_def)

lemma expanded_size_bound:
  "need < 2 ^ 64 \<Longrightarrow> nsize < 2 ^ 64 \<Longrightarrow> expanded_size need nsize < 2 ^ 64"
  by (induction need nsize rule: expanded_size.induct)
    (subst expanded_size.simps, auto simp: Let_def)

lemma sbuffer_new_good:
  "initsz < 2 ^ 64 \<Longrightarrow> sbuffer_new avail initsz = Inr b \<Longrightarrow> sbuffer_good b \<and> sbuffer_content b = []"
  by (auto simp: sbuffer_new_def sbuffer_good_def sbuffer_content_def split: if_splits)

lemma memcpy_at:
  assumes "sbuffer_good b" "m_size b + length bs \<le> m_alloc b"
  shows "\<exists>block. memcpy (m_data b) (m_size b) bs = Inr block \<and> length block = m_alloc b \<and>
    take (m_size b + length bs) block = sbuffer_content b @ bs"
  using assms by (auto simp: memcpy_def sbuffer_good_def sbuffer_content_def)

lemma sbuffer_write_room:
  assumes "sbuffer_good b" "m_size b + length bs \<le> m_alloc b"
  shows "\<exists>b'. sbuffer_write avail b bs = Inr b' \<and> sbuffer_good b' \<and>
    sbuffer_content b' = sbuffer_content b @ bs"
proof -
  from memcpy_at [OF assms] obtain block where
    block: "memcpy (m_data b) (m_size b) bs = Inr block" "length block = m_alloc b"
      "take (m_size b + length bs) block = sbuffer_content b @ bs" by blast
  have small: "(m_size b + length bs) mod 2 ^ 64 = m_size b + length bs"
    using assms by (simp add: sbuffer_good_def)
  have "\<not> m_alloc b - m_size b < length bs" using assms(2) by linarith
  then have "sbuffer_write avail b bs =
      Inr (b\<lparr>m_data := block, m_size := m_size b + length bs\<rparr>)"
    by (simp only: sbuffer_write_def if_False rbind.simps block small)
  then show ?thesis
    using assms block by (simp add: sbuffer_good_def sbuffer_content_def)
qed

lemma expand_buffer_ok:
  assumes "sbuffer_good b" "m_size b + len < 2 ^ 64" "expand_buffer avail b len = Inr b'"
  shows "sbuffer_good b' \<and> m_size b' = m_size b \<and> m_size b + len \<le> m_alloc b' \<and>
    sbuffer_content b' = sbuffer_content b"
proof -
  define start where "start = (if m_alloc b > 0 then m_alloc b * 2 mod 2 ^ 64 else MSGPACK_SBUFFER_INIT_SIZE)"
  define nsize where "nsize = expanded_size (m_size b + len) start"
  have small: "(m_size b + len) mod 2 ^ 64 = m_size b + len" using assms(2) by simp
  have n: "m_size b + len \<le> nsize" by (simp add: nsize_def expanded_size_enough)
  have "start < 2 ^ 64" by (simp add: start_def MSGPACK_SBUFFER_INIT_SIZE_def)
  then have n64: "nsize < 2 ^ 64"
    unfolding nsize_def by (rule expanded_size_bound [OF assms(2)])
  have b': "b' = b\<lparr>m_data := realloc (m_data b) nsize, m_alloc := nsize\<rparr>"
    using assms(3) unfolding expand_buffer_def start_def [symmetric] small nsize_def [symmetric]
    by (auto simp: Let_def nsize_def split: if_splits)
  from n have "take (m_size b) (realloc (m_data b) nsize) = take (m_size b) (m_data b)"
    using assms(1) by (simp add: realloc_def sbuffer_good_def min_def)
  then show ?thesis
    using assms(1) n n64 by (auto simp: b' sbuffer_good_def sbuffer_content_def realloc_def)
qed

lemma expand_buffer_fails:
  assumes "expand_buffer avail b len = Inl e"
  shows "avail < 2 ^ 64 \<and> e = Throw Bad_Alloc"
proof -
  define start where "start = (if m_alloc b > 0 then m_alloc b * 2 mod 2 ^ 64 else MSGPACK_SBUFFER_INIT_SIZE)"
  have "start < 2 ^ 64" by (simp add: start_def MSGPACK_SBUFFER_INIT_SIZE_def)
  then have "expanded_size ((m_size b + len) mod 2 ^ 64) start < 2 ^ 64"
    by (intro expanded_size_bound) simp
  then show ?thesis
    using assms by (auto simp: expand_buffer_def start_def Let_def split: if_splits)
qed

lemma sbuffer_write_appends:
  "appends (avail < 2 ^ 64) sbuffer_good sbuffer_content (\<lambda>b. sbuffer_write avail b bs) bs"
  unfolding appends_def
proof (intro allI impI)
  fix b assume b: "sbuffer_good b" "length (sbuffer_content b) + length bs < 2 ^ 64"
  then have size: "m_size b + length bs < 2 ^ 64"
    by (simp add: sbuffer_content_def sbuffer_good_def)
  let ?goal = "\<lambda>r. case r of Inl e \<Rightarrow> avail < 2 ^ 64 \<and> e = Throw Bad_Alloc
      | Inr b' \<Rightarrow> sbuffer_good b' \<and> sbuffer_content b' = sbuffer_content b @ bs"
  show "?goal (sbuffer_write avail b bs)"
  proof (cases "m_alloc b - m_size b < length bs")
    case False
    then have "m_size b + length bs \<le> m_alloc b"
      using b(1) by (auto simp: sbuffer_good_def)
    from sbuffer_write_room [OF b(1) this, of avail] show ?thesis by auto
  next
    case True
    show ?thesis
    proof (cases "expand_buffer avail b (length bs)")
      case (Inl e)
      then show ?thesis
        using True expand_buffer_fails [OF Inl] by (simp add: sbuffer_write_def)
    next
      case (Inr c)
      note c = expand_buffer_ok [OF b(1) size Inr]
      then have "\<not> m_alloc c - m_size c < length bs" by linarith
      then have "sbuffer_write avail b bs = sbuffer_write avail c bs"
        using True by (simp only: sbuffer_write_def Inr if_True if_False rbind.simps)
      moreover obtain d where "sbuffer_write avail c bs = Inr d" "sbuffer_good d"
          "sbuffer_content d = sbuffer_content c @ bs"
        using sbuffer_write_room [of c bs avail] c by auto
      ultimately show ?thesis using c by simp
    qed
  qed
qed

interpretation sbuffer: stream "avail < 2 ^ 64" sbuffer_good sbuffer_content "sbuffer_write avail" for avail
  by unfold_locales (rule sbuffer_write_appends)

end
