(* ===== verification/Msgpack_Pack.thy ===== *)
theory Msgpack_Pack
  imports Sbuffer
begin

unbundle bit_operations_syntax

text \<open>
  The packer of \<open>src/3rd/inc/msgpack/v1/pack.hpp\<close>: how integers, floating-point
  numbers, strings and the headers of containers become bytes. The packer is a
  template over its output stream; here every operation takes the write function
  \<open>wr\<close> of the stream and the stream \<open>s\<close>. A signed integer is a word read with
  \<open>sint\<close>; a floating-point number is its IEEE bit pattern.
\<close>

type_synonym 's writer = "'s \<Rightarrow> byte list \<Rightarrow> 's result"

section \<open>Integers, by width\<close>

definition take8_8 :: "8 word \<Rightarrow> byte" where
  "take8_8 d = ucast d"

definition take8_16 :: "16 word \<Rightarrow> byte" where
  "take8_16 d = ucast d"

definition take8_32 :: "32 word \<Rightarrow> byte" where
  "take8_32 d = ucast d"

definition take8_64 :: "64 word \<Rightarrow> byte" where
  "take8_64 d = ucast d"

definition append_buffer :: "'s writer \<Rightarrow> 's \<Rightarrow> byte list \<Rightarrow> 's result" where
  "append_buffer wr s buf = wr s buf"

definition pack_imp_uint8 :: "'s writer \<Rightarrow> 's \<Rightarrow> 8 word \<Rightarrow> 's result" where
  "pack_imp_uint8 wr s d =
     (if d < 0x80 then append_buffer wr s [take8_8 d]
      else append_buffer wr s [0xcc, take8_8 d])"

definition pack_imp_uint16 :: "'s writer \<Rightarrow> 's \<Rightarrow> 16 word \<Rightarrow> 's result" where
  "pack_imp_uint16 wr s d =
     (if d < 0x80 then append_buffer wr s [take8_16 d]
      else if d < 0x100 then append_buffer wr s [0xcc, take8_16 d]
      else append_buffer wr s (0xcd # msgpack_store16 d))"

definition pack_imp_uint32 :: "'s writer \<Rightarrow> 's \<Rightarrow> 32 word \<Rightarrow> 's result" where
  "pack_imp_uint32 wr s d =
     (if d < 0x100 then
        (if d < 0x80 then append_buffer wr s [take8_32 d]
         else append_buffer wr s [0xcc, take8_32 d])
      else
        (if d < 0x10000 then append_buffer wr s (0xcd # msgpack_store16 (ucast d))
         else append_buffer wr s (0xce # msgpack_store32 d)))"

definition pack_imp_uint64 :: "'s writer \<Rightarrow> 's \<Rightarrow> 64 word \<Rightarrow> 's result" where
  "pack_imp_uint64 wr s d =
     (if d < 0x100 then
        (if d < 0x80 then append_buffer wr s [take8_64 d]
         else append_buffer wr s [0xcc, take8_64 d])
      else
        (if d < 0x10000 then append_buffer wr s (0xcd # msgpack_store16 (ucast d))
         else if d < 0x100000000 then append_buffer wr s (0xce # msgpack_store32 (ucast d))
         else append_buffer wr s (0xcf # msgpack_store64 d)))"

definition pack_imp_int8 :: "'s writer \<Rightarrow> 's \<Rightarrow> 8 word \<Rightarrow> 's result" where
  "pack_imp_int8 wr s d =
     (if sint d < - 32 then append_buffer wr s [0xd0, take8_8 d]
      else append_buffer wr s [take8_8 d])"

definition pack_imp_int16 :: "'s writer \<Rightarrow> 's \<Rightarrow> 16 word \<Rightarrow> 's result" where
  "pack_imp_int16 wr s d =
     (if sint d < - 32 then
        (if sint d < - 128 then append_buffer wr s (0xd1 # msgpack_store16 d)
         else append_buffer wr s [0xd0, take8_16 d])
      else if sint d < 128 then append_buffer wr s [take8_16 d]
      else
        (if sint d < 256 then append_buffer wr s [0xcc, take8_16 d]
         else append_buffer wr s (0xcd # msgpack_store16 d)))"

definition pack_imp_int32 :: "'s writer \<Rightarrow> 's \<Rightarrow> 32 word \<Rightarrow> 's result" where
  "pack_imp_int32 wr s d =
     (if sint d < - 32 then
        (if sint d < - 32768 then append_buffer wr s (0xd2 # msgpack_store32 d)
         else if sint d < - 128 then append_buffer wr s (0xd1 # msgpack_store16 (ucast d))
         else append_buffer wr s [0xd0, take8_32 d])
      else if sint d < 128 then append_buffer wr s [take8_32 d]
      else
        (if sint d < 256 then append_buffer wr s [0xcc, take8_32 d]
         else if sint d < 65536 then append_buffer wr s (0xcd # msgpack_store16 (ucast d))
         else append_buffer wr s (0xce # msgpack_store32 d)))"

definition pack_imp_int64 :: "'s writer \<Rightarrow> 's \<Rightarrow> 64 word \<Rightarrow> 's result" where
  "pack_imp_int64 wr s d =
     (if sint d < - 32 then
        (if sint d < - 32768 then
           (if sint d < - 2147483648 then append_buffer wr s (0xd3 # msgpack_store64 d)
            else append_buffer wr s (0xd2 # msgpack_store32 (ucast d)))
         else
           (if sint d < - 128 then append_buffer wr s (0xd1 # msgpack_store16 (ucast d))
            else append_buffer wr s [0xd0, take8_64 d]))
      else if sint d < 128 then append_buffer wr s [take8_64 d]
      else
        (if sint d < 65536 then
           (if sint d < 256 then append_buffer wr s [0xcc, take8_64 d]
            else append_buffer wr s (0xcd # msgpack_store16 (ucast d)))
         else
           (if sint d < 4294967296 then append_buffer wr s (0xce # msgpack_store32 (ucast d))
            else append_buffer wr s (0xcf # msgpack_store64 d))))"

definition pack_uint8 :: "'s writer \<Rightarrow> 's \<Rightarrow> 8 word \<Rightarrow> 's result" where
  "pack_uint8 wr s d = pack_imp_uint8 wr s d"

definition pack_uint16 :: "'s writer \<Rightarrow> 's \<Rightarrow> 16 word \<Rightarrow> 's result" where
  "pack_uint16 wr s d = pack_imp_uint16 wr s d"

definition pack_uint32 :: "'s writer \<Rightarrow> 's \<Rightarrow> 32 word \<Rightarrow> 's result" where
  "pack_uint32 wr s d = pack_imp_uint32 wr s d"

definition pack_uint64 :: "'s writer \<Rightarrow> 's \<Rightarrow> 64 word \<Rightarrow> 's result" where
  "pack_uint64 wr s d = pack_imp_uint64 wr s d"

definition pack_int8 :: "'s writer \<Rightarrow> 's \<Rightarrow> 8 word \<Rightarrow> 's result" where
  "pack_int8 wr s d = pack_imp_int8 wr s d"

definition pack_int16 :: "'s writer \<Rightarrow> 's \<Rightarrow> 16 word \<Rightarrow> 's result" where
  "pack_int16 wr s d = pack_imp_int16 wr s d"

definition pack_int32 :: "'s writer \<Rightarrow> 's \<Rightarrow> 32 word \<Rightarrow> 's result" where
  "pack_int32 wr s d = pack_imp_int32 wr s d"

definition pack_int64 :: "'s writer \<Rightarrow> 's \<Rightarrow> 64 word \<Rightarrow> 's result" where
  "pack_int64 wr s d = pack_imp_int64 wr s d"

section \<open>Integers in a fixed format\<close>

definition pack_fix_uint8 :: "'s writer \<Rightarrow> 's \<Rightarrow> 8 word \<Rightarrow> 's result" where
  "pack_fix_uint8 wr s d = append_buffer wr s [0xcc, take8_8 d]"

definition pack_fix_uint16 :: "'s writer \<Rightarrow> 's \<Rightarrow> 16 word \<Rightarrow> 's result" where
  "pack_fix_uint16 wr s d = append_buffer wr s (0xcd # msgpack_store16 d)"

definition pack_fix_uint32 :: "'s writer \<Rightarrow> 's \<Rightarrow> 32 word \<Rightarrow> 's result" where
  "pack_fix_uint32 wr s d = append_buffer wr s (0xce # msgpack_store32 d)"

definition pack_fix_uint64 :: "'s writer \<Rightarrow> 's \<Rightarrow> 64 word \<Rightarrow> 's result" where
  "pack_fix_uint64 wr s d = append_buffer wr s (0xcf # msgpack_store64 d)"

definition pack_fix_int8 :: "'s writer \<Rightarrow> 's \<Rightarrow> 8 word \<Rightarrow> 's result" where
  "pack_fix_int8 wr s d = append_buffer wr s [0xd0, take8_8 d]"

definition pack_fix_int16 :: "'s writer \<Rightarrow> 's \<Rightarrow> 16 word \<Rightarrow> 's result" where
  "pack_fix_int16 wr s d = append_buffer wr s (0xd1 # msgpack_store16 d)"

definition pack_fix_int32 :: "'s writer \<Rightarrow> 's \<Rightarrow> 32 word \<Rightarrow> 's result" where
  "pack_fix_int32 wr s d = append_buffer wr s (0xd2 # msgpack_store32 d)"

definition pack_fix_int64 :: "'s writer \<Rightarrow> 's \<Rightarrow> 64 word \<Rightarrow> 's result" where
  "pack_fix_int64 wr s d = append_buffer wr s (0xd3 # msgpack_store64 d)"

section \<open>The integer types of the language\<close>

text \<open>
  The limits of \<open>climits\<close> on a 64-bit Linux, between which the preprocessor
  chooses. Whether \<open>char\<close> is signed depends on the processor, so \<open>CHAR_MIN\<close> is
  a parameter; so is the signedness of \<open>wchar_t\<close>, given with its value.
\<close>

definition SHRT_MAX :: int where "SHRT_MAX = 0x7fff"
definition INT_MAX :: int where "INT_MAX = 0x7fffffff"
definition LONG_MAX :: int where "LONG_MAX = 0x7fffffffffffffff"
definition LLONG_MAX :: int where "LLONG_MAX = 0x7fffffffffffffff"
definition USHRT_MAX :: int where "USHRT_MAX = 0xffff"
definition UINT_MAX :: int where "UINT_MAX = 0xffffffff"
definition ULONG_MAX :: int where "ULONG_MAX = 0xffffffffffffffff"
definition ULLONG_MAX :: int where "ULLONG_MAX = 0xffffffffffffffff"

lemmas limits = SHRT_MAX_def INT_MAX_def LONG_MAX_def LLONG_MAX_def
  USHRT_MAX_def UINT_MAX_def ULONG_MAX_def ULLONG_MAX_def

definition pack_char :: "int \<Rightarrow> 's writer \<Rightarrow> 's \<Rightarrow> 8 word \<Rightarrow> 's result" where
  "pack_char CHAR_MIN wr s d =
     (if CHAR_MIN < 0 then pack_imp_int8 wr s d else pack_imp_uint8 wr s d)"

definition pack_wchar :: "'s writer \<Rightarrow> 's \<Rightarrow> int \<Rightarrow> 's result" where
  "pack_wchar wr s d =
     (if d < 0 then pack_imp_int64 wr s (word_of_int d)
      else pack_imp_uint64 wr s (word_of_int d))"

definition pack_signed_char :: "'s writer \<Rightarrow> 's \<Rightarrow> 8 word \<Rightarrow> 's result" where
  "pack_signed_char wr s d = pack_imp_int8 wr s d"

definition pack_short :: "'s writer \<Rightarrow> 's \<Rightarrow> 16 word \<Rightarrow> 's result" where
  "pack_short wr s d =
     (if SHRT_MAX = 0x7fff then pack_imp_int16 wr s d
      else if SHRT_MAX = 0x7fffffff then pack_imp_int32 wr s (scast d)
      else pack_imp_int64 wr s (scast d))"

definition pack_int :: "'s writer \<Rightarrow> 's \<Rightarrow> 32 word \<Rightarrow> 's result" where
  "pack_int wr s d =
     (if INT_MAX = 0x7fff then pack_imp_int16 wr s (scast d)
      else if INT_MAX = 0x7fffffff then pack_imp_int32 wr s d
      else pack_imp_int64 wr s (scast d))"

definition pack_long :: "'s writer \<Rightarrow> 's \<Rightarrow> 64 word \<Rightarrow> 's result" where
  "pack_long wr s d =
     (if LONG_MAX = 0x7fff then pack_imp_int16 wr s (scast d)
      else if LONG_MAX = 0x7fffffff then pack_imp_int32 wr s (scast d)
      else pack_imp_int64 wr s d)"

definition pack_long_long :: "'s writer \<Rightarrow> 's \<Rightarrow> 64 word \<Rightarrow> 's result" where
  "pack_long_long wr s d =
     (if LLONG_MAX = 0x7fff then pack_imp_int16 wr s (scast d)
      else if LLONG_MAX = 0x7fffffff then pack_imp_int32 wr s (scast d)
      else pack_imp_int64 wr s d)"

definition pack_unsigned_char :: "'s writer \<Rightarrow> 's \<Rightarrow> 8 word \<Rightarrow> 's result" where
  "pack_unsigned_char wr s d = pack_imp_uint8 wr s d"

definition pack_unsigned_short :: "'s writer \<Rightarrow> 's \<Rightarrow> 16 word \<Rightarrow> 's result" where
  "pack_unsigned_short wr s d =
     (if USHRT_MAX = 0xffff then pack_imp_uint16 wr s d
      else if USHRT_MAX = 0xffffffff then pack_imp_uint32 wr s (ucast d)
      else pack_imp_uint64 wr s (ucast d))"

definition pack_unsigned_int :: "'s writer \<Rightarrow> 's \<Rightarrow> 32 word \<Rightarrow> 's result" where
  "pack_unsigned_int wr s d =
     (if UINT_MAX = 0xffff then pack_imp_uint16 wr s (ucast d)
      else if UINT_MAX = 0xffffffff then pack_imp_uint32 wr s d
      else pack_imp_uint64 wr s (ucast d))"

definition pack_unsigned_long :: "'s writer \<Rightarrow> 's \<Rightarrow> 64 word \<Rightarrow> 's result" where
  "pack_unsigned_long wr s d =
     (if ULONG_MAX = 0xffff then pack_imp_uint16 wr s (ucast d)
      else if ULONG_MAX = 0xffffffff then pack_imp_uint32 wr s (ucast d)
      else pack_imp_uint64 wr s d)"

definition pack_unsigned_long_long :: "'s writer \<Rightarrow> 's \<Rightarrow> 64 word \<Rightarrow> 's result" where
  "pack_unsigned_long_long wr s d =
     (if ULLONG_MAX = 0xffff then pack_imp_uint16 wr s (ucast d)
      else if ULLONG_MAX = 0xffffffff then pack_imp_uint32 wr s (ucast d)
      else pack_imp_uint64 wr s d)"

section \<open>Other scalars\<close>

definition pack_float :: "'s writer \<Rightarrow> 's \<Rightarrow> 32 word \<Rightarrow> 's result" where
  "pack_float wr s d = append_buffer wr s (0xca # msgpack_store32 d)"

definition pack_double :: "'s writer \<Rightarrow> 's \<Rightarrow> 64 word \<Rightarrow> 's result" where
  "pack_double wr s d = append_buffer wr s (0xcb # msgpack_store64 d)"

definition pack_nil :: "'s writer \<Rightarrow> 's \<Rightarrow> 's result" where
  "pack_nil wr s = append_buffer wr s [0xc0]"

definition pack_true :: "'s writer \<Rightarrow> 's \<Rightarrow> 's result" where
  "pack_true wr s = append_buffer wr s [0xc3]"

definition pack_false :: "'s writer \<Rightarrow> 's \<Rightarrow> 's result" where
  "pack_false wr s = append_buffer wr s [0xc2]"

section \<open>Headers of containers, and bodies\<close>

definition pack_array :: "'s writer \<Rightarrow> 's \<Rightarrow> 32 word \<Rightarrow> 's result" where
  "pack_array wr s n =
     (if n < 16 then append_buffer wr s [ucast (0x90 OR n)]
      else if n < 65536 then append_buffer wr s (0xdc # msgpack_store16 (ucast n))
      else append_buffer wr s (0xdd # msgpack_store32 n))"

definition pack_map :: "'s writer \<Rightarrow> 's \<Rightarrow> 32 word \<Rightarrow> 's result" where
  "pack_map wr s n =
     (if n < 16 then append_buffer wr s [take8_8 (ucast (0x80 OR n))]
      else if n < 65536 then append_buffer wr s (0xde # msgpack_store16 (ucast n))
      else append_buffer wr s (0xdf # msgpack_store32 n))"

definition pack_str :: "'s writer \<Rightarrow> 's \<Rightarrow> 32 word \<Rightarrow> 's result" where
  "pack_str wr s l =
     (if l < 32 then append_buffer wr s [take8_8 (ucast (0xa0 OR l))]
      else if l < 256 then append_buffer wr s [0xd9, ucast l]
      else if l < 65536 then append_buffer wr s (0xda # msgpack_store16 (ucast l))
      else append_buffer wr s (0xdb # msgpack_store32 l))"

definition pack_v4raw :: "'s writer \<Rightarrow> 's \<Rightarrow> 32 word \<Rightarrow> 's result" where
  "pack_v4raw wr s l =
     (if l < 32 then append_buffer wr s [take8_8 (ucast (0xa0 OR l))]
      else if l < 65536 then append_buffer wr s (0xda # msgpack_store16 (ucast l))
      else append_buffer wr s (0xdb # msgpack_store32 l))"

definition pack_bin :: "'s writer \<Rightarrow> 's \<Rightarrow> 32 word \<Rightarrow> 's result" where
  "pack_bin wr s l =
     (if l < 256 then append_buffer wr s [0xc4, ucast l]
      else if l < 65536 then append_buffer wr s (0xc5 # msgpack_store16 (ucast l))
      else append_buffer wr s (0xc6 # msgpack_store32 l))"

text \<open>The length of an ext is a \<open>size_t\<close>; its type is one signed byte.\<close>

definition pack_ext :: "'s writer \<Rightarrow> 's \<Rightarrow> 64 word \<Rightarrow> 8 word \<Rightarrow> 's result" where
  "pack_ext wr s l type =
     (if l = 1 then append_buffer wr s [0xd4, type]
      else if l = 2 then append_buffer wr s [0xd5, type]
      else if l = 4 then append_buffer wr s [0xd6, type]
      else if l = 8 then append_buffer wr s [0xd7, type]
      else if l = 16 then append_buffer wr s [0xd8, type]
      else if l < 256 then append_buffer wr s [0xc7, ucast l, type]
      else if l < 65536 then append_buffer wr s (0xc8 # msgpack_store16 (ucast l) @ [type])
      else append_buffer wr s (0xc9 # msgpack_store32 (ucast l) @ [type]))"

text \<open>The body of a string: the first \<open>l\<close> bytes at \<open>b\<close>, which must be there.\<close>

definition bytes_at :: "byte list \<Rightarrow> nat \<Rightarrow> byte list result" where
  "bytes_at b l = (if l \<le> length b then Inr (take l b) else Inl (UB Out_Of_Bounds))"

definition pack_str_body :: "'s writer \<Rightarrow> 's \<Rightarrow> byte list \<Rightarrow> 32 word \<Rightarrow> 's result" where
  "pack_str_body wr s b l = rbind (bytes_at b (unat l)) (append_buffer wr s)"

definition pack_v4raw_body :: "'s writer \<Rightarrow> 's \<Rightarrow> byte list \<Rightarrow> 32 word \<Rightarrow> 's result" where
  "pack_v4raw_body wr s b l = rbind (bytes_at b (unat l)) (append_buffer wr s)"

definition pack_bin_body :: "'s writer \<Rightarrow> 's \<Rightarrow> byte list \<Rightarrow> 32 word \<Rightarrow> 's result" where
  "pack_bin_body wr s b l = rbind (bytes_at b (unat l)) (append_buffer wr s)"

definition pack_ext_body :: "'s writer \<Rightarrow> 's \<Rightarrow> byte list \<Rightarrow> 32 word \<Rightarrow> 's result" where
  "pack_ext_body wr s b l = rbind (bytes_at b (unat l)) (append_buffer wr s)"

section \<open>The encoding of the MessagePack specification\<close>

text \<open>
  The shortest format that holds an integer, and the headers by length; written
  over mathematical integers, without regard to the type that was packed.
\<close>

definition enc_int :: "int \<Rightarrow> byte list" where
  "enc_int i =
     (if i < - 2147483648 then 0xd3 # msgpack_store64 (word_of_int i)
      else if i < - 32768 then 0xd2 # msgpack_store32 (word_of_int i)
      else if i < - 128 then 0xd1 # msgpack_store16 (word_of_int i)
      else if i < - 32 then [0xd0, word_of_int i]
      else if i < 128 then [word_of_int i]
      else if i < 256 then [0xcc, word_of_int i]
      else if i < 65536 then 0xcd # msgpack_store16 (word_of_int i)
      else if i < 4294967296 then 0xce # msgpack_store32 (word_of_int i)
      else 0xcf # msgpack_store64 (word_of_int i))"

definition enc_array :: "nat \<Rightarrow> byte list" where
  "enc_array n =
     (if n < 16 then [of_nat (0x90 + n)]
      else if n < 65536 then 0xdc # msgpack_store16 (of_nat n)
      else 0xdd # msgpack_store32 (of_nat n))"

definition enc_map :: "nat \<Rightarrow> byte list" where
  "enc_map n =
     (if n < 16 then [of_nat (0x80 + n)]
      else if n < 65536 then 0xde # msgpack_store16 (of_nat n)
      else 0xdf # msgpack_store32 (of_nat n))"

definition enc_str :: "nat \<Rightarrow> byte list" where
  "enc_str n =
     (if n < 32 then [of_nat (0xa0 + n)]
      else if n < 256 then [0xd9, of_nat n]
      else if n < 65536 then 0xda # msgpack_store16 (of_nat n)
      else 0xdb # msgpack_store32 (of_nat n))"

definition enc_bin :: "nat \<Rightarrow> byte list" where
  "enc_bin n =
     (if n < 256 then [0xc4, of_nat n]
      else if n < 65536 then 0xc5 # msgpack_store16 (of_nat n)
      else 0xc6 # msgpack_store32 (of_nat n))"

definition enc_ext :: "nat \<Rightarrow> byte \<Rightarrow> byte list" where
  "enc_ext n type =
     (if n = 1 then [0xd4, type] else if n = 2 then [0xd5, type]
      else if n = 4 then [0xd6, type] else if n = 8 then [0xd7, type]
      else if n = 16 then [0xd8, type]
      else if n < 256 then [0xc7, of_nat n, type]
      else if n < 65536 then 0xc8 # msgpack_store16 (of_nat n) @ [type]
      else 0xc9 # msgpack_store32 (of_nat n) @ [type])"

section \<open>The packer follows the specification\<close>

lemma scast_down_ucast:
  "LENGTH('b) \<le> LENGTH('a) \<Longrightarrow> (scast (w :: 'a::len word) :: 'b::len word) = ucast w"
  by (rule bit_word_eqI) (simp add: bit_simps)

lemma word_of_uint: "(word_of_int (uint w) :: 'b::len word) = ucast (w :: 'a::len word)"
  by (rule ucast_eq [symmetric])

lemma word_of_sint: "(word_of_int (sint w) :: 'b::len word) = scast (w :: 'a::len word)"
  by (rule scast_eq [symmetric])

lemma word_of_unat: "(word_of_nat (unat w) :: 'b::len word) = ucast (w :: 'a::len word)"
  by transfer simp

lemmas back_to_words = scast_down_ucast word_of_uint word_of_sint word_of_unat

lemma word_less_uint: "(a :: 'a::len word) < b \<longleftrightarrow> uint a < uint b"
  by (simp add: word_less_def)

lemmas pack_imp_defs = pack_imp_uint8_def pack_imp_uint16_def pack_imp_uint32_def
  pack_imp_uint64_def pack_imp_int8_def pack_imp_int16_def pack_imp_int32_def pack_imp_int64_def
  append_buffer_def take8_8_def take8_16_def take8_32_def take8_64_def

lemma nonneg: "0 \<le> k \<Longrightarrow> \<not> uint w < - k"
  using uint_ge_0 [of w] by linarith

lemma pack_imp_uint:
  "pack_imp_uint8 wr s a = wr s (enc_int (uint a))"
  "pack_imp_uint16 wr s b = wr s (enc_int (uint b))"
  "pack_imp_uint32 wr s c = wr s (enc_int (uint c))"
  "pack_imp_uint64 wr s d = wr s (enc_int (uint d))"
proof -
  note defs = pack_imp_defs word_less_uint back_to_words enc_int_def
  show "pack_imp_uint8 wr s a = wr s (enc_int (uint a))"
    using uint_bounded [of a] by (simp add: defs nonneg)
  show "pack_imp_uint16 wr s b = wr s (enc_int (uint b))"
    using uint_bounded [of b] by (simp add: defs nonneg)
  show "pack_imp_uint32 wr s c = wr s (enc_int (uint c))"
    using uint_bounded [of c] by (simp add: defs nonneg)
  show "pack_imp_uint64 wr s d = wr s (enc_int (uint d))"
    using uint_bounded [of d] by (simp add: defs nonneg)
qed

lemma pack_imp_int:
  "pack_imp_int8 wr s a = wr s (enc_int (sint a))"
  "pack_imp_int16 wr s b = wr s (enc_int (sint b))"
  "pack_imp_int32 wr s c = wr s (enc_int (sint c))"
  "pack_imp_int64 wr s d = wr s (enc_int (sint d))"
proof -
  note defs = pack_imp_defs back_to_words enc_int_def
  show "pack_imp_int8 wr s a = wr s (enc_int (sint a))"
    using sint_greater_eq [of a] sint_less [of a] by (simp add: defs)
  show "pack_imp_int16 wr s b = wr s (enc_int (sint b))"
    using sint_greater_eq [of b] sint_less [of b] by (simp add: defs)
  show "pack_imp_int32 wr s c = wr s (enc_int (sint c))"
    using sint_greater_eq [of c] sint_less [of c] by (simp add: defs)
  show "pack_imp_int64 wr s d = wr s (enc_int (sint d))"
    using sint_greater_eq [of d] sint_less [of d] by (simp add: defs)
qed

lemmas pack_int_types = pack_uint8_def pack_uint16_def pack_uint32_def pack_uint64_def
  pack_int8_def pack_int16_def pack_int32_def pack_int64_def pack_signed_char_def
  pack_short_def pack_int_def pack_long_def pack_long_long_def pack_unsigned_char_def
  pack_unsigned_short_def pack_unsigned_int_def pack_unsigned_long_def
  pack_unsigned_long_long_def limits

lemma pack_wchar:
  assumes "- (2 ^ 63) \<le> d" "d < 2 ^ 63"
  shows "pack_wchar wr s d = wr s (enc_int d)"
proof (cases "d < 0")
  case True
  have "sint (word_of_int d :: 64 word) = d"
    using assms by (simp add: signed_of_int signed_take_bit_int_eq_self)
  then show ?thesis using True by (simp add: pack_wchar_def pack_imp_int)
next
  case False
  then have "uint (word_of_int d :: 64 word) = d"
    using assms by (simp add: unsigned_of_int take_bit_int_eq_self)
  then show ?thesis using False by (simp add: pack_wchar_def pack_imp_uint)
qed

section \<open>The integer formats of msgpack\<close>

text \<open>
  As the format is specified: the bytes of a number, the highest first, and the first format, in
  the order of their sizes, that holds it. Nothing of the code is used here.
\<close>

definition big_endian :: "nat \<Rightarrow> int \<Rightarrow> byte list" where
  "big_endian k i = map (\<lambda>j. word_of_int (i div 256 ^ (k - 1 - j))) [0..<k]"

definition int_format :: "int \<Rightarrow> byte list" where
  "int_format i =
     (if 0 \<le> i then
        if i < 2 ^ 7 then big_endian 1 i
        else if i < 2 ^ 8 then 0xcc # big_endian 1 i
        else if i < 2 ^ 16 then 0xcd # big_endian 2 i
        else if i < 2 ^ 32 then 0xce # big_endian 4 i
        else 0xcf # big_endian 8 i
      else
        if - 32 \<le> i then big_endian 1 i
        else if - (2 ^ 7) \<le> i then 0xd0 # big_endian 1 i
        else if - (2 ^ 15) \<le> i then 0xd1 # big_endian 2 i
        else if - (2 ^ 31) \<le> i then 0xd2 # big_endian 4 i
        else 0xd3 # big_endian 8 i)"

lemma big_endian_bits: "big_endian k i = map (\<lambda>j. word_of_int (drop_bit (8 * (k - 1 - j)) i)) [0..<k]"
proof -
  have "(256 :: int) ^ n = 2 ^ (8 * n)" for n by (simp add: power_mult)
  then show ?thesis by (simp add: big_endian_def drop_bit_eq_div)
qed

lemma big_endian_store:
  "msgpack_store16 (word_of_int i) = big_endian 2 i"
  "msgpack_store32 (word_of_int i) = big_endian 4 i"
  "msgpack_store64 (word_of_int i) = big_endian 8 i"
proof -
  show "msgpack_store16 (word_of_int i) = big_endian 2 i"
    unfolding big_endian_bits msgpack_store16_def memory16_def
    by (simp add: upt_rec, intro conjI; rule bit_word_eqI)
      (auto simp: msgpack_be_defs bit_simps)
  show "msgpack_store32 (word_of_int i) = big_endian 4 i"
    unfolding big_endian_bits msgpack_store32_def memory32_def
    by (simp add: upt_rec, intro conjI; rule bit_word_eqI)
      (auto simp: msgpack_be_defs bit_simps)
  show "msgpack_store64 (word_of_int i) = big_endian 8 i"
    unfolding big_endian_bits msgpack_store64_def memory64_def
    by (simp add: upt_rec, intro conjI; rule bit_word_eqI)
      (auto simp: msgpack_be_defs bit_simps)
qed
lemma big_endian_1: "big_endian (Suc 0) i = [word_of_int i]"
  by (simp add: big_endian_def)

lemma enc_int_format: "enc_int i = int_format i"
  by (simp add: enc_int_def int_format_def big_endian_store big_endian_1)

lemma pack_fix_format:
  "pack_fix_uint8 wr s u8 = wr s (0xcc # big_endian 1 (uint u8))"
  "pack_fix_uint16 wr s u16 = wr s (0xcd # big_endian 2 (uint u16))"
  "pack_fix_uint32 wr s u32 = wr s (0xce # big_endian 4 (uint u32))"
  "pack_fix_uint64 wr s u64 = wr s (0xcf # big_endian 8 (uint u64))"
  "pack_fix_int8 wr s i8 = wr s (0xd0 # big_endian 1 (sint i8))"
  "pack_fix_int16 wr s i16 = wr s (0xd1 # big_endian 2 (sint i16))"
  "pack_fix_int32 wr s i32 = wr s (0xd2 # big_endian 4 (sint i32))"
  "pack_fix_int64 wr s i64 = wr s (0xd3 # big_endian 8 (sint i64))"
  by (simp_all add: pack_fix_uint8_def pack_fix_uint16_def pack_fix_uint32_def pack_fix_uint64_def
      pack_fix_int8_def pack_fix_int16_def pack_fix_int32_def pack_fix_int64_def append_buffer_def
      take8_8_def big_endian_1 flip: big_endian_store)

lemma pack_named_ints:
  "pack_uint8 wr s u8 = wr s (enc_int (uint u8))"
  "pack_uint16 wr s u16 = wr s (enc_int (uint u16))"
  "pack_uint32 wr s u32 = wr s (enc_int (uint u32))"
  "pack_uint64 wr s u64 = wr s (enc_int (uint u64))"
  "pack_int8 wr s i8 = wr s (enc_int (sint i8))"
  "pack_int16 wr s i16 = wr s (enc_int (sint i16))"
  "pack_int32 wr s i32 = wr s (enc_int (sint i32))"
  "pack_int64 wr s i64 = wr s (enc_int (sint i64))"
  "pack_signed_char wr s i8 = wr s (enc_int (sint i8))"
  "pack_short wr s i16 = wr s (enc_int (sint i16))"
  "pack_int wr s i32 = wr s (enc_int (sint i32))"
  "pack_long wr s i64 = wr s (enc_int (sint i64))"
  "pack_long_long wr s i64 = wr s (enc_int (sint i64))"
  "pack_unsigned_char wr s u8 = wr s (enc_int (uint u8))"
  "pack_unsigned_short wr s u16 = wr s (enc_int (uint u16))"
  "pack_unsigned_int wr s u32 = wr s (enc_int (uint u32))"
  "pack_unsigned_long wr s u64 = wr s (enc_int (uint u64))"
  "pack_unsigned_long_long wr s u64 = wr s (enc_int (uint u64))"
  by (simp_all add: pack_int_types pack_imp_int pack_imp_uint)

lemma pack_wchar_32:
  "pack_wchar wr s (sint (w :: 32 word)) = wr s (enc_int (sint w))"
  "pack_wchar wr s (uint (w :: 32 word)) = wr s (enc_int (uint w))"
proof -
  show "pack_wchar wr s (sint w) = wr s (enc_int (sint w))"
    using sint_greater_eq [of w] sint_less [of w] by (intro pack_wchar) simp_all
  have "- (2 ^ 63) \<le> uint w" by (rule order_trans [OF _ unsigned_greater_eq]) simp
  moreover have "uint w < 2 ^ 63" using uint_bounded [of w] by simp
  ultimately show "pack_wchar wr s (uint w) = wr s (enc_int (uint w))" by (rule pack_wchar)
qed

lemma pack_char_format:
  "pack_char CHAR_MIN wr s d = wr s (enc_int (if CHAR_MIN < 0 then sint d else uint d))"
  by (simp add: pack_char_def pack_imp_int pack_imp_uint)

lemma small_word_cases:
  assumes "n < of_nat k" "k < 2 ^ 32"
  shows "(n :: 32 word) \<in> set (map of_nat [0..<k])"
proof -
  from assms have "unat n < k"
    by (simp add: word_less_nat_alt unat_of_nat)
  then show ?thesis by (auto intro!: image_eqI [of n of_nat "unat n"])
qed

lemma or_header:
  "n < 16 \<Longrightarrow> (ucast (0x90 OR (n :: 32 word)) :: byte) = of_nat (0x90 + unat n)"
  "n < 16 \<Longrightarrow> (ucast (0x80 OR (n :: 32 word)) :: byte) = of_nat (0x80 + unat n)"
  "n < 32 \<Longrightarrow> (ucast (0xa0 OR (n :: 32 word)) :: byte) = of_nat (0xa0 + unat n)"
  using small_word_cases [of n 16] small_word_cases [of n 32]
  by (auto simp: upt_rec)

lemmas pack_header_defs = pack_array_def pack_map_def pack_str_def pack_bin_def pack_ext_def
  enc_array_def enc_map_def enc_str_def enc_bin_def enc_ext_def append_buffer_def take8_8_def

lemma pack_headers:
  "pack_array wr s n = wr s (enc_array (unat n))"
  "pack_map wr s n = wr s (enc_map (unat n))"
  "pack_str wr s n = wr s (enc_str (unat n))"
  "pack_bin wr s n = wr s (enc_bin (unat n))"
  by (simp_all add: pack_header_defs or_header word_less_nat_alt back_to_words)

lemma pack_ext_header: "pack_ext wr s l t = wr s (enc_ext (unat l) t)"
  by (simp add: pack_header_defs word_less_nat_alt word_unat_eq_iff back_to_words)

end
