(* ===== verification/Msgpack_Object.thy ===== *)
theory Msgpack_Object
  imports Msgpack_Pack
begin

text \<open>
  The objects of \<open>src/3rd/inc/msgpack/v1/object_fwd.hpp\<close> and their traversal in
  \<open>src/3rd/inc/msgpack/v1/object.hpp\<close>: \<open>object_parser\<close>, which walks an object with
  a stack of its own and calls a visitor, and the visitors.

  An object is its type tag with the member of the union that the tag selects;
  a pointer with a size is the list of what it points to. An \<open>EXT\<close> holds the
  type byte followed by the data, as \<open>via.ext.ptr\<close> does. A \<open>FLOAT32\<close> holds the
  bits of the float whose value \<open>via.f64\<close> has: every float is a double, so what is read back is
  the float that was stored, except that a conversion may set the quiet bit of a signalling NaN,
  which is not modelled.
\<close>

datatype object =
    NIL
  | BOOLEAN bool
  | POSITIVE_INTEGER "64 word"
  | NEGATIVE_INTEGER "64 word"
  | FLOAT32 "32 word"
  | FLOAT64 "64 word"
  | STR' "byte list"
  | BIN "byte list"
  | EXT "byte list"
  | ARRAY "object list"
  | MAP "(object \<times> object) list"

text \<open>The \<open>size\<close> members have 32 bits; that of an ext does not count the type byte.\<close>

definition size_of :: "'a list \<Rightarrow> 32 word" where
  "size_of xs = of_nat (length xs)"

definition ext_size :: "byte list \<Rightarrow> 32 word" where
  "ext_size p = of_nat (length p - 1)"

section \<open>Visitors\<close>

text \<open>
  The callbacks of a visitor: each returns whether to go on. A string comes as
  its pointer and its size.
\<close>

type_synonym 'v callback = "'v \<Rightarrow> (bool \<times> 'v) result"

record 'v visitor =
  visit_nil :: "'v callback"
  visit_boolean :: "bool \<Rightarrow> 'v callback"
  visit_positive_integer :: "64 word \<Rightarrow> 'v callback"
  visit_negative_integer :: "64 word \<Rightarrow> 'v callback"
  visit_float32 :: "32 word \<Rightarrow> 'v callback"
  visit_float64 :: "64 word \<Rightarrow> 'v callback"
  visit_str :: "byte list \<Rightarrow> 32 word \<Rightarrow> 'v callback"
  visit_bin :: "byte list \<Rightarrow> 32 word \<Rightarrow> 'v callback"
  visit_ext :: "byte list \<Rightarrow> 32 word \<Rightarrow> 'v callback"
  start_array :: "32 word \<Rightarrow> 'v callback"
  start_array_item :: "'v callback"
  end_array_item :: "'v callback"
  end_array :: "'v callback"
  start_map :: "32 word \<Rightarrow> 'v callback"
  start_map_key :: "'v callback"
  end_map_key :: "'v callback"
  start_map_value :: "'v callback"
  end_map_value :: "'v callback"
  end_map :: "'v callback"

definition go_on :: "'v callback" where
  "go_on v = Inr (True, v)"

text \<open>\<open>if (!v.callback()) return false;\<close> and what follows.\<close>

fun if_true :: "(bool \<times> 'v) result \<Rightarrow> 'r result \<Rightarrow> ('v \<Rightarrow> 'r result) \<Rightarrow> ('v \<Rightarrow> 'r) \<Rightarrow> 'r result" where
  "if_true (Inl e) _ _ _ = Inl e"
| "if_true (Inr (True, v)) _ f _ = f v"
| "if_true (Inr (False, v)) _ _ g = Inr (g v)"

section \<open>The parser of objects\<close>

datatype next_ret = Cont | Finish | Abort

text \<open>
  \<open>elem\<close>: \<open>obj_ptr\<close> and \<open>kv_ptr\<close> are the two members of the union \<open>as\<close>; a pointer
  into an array is the part of the array from there on.
\<close>

record elem =
  obj_ptr :: "object list"
  kv_ptr :: "(object \<times> object) list"
  rest :: nat
  is_map :: bool
  is_key :: bool

definition array_elem :: "object list \<Rightarrow> nat \<Rightarrow> elem" where
  "array_elem p r = \<lparr>obj_ptr = p, kv_ptr = [], rest = r, is_map = False, is_key = False\<rparr>"

definition map_elem :: "(object \<times> object) list \<Rightarrow> nat \<Rightarrow> elem" where
  "map_elem p r = \<lparr>obj_ptr = [], kv_ptr = p, rest = r, is_map = True, is_key = True\<rparr>"

definition deref :: "'a list \<Rightarrow> 'a result" where
  "deref p = (case p of [] \<Rightarrow> Inl (UB Out_Of_Bounds) | x # _ \<Rightarrow> Inr x)"

definition elem_get :: "elem \<Rightarrow> object result" where
  "elem_get e =
     (if is_map e then
        (if is_key e then rbind (deref (kv_ptr e)) (\<lambda>kv. Inr (fst kv))
         else rbind (deref (kv_ptr e)) (\<lambda>kv. Inr (snd kv)))
      else deref (obj_ptr e))"

definition checked :: "(bool \<times> 'v) result \<Rightarrow> elem \<Rightarrow> ('v \<Rightarrow> (next_ret \<times> elem \<times> 'v) result)
    \<Rightarrow> (next_ret \<times> elem \<times> 'v) result" where
  "checked r e f =
     rbind r (\<lambda>(ok, v). if ok then f v else Inr (Abort, e, v))"

definition elem_next :: "'v visitor \<Rightarrow> elem \<Rightarrow> 'v \<Rightarrow> (next_ret \<times> elem \<times> 'v) result" where
  "elem_next V e v =
     (if rest e = 0 then
        (if is_map e then checked (end_map V v) e (\<lambda>v. Inr (Finish, e, v))
         else checked (end_array V v) e (\<lambda>v. Inr (Finish, e, v)))
      else if is_map e then
        (if is_key e then
           checked (end_map_key V v) e (\<lambda>v.
           checked (start_map_value V v) e (\<lambda>v.
           Inr (Cont, e\<lparr>is_key := False\<rparr>, v)))
         else
           checked (end_map_value V v) e (\<lambda>v.
           let e = e\<lparr>rest := rest e - 1\<rparr> in
           if rest e = 0 then checked (end_map V v) e (\<lambda>v. Inr (Finish, e, v))
           else checked (start_map_key V v) e (\<lambda>v.
             Inr (Cont, e\<lparr>kv_ptr := tl (kv_ptr e), is_key := True\<rparr>, v))))
      else
        checked (end_array_item V v) e (\<lambda>v.
        let e = e\<lparr>rest := rest e - 1\<rparr> in
        if rest e = 0 then checked (end_array V v) e (\<lambda>v. Inr (Finish, e, v))
        else checked (start_array_item V v) e (\<lambda>v.
          Inr (Cont, e\<lparr>obj_ptr := tl (obj_ptr e)\<rparr>, v))))"

text \<open>
  One \<open>switch\<close> on the type of the current object: whether to go on, whether a
  collection was started that has items, and the stack and visitor then. The
  stack \<open>m_ctx\<close> has its back at the head of the list.
\<close>

definition check_container_size :: "nat \<Rightarrow> unit result" where
  "check_container_size n = (if n > 0xffffffff then Inl (Throw Container_Size_Overflow) else Inr ())"

definition leaf :: "(bool \<times> 'v) result \<Rightarrow> elem list \<Rightarrow> (bool \<times> bool \<times> elem list \<times> 'v) result" where
  "leaf r ctx = rbind r (\<lambda>(ok, v). Inr (ok, False, ctx, v))"

definition parser_switch ::
    "'v visitor \<Rightarrow> object \<Rightarrow> elem list \<Rightarrow> 'v \<Rightarrow> (bool \<times> bool \<times> elem list \<times> 'v) result" where
  "parser_switch V cur ctx v =
     (case cur of
        NIL \<Rightarrow> leaf (visit_nil V v) ctx
      | BOOLEAN b \<Rightarrow> leaf (visit_boolean V b v) ctx
      | POSITIVE_INTEGER n \<Rightarrow> leaf (visit_positive_integer V n v) ctx
      | NEGATIVE_INTEGER n \<Rightarrow> leaf (visit_negative_integer V n v) ctx
      | FLOAT32 f \<Rightarrow> leaf (visit_float32 V f v) ctx
      | FLOAT64 f \<Rightarrow> leaf (visit_float64 V f v) ctx
      | STR' p \<Rightarrow> leaf (visit_str V p (size_of p) v) ctx
      | BIN p \<Rightarrow> leaf (visit_bin V p (size_of p) v) ctx
      | EXT p \<Rightarrow>
          rbind (check_container_size (unat (ext_size p)))
            (\<lambda>_. leaf (visit_ext V p (ext_size p + 1) v) ctx)
      | ARRAY p \<Rightarrow>
          rbind (start_array V (size_of p) v) (\<lambda>(ok, v).
            if \<not> ok then Inr (False, False, ctx, v)
            else if size_of p \<noteq> 0 then
              rbind (start_array_item V v)
                (\<lambda>(ok, v). Inr (ok, True, array_elem p (unat (size_of p)) # ctx, v))
            else Inr (True, False, array_elem p (unat (size_of p)) # ctx, v))
      | MAP p \<Rightarrow>
          rbind (start_map V (size_of p) v) (\<lambda>(ok, v).
            if \<not> ok then Inr (False, False, ctx, v)
            else if size_of p \<noteq> 0 then
              rbind (start_map_key V v)
                (\<lambda>(ok, v). Inr (ok, True, map_elem p (unat (size_of p)) # ctx, v))
            else Inr (True, False, map_elem p (unat (size_of p)) # ctx, v)))"

text \<open>The inner loop: whether to go on, and the stack and visitor then.\<close>

fun parser_unwind :: "'v visitor \<Rightarrow> elem list \<Rightarrow> 'v \<Rightarrow> (bool \<times> elem list \<times> 'v) result" where
  "parser_unwind V [] v = Inr (False, [], v)"
| "parser_unwind V (e # ctx) v =
     rbind (elem_next V e v) (\<lambda>(r, e, v).
       case r of
         Finish \<Rightarrow> parser_unwind V ctx v
       | Cont \<Rightarrow> Inr (True, e # ctx, v)
       | Abort \<Rightarrow> Inr (False, e # ctx, v))"

text \<open>
  The loop \<open>while (true)\<close>; \<open>None\<close> would be a run that does not end. The second
  part is the end of its body, after the switch.
\<close>

partial_function (option) parser_loop ::
    "'v visitor \<Rightarrow> object \<Rightarrow> elem list \<Rightarrow> 'v \<Rightarrow> 'v result option" where
  "parser_loop V cur ctx v =
     (case parser_switch V cur ctx v of
        Inl e \<Rightarrow> Some (Inl e)
      | Inr (ok, start_collection, ctx, v) \<Rightarrow>
          if \<not> ok then Some (Inr v)
          else if ctx = [] then Some (Inr v)
          else if start_collection then
            (case elem_get (hd ctx) of Inl e \<Rightarrow> Some (Inl e) | Inr cur \<Rightarrow> parser_loop V cur ctx v)
          else
            (case parser_unwind V ctx v of
               Inl e \<Rightarrow> Some (Inl e)
             | Inr (go, ctx, v) \<Rightarrow>
                 if \<not> go then Some (Inr v)
                 else
                   (case elem_get (hd ctx) of
                      Inl e \<Rightarrow> Some (Inl e)
                    | Inr cur \<Rightarrow> parser_loop V cur ctx v)))"

definition object_parser_parse :: "'v visitor \<Rightarrow> object \<Rightarrow> 'v \<Rightarrow> 'v result option" where
  "object_parser_parse V obj v = parser_loop V obj [] v"

section \<open>The traversal, by recursion\<close>

text \<open>\<open>next_call r f\<close>: stop after \<open>r\<close> unless it returned true.\<close>

definition then_call :: "(bool \<times> 'v) result \<Rightarrow> 'v callback \<Rightarrow> (bool \<times> 'v) result" where
  "then_call r f = rbind r (\<lambda>(ok, v). if ok then f v else Inr (False, v))"

text \<open>The items of an array or a map, with the callbacks between them.\<close>

fun visit_items :: "'v callback \<Rightarrow> 'v callback \<Rightarrow> 'v callback list \<Rightarrow> 'v callback" where
  "visit_items s e [] v = Inr (True, v)"
| "visit_items s e (i # is) v =
     then_call (then_call (then_call (s v) i) e) (visit_items s e is)"

fun visit_object :: "'v visitor \<Rightarrow> object \<Rightarrow> 'v callback" where
  "visit_object V NIL v = visit_nil V v"
| "visit_object V (BOOLEAN b) v = visit_boolean V b v"
| "visit_object V (POSITIVE_INTEGER n) v = visit_positive_integer V n v"
| "visit_object V (NEGATIVE_INTEGER n) v = visit_negative_integer V n v"
| "visit_object V (FLOAT32 f) v = visit_float32 V f v"
| "visit_object V (FLOAT64 f) v = visit_float64 V f v"
| "visit_object V (STR' p) v = visit_str V p (size_of p) v"
| "visit_object V (BIN p) v = visit_bin V p (size_of p) v"
| "visit_object V (EXT p) v = visit_ext V p (ext_size p + 1) v"
| "visit_object V (ARRAY xs) v =
     then_call (then_call (start_array V (size_of xs) v)
       (visit_items (start_array_item V) (end_array_item V) (map (\<lambda>x v. visit_object V x v) xs)))
       (end_array V)"
| "visit_object V (MAP xs) v =
     then_call (then_call (start_map V (size_of xs) v)
       (visit_items (start_map_key V) (end_map_value V)
         (map (\<lambda>(k, x) v. then_call (then_call (then_call (visit_object V k v)
            (end_map_key V)) (start_map_value V)) (visit_object V x)) xs)))
       (end_map V)"

end
