(* ===== verification/Msgpack_Traversal.thy ===== *)
theory Msgpack_Traversal
  imports Msgpack_Object
begin

text \<open>
  The parser of objects calls a visitor exactly as the recursion
  \<open>visit_object\<close> does, and always comes to an end.
\<close>

section \<open>Objects with sizes of 32 bits\<close>

text \<open>
  What the representation allows: sizes fit their members, a negative integer
  is negative, an ext has its type byte.
\<close>

fun object_ok :: "object \<Rightarrow> bool" where
  "object_ok (NEGATIVE_INTEGER n) \<longleftrightarrow> sint n < 0"
| "object_ok (STR' p) \<longleftrightarrow> length p < 2 ^ 32"
| "object_ok (BIN p) \<longleftrightarrow> length p < 2 ^ 32"
| "object_ok (EXT p) \<longleftrightarrow> p \<noteq> [] \<and> length p < 2 ^ 32"
| "object_ok (ARRAY xs) \<longleftrightarrow> length xs < 2 ^ 32 \<and> list_all object_ok xs"
| "object_ok (MAP xs) \<longleftrightarrow> length xs < 2 ^ 32 \<and> list_all (\<lambda>(k, x). object_ok k \<and> object_ok x) xs"
| "object_ok _ \<longleftrightarrow> True"

lemma unat_size_of: "length xs < 2 ^ 32 \<Longrightarrow> unat (size_of xs) = length xs"
  by (simp add: size_of_def unat_of_nat)

lemma size_of_eq_0: "length xs < 2 ^ 32 \<Longrightarrow> size_of xs = 0 \<longleftrightarrow> xs = []"
  using unat_size_of [of xs] by (auto simp: size_of_def unat_eq_zero)

lemma visit_leaf:
  "visit_object V NIL = visit_nil V"
  "visit_object V (BOOLEAN b) = visit_boolean V b"
  "visit_object V (POSITIVE_INTEGER n) = visit_positive_integer V n"
  "visit_object V (NEGATIVE_INTEGER n) = visit_negative_integer V n"
  "visit_object V (FLOAT32 f) = visit_float32 V f"
  "visit_object V (FLOAT64 g) = visit_float64 V g"
  "visit_object V (STR' p) = visit_str V p (size_of p)"
  "visit_object V (BIN p) = visit_bin V p (size_of p)"
  "visit_object V (EXT p) = visit_ext V p (ext_size p + 1)"
  by (simp_all add: fun_eq_iff)

lemma then_call_assoc: "then_call (then_call r f) g = then_call r (\<lambda>v. then_call (f v) g)"
  by (cases r) (auto simp: then_call_def)

lemma then_call_True: "then_call (Inr (True, v)) f = f v"
  by (simp add: then_call_def)

lemma then_call_go_on: "then_call r go_on = r"
  by (cases r) (auto simp: then_call_def go_on_def)

section \<open>After an object\<close>

definition after :: "'v visitor \<Rightarrow> elem list \<Rightarrow> 'v \<Rightarrow> 'v result option" where
  "after V ctx v =
     (case parser_unwind V ctx v of
        Inl e \<Rightarrow> Some (Inl e)
      | Inr (go, ctx, v) \<Rightarrow>
          if \<not> go then Some (Inr v)
          else
            (case elem_get (hd ctx) of
               Inl e \<Rightarrow> Some (Inl e)
             | Inr cur \<Rightarrow> parser_loop V cur ctx v))"

text \<open>Going on with \<open>k\<close> after a callback that returned true; the traversal ends otherwise.\<close>

definition continue_with :: "(bool \<times> 'v) result \<Rightarrow> ('v \<Rightarrow> 'v result option) \<Rightarrow> 'v result option" where
  "continue_with r k =
     (case r of
        Inl t \<Rightarrow> Some (Inl t)
      | Inr (ok, v) \<Rightarrow> if ok then k v else Some (Inr v))"

definition after_next :: "'v visitor \<Rightarrow> elem list \<Rightarrow> (next_ret \<times> elem \<times> 'v) result \<Rightarrow> 'v result option" where
  "after_next V ctx r =
     (case r of
        Inl t \<Rightarrow> Some (Inl t)
      | Inr (Finish, _, v) \<Rightarrow> after V ctx v
      | Inr (Cont, e, v) \<Rightarrow>
          (case elem_get e of Inl t \<Rightarrow> Some (Inl t) | Inr cur \<Rightarrow> parser_loop V cur (e # ctx) v)
      | Inr (Abort, _, v) \<Rightarrow> Some (Inr v))"

lemma after_Nil: "after V [] v = Some (Inr v)"
  by (simp add: after_def)

lemma after_Cons: "after V (e # ctx) = (\<lambda>v. after_next V ctx (elem_next V e v))"
proof
  show "after V (e # ctx) v = after_next V ctx (elem_next V e v)" for v
    by (cases "elem_next V e v")
      (auto simp: after_def after_next_def split: next_ret.split sum.split prod.split)
qed

lemma after_next_checked:
  "after_next V ctx (checked r e f) = continue_with r (\<lambda>v. after_next V ctx (f v))"
  by (cases r) (auto simp: after_next_def checked_def continue_with_def)

lemma after_next_result:
  "after_next V ctx (Inr (Finish, e, v)) = after V ctx v"
  "elem_get e = Inr cur \<Longrightarrow> after_next V ctx (Inr (Cont, e, v)) = parser_loop V cur (e # ctx) v"
  by (simp_all add: after_next_def)

lemma continue_with_then_call:
  "continue_with (then_call r f) k = continue_with r (\<lambda>v. continue_with (f v) k)"
  by (cases r) (auto simp: continue_with_def then_call_def)

lemma continue_with_True: "continue_with (Inr (True, v)) k = k v"
  by (simp add: continue_with_def)

lemmas traversal = after_Cons after_next_checked after_next_result continue_with_then_call
  continue_with_True

lemma parser_loop_leaf:
  assumes "parser_switch V cur ctx v = leaf r ctx"
  shows "parser_loop V cur ctx v = continue_with r (after V ctx)"
  using assms by (subst parser_loop.simps, cases r; cases ctx)
    (auto simp: leaf_def continue_with_def after_Nil after_def)

section \<open>Items\<close>

definition traversed :: "'v visitor \<Rightarrow> object \<Rightarrow> bool" where
  "traversed V x \<longleftrightarrow>
     (\<forall>ctx. parser_loop V x ctx = (\<lambda>v. continue_with (visit_object V x v) (after V ctx)))"

lemma traversedI:
  "(\<And>ctx v. parser_loop V x ctx v = continue_with (visit_object V x v) (after V ctx)) \<Longrightarrow> traversed V x"
  by (simp add: traversed_def fun_eq_iff)

lemma traversedD:
  "traversed V x \<Longrightarrow>
     parser_loop V x ctx = (\<lambda>v. continue_with (visit_object V x v) (after V ctx))"
  by (simp add: traversed_def)

lemma array_elem_next:
  "elem_next V (array_elem p (Suc n)) v =
     checked (end_array_item V v) (array_elem p (Suc n)) (\<lambda>v.
       if n = 0 then checked (end_array V v) (array_elem p n) (\<lambda>v. Inr (Finish, array_elem p n, v))
       else checked (start_array_item V v) (array_elem p n) (\<lambda>v. Inr (Cont, array_elem (tl p) n, v)))"
  by (cases n) (simp_all add: elem_next_def array_elem_def Let_def)

definition array_rest :: "'v visitor \<Rightarrow> object list \<Rightarrow> 'v callback" where
  "array_rest V xs =
     visit_items (start_array_item V) (end_array_item V) (map (\<lambda>x v. visit_object V x v) xs)"

lemma array_rest_simps:
  "array_rest V [] v = Inr (True, v)"
  "array_rest V (x # xs) v =
     then_call (then_call (then_call (start_array_item V v) (visit_object V x)) (end_array_item V))
       (array_rest V xs)"
  by (simp_all add: array_rest_def)

lemma array_elem_get: "elem_get (array_elem (x # xs) n) = Inr x"
  by (simp add: elem_get_def array_elem_def deref_def)

lemma parser_loop_items:
  assumes "list_all (traversed V) (x # xs)"
  shows "parser_loop V x (array_elem (x # xs) (Suc (length xs)) # ctx) v =
    continue_with (visit_object V x v) (\<lambda>v. continue_with (end_array_item V v)
      (\<lambda>v. continue_with (array_rest V xs v) (\<lambda>v. continue_with (end_array V v) (after V ctx))))"
  using assms
proof (induction xs arbitrary: x v)
  case Nil
  then show ?case
    by (simp add: traversal traversedD array_elem_next array_rest_simps)
next
  case (Cons y ys)
  have rec: "parser_loop V y (array_elem (y # ys) (Suc (length ys)) # ctx) u =
    continue_with (visit_object V y u) (\<lambda>v. continue_with (end_array_item V v)
      (\<lambda>v. continue_with (array_rest V ys v) (\<lambda>v. continue_with (end_array V v) (after V ctx))))" for u
    by (rule Cons.IH) (use Cons.prems in simp)
  have "traversed V x" using Cons.prems by simp
  then show ?case
    by (simp add: traversal traversedD rec array_elem_next array_rest_simps array_elem_get)
qed

lemma map_elem_next:
  "elem_next V (map_elem p (Suc n)) v =
     checked (end_map_key V v) (map_elem p (Suc n)) (\<lambda>v.
     checked (start_map_value V v) (map_elem p (Suc n)) (\<lambda>v.
     Inr (Cont, (map_elem p (Suc n))\<lparr>is_key := False\<rparr>, v)))"
  "elem_next V ((map_elem p (Suc n))\<lparr>is_key := False\<rparr>) v =
     checked (end_map_value V v) ((map_elem p (Suc n))\<lparr>is_key := False\<rparr>) (\<lambda>v.
       if n = 0 then checked (end_map V v) ((map_elem p n)\<lparr>is_key := False\<rparr>)
         (\<lambda>v. Inr (Finish, (map_elem p n)\<lparr>is_key := False\<rparr>, v))
       else checked (start_map_key V v) ((map_elem p n)\<lparr>is_key := False\<rparr>)
         (\<lambda>v. Inr (Cont, map_elem (tl p) n, v)))"
  by (cases n; simp add: elem_next_def map_elem_def Let_def)+

lemma map_elem_get:
  "elem_get (map_elem ((k, x) # xs) n) = Inr k"
  "elem_get ((map_elem ((k, x) # xs) n)\<lparr>is_key := False\<rparr>) = Inr x"
  by (simp_all add: elem_get_def map_elem_def deref_def)

definition map_rest :: "'v visitor \<Rightarrow> (object \<times> object) list \<Rightarrow> 'v callback" where
  "map_rest V xs =
     visit_items (start_map_key V) (end_map_value V)
         (map (\<lambda>(k, x) v. then_call (then_call (then_call (visit_object V k v)
            (end_map_key V)) (start_map_value V)) (visit_object V x)) xs)"

lemma map_rest_simps:
  "map_rest V [] v = Inr (True, v)"
  "map_rest V ((k, x) # xs) v =
     then_call (then_call (then_call (start_map_key V v)
       (\<lambda>v. then_call (then_call (then_call (visit_object V k v)
            (end_map_key V)) (start_map_value V)) (visit_object V x))) (end_map_value V))
       (map_rest V xs)"
  by (simp_all add: map_rest_def)

lemma parser_loop_pairs:
  assumes "list_all (\<lambda>(k, x). traversed V k \<and> traversed V x) ((k0, x0) # xs)"
  shows "parser_loop V k0 (map_elem ((k0, x0) # xs) (Suc (length xs)) # ctx) v =
    continue_with (visit_object V k0 v) (\<lambda>v. continue_with (end_map_key V v)
      (\<lambda>v. continue_with (start_map_value V v) (\<lambda>v. continue_with (visit_object V x0 v)
      (\<lambda>v. continue_with (end_map_value V v)
      (\<lambda>v. continue_with (map_rest V xs v) (\<lambda>v. continue_with (end_map V v) (after V ctx)))))))"
  using assms
proof (induction xs arbitrary: k0 x0 v)
  case Nil
  then have first: "traversed V k0" "traversed V x0" by simp_all
  show ?case
    by (simp add: first [THEN traversedD] traversal map_elem_next map_rest_simps map_elem_get)
next
  case (Cons y ys)
  obtain k1 x1 where y: "y = (k1, x1)" by force
  have first: "traversed V k0" "traversed V x0" using Cons.prems by simp_all
  have rec: "parser_loop V k1 (map_elem ((k1, x1) # ys) (Suc (length ys)) # ctx) u =
    continue_with (visit_object V k1 u) (\<lambda>v. continue_with (end_map_key V v)
      (\<lambda>v. continue_with (start_map_value V v) (\<lambda>v. continue_with (visit_object V x1 v)
      (\<lambda>v. continue_with (end_map_value V v)
      (\<lambda>v. continue_with (map_rest V ys v) (\<lambda>v. continue_with (end_map V v) (after V ctx)))))))" for u
    by (rule Cons.IH) (use Cons.prems y in auto)
  show ?case
    by (simp add: y first [THEN traversedD] rec traversal map_elem_next map_rest_simps map_elem_get)
qed

section \<open>The traversal\<close>

lemma switch_collection:
  assumes "\<And>v. visit_object V cur v = then_call (then_call (st v) items) en"
  shows "continue_with (visit_object V cur v) k =
    continue_with (st v) (\<lambda>v. continue_with (items v) (\<lambda>v. continue_with (en v) k))"
  by (simp add: assms continue_with_then_call)

lemma parser_loop_array:
  assumes "length xs < 2 ^ 32"
    and "list_all (traversed V) xs"
  shows "parser_loop V (ARRAY xs) ctx v = continue_with (visit_object V (ARRAY xs) v) (after V ctx)"
proof (cases xs)
  case Nil
  have "parser_loop V (ARRAY []) ctx v =
      continue_with (start_array V (size_of ([] :: object list)) v) (after V (array_elem [] 0 # ctx))"
    by (subst parser_loop.simps, cases "start_array V (size_of ([] :: object list)) v")
      (auto simp: parser_switch_def continue_with_def after_def size_of_def)
  then show ?thesis
    by (simp add: Nil traversal elem_next_def array_elem_def)
next
  case (Cons y ys)
  have size: "unat (size_of xs) = Suc (length ys)" "size_of xs \<noteq> 0"
    using assms(1) Cons by (simp_all add: unat_size_of size_of_eq_0)
  have "parser_loop V (ARRAY xs) ctx v =
      continue_with (start_array V (size_of xs) v) (\<lambda>v. continue_with (start_array_item V v)
        (\<lambda>v. parser_loop V y (array_elem xs (Suc (length ys)) # ctx) v))"
    using size Cons
    by (subst parser_loop.simps)
      (auto simp: parser_switch_def continue_with_def array_elem_get split: sum.split)
  also have "\<dots> = continue_with (visit_object V (ARRAY xs) v) (after V ctx)"
    using parser_loop_items [of V y ys ctx] assms(2) Cons
    by (simp add: array_rest_def [symmetric] array_rest_simps traversal)
  finally show ?thesis .
qed

lemma parser_loop_map:
  assumes "length xs < 2 ^ 32"
    and "list_all (\<lambda>(k, x). traversed V k \<and> traversed V x) xs"
  shows "parser_loop V (MAP xs) ctx v = continue_with (visit_object V (MAP xs) v) (after V ctx)"
proof (cases xs)
  case Nil
  have "parser_loop V (MAP []) ctx v =
      continue_with (start_map V (size_of ([] :: (object \<times> object) list)) v)
        (after V (map_elem [] 0 # ctx))"
    by (subst parser_loop.simps, cases "start_map V (size_of ([] :: (object \<times> object) list)) v")
      (auto simp: parser_switch_def continue_with_def after_def size_of_def)
  then show ?thesis
    by (simp add: Nil traversal elem_next_def map_elem_def)
next
  case (Cons y ys)
  obtain k x where y: "y = (k, x)" by force
  have size: "unat (size_of xs) = Suc (length ys)" "size_of xs \<noteq> 0"
    using assms(1) Cons by (simp_all add: unat_size_of size_of_eq_0)
  have "parser_loop V (MAP xs) ctx v =
      continue_with (start_map V (size_of xs) v) (\<lambda>v. continue_with (start_map_key V v)
        (\<lambda>v. parser_loop V k (map_elem xs (Suc (length ys)) # ctx) v))"
    using size Cons y
    by (subst parser_loop.simps)
      (auto simp: parser_switch_def continue_with_def map_elem_get split: sum.split)
  also have "\<dots> = continue_with (visit_object V (MAP xs) v) (after V ctx)"
    using parser_loop_pairs [of V k x ys ctx] assms(2) Cons y
    by (simp add: map_rest_def [symmetric] map_rest_simps traversal)
  finally show ?thesis .
qed

lemma object_ok_traversed: "object_ok obj \<Longrightarrow> traversed V obj"
proof (induction obj)
  case (EXT p)
  have "unat (ext_size p) < 2 ^ LENGTH(32)" by (rule unsigned_less)
  then show ?case
    by (intro traversedI parser_loop_leaf [THEN trans])
      (simp_all add: parser_switch_def check_container_size_def)
next
  case (ARRAY xs)
  then show ?case
    by (intro traversedI parser_loop_array) (auto simp: list_all_iff)
next
  case (MAP xs)
  show ?case
  proof (intro traversedI parser_loop_map)
    show "length xs < 2 ^ 32" using MAP.prems by simp
    show "list_all (\<lambda>(k, x). traversed V k \<and> traversed V x) xs"
      unfolding list_all_iff
    proof (safe)
      fix k x assume kx: "(k, x) \<in> set xs"
      then have "object_ok k" "object_ok x" using MAP.prems by (auto simp: list_all_iff)
      moreover have "k \<in> Basic_BNFs.fsts (k, x)" "x \<in> Basic_BNFs.snds (k, x)" by simp_all
      ultimately show "traversed V k" "traversed V x"
        using kx MAP.IH by metis+
    qed
  qed
qed (intro traversedI, rule parser_loop_leaf [THEN trans], simp add: parser_switch_def, simp)+

text \<open>The parser ends, with what the recursion over the object computes.\<close>

lemma object_parser_visits:
  "object_ok obj \<Longrightarrow>
     object_parser_parse V obj v = Some (rbind (visit_object V obj v) (\<lambda>(_, v). Inr v))"
  by (cases "visit_object V obj v")
    (auto simp: object_parser_parse_def object_ok_traversed [THEN traversedD] continue_with_def after_Nil)

end
