(* ===== verification/Msgpack_Unpack.thy ===== *)
theory Msgpack_Unpack
  imports Msgpack_Traversal
begin

unbundle bit_operations_syntax

text \<open>
  The decoder of \<open>src/3rd/inc/msgpack/v1/unpack.hpp\<close> (API version 1, which
  \<open>versioning.hpp\<close> selects): the resumable state machine \<open>detail::context\<close>, with
  the size limits of \<open>unpack_limit\<close>, and the \<open>unpack\<close> functions.

  The buffer is the list of its bytes, and \<open>len\<close> its length; a pointer into it
  is an index, and reading outside it is undefined behaviour. The zone, which
  owns the memory of the objects, is a parameter: its state and the allocation
  function \<open>alloc\<close>. A vector has its back at the head of the list. \<open>size_t\<close>
  has 64 bits, so the code for \<open>SIZE_MAX == UINT_MAX\<close> is not compiled.
\<close>

section \<open>Limits and the user\<close>

datatype object_type =
    Type_NIL | Type_BOOLEAN | Type_POSITIVE_INTEGER | Type_NEGATIVE_INTEGER
  | Type_FLOAT32 | Type_FLOAT64 | Type_STR | Type_BIN | Type_ARRAY | Type_MAP | Type_EXT

record unpack_limit =
  limit_array :: nat
  limit_map :: nat
  limit_str :: nat
  limit_bin :: nat
  limit_ext :: nat
  limit_depth :: nat

definition unpack_limit_default :: unpack_limit where
  "unpack_limit_default =
     \<lparr>limit_array = 0xffffffff, limit_map = 0xffffffff, limit_str = 0xffffffff,
      limit_bin = 0xffffffff, limit_ext = 0xffffffff, limit_depth = 0xffffffff\<rparr>"

text \<open>\<open>reference_func\<close> with its \<open>user_data\<close>; \<open>None\<close> is the null pointer.\<close>

record 'z unpack_user =
  zone :: 'z
  referenced :: bool
  reference_func :: "(object_type \<Rightarrow> nat \<Rightarrow> bool) option"
  limit :: unpack_limit

type_synonym 'z allocator = "'z \<Rightarrow> nat \<Rightarrow> nat \<Rightarrow> 'z result"

definition sizeof_object :: nat where "sizeof_object = 24"
definition sizeof_object_kv :: nat where "sizeof_object_kv = 48"
definition alignof_object :: nat where "alignof_object = 8"
definition alignof_char :: nat where "alignof_char = 1"

section \<open>Objects from what was read\<close>

definition unpack_uint8 :: "8 word \<Rightarrow> object" where
  "unpack_uint8 d = POSITIVE_INTEGER (ucast d)"

definition unpack_uint16 :: "16 word \<Rightarrow> object" where
  "unpack_uint16 d = POSITIVE_INTEGER (ucast d)"

definition unpack_uint32 :: "32 word \<Rightarrow> object" where
  "unpack_uint32 d = POSITIVE_INTEGER (ucast d)"

definition unpack_uint64 :: "64 word \<Rightarrow> object" where
  "unpack_uint64 d = POSITIVE_INTEGER d"

definition unpack_int8 :: "8 word \<Rightarrow> object" where
  "unpack_int8 d = (if 0 \<le> sint d then POSITIVE_INTEGER (scast d) else NEGATIVE_INTEGER (scast d))"

definition unpack_int16 :: "16 word \<Rightarrow> object" where
  "unpack_int16 d = (if 0 \<le> sint d then POSITIVE_INTEGER (scast d) else NEGATIVE_INTEGER (scast d))"

definition unpack_int32 :: "32 word \<Rightarrow> object" where
  "unpack_int32 d = (if 0 \<le> sint d then POSITIVE_INTEGER (scast d) else NEGATIVE_INTEGER (scast d))"

definition unpack_int64 :: "64 word \<Rightarrow> object" where
  "unpack_int64 d = (if 0 \<le> sint d then POSITIVE_INTEGER d else NEGATIVE_INTEGER d)"

text \<open>The code keeps a double of the same value; see \<open>FLOAT32\<close> for signalling NaNs.\<close>

definition unpack_float :: "32 word \<Rightarrow> object" where
  "unpack_float d = FLOAT32 d"

definition unpack_double :: "64 word \<Rightarrow> object" where
  "unpack_double d = FLOAT64 d"

definition unpack_nil :: object where
  "unpack_nil = NIL"

definition unpack_true :: object where
  "unpack_true = BOOLEAN True"

definition unpack_false :: object where
  "unpack_false = BOOLEAN False"

definition allocate :: "'z allocator \<Rightarrow> 'z unpack_user \<Rightarrow> nat \<Rightarrow> nat \<Rightarrow> 'z unpack_user result" where
  "allocate alloc u sz align = rbind (alloc (zone u) sz align) (\<lambda>z. Inr (u\<lparr>zone := z\<rparr>))"

definition unpack_array :: "'z allocator \<Rightarrow> 'z unpack_user \<Rightarrow> nat \<Rightarrow> (object \<times> 'z unpack_user) result" where
  "unpack_array alloc u n =
     (if n > limit_array (limit u) then Inl (Throw Array_Size_Overflow)
      else rbind (allocate alloc u (n * sizeof_object) alignof_object) (\<lambda>u. Inr (ARRAY [], u)))"

text \<open>An item is written behind those there are; the model has no size but their number.\<close>

fun unpack_array_item :: "object \<Rightarrow> object \<Rightarrow> object" where
  "unpack_array_item (ARRAY xs) x = ARRAY (xs @ [x])"
| "unpack_array_item c _ = c"

definition unpack_map :: "'z allocator \<Rightarrow> 'z unpack_user \<Rightarrow> nat \<Rightarrow> (object \<times> 'z unpack_user) result" where
  "unpack_map alloc u n =
     (if n > limit_map (limit u) then Inl (Throw Map_Size_Overflow)
      else rbind (allocate alloc u (n * sizeof_object_kv) alignof_object) (\<lambda>u. Inr (MAP [], u)))"

fun unpack_map_item :: "object \<Rightarrow> object \<Rightarrow> object \<Rightarrow> object" where
  "unpack_map_item (MAP xs) k v = MAP (xs @ [(k, v)])"
| "unpack_map_item c _ _ = c"

definition by_reference :: "'z unpack_user \<Rightarrow> object_type \<Rightarrow> nat \<Rightarrow> bool" where
  "by_reference u t l =
     (case reference_func u of None \<Rightarrow> False | Some f \<Rightarrow> f t l)"

definition unpack_str :: "'z allocator \<Rightarrow> 'z unpack_user \<Rightarrow> byte list \<Rightarrow> (object \<times> 'z unpack_user) result" where
  "unpack_str alloc u p =
     (let l = length p in
      if by_reference u Type_STR l then Inr (STR' p, u\<lparr>referenced := True\<rparr>)
      else if l > 0 then
        (if l > limit_str (limit u) then Inl (Throw Str_Size_Overflow)
         else rbind (allocate alloc u l alignof_char) (\<lambda>u. Inr (STR' p, u)))
      else Inr (STR' [], u))"

definition unpack_bin :: "'z allocator \<Rightarrow> 'z unpack_user \<Rightarrow> byte list \<Rightarrow> (object \<times> 'z unpack_user) result" where
  "unpack_bin alloc u p =
     (let l = length p in
      if by_reference u Type_BIN l then Inr (BIN p, u\<lparr>referenced := True\<rparr>)
      else if l > 0 then
        (if l > limit_bin (limit u) then Inl (Throw Bin_Size_Overflow)
         else rbind (allocate alloc u l alignof_char) (\<lambda>u. Inr (BIN p, u)))
      else Inr (BIN [], u))"

definition unpack_ext :: "'z allocator \<Rightarrow> 'z unpack_user \<Rightarrow> byte list \<Rightarrow> (object \<times> 'z unpack_user) result" where
  "unpack_ext alloc u p =
     (let l = length p in
      if by_reference u Type_EXT l then Inr (EXT p, u\<lparr>referenced := True\<rparr>)
      else if l > limit_ext (limit u) then Inl (Throw Ext_Size_Overflow)
      else rbind (allocate alloc u l alignof_char) (\<lambda>u. Inr (EXT p, u)))"

section \<open>The state of the decoder\<close>

abbreviation (input) "MSGPACK_CS_HEADER \<equiv> (0x00 :: nat)"
abbreviation (input) "MSGPACK_CS_BIN_8 \<equiv> (0x04 :: nat)"
abbreviation (input) "MSGPACK_CS_BIN_16 \<equiv> (0x05 :: nat)"
abbreviation (input) "MSGPACK_CS_BIN_32 \<equiv> (0x06 :: nat)"
abbreviation (input) "MSGPACK_CS_EXT_8 \<equiv> (0x07 :: nat)"
abbreviation (input) "MSGPACK_CS_EXT_16 \<equiv> (0x08 :: nat)"
abbreviation (input) "MSGPACK_CS_EXT_32 \<equiv> (0x09 :: nat)"
abbreviation (input) "MSGPACK_CS_FLOAT \<equiv> (0x0a :: nat)"
abbreviation (input) "MSGPACK_CS_DOUBLE \<equiv> (0x0b :: nat)"
abbreviation (input) "MSGPACK_CS_UINT_8 \<equiv> (0x0c :: nat)"
abbreviation (input) "MSGPACK_CS_UINT_16 \<equiv> (0x0d :: nat)"
abbreviation (input) "MSGPACK_CS_UINT_32 \<equiv> (0x0e :: nat)"
abbreviation (input) "MSGPACK_CS_UINT_64 \<equiv> (0x0f :: nat)"
abbreviation (input) "MSGPACK_CS_INT_8 \<equiv> (0x10 :: nat)"
abbreviation (input) "MSGPACK_CS_INT_16 \<equiv> (0x11 :: nat)"
abbreviation (input) "MSGPACK_CS_INT_32 \<equiv> (0x12 :: nat)"
abbreviation (input) "MSGPACK_CS_INT_64 \<equiv> (0x13 :: nat)"
abbreviation (input) "MSGPACK_CS_FIXEXT_1 \<equiv> (0x14 :: nat)"
abbreviation (input) "MSGPACK_CS_FIXEXT_2 \<equiv> (0x15 :: nat)"
abbreviation (input) "MSGPACK_CS_FIXEXT_4 \<equiv> (0x16 :: nat)"
abbreviation (input) "MSGPACK_CS_FIXEXT_8 \<equiv> (0x17 :: nat)"
abbreviation (input) "MSGPACK_CS_FIXEXT_16 \<equiv> (0x18 :: nat)"
abbreviation (input) "MSGPACK_CS_STR_8 \<equiv> (0x19 :: nat)"
abbreviation (input) "MSGPACK_CS_STR_16 \<equiv> (0x1a :: nat)"
abbreviation (input) "MSGPACK_CS_STR_32 \<equiv> (0x1b :: nat)"
abbreviation (input) "MSGPACK_CS_ARRAY_16 \<equiv> (0x1c :: nat)"
abbreviation (input) "MSGPACK_CS_ARRAY_32 \<equiv> (0x1d :: nat)"
abbreviation (input) "MSGPACK_CS_MAP_16 \<equiv> (0x1e :: nat)"
abbreviation (input) "MSGPACK_CS_MAP_32 \<equiv> (0x1f :: nat)"
abbreviation (input) "MSGPACK_ACS_STR_VALUE \<equiv> (0x20 :: nat)"
abbreviation (input) "MSGPACK_ACS_BIN_VALUE \<equiv> (0x21 :: nat)"
abbreviation (input) "MSGPACK_ACS_EXT_VALUE \<equiv> (0x22 :: nat)"

datatype container_type = CT_ARRAY_ITEM | CT_MAP_KEY | CT_MAP_VALUE

text \<open>\<open>None\<close>: the member of a new \<open>unpack_stack\<close> that nothing has set.\<close>

record unpack_stack =
  obj :: object
  count :: nat
  container_type :: "container_type option"
  map_key :: object

definition unpack_stack_new :: unpack_stack where
  "unpack_stack_new = \<lparr>obj = NIL, count = 0, container_type = None, map_key = NIL\<rparr>"

definition decr_count :: "unpack_stack \<Rightarrow> unpack_stack" where
  "decr_count sp = sp\<lparr>count := (if count sp = 0 then 2 ^ 64 - 1 else count sp - 1)\<rparr>"

record 'z unpack_context =
  m_current :: nat
  m_trail :: nat
  m_user :: "'z unpack_user"
  m_cs :: nat
  m_stack :: "unpack_stack list"

definition context_init :: "'z unpack_context \<Rightarrow> 'z unpack_context" where
  "context_init c =
     c\<lparr>m_cs := MSGPACK_CS_HEADER, m_trail := 0,
       m_stack := [(last (m_stack c))\<lparr>obj := NIL\<rparr>]\<rparr>"

definition context_new ::
    "(object_type \<Rightarrow> nat \<Rightarrow> bool) option \<Rightarrow> unpack_limit \<Rightarrow> 'z \<Rightarrow> 'z unpack_context" where
  "context_new f lim z =
     \<lparr>m_current = 0, m_trail = 0,
      m_user = \<lparr>zone = z, referenced = False, reference_func = f, limit = lim\<rparr>,
      m_cs = MSGPACK_CS_HEADER, m_stack = [unpack_stack_new]\<rparr>"

definition context_data :: "'z unpack_context \<Rightarrow> object" where
  "context_data c = obj (last (m_stack c))"

definition next_cs :: "byte \<Rightarrow> nat" where
  "next_cs p = unat (p AND 0x1f)"

section \<open>Items into containers\<close>

text \<open>
  How a call of \<open>execute\<close> goes on: it returns a value with the offset \<open>off\<close>, or
  comes to the next test of its loop, with the local \<open>fixed_trail_again\<close>.
\<close>

datatype 'z exec =
    Return int nat "'z unpack_context"
  | Next bool "'z unpack_context"

fun push_item :: "unpack_stack list \<Rightarrow> object \<Rightarrow> int \<times> object \<times> unpack_stack list" where
  "push_item (frame # sp # st) x =
     (case container_type sp of
        Some CT_ARRAY_ITEM \<Rightarrow>
          (let sp = decr_count (sp\<lparr>obj := unpack_array_item (obj sp) x\<rparr>) in
           if count sp = 0 then push_item (sp # st) (obj sp)
           else (0, x, frame # sp # st))
      | Some CT_MAP_KEY \<Rightarrow>
          (0, x, frame # sp\<lparr>map_key := x, container_type := Some CT_MAP_VALUE\<rparr> # st)
      | Some CT_MAP_VALUE \<Rightarrow>
          (let sp = decr_count (sp\<lparr>obj := unpack_map_item (obj sp) (map_key sp) x\<rparr>) in
           if count sp = 0 then push_item (sp # st) (obj sp)
           else (0, x, frame # sp\<lparr>container_type := Some CT_MAP_KEY\<rparr> # st))
      | None \<Rightarrow> (-1, x, frame # sp # st))"
| "push_item st x = (1, x, st)"

definition set_bottom :: "object \<Rightarrow> unpack_stack list \<Rightarrow> unpack_stack list" where
  "set_bottom x st = butlast st @ [(last st)\<lparr>obj := x\<rparr>]"

definition push_proc :: "object \<Rightarrow> 'z unpack_context \<Rightarrow> 'z exec" where
  "push_proc x c =
     (let (ret, x, st) = push_item (m_stack c) x in
      if ret > 0 then
        Return ret (m_current c + 1)
          (c\<lparr>m_stack := set_bottom x st, m_current := m_current c + 1\<rparr>)
      else if ret < 0 then Return ret (m_current c) (c\<lparr>m_stack := st\<rparr>)
      else
        Next False (c\<lparr>m_stack := st, m_cs := MSGPACK_CS_HEADER, m_current := m_current c + 1\<rparr>))"

definition push_aggregate ::
    "('z unpack_user \<Rightarrow> nat \<Rightarrow> (object \<times> 'z unpack_user) result) \<Rightarrow> container_type \<Rightarrow> nat
     \<Rightarrow> 'z unpack_context \<Rightarrow> 'z exec result" where
  "push_aggregate f ct tmp c =
     rbind (f (m_user c) tmp) (\<lambda>(x, u).
       let frame = (hd (m_stack c))\<lparr>obj := x\<rparr>;
           c = c\<lparr>m_user := u, m_stack := frame # tl (m_stack c)\<rparr>
       in if tmp = 0 then Inr (push_proc (obj frame) c)
          else
            (let frame = frame\<lparr>container_type := Some ct, count := tmp\<rparr>;
                 st = frame # tl (m_stack c)
             in if length st \<le> limit_depth (limit (m_user c)) then
                  Inr (Next False
                    (c\<lparr>m_stack := unpack_stack_new # st, m_cs := MSGPACK_CS_HEADER,
                       m_current := m_current c + 1\<rparr>))
                else Inl (Throw Depth_Size_Overflow)))"

definition push_result :: "(object \<times> 'z unpack_user) result \<Rightarrow> 'z unpack_context \<Rightarrow> 'z exec result" where
  "push_result r c = rbind r (\<lambda>(x, u). Inr (push_proc x (c\<lparr>m_user := u\<rparr>)))"

section \<open>Reading\<close>

definition read_bytes :: "byte list \<Rightarrow> nat \<Rightarrow> nat \<Rightarrow> byte list result" where
  "read_bytes data n k =
     (if n + k \<le> length data then Inr (take k (drop n data)) else Inl (UB Out_Of_Bounds))"

definition load_fix :: "byte list \<Rightarrow> nat \<Rightarrow> nat result" where
  "load_fix data n = rbind (read_bytes data n 1) (\<lambda>b. Inr (unat (hd b AND 0x0f)))"

definition load8 :: "byte list \<Rightarrow> nat \<Rightarrow> 8 word result" where
  "load8 data n = rbind (read_bytes data n 1) (\<lambda>b. Inr (hd b))"

definition load16 :: "byte list \<Rightarrow> nat \<Rightarrow> 16 word result" where
  "load16 data n = rbind (read_bytes data n 2) (\<lambda>b. Inr (msgpack_load16 b))"

definition load32 :: "byte list \<Rightarrow> nat \<Rightarrow> 32 word result" where
  "load32 data n = rbind (read_bytes data n 4) (\<lambda>b. Inr (msgpack_load32 b))"

definition load64 :: "byte list \<Rightarrow> nat \<Rightarrow> 64 word result" where
  "load64 data n = rbind (read_bytes data n 8) (\<lambda>b. Inr (msgpack_load64 b))"

section \<open>The header byte\<close>

definition trail_table :: "nat list" where
  "trail_table =
     [1, 2, 4, 1, 2, 4, 4, 8, 1, 2, 4, 8, 1, 2, 4, 8, 2, 3, 5, 9, 17, 1, 2, 4, 2, 4, 2, 4]"

text \<open>
  \<open>Next True\<close> goes on to the value in the same pass of the loop; the other
  results end the pass.
\<close>

definition exec_header :: "'z allocator \<Rightarrow> byte list \<Rightarrow> 'z unpack_context \<Rightarrow> 'z exec result" where
  "exec_header alloc data c =
     rbind (load8 data (m_current c)) (\<lambda>b.
       let selector = unat b in
       if 0x00 \<le> selector \<and> selector \<le> 0x7f then Inr (push_proc (unpack_uint8 b) c)
       else if 0xe0 \<le> selector \<and> selector \<le> 0xff then Inr (push_proc (unpack_int8 b) c)
       else if 0xc4 \<le> selector \<and> selector \<le> 0xdf then
         Inr (Next True (c\<lparr>m_trail := trail_table ! (selector - 0xc4), m_cs := next_cs b\<rparr>))
       else if 0xa0 \<le> selector \<and> selector \<le> 0xbf then
         (let c = c\<lparr>m_trail := unat (b AND 0x1f)\<rparr> in
          if m_trail c = 0 then push_result (unpack_str alloc (m_user c) []) c
          else Inr (Next True (c\<lparr>m_cs := MSGPACK_ACS_STR_VALUE\<rparr>)))
       else if 0x90 \<le> selector \<and> selector \<le> 0x9f then
         rbind (load_fix data (m_current c))
           (\<lambda>n. push_aggregate (unpack_array alloc) CT_ARRAY_ITEM n c)
       else if 0x80 \<le> selector \<and> selector \<le> 0x8f then
         rbind (load_fix data (m_current c))
           (\<lambda>n. push_aggregate (unpack_map alloc) CT_MAP_KEY n c)
       else if selector = 0xc2 then Inr (push_proc unpack_false c)
       else if selector = 0xc3 then Inr (push_proc unpack_true c)
       else if selector = 0xc0 then Inr (push_proc unpack_nil c)
       else Inr (Return (-1) (m_current c) c))"

section \<open>The value after it\<close>

definition exec_number :: "byte list \<Rightarrow> nat \<Rightarrow> 'z unpack_context \<Rightarrow> 'z exec result" where
  "exec_number data n c =
     (if m_cs c = MSGPACK_CS_FLOAT then
        rbind (load32 data n) (\<lambda>i. Inr (push_proc (unpack_float i) c))
      else if m_cs c = MSGPACK_CS_DOUBLE then
        rbind (load64 data n) (\<lambda>i. Inr (push_proc (unpack_double i) c))
      else if m_cs c = MSGPACK_CS_UINT_8 then
        rbind (load8 data n) (\<lambda>tmp. Inr (push_proc (unpack_uint8 tmp) c))
      else if m_cs c = MSGPACK_CS_UINT_16 then
        rbind (load16 data n) (\<lambda>tmp. Inr (push_proc (unpack_uint16 tmp) c))
      else if m_cs c = MSGPACK_CS_UINT_32 then
        rbind (load32 data n) (\<lambda>tmp. Inr (push_proc (unpack_uint32 tmp) c))
      else if m_cs c = MSGPACK_CS_UINT_64 then
        rbind (load64 data n) (\<lambda>tmp. Inr (push_proc (unpack_uint64 tmp) c))
      else if m_cs c = MSGPACK_CS_INT_8 then
        rbind (load8 data n) (\<lambda>tmp. Inr (push_proc (unpack_int8 tmp) c))
      else if m_cs c = MSGPACK_CS_INT_16 then
        rbind (load16 data n) (\<lambda>tmp. Inr (push_proc (unpack_int16 tmp) c))
      else if m_cs c = MSGPACK_CS_INT_32 then
        rbind (load32 data n) (\<lambda>tmp. Inr (push_proc (unpack_int32 tmp) c))
      else
        rbind (load64 data n) (\<lambda>tmp. Inr (push_proc (unpack_int64 tmp) c)))"

definition exec_ext :: "'z allocator \<Rightarrow> byte list \<Rightarrow> nat \<Rightarrow> nat \<Rightarrow> 'z unpack_context \<Rightarrow> 'z exec result" where
  "exec_ext alloc data n l c =
     rbind (read_bytes data n l) (\<lambda>p. push_result (unpack_ext alloc (m_user c) p) c)"

definition exec_fixext :: "'z allocator \<Rightarrow> byte list \<Rightarrow> nat \<Rightarrow> 'z unpack_context \<Rightarrow> 'z exec result" where
  "exec_fixext alloc data n c =
     (if m_cs c = MSGPACK_CS_FIXEXT_1 then exec_ext alloc data n (1 + 1) c
      else if m_cs c = MSGPACK_CS_FIXEXT_2 then exec_ext alloc data n (2 + 1) c
      else if m_cs c = MSGPACK_CS_FIXEXT_4 then exec_ext alloc data n (4 + 1) c
      else if m_cs c = MSGPACK_CS_FIXEXT_8 then exec_ext alloc data n (8 + 1) c
      else exec_ext alloc data n (16 + 1) c)"

text \<open>
  The length of a string was read: the string is empty, or its bytes are the
  next value to read.
\<close>

definition str_length :: "'z allocator \<Rightarrow> nat \<Rightarrow> 'z unpack_context \<Rightarrow> 'z exec result" where
  "str_length alloc tmp c =
     (let c = c\<lparr>m_trail := tmp\<rparr> in
      if m_trail c = 0 then push_result (unpack_str alloc (m_user c) []) c
      else Inr (Next True (c\<lparr>m_cs := MSGPACK_ACS_STR_VALUE\<rparr>)))"

definition bin_length :: "'z allocator \<Rightarrow> nat \<Rightarrow> 'z unpack_context \<Rightarrow> 'z exec result" where
  "bin_length alloc tmp c =
     (let c = c\<lparr>m_trail := tmp\<rparr> in
      if m_trail c = 0 then push_result (unpack_bin alloc (m_user c) []) c
      else Inr (Next True (c\<lparr>m_cs := MSGPACK_ACS_BIN_VALUE\<rparr>)))"

definition ext_length :: "'z allocator \<Rightarrow> nat \<Rightarrow> 'z unpack_context \<Rightarrow> 'z exec result" where
  "ext_length alloc tmp c =
     (let c = c\<lparr>m_trail := tmp\<rparr> in
      if m_trail c = 0 then push_result (unpack_ext alloc (m_user c) []) c
      else Inr (Next True (c\<lparr>m_cs := MSGPACK_ACS_EXT_VALUE\<rparr>)))"

definition exec_length8 :: "'z allocator \<Rightarrow> byte list \<Rightarrow> nat \<Rightarrow> 'z unpack_context \<Rightarrow> 'z exec result" where
  "exec_length8 alloc data n c =
     (if m_cs c = MSGPACK_CS_STR_8 then
        rbind (load8 data n) (\<lambda>tmp. str_length alloc (unat tmp) c)
      else if m_cs c = MSGPACK_CS_BIN_8 then
        rbind (load8 data n) (\<lambda>tmp. bin_length alloc (unat tmp) c)
      else
        rbind (load8 data n) (\<lambda>tmp. ext_length alloc (unat tmp + 1) c))"

definition exec_length16 :: "'z allocator \<Rightarrow> byte list \<Rightarrow> nat \<Rightarrow> 'z unpack_context \<Rightarrow> 'z exec result" where
  "exec_length16 alloc data n c =
     (if m_cs c = MSGPACK_CS_STR_16 then
        rbind (load16 data n) (\<lambda>tmp. str_length alloc (unat tmp) c)
      else if m_cs c = MSGPACK_CS_BIN_16 then
        rbind (load16 data n) (\<lambda>tmp. bin_length alloc (unat tmp) c)
      else
        rbind (load16 data n) (\<lambda>tmp. ext_length alloc (unat tmp + 1) c))"

definition exec_length32 :: "'z allocator \<Rightarrow> byte list \<Rightarrow> nat \<Rightarrow> 'z unpack_context \<Rightarrow> 'z exec result" where
  "exec_length32 alloc data n c =
     (if m_cs c = MSGPACK_CS_STR_32 then
        rbind (load32 data n) (\<lambda>tmp. str_length alloc (unat tmp) c)
      else if m_cs c = MSGPACK_CS_BIN_32 then
        rbind (load32 data n) (\<lambda>tmp. bin_length alloc (unat tmp) c)
      else
        rbind (load32 data n) (\<lambda>tmp. ext_length alloc (unat tmp + 1) c))"

definition exec_body_value :: "'z allocator \<Rightarrow> byte list \<Rightarrow> nat \<Rightarrow> 'z unpack_context \<Rightarrow> 'z exec result" where
  "exec_body_value alloc data n c =
     (if m_cs c = MSGPACK_ACS_STR_VALUE then
        rbind (read_bytes data n (m_trail c)) (\<lambda>p. push_result (unpack_str alloc (m_user c) p) c)
      else if m_cs c = MSGPACK_ACS_BIN_VALUE then
        rbind (read_bytes data n (m_trail c)) (\<lambda>p. push_result (unpack_bin alloc (m_user c) p) c)
      else
        rbind (read_bytes data n (m_trail c)) (\<lambda>p. push_result (unpack_ext alloc (m_user c) p) c))"

definition exec_container :: "'z allocator \<Rightarrow> byte list \<Rightarrow> nat \<Rightarrow> 'z unpack_context \<Rightarrow> 'z exec result" where
  "exec_container alloc data n c =
     (if m_cs c = MSGPACK_CS_ARRAY_16 then
        rbind (load16 data n) (\<lambda>tmp. push_aggregate (unpack_array alloc) CT_ARRAY_ITEM (unat tmp) c)
      else if m_cs c = MSGPACK_CS_ARRAY_32 then
        rbind (load32 data n) (\<lambda>tmp. push_aggregate (unpack_array alloc) CT_ARRAY_ITEM (unat tmp) c)
      else if m_cs c = MSGPACK_CS_MAP_16 then
        rbind (load16 data n) (\<lambda>tmp. push_aggregate (unpack_map alloc) CT_MAP_KEY (unat tmp) c)
      else
        rbind (load32 data n) (\<lambda>tmp. push_aggregate (unpack_map alloc) CT_MAP_KEY (unat tmp) c))"

text \<open>The \<open>switch\<close> on the state, and what stands before it.\<close>

definition exec_switch :: "'z allocator \<Rightarrow> byte list \<Rightarrow> nat \<Rightarrow> 'z unpack_context \<Rightarrow> 'z exec result" where
  "exec_switch alloc data n c =
     (if m_cs c \<in> {MSGPACK_CS_FLOAT..MSGPACK_CS_INT_64} then exec_number data n c
      else if m_cs c \<in> {MSGPACK_CS_FIXEXT_1..MSGPACK_CS_FIXEXT_16} then exec_fixext alloc data n c
      else if m_cs c \<in> {MSGPACK_CS_STR_8, MSGPACK_CS_BIN_8, MSGPACK_CS_EXT_8} then
        exec_length8 alloc data n c
      else if m_cs c \<in> {MSGPACK_CS_STR_16, MSGPACK_CS_BIN_16, MSGPACK_CS_EXT_16} then
        exec_length16 alloc data n c
      else if m_cs c \<in> {MSGPACK_CS_STR_32, MSGPACK_CS_BIN_32, MSGPACK_CS_EXT_32} then
        exec_length32 alloc data n c
      else if m_cs c \<in> {MSGPACK_ACS_STR_VALUE..MSGPACK_ACS_EXT_VALUE} then
        exec_body_value alloc data n c
      else if m_cs c \<in> {MSGPACK_CS_ARRAY_16..MSGPACK_CS_MAP_32} then exec_container alloc data n c
      else Inr (Return (-1) (m_current c) c))"

definition exec_value :: "'z allocator \<Rightarrow> byte list \<Rightarrow> bool \<Rightarrow> 'z unpack_context \<Rightarrow> 'z exec result" where
  "exec_value alloc data fixed_trail_again c =
     (let c = (if fixed_trail_again then c\<lparr>m_current := m_current c + 1\<rparr> else c) in
      if length data < m_current c then Inl (UB Out_Of_Bounds)
      else if length data - m_current c < m_trail c then Inr (Return 0 (m_current c) c)
      else
        exec_switch alloc data (m_current c) (c\<lparr>m_current := m_current c + m_trail c - 1\<rparr>))"

definition exec_pass :: "'z allocator \<Rightarrow> byte list \<Rightarrow> bool \<Rightarrow> 'z unpack_context \<Rightarrow> 'z exec result" where
  "exec_pass alloc data fixed_trail_again c =
     (if m_cs c = MSGPACK_CS_HEADER then
        rbind (exec_header alloc data c) (\<lambda>r.
          case r of
            Next fta c \<Rightarrow>
              if m_cs c \<noteq> MSGPACK_CS_HEADER \<or> fta then exec_value alloc data fta c
              else Inr (Next fta c)
          | Return ret off c \<Rightarrow> Inr (Return ret off c))
      else exec_value alloc data fixed_trail_again c)"

text \<open>The loop: it returns 0 at the end of the buffer. \<open>None\<close> would be a run without end.\<close>

partial_function (option) exec_loop ::
    "'z allocator \<Rightarrow> byte list \<Rightarrow> bool \<Rightarrow> 'z unpack_context \<Rightarrow> (int \<times> nat \<times> 'z unpack_context) result option" where
  "exec_loop alloc data fixed_trail_again c =
     (case exec_pass alloc data fixed_trail_again c of
        Inl e \<Rightarrow> Some (Inl e)
      | Inr (Return ret off c) \<Rightarrow> Some (Inr (ret, off, c))
      | Inr (Next fta c) \<Rightarrow>
          if m_current c \<noteq> length data then exec_loop alloc data fta c
          else Some (Inr (0, m_current c, c)))"

definition execute ::
    "'z allocator \<Rightarrow> byte list \<Rightarrow> nat \<Rightarrow> 'z unpack_context \<Rightarrow> (int \<times> nat \<times> 'z unpack_context) result option" where
  "execute alloc data off c =
     (if length data < off then Some (Inl (UB Assertion_Failed))
      else
        let c = c\<lparr>m_current := off\<rparr> in
        if m_current c = length data then Some (Inr (0, m_current c, c))
        else exec_loop alloc data False c)"

section \<open>Unpacking a buffer\<close>

datatype parse_return = PARSE_SUCCESS | PARSE_EXTRA_BYTES | PARSE_CONTINUE | PARSE_PARSE_ERROR

text \<open>
  The results: what is returned, the offset, the object and whether it refers to
  the buffer; all keep what the caller had when they are not set.
\<close>

definition unpack_imp ::
    "'z allocator \<Rightarrow> byte list \<Rightarrow> nat \<Rightarrow> 'z \<Rightarrow> object \<Rightarrow> bool
     \<Rightarrow> (object_type \<Rightarrow> nat \<Rightarrow> bool) option \<Rightarrow> unpack_limit
     \<Rightarrow> (parse_return \<times> nat \<times> object \<times> bool) result option" where
  "unpack_imp alloc data off z result refd f lim =
     (if length data \<le> off then Some (Inr (PARSE_CONTINUE, off, result, refd))
      else
        let ctx = context_init (context_new f lim z) in
        case execute alloc data off ctx of
          None \<Rightarrow> None
        | Some (Inl e) \<Rightarrow> Some (Inl e)
        | Some (Inr (e, noff, ctx)) \<Rightarrow>
            if e < 0 then Some (Inr (PARSE_PARSE_ERROR, off, result, False))
            else
              let refd = referenced (m_user ctx) in
              if e = 0 then Some (Inr (PARSE_CONTINUE, noff, result, refd))
              else if noff < length data then
                Some (Inr (PARSE_EXTRA_BYTES, noff, context_data ctx, refd))
              else Some (Inr (PARSE_SUCCESS, noff, context_data ctx, refd)))"

definition unpack ::
    "'z allocator \<Rightarrow> byte list \<Rightarrow> nat \<Rightarrow> 'z
     \<Rightarrow> (object_type \<Rightarrow> nat \<Rightarrow> bool) option \<Rightarrow> unpack_limit
     \<Rightarrow> (object \<times> nat \<times> bool) result option" where
  "unpack alloc data off z f lim =
     (case unpack_imp alloc data off z NIL False f lim of
        None \<Rightarrow> None
      | Some (Inl e) \<Rightarrow> Some (Inl e)
      | Some (Inr (ret, noff, x, refd)) \<Rightarrow>
          Some
            (case ret of
               PARSE_SUCCESS \<Rightarrow> Inr (x, noff, refd)
             | PARSE_EXTRA_BYTES \<Rightarrow> Inr (x, noff, refd)
             | PARSE_CONTINUE \<Rightarrow> Inl (Throw Insufficient_Bytes)
             | PARSE_PARSE_ERROR \<Rightarrow> Inl (Throw Parse_Error)))"

end
