(* ===== verification/Msgpack_Safe.thy ===== *)
theory Msgpack_Safe
  imports Msgpack_Unpack
begin

unbundle bit_operations_syntax

text \<open>
  The decoder on arbitrary bytes: it always ends, never reads outside the buffer,
  and throws only what its limits and its allocator throw.
\<close>

section \<open>Invariant\<close>

text \<open>The allocator is well behaved for the alignments the decoder uses: it succeeds or throws.\<close>

definition thrown :: "fault \<Rightarrow> bool" where
  "thrown e \<longleftrightarrow> (\<exists>x. e = Throw x)"

definition sound_allocator :: "'z allocator \<Rightarrow> bool" where
  "sound_allocator alloc \<longleftrightarrow>
     (\<forall>z n. \<forall>a \<in> {alignof_char, alignof_object}. \<forall>e. alloc z n a = Inl e \<longrightarrow> thrown e)"

text \<open>The bytes that the state needs.\<close>

definition trail_ok :: "nat \<Rightarrow> nat \<Rightarrow> bool" where
  "trail_ok cs trail \<longleftrightarrow>
     (if cs \<in> {4..31} then trail = trail_table ! (cs - 4) else cs \<in> {32..34} \<and> 0 < trail)"

definition decoder_inv :: "byte list \<Rightarrow> bool \<Rightarrow> 'z unpack_context \<Rightarrow> bool" where
  "decoder_inv data fta c \<longleftrightarrow>
     m_current c \<le> length data \<and> m_stack c \<noteq> [] \<and>
     (m_cs c \<noteq> 0 \<longrightarrow> trail_ok (m_cs c) (m_trail c)) \<and>
     (fta \<longrightarrow> m_cs c \<noteq> 0 \<and> m_current c < length data)"

definition remaining :: "byte list \<Rightarrow> bool \<Rightarrow> 'z unpack_context \<Rightarrow> nat" where
  "remaining data fta c = 2 * (length data - m_current c) + (if fta then 0 else 1)"

definition good_exec :: "byte list \<Rightarrow> nat \<Rightarrow> 'z exec result \<Rightarrow> bool" where
  "good_exec data m r \<longleftrightarrow>
     (case r of
        Inl e \<Rightarrow> thrown e
      | Inr (Return ret off c) \<Rightarrow>
          off = m_current c \<and> off \<le> length data \<and> m_stack c \<noteq> [] \<and> (ret = 0 \<longrightarrow> decoder_inv data False c)
      | Inr (Next fta c) \<Rightarrow> decoder_inv data fta c \<and> remaining data fta c < m)"

lemma trail_ok_pos: "trail_ok cs trail \<Longrightarrow> 0 < trail"
proof -
  have all: "\<forall>i < 28. 0 < trail_table ! i"
    by (simp add: trail_table_def numeral_eq_Suc All_less_Suc)
  assume "trail_ok cs trail"
  moreover have "0 < trail_table ! (cs - 4)" if "cs \<in> {4..31}"
  proof -
    have "cs - 4 < 28" using that by auto
    then show ?thesis using all by blast
  qed
  ultimately show ?thesis by (auto simp: trail_ok_def split: if_splits)
qed

lemma unat_low_bits:
  "unat (b AND 0x1f :: byte) = unat b mod 32"
  "unat (b AND 0x0f :: byte) = unat b mod 16"
proof -
  have mask: "(0x1f :: byte) = mask 5" "(0x0f :: byte) = mask 4"
    by (simp_all add: mask_eq_exp_minus_1)
  show "unat (b AND 0x1f) = unat b mod 32" "unat (b AND 0x0f) = unat b mod 16"
    by (simp_all only: mask take_bit_eq_mask [symmetric] unsigned_take_bit_eq)
      (simp_all add: take_bit_eq_mod)
qed

lemma mod_32_header:
  assumes "0xc4 \<le> k" "k \<le> 0xdf"
  shows "k mod 32 = k - (0xc0 :: nat)"
proof -
  define j where "j = k - 0xc0"
  have "k = j + 6 * 32" "j < 32" using assms by (simp_all add: j_def)
  then have "k mod 32 = j mod 32" by (simp only: mod_mult_self1)
  with \<open>j < 32\<close> show ?thesis by (simp add: j_def)
qed

lemma trail_ok_header:
  assumes "0xc4 \<le> unat b" "unat b \<le> 0xdf"
  shows "trail_ok (next_cs b) (trail_table ! (unat b - 0xc4))" and "next_cs b = unat b - 0xc0"
proof -
  have "next_cs b = unat b mod 32"
    by (simp add: next_cs_def unat_low_bits)
  also have "\<dots> = unat b - 0xc0" using assms by (rule mod_32_header)
  finally show "next_cs b = unat b - 0xc0" .
  with assms show "trail_ok (next_cs b) (trail_table ! (unat b - 0xc4))"
    by (auto simp: trail_ok_def)
qed

section \<open>Items\<close>

lemma push_item_stack:
  "push_item st x = (ret, y, st') \<Longrightarrow> st \<noteq> [] \<Longrightarrow> st' \<noteq> [] \<and> ret \<in> {1, 0, -1}"
  by (induction st x arbitrary: ret y st' rule: push_item.induct)
    (auto simp: Let_def split: option.splits container_type.splits if_splits)

lemma set_bottom_nonempty: "set_bottom x st \<noteq> []"
  by (simp add: set_bottom_def)

lemma good_push_proc:
  assumes "m_stack c \<noteq> []" "m_current c < length data"
    and "2 * (length data - Suc (m_current c)) + 1 < m"
  shows "good_exec data m (Inr (push_proc x c))"
proof -
  obtain ret y st where p: "push_item (m_stack c) x = (ret, y, st)" by (metis prod_cases3)
  with assms have "st \<noteq> []" "ret \<in> {1, 0, -1}"
    using push_item_stack [OF p] by auto
  then show ?thesis
    using assms by (auto simp: good_exec_def push_proc_def p decoder_inv_def remaining_def
        set_bottom_nonempty)
qed

lemma good_push_result:
  assumes "m_stack c \<noteq> []" "m_current c < length data"
    and "2 * (length data - Suc (m_current c)) + 1 < m"
    and "\<And>e. r = Inl e \<Longrightarrow> thrown e"
  shows "good_exec data m (push_result r c)"
proof (cases r)
  case (Inl e)
  then show ?thesis using assms(4) by (simp add: push_result_def good_exec_def)
next
  case (Inr a)
  obtain x u where a: "a = (x, u)" by force
  have "good_exec data m (Inr (push_proc x (c\<lparr>m_user := u\<rparr>)))"
    by (rule good_push_proc) (use assms in simp_all)
  then show ?thesis by (simp add: push_result_def Inr a)
qed

lemma good_push_aggregate:
  assumes "m_stack c \<noteq> []" "m_current c < length data"
    and "2 * (length data - Suc (m_current c)) + 1 < m"
    and "\<And>e. f (m_user c) n = Inl e \<Longrightarrow> thrown e"
  shows "good_exec data m (push_aggregate f ct n c)"
proof (cases "f (m_user c) n")
  case (Inl e)
  then show ?thesis using assms(4) by (simp add: push_aggregate_def good_exec_def)
next
  case (Inr a)
  obtain x u where a: "a = (x, u)" by force
  let ?c = "c\<lparr>m_user := u, m_stack := (hd (m_stack c))\<lparr>obj := x\<rparr> # tl (m_stack c)\<rparr>"
  have "good_exec data m (Inr (push_proc y ?c))" for y
    by (rule good_push_proc) (use assms in simp_all)
  then show ?thesis
    using assms
    by (auto simp: push_aggregate_def Inr a Let_def good_exec_def decoder_inv_def remaining_def
        thrown_def)
qed

lemma unpack_throws:
  assumes "sound_allocator alloc"
  shows "unpack_array alloc u n = Inl e \<Longrightarrow> thrown e"
    and "unpack_map alloc u n = Inl e \<Longrightarrow> thrown e"
    and "unpack_str alloc u p = Inl e \<Longrightarrow> thrown e"
    and "unpack_bin alloc u p = Inl e \<Longrightarrow> thrown e"
    and "unpack_ext alloc u p = Inl e \<Longrightarrow> thrown e"
  using assms
  by (auto simp: unpack_array_def unpack_map_def unpack_str_def unpack_bin_def unpack_ext_def
      allocate_def sound_allocator_def thrown_def Let_def split: if_splits)

section \<open>One pass\<close>

lemma read_bytes_ok:
  "n + k \<le> length data \<Longrightarrow> read_bytes data n k = Inr (take k (drop n data))"
  by (simp add: read_bytes_def)

definition good_header :: "byte list \<Rightarrow> nat \<Rightarrow> nat \<Rightarrow> 'z exec result \<Rightarrow> bool" where
  "good_header data m i r \<longleftrightarrow>
     (case r of
        Inr (Next True c) \<Rightarrow> decoder_inv data True c \<and> m_current c = i
      | Inr (Next False c) \<Rightarrow> good_exec data m r \<and> m_cs c = 0
      | _ \<Rightarrow> good_exec data m r)"

lemma push_proc_next: "push_proc x c = Next f c' \<Longrightarrow> \<not> f \<and> m_cs c' = 0"
  by (auto simp: push_proc_def Let_def split: prod.splits if_splits)

lemma push_result_next: "push_result r c = Inr (Next f c') \<Longrightarrow> \<not> f \<and> m_cs c' = 0"
  by (cases r) (auto simp: push_result_def dest: push_proc_next)

lemma push_aggregate_next: "push_aggregate g ct n c = Inr (Next f c') \<Longrightarrow> \<not> f \<and> m_cs c' = 0"
  by (cases "g (m_user c) n")
    (auto simp: push_aggregate_def Let_def split: if_splits dest: push_proc_next)

lemma good_headerI:
  assumes "good_exec data m r" "\<And>f c. r = Inr (Next f c) \<Longrightarrow> \<not> f \<and> m_cs c = 0"
  shows "good_header data m i r"
  using assms by (auto simp: good_header_def split: sum.split exec.split bool.split)

lemma exec_header_good:
  assumes alloc: "sound_allocator alloc"
    and inv: "decoder_inv data False c" "m_current c < length data" "m_cs c = 0"
    and m: "2 * (length data - m_current c) \<le> m"
  shows "good_header data m (m_current c) (exec_header alloc data c)"
proof -
  obtain b where b: "load8 data (m_current c) = Inr b"
    using inv(2) by (simp add: load8_def read_bytes_ok)
  obtain n where n: "load_fix data (m_current c) = Inr n"
    using inv(2) by (simp add: load_fix_def read_bytes_ok)
  have m': "2 * (length data - Suc (m_current c)) + 1 < m" using inv(2) m by linarith
  have st: "m_stack c \<noteq> []" using inv(1) by (simp add: decoder_inv_def)
  have push: "good_header data m i (Inr (push_proc x c))" for x i
    by (rule good_headerI, rule good_push_proc [OF st inv(2) m']) (auto dest: push_proc_next)
  have aggr: "good_header data m i (push_aggregate (unpack_array alloc) CT_ARRAY_ITEM n c)"
    "good_header data m i (push_aggregate (unpack_map alloc) CT_MAP_KEY n c)" for i
    using unpack_throws [OF alloc]
    by (auto intro!: good_headerI good_push_aggregate [OF st inv(2) m'] dest: push_aggregate_next)
  have str0: "good_header data m i (push_result (unpack_str alloc (m_user c) []) (c\<lparr>m_trail := t\<rparr>))" for i t
    using unpack_throws [OF alloc] inv(2) m' st
    by (intro good_headerI good_push_result) (auto dest: push_result_next)
  have str: "good_header data m (m_current c)
      (Inr (Next True (c\<lparr>m_trail := t, m_cs := MSGPACK_ACS_STR_VALUE\<rparr>)))" if "t \<noteq> 0" for t
    using inv that by (simp add: good_header_def decoder_inv_def trail_ok_def)
  have val: "good_header data m (m_current c)
      (Inr (Next True (c\<lparr>m_trail := trail_table ! (unat b - 0xc4), m_cs := next_cs b\<rparr>)))"
    if "0xc4 \<le> unat b" "unat b \<le> 0xdf"
    using inv that trail_ok_header [OF that] by (simp add: good_header_def decoder_inv_def)
  have err: "good_header data m i (Inr (Return (-1) (m_current c) c))" for i
    using inv st by (simp add: good_header_def good_exec_def)
  show ?thesis
    unfolding exec_header_def b n rbind.simps Let_def
    using push aggr str0 str val err by simp
qed

section \<open>The value\<close>

text \<open>The value of \<open>m_trail c\<close> bytes at \<open>n\<close> is in the buffer; \<open>m_current\<close> is at its last byte.\<close>

definition ready :: "byte list \<Rightarrow> nat \<Rightarrow> 'z unpack_context \<Rightarrow> nat \<Rightarrow> bool" where
  "ready data n c m \<longleftrightarrow>
     m_stack c \<noteq> [] \<and> trail_ok (m_cs c) (m_trail c) \<and>
     n + m_trail c \<le> length data \<and> m_current c + 1 = n + m_trail c \<and>
     2 * (length data - m_current c) < m"

lemma ready_pushes:
  assumes "ready data n c m"
  shows "good_exec data m (Inr (push_proc x c))"
    and "(\<And>e. r = Inl e \<Longrightarrow> thrown e) \<Longrightarrow> good_exec data m (push_result r c)"
    and "(\<And>e. f (m_user c) k = Inl e \<Longrightarrow> thrown e) \<Longrightarrow> good_exec data m (push_aggregate f ct k c)"
proof -
  have c: "m_stack c \<noteq> []" "m_current c < length data"
    "2 * (length data - Suc (m_current c)) + 1 < m"
    using assms by (auto simp: ready_def)
  show "good_exec data m (Inr (push_proc x c))" by (rule good_push_proc [OF c])
  show "(\<And>e. r = Inl e \<Longrightarrow> thrown e) \<Longrightarrow> good_exec data m (push_result r c)"
    by (rule good_push_result [OF c])
  show "(\<And>e. f (m_user c) k = Inl e \<Longrightarrow> thrown e) \<Longrightarrow> good_exec data m (push_aggregate f ct k c)"
    by (rule good_push_aggregate [OF c])
qed

lemma ready_length:
  assumes "ready data n c m" "sound_allocator alloc"
  shows "good_exec data m (str_length alloc k c)"
    and "good_exec data m (bin_length alloc k c)"
    and "good_exec data m (ext_length alloc k c)"
proof -
  have again: "good_exec data m (Inr (Next True (c\<lparr>m_trail := k, m_cs := s\<rparr>)))"
    if "s \<in> {32..34}" "k \<noteq> 0" for s
    using assms(1) that by (auto simp: ready_def good_exec_def decoder_inv_def remaining_def trail_ok_def)
  have push: "good_exec data m (push_result r (c\<lparr>m_trail := t\<rparr>))" if "\<And>e. r = Inl e \<Longrightarrow> thrown e" for r t
    using assms(1) that
    by (intro good_push_result) (auto simp: ready_def)
  note throws = unpack_throws [OF assms(2)]
  show "good_exec data m (str_length alloc k c)" "good_exec data m (bin_length alloc k c)"
    "good_exec data m (ext_length alloc k c)"
    using again push throws by (simp_all add: str_length_def bin_length_def ext_length_def Let_def)
qed

lemma load_ok:
  "n + 1 \<le> length data \<Longrightarrow> \<exists>x. load8 data n = Inr x"
  "n + 2 \<le> length data \<Longrightarrow> \<exists>y. load16 data n = Inr y"
  "n + 4 \<le> length data \<Longrightarrow> \<exists>z. load32 data n = Inr z"
  "n + 8 \<le> length data \<Longrightarrow> \<exists>w. load64 data n = Inr w"
  by (simp_all add: load8_def load16_def load32_def load64_def read_bytes_ok)

lemma number_states:
  assumes "k \<in> {10..19}"
  shows "k \<in> {10, 11, 12, 13, 14, 15, 16, 17, 18, 19 :: nat}"
proof -
  have "\<forall>k < 20. 10 \<le> k \<longrightarrow> k \<in> {10, 11, 12, 13, 14, 15, 16, 17, 18, 19 :: nat}"
    by (simp add: numeral_eq_Suc All_less_Suc)
  with assms show ?thesis by auto
qed

lemma all_states:
  assumes "k \<in> {4..34}"
  shows "k \<in> {10..19} \<or> k \<in> {20, 21, 22, 23, 24} \<or> k \<in> {25, 4, 7} \<or>
    k \<in> {26, 5, 8} \<or> k \<in> {27, 6, 9} \<or> k \<in> {32..34} \<or> k \<in> {28, 29, 30, 31 :: nat}"
proof -
  have "\<forall>k < 35. 4 \<le> k \<longrightarrow> k \<in> {10..19} \<or> k \<in> {20, 21, 22, 23, 24} \<or> k \<in> {25, 4, 7} \<or>
    k \<in> {26, 5, 8} \<or> k \<in> {27, 6, 9} \<or> k \<in> {32..34} \<or> k \<in> {28, 29, 30, 31 :: nat}"
    by (simp add: numeral_eq_Suc All_less_Suc)
  with assms show ?thesis by auto
qed

lemma switch_number:
  assumes "ready data n c m" "m_cs c \<in> {10..19}"
  shows "good_exec data m (exec_number data n c)"
proof -
  from number_states [OF assms(2)] have "m_cs c \<in> {10, 11, 12, 13, 14, 15, 16, 17, 18, 19}" .
  then show ?thesis
    using assms(1) ready_pushes(1) [OF assms(1)] load_ok [of n data]
    by (auto simp: exec_number_def ready_def trail_ok_def trail_table_def)
qed

lemma switch_good:
  assumes alloc: "sound_allocator alloc" and ready: "ready data n c m"
  shows "good_exec data m (exec_switch alloc data n c)"
proof -
  note push = ready_pushes [OF ready] and len = ready_length [OF ready alloc]
    and throws = unpack_throws [OF alloc] and loads = load_ok [of n data]
  have ext: "good_exec data m (exec_ext alloc data n k c)" if "n + k \<le> length data" for k
    using push(2) throws(5) that by (simp add: exec_ext_def read_bytes_ok)
  have fixext: "good_exec data m (exec_fixext alloc data n c)" if "m_cs c \<in> {20, 21, 22, 23, 24}"
    using that ready by (auto simp: exec_fixext_def ready_def trail_ok_def trail_table_def intro!: ext)
  have len8: "good_exec data m (exec_length8 alloc data n c)" if "m_cs c \<in> {25, 4, 7}"
    using that ready loads(1) len
    by (auto simp: exec_length8_def ready_def trail_ok_def trail_table_def)
  have len16: "good_exec data m (exec_length16 alloc data n c)" if "m_cs c \<in> {26, 5, 8}"
    using that ready loads(2) len
    by (auto simp: exec_length16_def ready_def trail_ok_def trail_table_def)
  have len32: "good_exec data m (exec_length32 alloc data n c)" if "m_cs c \<in> {27, 6, 9}"
    using that ready loads(3) len
    by (auto simp: exec_length32_def ready_def trail_ok_def trail_table_def)
  have body: "good_exec data m (exec_body_value alloc data n c)"
    using ready push(2) throws by (simp add: exec_body_value_def ready_def read_bytes_ok)
  have container: "good_exec data m (exec_container alloc data n c)" if "m_cs c \<in> {28, 29, 30, 31}"
    using that ready loads(2,3) push(3) throws
    by (auto simp: exec_container_def ready_def trail_ok_def trail_table_def)
  have "m_cs c \<in> {4..34}" using ready by (auto simp: ready_def trail_ok_def split: if_splits)
  from all_states [OF this] consider "m_cs c \<in> {10..19}" | "m_cs c \<in> {20, 21, 22, 23, 24}"
    | "m_cs c \<in> {25, 4, 7}" | "m_cs c \<in> {26, 5, 8}" | "m_cs c \<in> {27, 6, 9}"
    | "m_cs c \<in> {32..34}" | "m_cs c \<in> {28, 29, 30, 31}" by blast
  then show ?thesis
  proof cases
    case 1
    then show ?thesis using switch_number [OF ready] by (simp add: exec_switch_def)
  next
    case 2
    then have "exec_switch alloc data n c = exec_fixext alloc data n c"
      by (elim insertE emptyE) (simp_all add: exec_switch_def)
    then show ?thesis using fixext [OF 2] by simp
  next
    case 3
    then have "exec_switch alloc data n c = exec_length8 alloc data n c"
      by (elim insertE emptyE) (simp_all add: exec_switch_def)
    then show ?thesis using len8 [OF 3] by simp
  next
    case 4
    then have "exec_switch alloc data n c = exec_length16 alloc data n c"
      by (elim insertE emptyE) (simp_all add: exec_switch_def)
    then show ?thesis using len16 [OF 4] by simp
  next
    case 5
    then have "exec_switch alloc data n c = exec_length32 alloc data n c"
      by (elim insertE emptyE) (simp_all add: exec_switch_def)
    then show ?thesis using len32 [OF 5] by simp
  next
    case 6
    then have "exec_switch alloc data n c = exec_body_value alloc data n c"
      by (simp add: exec_switch_def)
    then show ?thesis using body by simp
  next
    case 7
    then have "exec_switch alloc data n c = exec_container alloc data n c"
      by (elim insertE emptyE) (simp_all add: exec_switch_def)
    then show ?thesis using container [OF 7] by simp
  qed
qed

section \<open>The loop\<close>

lemma exec_value_good:
  assumes alloc: "sound_allocator alloc"
    and inv: "decoder_inv data fta c" "m_current c < length data" "m_cs c \<noteq> 0"
    and m: "remaining data fta c \<le> m"
  shows "good_exec data m (exec_value alloc data fta c)"
proof -
  define d where "d = (if fta then c\<lparr>m_current := m_current c + 1\<rparr> else c)"
  have d: "m_stack d \<noteq> []" "m_cs d \<noteq> 0" "m_current d \<le> length data" "trail_ok (m_cs d) (m_trail d)"
    using inv by (auto simp: d_def decoder_inv_def)
  show ?thesis
  proof (cases "length data - m_current d < m_trail d")
    case True
    then show ?thesis
      using d by (simp add: exec_value_def d_def [symmetric] good_exec_def decoder_inv_def)
  next
    case False
    have "0 < m_trail d" using d(4) by (rule trail_ok_pos)
    then have "ready data (m_current d) (d\<lparr>m_current := m_current d + m_trail d - 1\<rparr>) m"
      using False d m by (auto simp: ready_def remaining_def d_def)
    from switch_good [OF alloc this] False d(3) show ?thesis
      by (simp add: exec_value_def d_def [symmetric])
  qed
qed

lemma exec_pass_good:
  assumes alloc: "sound_allocator alloc"
    and inv: "decoder_inv data fta c" "m_current c < length data"
  shows "good_exec data (remaining data fta c) (exec_pass alloc data fta c)"
proof (cases "m_cs c = 0")
  case False
  then show ?thesis
    using exec_value_good [OF alloc inv] by (simp add: exec_pass_def)
next
  case True
  have "\<not> fta" using inv(1) True by (simp add: decoder_inv_def)
  then have rem: "remaining data fta c = 2 * (length data - m_current c) + 1"
    by (simp add: remaining_def)
  have hdr: "good_header data (remaining data fta c) (m_current c) (exec_header alloc data c)"
    by (rule exec_header_good) (use alloc inv True rem \<open>\<not> fta\<close> in simp_all)
  show ?thesis
  proof (cases "\<exists>c'. exec_header alloc data c = Inr (Next True c')")
    case False
    with hdr True show ?thesis
      by (auto simp: exec_pass_def good_header_def good_exec_def
          split: sum.splits exec.splits bool.splits)
  next
    case again: True
    then obtain c' where c': "exec_header alloc data c = Inr (Next True c')" by blast
    with hdr have "decoder_inv data True c'" "m_current c' = m_current c"
      by (simp_all add: good_header_def)
    then have "good_exec data (remaining data fta c) (exec_value alloc data True c')"
      using inv(2) rem by (intro exec_value_good alloc) (auto simp: decoder_inv_def remaining_def)
    then show ?thesis by (simp add: exec_pass_def True c')
  qed
qed

definition good_end :: "byte list \<Rightarrow> (int \<times> nat \<times> 'z unpack_context) result \<Rightarrow> bool" where
  "good_end data r \<longleftrightarrow>
     (case r of
        Inl e \<Rightarrow> thrown e
      | Inr (ret, off, c) \<Rightarrow>
          off = m_current c \<and> off \<le> length data \<and> m_stack c \<noteq> [] \<and> (ret = 0 \<longrightarrow> decoder_inv data False c))"

lemma exec_loop_ends:
  assumes alloc: "sound_allocator alloc"
    and "decoder_inv data fta c" "m_current c < length data"
  shows "\<exists>r. exec_loop alloc data fta c = Some r \<and> good_end data r"
  using assms(2,3)
proof (induction "remaining data fta c" arbitrary: fta c rule: less_induct)
  case less
  note pass = exec_pass_good [OF alloc less.prems]
  show ?case
  proof (cases "exec_pass alloc data fta c")
    case (Inl e)
    then show ?thesis
      using pass by (subst exec_loop.simps) (simp add: good_exec_def good_end_def)
  next
    case (Inr r)
    show ?thesis
    proof (cases r)
      case (Return ret off d)
      then show ?thesis
        using pass Inr by (subst exec_loop.simps) (simp add: good_exec_def good_end_def)
    next
      case (Next f d)
      then have d: "decoder_inv data f d" "remaining data f d < remaining data fta c"
        using pass Inr by (simp_all add: good_exec_def)
      show ?thesis
      proof (cases "m_current d = length data")
        case True
        have "decoder_inv data False d" using d(1) True by (auto simp: decoder_inv_def)
        then show ?thesis
          using Inr Next True
          by (subst exec_loop.simps) (simp add: good_end_def decoder_inv_def)
      next
        case False
        then have "m_current d < length data" using d(1) by (simp add: decoder_inv_def)
        from less.hyps [OF d(2) d(1) this] show ?thesis
          using Inr Next False by (subst exec_loop.simps) simp
      qed
    qed
  qed
qed

lemma execute_ends:
  assumes "sound_allocator alloc" "off \<le> length data" "m_stack c \<noteq> []"
    and "m_cs c \<noteq> 0 \<Longrightarrow> trail_ok (m_cs c) (m_trail c)"
  shows "\<exists>r. execute alloc data off c = Some r \<and> good_end data r"
proof (cases "off = length data")
  case True
  then show ?thesis
    using assms by (auto simp: execute_def good_end_def decoder_inv_def)
next
  case False
  have "\<exists>r. exec_loop alloc data False (c\<lparr>m_current := off\<rparr>) = Some r \<and> good_end data r"
    by (rule exec_loop_ends) (use assms False in \<open>auto simp: decoder_inv_def\<close>)
  then show ?thesis using False assms(2) by (simp add: execute_def)
qed

text \<open>\<open>unpack\<close> ends; it gives an object and an offset inside the buffer, or throws.\<close>

lemma unpack_ends:
  assumes "sound_allocator alloc"
  shows "\<exists>r. unpack alloc data off z f lim = Some r \<and>
    (case r of Inl e \<Rightarrow> thrown e | Inr (_, noff, _) \<Rightarrow> noff \<le> length data)"
proof (cases "length data \<le> off")
  case True
  then show ?thesis by (simp add: unpack_def unpack_imp_def thrown_def)
next
  case False
  have "\<exists>r. execute alloc data off (context_init (context_new f lim z)) = Some r \<and> good_end data r"
    by (rule execute_ends) (use assms False in \<open>simp_all add: context_init_def context_new_def\<close>)
  then obtain r where r: "execute alloc data off (context_init (context_new f lim z)) = Some r"
    "good_end data r" by blast
  show ?thesis
  proof (cases r)
    case (Inl e)
    then show ?thesis using False r by (simp add: unpack_def unpack_imp_def good_end_def)
  next
    case (Inr a)
    obtain e noff c where "a = (e, noff, c)" by (metis prod_cases3)
    then show ?thesis
      using False r Inr
      by (simp add: unpack_def unpack_imp_def good_end_def thrown_def Let_def)
  qed
qed

end
