(* ===== verification/Msgpack_Visitors.thy ===== *)
theory Msgpack_Visitors
  imports Msgpack_Traversal
begin

unbundle bit_operations_syntax

text \<open>
  The visitor of \<open>src/3rd/inc/msgpack/v1/object.hpp\<close> that packs an object: what it
  writes is the recursive encoding \<open>enc\<close>.
\<close>

section \<open>Packing an object\<close>

definition packed :: "('s \<Rightarrow> 's result) \<Rightarrow> 's callback" where
  "packed m s = rbind (m s) go_on"

definition object_pack_visitor :: "'s writer \<Rightarrow> 's visitor" where
  "object_pack_visitor wr =
     \<lparr>visit_nil = packed (pack_nil wr),
      visit_boolean = (\<lambda>v. packed (\<lambda>s. if v then pack_true wr s else pack_false wr s)),
      visit_positive_integer = (\<lambda>v. packed (\<lambda>s. pack_uint64 wr s v)),
      visit_negative_integer = (\<lambda>v. packed (\<lambda>s. pack_int64 wr s v)),
      visit_float32 = (\<lambda>v. packed (\<lambda>s. pack_float wr s v)),
      visit_float64 = (\<lambda>v. packed (\<lambda>s. pack_double wr s v)),
      visit_str = (\<lambda>v size. packed (\<lambda>s. rbind (pack_str wr s size) (\<lambda>s. pack_str_body wr s v size))),
      visit_bin = (\<lambda>v size. packed (\<lambda>s. rbind (pack_bin wr s size) (\<lambda>s. pack_bin_body wr s v size))),
      visit_ext = (\<lambda>v size. packed (\<lambda>s.
        rbind (deref v) (\<lambda>type.
        rbind (pack_ext wr s (ucast (size - 1)) type) (\<lambda>s.
        pack_ext_body wr s (tl v) (size - 1))))),
      start_array = (\<lambda>n. packed (\<lambda>s. pack_array wr s n)),
      start_array_item = go_on, end_array_item = go_on, end_array = go_on,
      start_map = (\<lambda>n. packed (\<lambda>s. pack_map wr s n)),
      start_map_key = go_on, end_map_key = go_on,
      start_map_value = go_on, end_map_value = go_on, end_map = go_on\<rparr>"

definition pack_object :: "'s writer \<Rightarrow> 's \<Rightarrow> object \<Rightarrow> 's result option" where
  "pack_object wr s obj = object_parser_parse (object_pack_visitor wr) obj s"

fun enc :: "object \<Rightarrow> byte list" where
  "enc NIL = [0xc0]"
| "enc (BOOLEAN b) = [if b then 0xc3 else 0xc2]"
| "enc (POSITIVE_INTEGER n) = enc_int (uint n)"
| "enc (NEGATIVE_INTEGER n) = enc_int (sint n)"
| "enc (FLOAT32 f) = 0xca # msgpack_store32 f"
| "enc (FLOAT64 f) = 0xcb # msgpack_store64 f"
| "enc (STR' p) = enc_str (length p) @ p"
| "enc (BIN p) = enc_bin (length p) @ p"
| "enc (EXT p) = enc_ext (length p - 1) (hd p) @ tl p"
| "enc (ARRAY xs) = enc_array (length xs) @ concat (map enc xs)"
| "enc (MAP xs) = enc_map (length xs) @ concat (map (\<lambda>(k, x). enc k @ enc x) xs)"

context stream
begin

definition feeds :: "'s callback \<Rightarrow> byte list \<Rightarrow> bool" where
  "feeds c bs \<longleftrightarrow> (\<exists>m. c = packed m \<and> emits m bs)"

lemma feeds_packed: "emits m bs \<Longrightarrow> feeds (packed m) bs"
  by (auto simp: feeds_def)

lemma feeds_go_on: "feeds go_on []"
proof -
  have "go_on = packed (\<lambda>s. Inr s)" by (simp add: fun_eq_iff packed_def go_on_def)
  then show ?thesis unfolding feeds_def using emits_nothing by blast
qed

lemma feeds_then_call:
  assumes "feeds c bs" "feeds d cs"
  shows "feeds (\<lambda>s. then_call (c s) d) (bs @ cs)"
proof -
  from assms obtain m n where mn: "c = packed m" "emits m bs" "d = packed n" "emits n cs"
    by (auto simp: feeds_def)
  have "(\<lambda>s. then_call (c s) d) = packed (\<lambda>s. rbind (m s) n)"
  proof
    show "then_call (c s) d = packed (\<lambda>s. rbind (m s) n) s" for s
      by (cases "m s") (simp_all add: mn packed_def then_call_def go_on_def)
  qed
  then show ?thesis using feeds_packed emits_seq [OF mn(2,4)] by simp
qed

lemma feeds_items:
  assumes "list_all2 feeds is bss"
  shows "feeds (visit_items go_on go_on is) (concat bss)"
  using assms
proof (induction rule: list_all2_induct)
  case Nil
  have "visit_items go_on go_on [] = go_on" by (simp add: fun_eq_iff go_on_def)
  then show ?case by (metis concat.simps(1) feeds_go_on)
next
  case (Cons i "is" bs bss)
  have "visit_items go_on go_on (i # is) =
      (\<lambda>s. then_call (then_call (then_call (go_on s) i) go_on) (visit_items go_on go_on is))"
    by (simp add: fun_eq_iff)
  moreover have "feeds (\<lambda>s. then_call (then_call (then_call (go_on s) i) go_on)
      (visit_items go_on go_on is)) ((([] @ bs) @ []) @ concat bss)"
    by (intro feeds_then_call feeds_go_on Cons)
  ultimately show ?case by simp
qed

lemma emits_body:
  assumes "length p < 2 ^ 32"
  shows "emits (\<lambda>s. rbind (bytes_at p (unat (size_of p))) (append_buffer wr s)) p"
  using emits_wr [of p] assms by (simp add: unat_size_of bytes_at_def append_buffer_def)

lemma feeds_object:
  "object_ok obj \<Longrightarrow> feeds (visit_object (object_pack_visitor wr) obj) (enc obj)"
proof (induction obj)
  case (EXT p)
  then obtain t q where p: "p = t # q" by (cases p) auto
  with EXT have q: "length q < 2 ^ 32" "ext_size p = size_of q" by (auto simp: ext_size_def size_of_def)
  have l: "unat (ucast (size_of q) :: 64 word) = length q"
    using q(1) by (simp add: unsigned_ucast_eq unat_size_of take_bit_nat_eq_self)
  have "emits (\<lambda>s. rbind (pack_ext wr s (ucast (size_of q)) t)
      (\<lambda>s. pack_ext_body wr s q (size_of q))) (enc_ext (length q) t @ q)"
    unfolding pack_ext_header l pack_ext_body_def
    by (intro emits_seq emits_wr emits_body q(1))
  then show ?case
    by (simp add: visit_leaf p q(2) [unfolded p] object_pack_visitor_def feeds_packed deref_def)
next
  case (ARRAY xs)
  have "feeds (\<lambda>s. then_call (then_call (packed (\<lambda>s. pack_array wr s (size_of xs)) s)
       (visit_items go_on go_on (map (visit_object (object_pack_visitor wr)) xs))) go_on)
     ((enc_array (length xs) @ concat (map enc xs)) @ [])"
  proof (intro feeds_then_call feeds_go_on feeds_packed feeds_items)
    show "emits (\<lambda>s. pack_array wr s (size_of xs)) (enc_array (length xs))"
      unfolding pack_headers using ARRAY.prems emits_wr by (simp add: unat_size_of)
    show "list_all2 feeds (map (visit_object (object_pack_visitor wr)) xs) (map enc xs)"
      using ARRAY by (auto simp: list_all2_conv_all_nth list_all_iff)
  qed
  then show ?case
    by (simp add: object_pack_visitor_def fun_eq_iff)
next
  case (MAP xs)
  let ?visit = "visit_object (object_pack_visitor wr)"
  have pair: "feeds (\<lambda>s. then_call (then_call (then_call (?visit k s) go_on) go_on) (?visit x)) (enc k @ enc x)"
    if "(k, x) \<in> set xs" for k x
  proof -
    have "object_ok k" "object_ok x" using MAP.prems that by (auto simp: list_all_iff)
    moreover have "k \<in> Basic_BNFs.fsts (k, x)" "x \<in> Basic_BNFs.snds (k, x)" by simp_all
    ultimately have "feeds (?visit k) (enc k)" "feeds (?visit x) (enc x)"
      using that MAP.IH by metis+
    then have "feeds (\<lambda>s. then_call (then_call (then_call (?visit k s) go_on) go_on) (?visit x))
        (((enc k @ []) @ []) @ enc x)"
      by (intro feeds_then_call feeds_go_on)
    then show ?thesis by simp
  qed
  have "feeds (\<lambda>s. then_call (then_call (packed (\<lambda>s. pack_map wr s (size_of xs)) s)
       (visit_items go_on go_on (map (\<lambda>(k, x) s.
          then_call (then_call (then_call (?visit k s) go_on) go_on) (?visit x)) xs))) go_on)
     ((enc_map (length xs) @ concat (map (\<lambda>(k, x). enc k @ enc x) xs)) @ [])"
  proof (intro feeds_then_call feeds_go_on feeds_packed feeds_items)
    show "emits (\<lambda>s. pack_map wr s (size_of xs)) (enc_map (length xs))"
      unfolding pack_headers using MAP.prems emits_wr by (simp add: unat_size_of)
    show "list_all2 feeds (map (\<lambda>(k, x) s.
          then_call (then_call (then_call (?visit k s) go_on) go_on) (?visit x)) xs)
        (map (\<lambda>(k, x). enc k @ enc x) xs)"
      using pair by (auto simp: list_all2_map1 list_all2_map2 list_all2_same)
  qed
  then show ?case
    by (simp add: object_pack_visitor_def fun_eq_iff)
next
  case NIL
  have "emits (\<lambda>s. pack_nil wr s) [0xc0]"
    unfolding pack_nil_def append_buffer_def by (rule emits_wr)
  then show ?case by (simp add: visit_leaf object_pack_visitor_def feeds_packed)
next
  case (STR' p)
  have "emits (\<lambda>s. rbind (pack_str wr s (size_of p)) (\<lambda>s. pack_str_body wr s p (size_of p)))
      (enc_str (length p) @ p)"
    using STR' unfolding pack_headers pack_str_body_def
    by (intro emits_seq emits_body) (simp_all add: unat_size_of emits_wr)
  then show ?case by (simp add: visit_leaf object_pack_visitor_def feeds_packed)
next
  case (BIN p)
  have "emits (\<lambda>s. rbind (pack_bin wr s (size_of p)) (\<lambda>s. pack_bin_body wr s p (size_of p)))
      (enc_bin (length p) @ p)"
    using BIN unfolding pack_headers pack_bin_body_def
    by (intro emits_seq emits_body) (simp_all add: unat_size_of emits_wr)
  then show ?case by (simp add: visit_leaf object_pack_visitor_def feeds_packed)
qed (auto simp: visit_leaf object_pack_visitor_def pack_int_types pack_imp_uint pack_imp_int
      pack_nil_def pack_true_def pack_false_def pack_float_def pack_double_def append_buffer_def
      intro!: feeds_packed emits_wr)

text \<open>Packing an object ends, and appends its encoding unless memory runs out.\<close>

lemma pack_object_emits:
  assumes "object_ok obj"
  shows "\<exists>m. (\<lambda>s. pack_object wr s obj) = (\<lambda>s. Some (m s)) \<and> emits m (enc obj)"
proof -
  from feeds_object [OF assms] obtain m where
    m: "visit_object (object_pack_visitor wr) obj = packed m" "emits m (enc obj)"
    by (auto simp: feeds_def)
  have "pack_object wr s obj = Some (m s)" for s
    by (cases "m s") (simp_all add: pack_object_def object_parser_visits assms m packed_def go_on_def)
  with m(2) show ?thesis by blast
qed

end

end
