(* ===== verification/Msgpack_Roundtrip.thy ===== *)
theory Msgpack_Roundtrip
  imports Msgpack_Safe Msgpack_Visitors
begin

unbundle bit_operations_syntax

text \<open>
  The decoder on the encoding of an object: whatever the bytes before and after,
  it hands exactly that object to the container that waits for it.
\<close>

section \<open>Arriving at an object\<close>

definition finish :: "'z allocator \<Rightarrow> byte list \<Rightarrow> 'z exec \<Rightarrow> (int \<times> nat \<times> 'z unpack_context) result option" where
  "finish alloc data r =
     (case r of
        Return ret off c \<Rightarrow> Some (Inr (ret, off, c))
      | Next fta c \<Rightarrow>
          if m_current c \<noteq> length data then exec_loop alloc data fta c
          else Some (Inr (0, m_current c, c)))"

lemma exec_loop_finish:
  "exec_pass alloc data fta c = Inr r \<Longrightarrow> exec_loop alloc data fta c = finish alloc data r"
  by (subst exec_loop.simps) (simp add: finish_def split: exec.split)

definition same_rules :: "'z unpack_context \<Rightarrow> 'z unpack_context \<Rightarrow> bool" where
  "same_rules c d \<longleftrightarrow> limit (m_user d) = limit (m_user c)"

text \<open>\<open>k\<close> bytes are read, ending at the last one, and \<open>x\<close> is pushed in place of the back frame.\<close>

definition arrives :: "'z allocator \<Rightarrow> byte list \<Rightarrow> 'z unpack_context \<Rightarrow> object \<Rightarrow> nat \<Rightarrow> bool" where
  "arrives alloc data c x k \<longleftrightarrow>
     (\<exists>d. exec_loop alloc data False c = finish alloc data (push_proc x d) \<and>
        m_stack d \<noteq> [] \<and> tl (m_stack d) = tl (m_stack c) \<and>
        m_current d + 1 = m_current c + k \<and> same_rules c d)"

lemma arrivesI:
  assumes "exec_pass alloc data False c = Inr (push_proc x d)"
    and "m_stack d \<noteq> []" "tl (m_stack d) = tl (m_stack c)"
    and "m_current d + 1 = m_current c + k" "same_rules c d"
  shows "arrives alloc data c x k"
  using assms exec_loop_finish [OF assms(1)] unfolding arrives_def by blast

text \<open>Where the decoder stands: at the start of an object, at the bytes \<open>bs\<close>.\<close>

definition stands :: "byte list \<Rightarrow> 'z unpack_context \<Rightarrow> byte list \<Rightarrow> bool" where
  "stands data c bs \<longleftrightarrow>
     m_cs c = 0 \<and> m_stack c \<noteq> [] \<and>
     (\<exists>pre suf. data = pre @ bs @ suf \<and> m_current c = length pre)"

lemma stands_append: "stands data c (bs @ cs) \<Longrightarrow> stands data c bs"
  by (auto simp: stands_def)

lemma stands_read:
  assumes "stands data c bs" "k + n \<le> length bs"
  shows "read_bytes data (m_current c + k) n = Inr (take n (drop k bs))"
  using assms by (auto simp: stands_def read_bytes_def)

lemma stands_length: "stands data c bs \<Longrightarrow> m_current c + length bs \<le> length data"
  by (auto simp: stands_def)

lemma stands_load8:
  assumes "stands data c (b # bs)"
  shows "load8 data (m_current c) = Inr b"
  using stands_read [OF assms, of 0 1] by (simp add: load8_def)

lemma exec_pass_value:
  assumes at: "stands data c (b # body)"
    and b: "0xc4 \<le> unat b" "unat b \<le> 0xdf"
    and len: "length body = trail_table ! (unat b - 0xc4)"
  shows "exec_pass alloc data False c = exec_switch alloc data (m_current c + 1)
    (c\<lparr>m_trail := length body, m_cs := unat b - 0xc0, m_current := m_current c + length body\<rparr>)"
proof -
  let ?c = "c\<lparr>m_trail := length body, m_cs := unat b - 0xc0\<rparr>"
  have hdr: "exec_header alloc data c = Inr (Next True ?c)"
    using b len trail_ok_header(2) [OF b] by (simp add: exec_header_def stands_load8 [OF at] Let_def)
  have "0 < length body"
    using trail_ok_pos [OF trail_ok_header(1) [OF b]] len by simp
  moreover have "Suc (m_current c + length body) \<le> length data" using stands_length [OF at] by simp
  moreover from this have "\<not> length data - Suc (m_current c) < length body" by linarith
  moreover have "m_cs ?c \<noteq> 0" using b by simp
  ultimately show ?thesis
    using at by (simp add: exec_pass_def stands_def hdr exec_value_def Let_def)
qed

section \<open>Integers\<close>

definition int_object :: "int \<Rightarrow> object" where
  "int_object i = (if i < 0 then NEGATIVE_INTEGER (word_of_int i) else POSITIVE_INTEGER (word_of_int i))"

lemma load_store_id:
  "msgpack_load16 (msgpack_store16 a) = a"
  "msgpack_load32 (msgpack_store32 b) = b"
  "msgpack_load64 (msgpack_store64 c) = c"
  using msgpack_load_store [where rest = "[]"] by simp_all

lemma unpack_unsigned:
  assumes "0 \<le> i"
  shows "i < 2 ^ 8 \<Longrightarrow> unpack_uint8 (word_of_int i) = int_object i"
    and "i < 2 ^ 16 \<Longrightarrow> unpack_uint16 (word_of_int i) = int_object i"
    and "i < 2 ^ 32 \<Longrightarrow> unpack_uint32 (word_of_int i) = int_object i"
    and "unpack_uint64 (word_of_int i) = int_object i"
  using assms
  by (simp_all add: unpack_uint8_def unpack_uint16_def unpack_uint32_def unpack_uint64_def
      int_object_def ucast_eq unsigned_of_int take_bit_int_eq_self)

lemma unpack_signed:
  assumes "i < 0"
  shows "- (2 ^ 7) \<le> i \<Longrightarrow> unpack_int8 (word_of_int i) = int_object i"
    and "- (2 ^ 15) \<le> i \<Longrightarrow> unpack_int16 (word_of_int i) = int_object i"
    and "- (2 ^ 31) \<le> i \<Longrightarrow> unpack_int32 (word_of_int i) = int_object i"
    and "- (2 ^ 63) \<le> i \<Longrightarrow> unpack_int64 (word_of_int i) = int_object i"
  using assms
  by (simp_all add: unpack_int8_def unpack_int16_def unpack_int32_def unpack_int64_def
      int_object_def scast_eq signed_of_int signed_take_bit_int_eq_self)

lemma arrives_value:
  assumes at: "stands data c (b # body)"
    and b: "0xc4 \<le> unat b" "unat b \<le> 0xdf"
    and len: "length body = trail_table ! (unat b - 0xc4)"
    and switch: "\<And>d. m_cs d = unat b - 0xc0 \<Longrightarrow>
      exec_switch alloc data (m_current c + 1) d = Inr (push_proc x d)"
  shows "arrives alloc data c x (length (b # body))"
  by (rule arrivesI [OF exec_pass_value [OF at b len, THEN trans, OF switch]])
    (use at in \<open>simp_all add: stands_def same_rules_def\<close>)

lemma arrives_number:
  assumes "stands data c (b # body)"
  shows "\<lbrakk>b = 0xca; body = msgpack_store32 w32\<rbrakk> \<Longrightarrow> arrives alloc data c (unpack_float w32) 5"
    and "\<lbrakk>b = 0xcb; body = msgpack_store64 w64\<rbrakk> \<Longrightarrow> arrives alloc data c (unpack_double w64) 9"
    and "\<lbrakk>b = 0xcc; body = [w8]\<rbrakk> \<Longrightarrow> arrives alloc data c (unpack_uint8 w8) (Suc (Suc 0))"
    and "\<lbrakk>b = 0xcd; body = msgpack_store16 w16\<rbrakk> \<Longrightarrow> arrives alloc data c (unpack_uint16 w16) 3"
    and "\<lbrakk>b = 0xce; body = msgpack_store32 w32\<rbrakk> \<Longrightarrow> arrives alloc data c (unpack_uint32 w32) 5"
    and "\<lbrakk>b = 0xcf; body = msgpack_store64 w64\<rbrakk> \<Longrightarrow> arrives alloc data c (unpack_uint64 w64) 9"
    and "\<lbrakk>b = 0xd0; body = [w8]\<rbrakk> \<Longrightarrow> arrives alloc data c (unpack_int8 w8) (Suc (Suc 0))"
    and "\<lbrakk>b = 0xd1; body = msgpack_store16 w16\<rbrakk> \<Longrightarrow> arrives alloc data c (unpack_int16 w16) 3"
    and "\<lbrakk>b = 0xd2; body = msgpack_store32 w32\<rbrakk> \<Longrightarrow> arrives alloc data c (unpack_int32 w32) 5"
    and "\<lbrakk>b = 0xd3; body = msgpack_store64 w64\<rbrakk> \<Longrightarrow> arrives alloc data c (unpack_int64 w64) 9"
proof -
  have read: "read_bytes data (Suc (m_current c)) (length body) = Inr body"
    using stands_read [OF assms, of 1 "length body"] by simp
  note defs = exec_switch_def exec_number_def load8_def load16_def load32_def load64_def
    load_store_id trail_table_def
  show "\<lbrakk>b = 0xca; body = msgpack_store32 w32\<rbrakk> \<Longrightarrow> arrives alloc data c (unpack_float w32) 5"
    using arrives_value [OF assms, of alloc "unpack_float w32"] read by (simp add: defs)
  show "\<lbrakk>b = 0xcb; body = msgpack_store64 w64\<rbrakk> \<Longrightarrow> arrives alloc data c (unpack_double w64) 9"
    using arrives_value [OF assms, of alloc "unpack_double w64"] read by (simp add: defs)
  show "\<lbrakk>b = 0xcc; body = [w8]\<rbrakk> \<Longrightarrow> arrives alloc data c (unpack_uint8 w8) (Suc (Suc 0))"
    using arrives_value [OF assms, of alloc "unpack_uint8 w8"] read by (simp add: defs)
  show "\<lbrakk>b = 0xcd; body = msgpack_store16 w16\<rbrakk> \<Longrightarrow> arrives alloc data c (unpack_uint16 w16) 3"
    using arrives_value [OF assms, of alloc "unpack_uint16 w16"] read by (simp add: defs)
  show "\<lbrakk>b = 0xce; body = msgpack_store32 w32\<rbrakk> \<Longrightarrow> arrives alloc data c (unpack_uint32 w32) 5"
    using arrives_value [OF assms, of alloc "unpack_uint32 w32"] read by (simp add: defs)
  show "\<lbrakk>b = 0xcf; body = msgpack_store64 w64\<rbrakk> \<Longrightarrow> arrives alloc data c (unpack_uint64 w64) 9"
    using arrives_value [OF assms, of alloc "unpack_uint64 w64"] read by (simp add: defs)
  show "\<lbrakk>b = 0xd0; body = [w8]\<rbrakk> \<Longrightarrow> arrives alloc data c (unpack_int8 w8) (Suc (Suc 0))"
    using arrives_value [OF assms, of alloc "unpack_int8 w8"] read by (simp add: defs)
  show "\<lbrakk>b = 0xd1; body = msgpack_store16 w16\<rbrakk> \<Longrightarrow> arrives alloc data c (unpack_int16 w16) 3"
    using arrives_value [OF assms, of alloc "unpack_int16 w16"] read by (simp add: defs)
  show "\<lbrakk>b = 0xd2; body = msgpack_store32 w32\<rbrakk> \<Longrightarrow> arrives alloc data c (unpack_int32 w32) 5"
    using arrives_value [OF assms, of alloc "unpack_int32 w32"] read by (simp add: defs)
  show "\<lbrakk>b = 0xd3; body = msgpack_store64 w64\<rbrakk> \<Longrightarrow> arrives alloc data c (unpack_int64 w64) 9"
    using arrives_value [OF assms, of alloc "unpack_int64 w64"] read by (simp add: defs)
qed

lemma arrives_fixint:
  assumes "stands data c (b # bs)"
  shows "unat b \<le> 0x7f \<Longrightarrow> arrives alloc data c (unpack_uint8 b) 1"
    and "0xe0 \<le> unat b \<Longrightarrow> arrives alloc data c (unpack_int8 b) 1"
proof -
  have b: "unat b \<le> 0xff" using unsigned_less [of b, where ?'a = nat] by simp
  have pass: "exec_pass alloc data False c = Inr (push_proc x c)"
    if "exec_header alloc data c = Inr (push_proc x c)" for x
    using that assms push_proc_next [of x c]
    by (auto simp: exec_pass_def stands_def split: exec.split)
  have c: "m_stack c \<noteq> []" "same_rules c c" using assms by (simp_all add: stands_def same_rules_def)
  show "arrives alloc data c (unpack_uint8 b) 1" if "unat b \<le> 0x7f"
    by (rule arrivesI [OF pass])
      (use that c in \<open>simp_all add: exec_header_def stands_load8 [OF assms] Let_def\<close>)
  show "arrives alloc data c (unpack_int8 b) 1" if "0xe0 \<le> unat b"
    by (rule arrivesI [OF pass])
      (use that b c in \<open>simp_all add: exec_header_def stands_load8 [OF assms] Let_def\<close>)
qed

lemma arrives_int:
  assumes at: "stands data c (enc_int i)" and i: "- (2 ^ 63) \<le> i" "i < 2 ^ 64"
  shows "arrives alloc data c (int_object i) (length (enc_int i))"
proof -
  consider "i < - 2147483648" | "- 2147483648 \<le> i" "i < - 32768" | "- 32768 \<le> i" "i < - 128"
    | "- 128 \<le> i" "i < - 32" | "- 32 \<le> i" "i < 0" | "0 \<le> i" "i < 128" | "128 \<le> i" "i < 256"
    | "256 \<le> i" "i < 65536" | "65536 \<le> i" "i < 4294967296" | "4294967296 \<le> i" by linarith
  then show ?thesis
  proof cases
    case 1
    then have e: "enc_int i = 0xd3 # msgpack_store64 (word_of_int i)" by (simp add: enc_int_def)
    show ?thesis
      using arrives_number(10) [OF at [unfolded e] refl refl] 1 i by (simp add: e unpack_signed)
  next
    case 2
    then have e: "enc_int i = 0xd2 # msgpack_store32 (word_of_int i)" by (simp add: enc_int_def)
    show ?thesis
      using arrives_number(9) [OF at [unfolded e] refl refl] 2 by (simp add: e unpack_signed)
  next
    case 3
    then have e: "enc_int i = 0xd1 # msgpack_store16 (word_of_int i)" by (simp add: enc_int_def)
    show ?thesis
      using arrives_number(8) [OF at [unfolded e] refl refl] 3 by (simp add: e unpack_signed)
  next
    case 4
    then have e: "enc_int i = [0xd0, word_of_int i]" by (simp add: enc_int_def)
    show ?thesis
      using arrives_number(7) [OF at [unfolded e] refl refl] 4
      by (simp add: e unpack_signed)
  next
    case 5
    then have e: "enc_int i = [word_of_int i]" by (simp add: enc_int_def)
    have "unat (word_of_int i :: byte) = nat (i + 256)"
    proof -
      have "i mod 256 = i + 256"
        using 5 mod_pos_pos_trivial [of "i + 256" 256] by simp
      then have "uint (word_of_int i :: byte) = i + 256"
        by (simp add: unsigned_of_int take_bit_eq_mod)
      then show ?thesis by (metis nat_uint_eq)
    qed
    with 5 have "0xe0 \<le> unat (word_of_int i :: byte)" by simp
    then show ?thesis
      using arrives_fixint(2) [OF at [unfolded e]] 5 by (simp add: e unpack_signed)
  next
    case 6
    then have e: "enc_int i = [word_of_int i]" by (simp add: enc_int_def)
    have "uint (word_of_int i :: byte) = i"
      using 6 by (simp add: unsigned_of_int take_bit_int_eq_self)
    then have "unat (word_of_int i :: byte) \<le> 0x7f" using 6 by (simp flip: nat_uint_eq)
    then show ?thesis
      using arrives_fixint(1) [OF at [unfolded e]] 6 by (simp add: e unpack_unsigned)
  next
    case 7
    then have e: "enc_int i = [0xcc, word_of_int i]" by (simp add: enc_int_def)
    show ?thesis
      using arrives_number(3) [OF at [unfolded e] refl refl] 7
      by (simp add: e unpack_unsigned)
  next
    case 8
    then have e: "enc_int i = 0xcd # msgpack_store16 (word_of_int i)" by (simp add: enc_int_def)
    show ?thesis
      using arrives_number(4) [OF at [unfolded e] refl refl] 8 by (simp add: e unpack_unsigned)
  next
    case 9
    then have e: "enc_int i = 0xce # msgpack_store32 (word_of_int i)" by (simp add: enc_int_def)
    show ?thesis
      using arrives_number(5) [OF at [unfolded e] refl refl] 9 by (simp add: e unpack_unsigned)
  next
    case 10
    then have e: "enc_int i = 0xcf # msgpack_store64 (word_of_int i)" by (simp add: enc_int_def)
    show ?thesis
      using arrives_number(6) [OF at [unfolded e] refl refl] 10 by (simp add: e unpack_unsigned)
  qed
qed

section \<open>Strings\<close>

text \<open>An allocator that gives memory of the alignments the decoder asks for.\<close>

definition total_allocator :: "'z allocator \<Rightarrow> bool" where
  "total_allocator alloc \<longleftrightarrow>
     (\<forall>z n. \<forall>a \<in> {alignof_char, alignof_object}. \<exists>z'. alloc z n a = Inr z')"

lemma unpack_string:
  assumes "total_allocator alloc"
  shows "length p \<le> limit_str (limit u) \<Longrightarrow>
      \<exists>u'. unpack_str alloc u p = Inr (STR' p, u') \<and> limit u' = limit u"
    and "length p \<le> limit_bin (limit u) \<Longrightarrow>
      \<exists>u'. unpack_bin alloc u p = Inr (BIN p, u') \<and> limit u' = limit u"
    and "length p \<le> limit_ext (limit u) \<Longrightarrow>
      \<exists>u'. unpack_ext alloc u p = Inr (EXT p, u') \<and> limit u' = limit u"
proof -
  have alloc: "\<exists>u'. allocate alloc u n a = Inr u' \<and> limit u' = limit u"
    if a: "a \<in> {alignof_char, alignof_object}" for n a
  proof -
    from assms obtain z' where "alloc (zone u) n a = Inr z'" using a unfolding total_allocator_def by blast
    then have "allocate alloc u n a = Inr (u\<lparr>zone := z'\<rparr>)" by (simp add: allocate_def)
    then show ?thesis by simp
  qed
  show "length p \<le> limit_str (limit u) \<Longrightarrow>
      \<exists>u'. unpack_str alloc u p = Inr (STR' p, u') \<and> limit u' = limit u"
    using alloc [of alignof_char "length p"] by (auto simp: unpack_str_def Let_def)
  show "length p \<le> limit_bin (limit u) \<Longrightarrow>
      \<exists>u'. unpack_bin alloc u p = Inr (BIN p, u') \<and> limit u' = limit u"
    using alloc [of alignof_char "length p"] by (auto simp: unpack_bin_def Let_def)
  show "length p \<le> limit_ext (limit u) \<Longrightarrow>
      \<exists>u'. unpack_ext alloc u p = Inr (EXT p, u') \<and> limit u' = limit u"
    using alloc [of alignof_char "length p"] by (auto simp: unpack_ext_def Let_def)
qed

lemma exec_loop_eq:
  "exec_pass alloc data f c = exec_pass alloc data g d \<Longrightarrow>
     exec_loop alloc data f c = exec_loop alloc data g d"
  by (subst (1 2) exec_loop.simps) simp

lemma exec_loop_again:
  "exec_pass alloc data f c = Inr (Next g d) \<Longrightarrow> m_current d \<noteq> length data \<Longrightarrow>
     exec_loop alloc data f c = exec_loop alloc data g d"
  by (simp add: exec_loop_finish finish_def)

lemma arrives_body:
  assumes loop: "exec_loop alloc data False c = exec_loop alloc data True d"
    and d: "m_cs d \<in> {32..34}" "m_trail d = length p" "p \<noteq> []" "m_stack d = m_stack c"
      "m_stack c \<noteq> []" "limit (m_user d) = limit (m_user c)"
    and p: "stands data c (hdr @ p)" "m_current d + 1 = m_current c + length hdr"
    and unp: "m_cs d = 32 \<longrightarrow> unpack_str alloc (m_user d) p = Inr (x, u)"
      "m_cs d = 33 \<longrightarrow> unpack_bin alloc (m_user d) p = Inr (x, u)"
      "m_cs d = 34 \<longrightarrow> unpack_ext alloc (m_user d) p = Inr (x, u)"
      "limit u = limit (m_user c)"
  shows "arrives alloc data c x (length hdr + length p)"
proof -
  let ?e = "d\<lparr>m_current := m_current d + length p, m_user := u\<rparr>"
  have read: "read_bytes data (Suc (m_current d)) (length p) = Inr p"
    using stands_read [OF p(1), of "length hdr" "length p"] p(2) by simp
  have len: "\<not> length data < Suc (m_current d)" "\<not> length data - Suc (m_current d) < length p"
    using stands_length [OF p(1)] p(2) by auto
  have "m_cs d = 32 \<or> m_cs d = 33 \<or> m_cs d = 34" using d(1) by auto
  then have "exec_pass alloc data True d = Inr (push_proc x ?e)"
    using d(2) unp read len
    by (elim disjE)
      (simp_all add: exec_pass_def exec_value_def Let_def exec_switch_def exec_body_value_def push_result_def)
  with loop have "exec_loop alloc data False c = finish alloc data (push_proc x ?e)"
    by (simp add: exec_loop_finish)
  moreover have "m_stack ?e \<noteq> []" "tl (m_stack ?e) = tl (m_stack c)"
    "m_current ?e + 1 = m_current c + (length hdr + length p)" "same_rules c ?e"
    using d p(2) unp(4) by (simp_all add: same_rules_def)
  ultimately show ?thesis unfolding arrives_def by blast
qed

lemma stands_current: "stands data c (b # bs) \<Longrightarrow> m_current c \<noteq> length data"
  by (auto simp: stands_def)

lemma length_string:
  assumes at: "stands data c ((b # body) @ p)"
    and b: "0xc4 \<le> unat b" "unat b \<le> 0xdf" "length body = trail_table ! (unat b - 0xc4)"
    and p: "p \<noteq> []"
    and switch: "\<And>d. m_cs d = unat b - 0xc0 \<Longrightarrow> m_trail d = length body \<Longrightarrow>
      exec_switch alloc data (m_current c + 1) d = Inr (Next True (d\<lparr>m_trail := length p, m_cs := s\<rparr>))"
    and s: "s \<in> {32..34}"
    and unp: "s = 32 \<longrightarrow> unpack_str alloc (m_user c) p = Inr (x, u)"
      "s = 33 \<longrightarrow> unpack_bin alloc (m_user c) p = Inr (x, u)"
      "s = 34 \<longrightarrow> unpack_ext alloc (m_user c) p = Inr (x, u)"
      "limit u = limit (m_user c)"
  shows "arrives alloc data c x (length (b # body) + length p)"
proof -
  let ?d = "c\<lparr>m_trail := length body, m_cs := unat b - 0xc0, m_current := m_current c + length body,
    m_trail := length p, m_cs := s\<rparr>"
  have "exec_pass alloc data False c = Inr (Next True ?d)"
    using exec_pass_value [OF stands_append [OF at] b] switch by simp
  then have "exec_loop alloc data False c = exec_loop alloc data True ?d"
    using stands_length [OF at] p by (intro exec_loop_again) auto
  then show ?thesis
    by (rule arrives_body [where u = u]) (use at s p unp in \<open>simp_all add: stands_def\<close>)
qed

lemma unat_of_small:
  "n < 256 \<Longrightarrow> unat (of_nat n :: byte) = n"
  "n < 65536 \<Longrightarrow> unat (of_nat n :: 16 word) = n"
  "n < 4294967296 \<Longrightarrow> unat (of_nat n :: 32 word) = n"
  by (simp_all add: unat_of_nat)

lemma stands_loads:
  assumes "stands data c ((b # body) @ p)"
  shows "body = [w8] \<Longrightarrow> load8 data (Suc (m_current c)) = Inr w8"
    and "body = msgpack_store16 w16 \<Longrightarrow> load16 data (Suc (m_current c)) = Inr w16"
    and "body = msgpack_store32 w32 \<Longrightarrow> load32 data (Suc (m_current c)) = Inr w32"
  using stands_read [OF assms, of 1 "length body"]
  by (simp_all add: load8_def load16_def load32_def load_store_id)

lemmas length_switch = exec_switch_def exec_length8_def exec_length16_def exec_length32_def
  str_length_def bin_length_def ext_length_def Let_def unat_of_small trail_table_def

lemma exec_pass_fixstr:
  assumes at: "stands data c (b # bs)" and b: "0xa0 \<le> unat b" "unat b \<le> 0xbf"
  shows "unat b = 0xa0 \<Longrightarrow> unpack_str alloc (m_user c) [] = Inr (x, u) \<Longrightarrow>
      exec_pass alloc data False c = Inr (push_proc x (c\<lparr>m_trail := 0, m_user := u\<rparr>))"
    and "unat b = 0xa0 + n \<Longrightarrow> 0 < n \<Longrightarrow>
      exec_pass alloc data False c = exec_pass alloc data True (c\<lparr>m_trail := n, m_cs := 32\<rparr>)"
proof -
  have m: "unat b mod 32 = unat b - 0xa0"
  proof -
    define j where "j = unat b - 0xa0"
    have "unat b = j + 5 * 32" "j < 32" using b by (simp_all add: j_def)
    then have "unat b mod 32 = j mod 32" by (simp only: mod_mult_self1)
    with \<open>j < 32\<close> show ?thesis by (simp add: j_def)
  qed
  show "exec_pass alloc data False c = Inr (push_proc x (c\<lparr>m_trail := 0, m_user := u\<rparr>))"
    if "unat b = 0xa0" "unpack_str alloc (m_user c) [] = Inr (x, u)"
    using that at push_proc_next [of x "c\<lparr>m_trail := 0, m_user := u\<rparr>"]
    by (auto simp: exec_pass_def stands_def exec_header_def stands_load8 [OF at] Let_def
        unat_low_bits push_result_def split: exec.split)
  show "exec_pass alloc data False c = exec_pass alloc data True (c\<lparr>m_trail := n, m_cs := 32\<rparr>)"
    if "unat b = 0xa0 + n" "0 < n"
    using that at b m
    by (simp add: exec_pass_def stands_def exec_header_def stands_load8 [OF at] Let_def unat_low_bits)
qed

lemma arrives_str:
  assumes total: "total_allocator alloc" and at: "stands data c (enc_str (length p) @ p)"
    and len: "length p < 2 ^ 32" "length p \<le> limit_str (limit (m_user c))"
  shows "arrives alloc data c (STR' p) (length (enc_str (length p) @ p))"
proof -
  from unpack_string(1) [OF total len(2)] obtain u where
    u: "unpack_str alloc (m_user c) p = Inr (STR' p, u)" "limit u = limit (m_user c)" by blast
  have st: "m_stack c \<noteq> []" using at by (simp add: stands_def)
  consider "length p < 32" | "32 \<le> length p" "length p < 256" | "256 \<le> length p" "length p < 65536"
    | "65536 \<le> length p" by linarith
  then show ?thesis
  proof cases
    case 1
    let ?b = "of_nat (0xa0 + length p) :: byte"
    from 1 have e: "enc_str (length p) = [?b]" and b: "unat ?b = 0xa0 + length p"
      by (simp add: enc_str_def) (rule unat_of_small, use 1 in simp)
    from at e have at': "stands data c (?b # p)" by simp
    show ?thesis
    proof (cases "p = []")
      case True
      have "exec_pass alloc data False c = Inr (push_proc (STR' p) (c\<lparr>m_trail := 0, m_user := u\<rparr>))"
        by (rule exec_pass_fixstr(1) [OF at']) (use b True u in simp_all)
      then show ?thesis
        by (rule arrivesI) (use st u True e in \<open>simp_all add: same_rules_def\<close>)
    next
      case False
      have "exec_pass alloc data False c =
          exec_pass alloc data True (c\<lparr>m_trail := length p, m_cs := 32\<rparr>)"
        by (rule exec_pass_fixstr(2) [OF at']) (use b 1 False in simp_all)
      then have "exec_loop alloc data False c =
          exec_loop alloc data True (c\<lparr>m_trail := length p, m_cs := 32\<rparr>)" by (rule exec_loop_eq)
      then have "arrives alloc data c (STR' p) (length [?b] + length p)"
        by (rule arrives_body [where u = u]) (use False st u at' in simp_all)
      then show ?thesis by (simp add: e)
    qed
  next
    case 2
    then have e: "enc_str (length p) = 0xd9 # [of_nat (length p)]" by (simp add: enc_str_def)
    note loads = stands_loads [OF at [unfolded e]]
    have "arrives alloc data c (STR' p) (length (0xd9 # [of_nat (length p) :: byte]) + length p)"
      by (rule length_string [where u = u and s = 32, OF at [unfolded e]])
        (use 2 u loads(1) [OF refl] in \<open>auto simp: length_switch\<close>)
    then show ?thesis by (simp only: e length_append)
  next
    case 3
    then have e: "enc_str (length p) = 0xda # msgpack_store16 (of_nat (length p))" by (simp add: enc_str_def)
    note loads = stands_loads [OF at [unfolded e]]
    have "arrives alloc data c (STR' p) (length (0xda # msgpack_store16 (of_nat (length p))) + length p)"
      by (rule length_string [where u = u and s = 32, OF at [unfolded e]])
        (use 3 u loads(2) [OF refl] in \<open>auto simp: length_switch\<close>)
    then show ?thesis by (simp only: e length_append)
  next
    case 4
    then have e: "enc_str (length p) = 0xdb # msgpack_store32 (of_nat (length p))" by (simp add: enc_str_def)
    note loads = stands_loads [OF at [unfolded e]]
    have "arrives alloc data c (STR' p) (length (0xdb # msgpack_store32 (of_nat (length p))) + length p)"
      by (rule length_string [where u = u and s = 32, OF at [unfolded e]])
        (use 4 u len loads(3) [OF refl] in \<open>auto simp: length_switch\<close>)
    then show ?thesis by (simp only: e length_append)
  qed
qed

lemma arrives_bin:
  assumes total: "total_allocator alloc" and at: "stands data c (enc_bin (length p) @ p)"
    and len: "length p < 2 ^ 32" "length p \<le> limit_bin (limit (m_user c))"
  shows "arrives alloc data c (BIN p) (length (enc_bin (length p) @ p))"
proof -
  from unpack_string(2) [OF total len(2)] obtain u where
    u: "unpack_bin alloc (m_user c) p = Inr (BIN p, u)" "limit u = limit (m_user c)" by blast
  have st: "m_stack c \<noteq> []" using at by (simp add: stands_def)
  consider "p = []" | "p \<noteq> []" "length p < 256" | "256 \<le> length p" "length p < 65536"
    | "65536 \<le> length p" by linarith
  then show ?thesis
  proof cases
    case 1
    then have e: "enc_bin (length p) @ p = 0xc4 # [0]" by (simp add: enc_bin_def)
    note at' = at [unfolded e]
    have load: "load8 data (Suc (m_current c)) = Inr 0"
      using stands_loads(1) [where p = "[]", simplified, OF at' refl] .
    have "arrives alloc data c (BIN p) (length (0xc4 # [0 :: byte]))"
    proof (rule arrivesI)
      show "exec_pass alloc data False c = Inr (push_proc (BIN p)
          (c\<lparr>m_cs := 4, m_current := m_current c + 1, m_trail := 0, m_user := u\<rparr>))"
        using exec_pass_value [OF at', of alloc] u 1 load
        by (simp add: length_switch push_result_def)
    qed (use st u in \<open>simp_all add: same_rules_def\<close>)
    then show ?thesis by (simp only: e)
  next
    case 2
    then have e: "enc_bin (length p) = 0xc4 # [of_nat (length p)]" by (simp add: enc_bin_def)
    note loads = stands_loads [OF at [unfolded e]]
    have "arrives alloc data c (BIN p) (length (0xc4 # [of_nat (length p) :: byte]) + length p)"
      by (rule length_string [where u = u and s = 33, OF at [unfolded e]])
        (use 2 u loads(1) [OF refl] in \<open>auto simp: length_switch\<close>)
    then show ?thesis by (simp only: e length_append)
  next
    case 3
    then have e: "enc_bin (length p) = 0xc5 # msgpack_store16 (of_nat (length p))" by (simp add: enc_bin_def)
    note loads = stands_loads [OF at [unfolded e]]
    have "arrives alloc data c (BIN p) (length (0xc5 # msgpack_store16 (of_nat (length p))) + length p)"
      by (rule length_string [where u = u and s = 33, OF at [unfolded e]])
        (use 3 u loads(2) [OF refl] in \<open>auto simp: length_switch\<close>)
    then show ?thesis by (simp only: e length_append)
  next
    case 4
    then have e: "enc_bin (length p) = 0xc6 # msgpack_store32 (of_nat (length p))" by (simp add: enc_bin_def)
    note loads = stands_loads [OF at [unfolded e]]
    have "arrives alloc data c (BIN p) (length (0xc6 # msgpack_store32 (of_nat (length p))) + length p)"
      by (rule length_string [where u = u and s = 33, OF at [unfolded e]])
        (use 4 u len loads(3) [OF refl] in \<open>auto simp: length_switch\<close>)
    then show ?thesis by (simp only: e length_append)
  qed
qed

lemma arrives_fixext:
  assumes at: "stands data c (b # p)"
    and b: "0xd4 \<le> unat b" "unat b \<le> 0xd8" "length p = [2, 3, 5, 9, 17] ! (unat b - 0xd4)"
    and u: "unpack_ext alloc (m_user c) p = Inr (EXT p, u)" "limit u = limit (m_user c)"
  shows "arrives alloc data c (EXT p) (length (b # p))"
proof -
  have "\<forall>k < 0xd9. 0xd4 \<le> k \<longrightarrow> k \<in> {0xd4, 0xd5, 0xd6, 0xd7, 0xd8 :: nat}"
    by (simp add: numeral_eq_Suc All_less_Suc)
  with b have k: "unat b \<in> {0xd4, 0xd5, 0xd6, 0xd7, 0xd8}" by auto
  have read: "read_bytes data (Suc (m_current c)) (length p) = Inr p"
    using stands_read [OF at, of 1 "length p"] by simp
  have fixext: "exec_fixext alloc data n d = exec_ext alloc data n (length p) d"
    if "m_cs d = unat b - 0xc0" for n d
    using k b(3) that
    by (elim insertE emptyE) (simp_all add: exec_fixext_def numeral_2_eq_2 numeral_3_eq_3)
  have trail: "length p = trail_table ! (unat b - 0xc4)"
    using k b(3) by (elim insertE emptyE) (simp_all add: trail_table_def)
  have state: "unat b - 0xc0 \<in> {20..24}" using b by auto
  show ?thesis
  proof (rule arrivesI)
    show "exec_pass alloc data False c = Inr (push_proc (EXT p)
        (c\<lparr>m_trail := length p, m_cs := unat b - 0xc0, m_current := m_current c + length p, m_user := u\<rparr>))"
      using exec_pass_value [OF at _ _ trail, of alloc] b(1,2) state u read
      by (simp add: exec_switch_def fixext exec_ext_def push_result_def)
  qed (use at u in \<open>simp_all add: stands_def same_rules_def\<close>)
qed

lemma arrives_ext:
  assumes total: "total_allocator alloc" and at: "stands data c (enc_ext (length q) t @ q)"
    and len: "Suc (length q) < 2 ^ 32" "Suc (length q) \<le> limit_ext (limit (m_user c))"
  shows "arrives alloc data c (EXT (t # q)) (length (enc_ext (length q) t @ q))"
proof -
  have "length (t # q) \<le> limit_ext (limit (m_user c))" using len(2) by simp
  from unpack_string(3) [OF total this] obtain u where
    u: "unpack_ext alloc (m_user c) (t # q) = Inr (EXT (t # q), u)" "limit u = limit (m_user c)" by blast
  consider "length q = 1" | "length q = 2" | "length q = 4" | "length q = 8" | "length q = 16"
    | "length q \<notin> {1, 2, 4, 8, 16}" "length q < 256" | "256 \<le> length q" "length q < 65536"
    | "65536 \<le> length q" by fastforce
  then show ?thesis
  proof cases
    case 1
    then have e: "enc_ext (length q) t @ q = 0xd4 # (t # q)" by (simp add: enc_ext_def)
    show ?thesis
      unfolding e using arrives_fixext [OF at [unfolded e] _ _ _ u] 1 by simp
  next
    case 2
    then have e: "enc_ext (length q) t @ q = 0xd5 # (t # q)" by (simp add: enc_ext_def)
    show ?thesis
      unfolding e using arrives_fixext [OF at [unfolded e] _ _ _ u] 2 by simp
  next
    case 3
    then have e: "enc_ext (length q) t @ q = 0xd6 # (t # q)" by (simp add: enc_ext_def)
    show ?thesis
      unfolding e using arrives_fixext [OF at [unfolded e] _ _ _ u] 3 by simp
  next
    case 4
    then have e: "enc_ext (length q) t @ q = 0xd7 # (t # q)" by (simp add: enc_ext_def)
    show ?thesis
      unfolding e using arrives_fixext [OF at [unfolded e] _ _ _ u] 4 by simp
  next
    case 5
    then have e: "enc_ext (length q) t @ q = 0xd8 # (t # q)" by (simp add: enc_ext_def)
    show ?thesis
      unfolding e using arrives_fixext [OF at [unfolded e] _ _ _ u] 5 by simp
  next
    case 6
    then have e: "enc_ext (length q) t @ q = (0xc7 # [of_nat (length q)]) @ (t # q)"
      by (simp add: enc_ext_def)
    note loads = stands_loads [OF at [unfolded e]]
    have "arrives alloc data c (EXT (t # q)) (length (0xc7 # [of_nat (length q) :: byte]) + length (t # q))"
      by (rule length_string [where u = u and s = 34, OF at [unfolded e]])
        (use 6 u loads(1) [OF refl] in \<open>auto simp: length_switch\<close>)
    then show ?thesis by (simp only: e length_append)
  next
    case 7
    then have e: "enc_ext (length q) t @ q = (0xc8 # msgpack_store16 (of_nat (length q))) @ (t # q)"
      by (auto simp: enc_ext_def)
    note loads = stands_loads [OF at [unfolded e]]
    have "arrives alloc data c (EXT (t # q))
        (length (0xc8 # msgpack_store16 (of_nat (length q))) + length (t # q))"
      by (rule length_string [where u = u and s = 34, OF at [unfolded e]])
        (use 7 u loads(2) [OF refl] in \<open>auto simp: length_switch\<close>)
    then show ?thesis by (simp only: e length_append)
  next
    case 8
    then have e: "enc_ext (length q) t @ q = (0xc9 # msgpack_store32 (of_nat (length q))) @ (t # q)"
      by (auto simp: enc_ext_def)
    note loads = stands_loads [OF at [unfolded e]]
    have "arrives alloc data c (EXT (t # q))
        (length (0xc9 # msgpack_store32 (of_nat (length q))) + length (t # q))"
      by (rule length_string [where u = u and s = 34, OF at [unfolded e]])
        (use 8 u len loads(3) [OF refl] in \<open>auto simp: length_switch\<close>)
    then show ?thesis by (simp only: e length_append)
  qed
qed

section \<open>Containers\<close>

text \<open>The limits let an object pass that is decoded with \<open>k\<close> frames on the stack.\<close>

fun fits :: "unpack_limit \<Rightarrow> nat \<Rightarrow> object \<Rightarrow> bool" where
  "fits lim k (STR' p) \<longleftrightarrow> length p \<le> limit_str lim"
| "fits lim k (BIN p) \<longleftrightarrow> length p \<le> limit_bin lim"
| "fits lim k (EXT p) \<longleftrightarrow> length p \<le> limit_ext lim"
| "fits lim k (ARRAY xs) \<longleftrightarrow>
     length xs \<le> limit_array lim \<and> (xs \<noteq> [] \<longrightarrow> k \<le> limit_depth lim) \<and>
     list_all (fits lim (Suc k)) xs"
| "fits lim k (MAP xs) \<longleftrightarrow>
     length xs \<le> limit_map lim \<and> (xs \<noteq> [] \<longrightarrow> k \<le> limit_depth lim) \<and>
     list_all (\<lambda>(a, x). fits lim (Suc k) a \<and> fits lim (Suc k) x) xs"
| "fits lim k _ \<longleftrightarrow> True"

lemma enc_nonempty: "enc x \<noteq> []"
  by (cases x) (simp_all add: enc_int_def enc_str_def enc_bin_def enc_ext_def enc_array_def enc_map_def)

lemma unat_header_byte:
  "n < 16 \<Longrightarrow> unat (of_nat (0x90 + n) :: byte) = 0x90 + n"
  "n < 16 \<Longrightarrow> unat (of_nat (0x80 + n) :: byte) = 0x80 + n"
  by (rule unat_of_small, simp)+

lemma exec_pass_fix_container:
  assumes at: "stands data c (b # bs)" and n: "n < 16"
  shows "unat b = 0x90 + n \<Longrightarrow>
      exec_pass alloc data False c = push_aggregate (unpack_array alloc) CT_ARRAY_ITEM n c"
    and "unat b = 0x80 + n \<Longrightarrow>
      exec_pass alloc data False c = push_aggregate (unpack_map alloc) CT_MAP_KEY n c"
proof -
  have cs: "m_cs c = 0" using at by (simp add: stands_def)
  have fix_size: "load_fix data (m_current c) = Inr (unat b mod 16)"
    using stands_read [OF at, of 0 1] by (simp add: load_fix_def unat_low_bits)
  have pass: "exec_pass alloc data False c = push_aggregate f ct k c"
    if "exec_header alloc data c = push_aggregate f ct k c" for f ct k
    using that cs push_aggregate_next [of f ct k c]
    by (cases "push_aggregate f ct k c") (auto simp: exec_pass_def split: exec.split)
  show "exec_pass alloc data False c = push_aggregate (unpack_array alloc) CT_ARRAY_ITEM n c"
    if b: "unat b = 0x90 + n"
  proof (rule pass)
    have "(0x90 + n) mod 16 = n" using n mod_mult_self1 [of n 9 16] by (simp add: add.commute)
    then show "exec_header alloc data c = push_aggregate (unpack_array alloc) CT_ARRAY_ITEM n c"
      using b n by (simp add: exec_header_def stands_load8 [OF at] Let_def fix_size)
  qed
  show "exec_pass alloc data False c = push_aggregate (unpack_map alloc) CT_MAP_KEY n c"
    if b: "unat b = 0x80 + n"
  proof (rule pass)
    have "(0x80 + n) mod 16 = n" using n mod_mult_self1 [of n 8 16] by (simp add: add.commute)
    then show "exec_header alloc data c = push_aggregate (unpack_map alloc) CT_MAP_KEY n c"
      using b n by (simp add: exec_header_def stands_load8 [OF at] Let_def fix_size)
  qed
qed

text \<open>The header of a container leads to \<open>push_aggregate\<close> at its last byte.\<close>

definition opens :: "'z exec result \<Rightarrow> ('z unpack_user \<Rightarrow> nat \<Rightarrow> (object \<times> 'z unpack_user) result)
    \<Rightarrow> container_type \<Rightarrow> nat \<Rightarrow> 'z unpack_context \<Rightarrow> nat \<Rightarrow> bool" where
  "opens r f ct n c k \<longleftrightarrow>
     (\<exists>d. r = push_aggregate f ct n d \<and> m_stack d = m_stack c \<and> m_user d = m_user c \<and>
        m_current d + 1 = m_current c + k)"

lemma opensI:
  "r = push_aggregate f ct n d \<Longrightarrow> m_stack d = m_stack c \<Longrightarrow> m_user d = m_user c \<Longrightarrow>
     m_current d + 1 = m_current c + k \<Longrightarrow> opens r f ct n c k"
  unfolding opens_def by blast

lemma opens_array:
  assumes at: "stands data c (enc_array n)" and n: "n < 2 ^ 32"
  shows "opens (exec_pass alloc data False c) (unpack_array alloc) CT_ARRAY_ITEM n c (length (enc_array n))"
proof -
  consider "n < 16" | "16 \<le> n" "n < 65536" | "65536 \<le> n" by linarith
  then show ?thesis
  proof cases
    case 1
    then have e: "enc_array n = [of_nat (0x90 + n)]" by (simp add: enc_array_def)
    show ?thesis
      unfolding e
      by (rule opensI [OF exec_pass_fix_container(1) [OF at [unfolded e] 1 unat_header_byte(1) [OF 1]]])
        simp_all
  next
    case 2
    then have e: "enc_array n = 0xdc # msgpack_store16 (of_nat n)" by (simp add: enc_array_def)
    note at' = at [unfolded e]
    have load: "load16 data (Suc (m_current c)) = Inr (of_nat n)"
      using stands_loads(2) [where p = "[]", simplified, OF at' refl] .
    show ?thesis
      unfolding e
      by (rule opensI [where d = "c\<lparr>m_trail := 2, m_cs := 28, m_current := m_current c + 2\<rparr>",
          OF exec_pass_value [OF at', THEN trans]])
        (use 2 load in \<open>simp_all add: exec_switch_def exec_container_def trail_table_def unat_of_small\<close>)
  next
    case 3
    then have e: "enc_array n = 0xdd # msgpack_store32 (of_nat n)" by (simp add: enc_array_def)
    note at' = at [unfolded e]
    have load: "load32 data (Suc (m_current c)) = Inr (of_nat n)"
      using stands_loads(3) [where p = "[]", simplified, OF at' refl] .
    show ?thesis
      unfolding e
      by (rule opensI [where d = "c\<lparr>m_trail := 4, m_cs := 29, m_current := m_current c + 4\<rparr>",
          OF exec_pass_value [OF at', THEN trans]])
        (use n load in \<open>simp_all add: exec_switch_def exec_container_def trail_table_def unat_of_small\<close>)
  qed
qed

lemma opens_map:
  assumes at: "stands data c (enc_map n)" and n: "n < 2 ^ 32"
  shows "opens (exec_pass alloc data False c) (unpack_map alloc) CT_MAP_KEY n c (length (enc_map n))"
proof -
  consider "n < 16" | "16 \<le> n" "n < 65536" | "65536 \<le> n" by linarith
  then show ?thesis
  proof cases
    case 1
    then have e: "enc_map n = [of_nat (0x80 + n)]" by (simp add: enc_map_def)
    show ?thesis
      unfolding e
      by (rule opensI [OF exec_pass_fix_container(2) [OF at [unfolded e] 1 unat_header_byte(2) [OF 1]]])
        simp_all
  next
    case 2
    then have e: "enc_map n = 0xde # msgpack_store16 (of_nat n)" by (simp add: enc_map_def)
    note at' = at [unfolded e]
    have load: "load16 data (Suc (m_current c)) = Inr (of_nat n)"
      using stands_loads(2) [where p = "[]", simplified, OF at' refl] .
    show ?thesis
      unfolding e
      by (rule opensI [where d = "c\<lparr>m_trail := 2, m_cs := 30, m_current := m_current c + 2\<rparr>",
          OF exec_pass_value [OF at', THEN trans]])
        (use 2 load in \<open>simp_all add: exec_switch_def exec_container_def trail_table_def unat_of_small\<close>)
  next
    case 3
    then have e: "enc_map n = 0xdf # msgpack_store32 (of_nat n)" by (simp add: enc_map_def)
    note at' = at [unfolded e]
    have load: "load32 data (Suc (m_current c)) = Inr (of_nat n)"
      using stands_loads(3) [where p = "[]", simplified, OF at' refl] .
    show ?thesis
      unfolding e
      by (rule opensI [where d = "c\<lparr>m_trail := 4, m_cs := 31, m_current := m_current c + 4\<rparr>",
          OF exec_pass_value [OF at', THEN trans]])
        (use n load in \<open>simp_all add: exec_switch_def exec_container_def trail_table_def unat_of_small\<close>)
  qed
qed

section \<open>Items\<close>

definition decodes :: "'z allocator \<Rightarrow> byte list \<Rightarrow> object \<Rightarrow> nat \<Rightarrow> unpack_limit \<Rightarrow> bool" where
  "decodes alloc data x k lim \<longleftrightarrow>
     (\<forall>c. stands data c (enc x) \<longrightarrow> length (m_stack c) = k \<longrightarrow> limit (m_user c) = lim \<longrightarrow>
        arrives alloc data c x (length (enc x)))"

lemma decodesD:
  assumes "decodes alloc data x (length (m_stack c)) (limit (m_user c))" "stands data c (enc x)"
  shows "\<exists>d fr. exec_loop alloc data False c = finish alloc data (push_proc x d) \<and>
    m_stack d = fr # tl (m_stack c) \<and> m_current d + 1 = m_current c + length (enc x) \<and> same_rules c d"
proof -
  from assms have "arrives alloc data c x (length (enc x))" by (simp add: decodes_def)
  then obtain d where "exec_loop alloc data False c = finish alloc data (push_proc x d)"
    "m_stack d \<noteq> []" "tl (m_stack d) = tl (m_stack c)"
    "m_current d + 1 = m_current c + length (enc x)" "same_rules c d"
    by (auto simp: arrives_def)
  then show ?thesis by (metis list.collapse)
qed

lemma stands_next:
  assumes "stands data c (as @ bs)" "m_cs d = 0" "m_stack d \<noteq> []" "m_current d = m_current c + length as"
  shows "stands data d bs"
proof -
  from assms(1) obtain pre suf where "data = pre @ (as @ bs) @ suf" "m_current c = length pre"
    by (auto simp: stands_def)
  then have "data = (pre @ as) @ bs @ suf" "m_current d = length (pre @ as)" using assms(4) by simp_all
  with assms(2,3) show ?thesis unfolding stands_def by blast
qed

lemma stands_not_end: "stands data c bs \<Longrightarrow> bs \<noteq> [] \<Longrightarrow> m_current c \<noteq> length data"
  by (auto simp: stands_def)

lemma finish_next:
  "m_current d \<noteq> length data \<Longrightarrow> finish alloc data (Next fta d) = exec_loop alloc data fta d"
  by (simp add: finish_def)

text \<open>An item goes to its array: the array goes on, or is itself an item.\<close>

lemma push_proc_array:
  assumes "m_stack d = fr # sp # st" "container_type sp = Some CT_ARRAY_ITEM"
    and "obj sp = ARRAY xs" "count sp = Suc n"
  shows "push_proc x d =
    (if n = 0 then push_proc (ARRAY (xs @ [x])) (d\<lparr>m_stack := sp\<lparr>obj := ARRAY (xs @ [x]), count := 0\<rparr> # st\<rparr>)
     else Next False (d\<lparr>m_stack := fr # sp\<lparr>obj := ARRAY (xs @ [x]), count := n\<rparr> # st,
       m_cs := 0, m_current := m_current d + 1\<rparr>))"
  using assms by (cases n) (simp_all add: push_proc_def decr_count_def Let_def split: prod.split)

lemma array_items:
  assumes "xs \<noteq> []"
    and "\<And>x. x \<in> set xs \<Longrightarrow> decodes alloc data x (Suc (Suc (length st))) lim"
    and "stands data c (concat (map enc xs))" "limit (m_user c) = lim"
    and "m_stack c = fr # sp # st" "container_type sp = Some CT_ARRAY_ITEM"
    and "obj sp = ARRAY ys" "count sp = length xs"
  shows "\<exists>d fr. exec_loop alloc data False c = finish alloc data (push_proc (ARRAY (ys @ xs)) d) \<and>
    m_stack d = fr # st \<and> m_current d + 1 = m_current c + length (concat (map enc xs)) \<and> same_rules c d"
  using assms
proof (induction xs arbitrary: c fr sp ys)
  case (Cons x xs)
  have "decodes alloc data x (length (m_stack c)) (limit (m_user c))"
    using Cons.prems(2,4,5) by simp
  moreover have "stands data c (enc x)"
    using Cons.prems(3) stands_append by force
  ultimately obtain d gr where d: "exec_loop alloc data False c = finish alloc data (push_proc x d)"
    "m_stack d = gr # sp # st" "m_current d + 1 = m_current c + length (enc x)" "same_rules c d"
    using decodesD Cons.prems(5) by (metis list.sel(3))
  note push = push_proc_array [OF d(2) Cons.prems(6,7), of "length xs" x]
  show ?case
  proof (cases "xs = []")
    case True
    let ?d = "d\<lparr>m_stack := sp\<lparr>obj := ARRAY (ys @ [x]), count := 0\<rparr> # st\<rparr>"
    have "exec_loop alloc data False c = finish alloc data (push_proc (ARRAY (ys @ [x])) ?d)"
      using d(1) push Cons.prems(8) True by simp
    moreover have "m_stack ?d = sp\<lparr>obj := ARRAY (ys @ [x]), count := 0\<rparr> # st"
      "m_current ?d + 1 = m_current c + length (concat (map enc [x]))" "same_rules c ?d"
      using d by (simp_all add: same_rules_def)
    ultimately show ?thesis unfolding True by blast
  next
    case False
    let ?sp = "sp\<lparr>obj := ARRAY (ys @ [x]), count := length xs\<rparr>"
    let ?d = "d\<lparr>m_stack := gr # ?sp # st, m_cs := 0, m_current := m_current d + 1\<rparr>"
    have "stands data c (enc x @ concat (map enc xs))" using Cons.prems(3) by simp
    then have at: "stands data ?d (concat (map enc xs))"
      by (rule stands_next) (use d in simp_all)
    moreover have "concat (map enc xs) \<noteq> []" using False enc_nonempty by (cases xs) simp_all
    ultimately have "m_current ?d \<noteq> length data" by (rule stands_not_end)
    then have loop: "exec_loop alloc data False c = exec_loop alloc data False ?d"
      using d(1) push Cons.prems(8) False by (simp add: finish_next)
    have "\<exists>e fr. exec_loop alloc data False ?d = finish alloc data (push_proc (ARRAY ((ys @ [x]) @ xs)) e) \<and>
      m_stack e = fr # st \<and> m_current e + 1 = m_current ?d + length (concat (map enc xs)) \<and> same_rules ?d e"
      by (rule Cons.IH [where sp = ?sp and fr = gr])
        (use False at Cons.prems d(4) in \<open>simp_all add: same_rules_def\<close>)
    then show ?thesis
      using loop d(3,4) by (auto simp: same_rules_def)
  qed
qed simp

lemma push_proc_key:
  assumes "m_stack d = fr # sp # st" "container_type sp = Some CT_MAP_KEY"
  shows "push_proc x d = Next False (d\<lparr>m_stack := fr # sp\<lparr>map_key := x, container_type := Some CT_MAP_VALUE\<rparr> # st,
       m_cs := 0, m_current := m_current d + 1\<rparr>)"
  using assms by (simp add: push_proc_def Let_def)

lemma push_proc_map:
  assumes "m_stack d = fr # sp # st" "container_type sp = Some CT_MAP_VALUE"
    and "obj sp = MAP xs" "count sp = Suc n" "map_key sp = k"
  shows "push_proc x d =
    (if n = 0 then push_proc (MAP (xs @ [(k, x)])) (d\<lparr>m_stack := sp\<lparr>obj := MAP (xs @ [(k, x)]), count := 0\<rparr> # st\<rparr>)
     else Next False (d\<lparr>m_stack := fr # sp\<lparr>obj := MAP (xs @ [(k, x)]), count := n, container_type := Some CT_MAP_KEY\<rparr> # st,
       m_cs := 0, m_current := m_current d + 1\<rparr>))"
  using assms by (cases n) (simp_all add: push_proc_def decr_count_def Let_def split: prod.split)

lemma map_items:
  assumes "xs \<noteq> []"
    and "\<And>k x. (k, x) \<in> set xs \<Longrightarrow> decodes alloc data k (Suc (Suc (length st))) lim \<and>
      decodes alloc data x (Suc (Suc (length st))) lim"
    and "stands data c (concat (map (\<lambda>(k, x). enc k @ enc x) xs))" "limit (m_user c) = lim"
    and "m_stack c = fr # sp # st" "container_type sp = Some CT_MAP_KEY"
    and "obj sp = MAP ys" "count sp = length xs"
  shows "\<exists>d fr. exec_loop alloc data False c = finish alloc data (push_proc (MAP (ys @ xs)) d) \<and>
    m_stack d = fr # st \<and>
    m_current d + 1 = m_current c + length (concat (map (\<lambda>(k, x). enc k @ enc x) xs)) \<and> same_rules c d"
  using assms
proof (induction xs arbitrary: c fr sp ys)
  case (Cons kx xs)
  obtain k x where kx: "kx = (k, x)" by force
  let ?rest = "concat (map (\<lambda>(k, x). enc k @ enc x) xs)"
  have at: "stands data c (enc k @ enc x @ ?rest)" using Cons.prems(3) by (simp add: kx)
  have k: "decodes alloc data k (length (m_stack c)) (limit (m_user c))"
    and x: "decodes alloc data x (length (m_stack c)) (limit (m_user c))"
    using Cons.prems(2) [of k x] Cons.prems(4,5) kx by simp_all
  from decodesD [OF k stands_append [OF at]] Cons.prems(5) obtain d gr where
    d: "exec_loop alloc data False c = finish alloc data (push_proc k d)"
    "m_stack d = gr # sp # st" "m_current d + 1 = m_current c + length (enc k)" "same_rules c d"
    by (metis list.sel(3))
  let ?sp = "sp\<lparr>map_key := k, container_type := Some CT_MAP_VALUE\<rparr>"
  let ?d = "d\<lparr>m_stack := gr # ?sp # st, m_cs := 0, m_current := m_current d + 1\<rparr>"
  have at_x: "stands data ?d (enc x @ ?rest)"
    by (rule stands_next [OF at]) (use d in simp_all)
  then have loop: "exec_loop alloc data False c = exec_loop alloc data False ?d"
    using d(1) push_proc_key [OF d(2) Cons.prems(6), of k] stands_not_end [OF at_x] enc_nonempty
    by (simp add: finish_next)
  have "decodes alloc data x (length (m_stack ?d)) (limit (m_user ?d))"
    using x d(4) Cons.prems(5) by (simp add: same_rules_def)
  from decodesD [OF this stands_append [OF at_x]]
  have "\<exists>e hr. exec_loop alloc data False ?d = finish alloc data (push_proc x e) \<and>
    m_stack e = hr # ?sp # st \<and> m_current e + 1 = m_current ?d + length (enc x) \<and> same_rules ?d e"
    by simp
  then obtain e hr where
    e: "exec_loop alloc data False ?d = finish alloc data (push_proc x e)"
    "m_stack e = hr # ?sp # st" "m_current e + 1 = m_current ?d + length (enc x)" "same_rules ?d e"
    by blast
  have push: "push_proc x e =
    (if length xs = 0 then push_proc (MAP (ys @ [(k, x)])) (e\<lparr>m_stack := ?sp\<lparr>obj := MAP (ys @ [(k, x)]), count := 0\<rparr> # st\<rparr>)
     else Next False (e\<lparr>m_stack := hr # ?sp\<lparr>obj := MAP (ys @ [(k, x)]), count := length xs, container_type := Some CT_MAP_KEY\<rparr> # st,
       m_cs := 0, m_current := m_current e + 1\<rparr>))"
    by (rule push_proc_map [OF e(2)]) (use Cons.prems in simp_all)
  show ?case
  proof (cases "xs = []")
    case True
    let ?e = "e\<lparr>m_stack := ?sp\<lparr>obj := MAP (ys @ [(k, x)]), count := 0\<rparr> # st\<rparr>"
    have "exec_loop alloc data False c = finish alloc data (push_proc (MAP (ys @ [kx])) ?e)"
      using loop e(1) push True by (simp add: kx)
    moreover have "m_stack ?e = ?sp\<lparr>obj := MAP (ys @ [(k, x)]), count := 0\<rparr> # st"
      "m_current ?e + 1 = m_current c + length (concat (map (\<lambda>(k, x). enc k @ enc x) [kx]))" "same_rules c ?e"
      using d e by (simp_all add: same_rules_def kx)
    ultimately show ?thesis unfolding True by blast
  next
    case False
    let ?sq = "?sp\<lparr>obj := MAP (ys @ [(k, x)]), count := length xs, container_type := Some CT_MAP_KEY\<rparr>"
    let ?e = "e\<lparr>m_stack := hr # ?sq # st, m_cs := 0, m_current := m_current e + 1\<rparr>"
    have at': "stands data ?e ?rest"
      by (rule stands_next [OF at_x]) (use e in simp_all)
    moreover have "?rest \<noteq> []" using False enc_nonempty by (cases xs) auto
    ultimately have "m_current ?e \<noteq> length data" by (rule stands_not_end)
    then have loop': "exec_loop alloc data False c = exec_loop alloc data False ?e"
      using loop e(1) push False by (simp add: finish_next)
    have "\<exists>f fr. exec_loop alloc data False ?e = finish alloc data (push_proc (MAP ((ys @ [(k, x)]) @ xs)) f) \<and>
      m_stack f = fr # st \<and> m_current f + 1 = m_current ?e + length ?rest \<and> same_rules ?e f"
    proof (rule Cons.IH [where sp = ?sq and fr = hr])
      show "decodes alloc data k' (Suc (Suc (length st))) lim \<and> decodes alloc data x' (Suc (Suc (length st))) lim"
        if "(k', x') \<in> set xs" for k' x' using Cons.prems(2) [of k' x'] that by simp
    qed (use False at' Cons.prems d(4) e(4) in \<open>simp_all add: same_rules_def\<close>)
    then show ?thesis
      using loop' d(3,4) e(3,4) by (auto simp: same_rules_def kx)
  qed
qed simp

section \<open>Every object\<close>

lemma unpack_container:
  assumes "total_allocator alloc"
  shows "n \<le> limit_array (limit u) \<Longrightarrow>
      \<exists>u'. unpack_array alloc u n = Inr (ARRAY [], u') \<and> limit u' = limit u"
    and "n \<le> limit_map (limit u) \<Longrightarrow>
      \<exists>u'. unpack_map alloc u n = Inr (MAP [], u') \<and> limit u' = limit u"
proof -
  have alloc: "\<exists>u'. allocate alloc u k a = Inr u' \<and> limit u' = limit u"
    if a: "a \<in> {alignof_char, alignof_object}" for k a
  proof -
    from assms obtain z' where "alloc (zone u) k a = Inr z'" using a unfolding total_allocator_def by blast
    then have "allocate alloc u k a = Inr (u\<lparr>zone := z'\<rparr>)" by (simp add: allocate_def)
    then show ?thesis by simp
  qed
  show "n \<le> limit_array (limit u) \<Longrightarrow>
      \<exists>u'. unpack_array alloc u n = Inr (ARRAY [], u') \<and> limit u' = limit u"
    using alloc [of alignof_object "n * sizeof_object"] by (auto simp: unpack_array_def)
  show "n \<le> limit_map (limit u) \<Longrightarrow>
      \<exists>u'. unpack_map alloc u n = Inr (MAP [], u') \<and> limit u' = limit u"
    using alloc [of alignof_object "n * sizeof_object_kv"] by (auto simp: unpack_map_def)
qed

text \<open>An empty container is an item at once; another opens a frame for its items.\<close>

lemma opens_empty:
  assumes "opens (exec_pass alloc data False c) f ct 0 c k" "f (m_user c) 0 = Inr (x, u)"
    and "limit u = limit (m_user c)" "m_stack c \<noteq> []"
  shows "arrives alloc data c x k"
proof -
  from assms(1) obtain d where d: "exec_pass alloc data False c = push_aggregate f ct 0 d"
    "m_stack d = m_stack c" "m_user d = m_user c" "m_current d + 1 = m_current c + k"
    unfolding opens_def by blast
  then have "exec_pass alloc data False c = Inr (push_proc x
      (d\<lparr>m_user := u, m_stack := (hd (m_stack c))\<lparr>obj := x\<rparr> # tl (m_stack c)\<rparr>))"
    using assms(2) by (simp add: push_aggregate_def Let_def)
  then show ?thesis
    by (rule arrivesI) (use d assms in \<open>simp_all add: same_rules_def\<close>)
qed

lemma opens_frame:
  assumes "opens (exec_pass alloc data False c) f ct n c k" "f (m_user c) n = Inr (x, u)"
    and "limit u = limit (m_user c)" "n \<noteq> 0" "length (m_stack c) \<le> limit_depth (limit (m_user c))"
    and "m_stack c = fr # st" "stands data c (hdr @ bs)" "bs \<noteq> []" "length hdr = k"
  shows "\<exists>e. exec_loop alloc data False c = exec_loop alloc data False e \<and> stands data e bs \<and>
    m_stack e = unpack_stack_new # fr\<lparr>obj := x, container_type := Some ct, count := n\<rparr> # st \<and>
    limit (m_user e) = limit (m_user c) \<and> m_current e = m_current c + k"
proof -
  from assms(1) obtain d where d: "exec_pass alloc data False c = push_aggregate f ct n d"
    "m_stack d = m_stack c" "m_user d = m_user c" "m_current d + 1 = m_current c + k"
    unfolding opens_def by blast
  let ?e = "d\<lparr>m_user := u,
    m_stack := unpack_stack_new # fr\<lparr>obj := x, container_type := Some ct, count := n\<rparr> # st,
    m_cs := 0, m_current := m_current d + 1\<rparr>"
  have pass: "exec_pass alloc data False c = Inr (Next False ?e)"
    using d assms by (simp add: push_aggregate_def Let_def)
  have at: "stands data ?e bs" by (rule stands_next [OF assms(7)]) (use d assms(9) in simp_all)
  have "exec_loop alloc data False c = exec_loop alloc data False ?e"
    by (rule exec_loop_again [OF pass stands_not_end [OF at assms(8)]])
  then show ?thesis using at d assms(3) by (intro exI [of _ ?e]) simp
qed

lemma object_decodes:
  fixes alloc :: "'z allocator"
  assumes "object_ok x" "total_allocator alloc" "fits lim k x"
  shows "decodes alloc data x k lim"
  using assms(1,3)
proof (induction x arbitrary: k)
  case NIL
  show ?case unfolding decodes_def
  proof (intro allI impI)
    fix c :: "'z unpack_context" assume c: "stands data c (enc NIL)"
    then have at: "stands data c (0xc0 # [])" by simp
    show "arrives alloc data c NIL (length (enc NIL))"
    proof (rule arrivesI)
      show "exec_pass alloc data False c = Inr (push_proc NIL c)"
        using at push_proc_next [of NIL c]
        by (auto simp: exec_pass_def stands_def exec_header_def stands_load8 [OF at] Let_def
            unpack_nil_def split: exec.split)
    qed (use at in \<open>simp_all add: stands_def same_rules_def\<close>)
  qed
next
  case (BOOLEAN b)
  show ?case unfolding decodes_def
  proof (intro allI impI)
    fix c :: "'z unpack_context" assume "stands data c (enc (BOOLEAN b))"
    then have at: "stands data c ((if b then 0xc3 else 0xc2) # [])" by simp
    show "arrives alloc data c (BOOLEAN b) (length (enc (BOOLEAN b)))"
    proof (rule arrivesI)
      show "exec_pass alloc data False c = Inr (push_proc (BOOLEAN b) c)"
        using at push_proc_next [of "BOOLEAN b" c] stands_load8 [OF at]
        by (cases b) (auto simp: exec_pass_def stands_def exec_header_def Let_def
            unpack_true_def unpack_false_def split: exec.split)
    qed (use at in \<open>simp_all add: stands_def same_rules_def\<close>)
  qed
next
  case (POSITIVE_INTEGER n)
  have "int_object (uint n) = POSITIVE_INTEGER n" by (simp add: int_object_def)
  moreover have "- (2 ^ 63) \<le> uint n" by (rule order_trans [OF _ uint_ge_0]) simp
  ultimately show ?case
    using arrives_int [of data _ "uint n" alloc] uint_bounded [of n] by (simp add: decodes_def)
next
  case (NEGATIVE_INTEGER n)
  then have "int_object (sint n) = NEGATIVE_INTEGER n" by (simp add: int_object_def)
  then show ?case
    using arrives_int [of data _ "sint n" alloc] sint_greater_eq [of n] NEGATIVE_INTEGER
    by (auto simp: decodes_def)
next
  case (FLOAT32 f)
  then show ?case
    using arrives_number(1) [of data _ _ _ f alloc] by (simp add: decodes_def unpack_float_def)
next
  case (FLOAT64 f)
  then show ?case
    using arrives_number(2) [of data _ _ _ f alloc] by (simp add: decodes_def unpack_double_def)
next
  case (STR' p)
  then show ?case using arrives_str [OF assms(2)] by (simp add: decodes_def)
next
  case (BIN p)
  then show ?case using arrives_bin [OF assms(2)] by (simp add: decodes_def)
next
  case (EXT p)
  then obtain t q where "p = t # q" by (cases p) auto
  with EXT show ?case using arrives_ext [OF assms(2), of data _ q t] by (simp add: decodes_def)
next
  case (ARRAY xs)
  then have len: "length xs < 2 ^ 32" "length xs \<le> limit_array lim" by simp_all
  show ?case unfolding decodes_def
  proof (intro allI impI)
    fix c :: "'z unpack_context" assume "stands data c (enc (ARRAY xs))" and k: "length (m_stack c) = k" and lim: "limit (m_user c) = lim"
    then have at: "stands data c (enc_array (length xs) @ concat (map enc xs))" by simp
    note op = opens_array [OF stands_append [OF at] len(1), of alloc]
    from at obtain fr st where st: "m_stack c = fr # st" by (cases "m_stack c") (auto simp: stands_def)
    from unpack_container(1) [OF assms(2), of "length xs" "m_user c"] len(2) lim obtain u where
      u: "unpack_array alloc (m_user c) (length xs) = Inr (ARRAY [], u)" "limit u = limit (m_user c)" by auto
    show "arrives alloc data c (ARRAY xs) (length (enc (ARRAY xs)))"
    proof (cases "xs = []")
      case True
      then show ?thesis using opens_empty [of alloc data c "unpack_array alloc"] op u st by simp
    next
      case False
      let ?sp = "fr\<lparr>obj := ARRAY [], container_type := Some CT_ARRAY_ITEM, count := length xs\<rparr>"
      have "concat (map enc xs) \<noteq> []" using False enc_nonempty by (cases xs) simp_all
      from opens_frame [OF op u _ _ st at this refl] False ARRAY.prems k lim obtain e where
        e: "exec_loop alloc data False c = exec_loop alloc data False e"
        "stands data e (concat (map enc xs))" "m_stack e = unpack_stack_new # ?sp # st"
        "limit (m_user e) = limit (m_user c)" "m_current e = m_current c + length (enc_array (length xs))"
        by auto
      have sp: "container_type ?sp = Some CT_ARRAY_ITEM" "obj ?sp = ARRAY []" "count ?sp = length xs"
        by simp_all
      have "\<exists>d fr. exec_loop alloc data False e = finish alloc data (push_proc (ARRAY ([] @ xs)) d) \<and>
        m_stack d = fr # st \<and> m_current d + 1 = m_current e + length (concat (map enc xs)) \<and> same_rules e d"
      proof (rule array_items [OF False _ e(2) _ e(3) sp])
        show "decodes alloc data x (Suc (Suc (length st))) lim" if "x \<in> set xs" for x
          using ARRAY that k st by (auto simp: list_all_iff)
      qed (use e(4) lim in simp)
      then show ?thesis
        using e st unfolding arrives_def by (auto simp: same_rules_def)
    qed
  qed
next
  case (MAP xs)
  then have len: "length xs < 2 ^ 32" "length xs \<le> limit_map lim" by simp_all
  let ?items = "concat (map (\<lambda>(k, x). enc k @ enc x) xs)"
  show ?case unfolding decodes_def
  proof (intro allI impI)
    fix c :: "'z unpack_context" assume "stands data c (enc (MAP xs))" and k: "length (m_stack c) = k" and lim: "limit (m_user c) = lim"
    then have at: "stands data c (enc_map (length xs) @ ?items)" by simp
    note op = opens_map [OF stands_append [OF at] len(1), of alloc]
    from at obtain fr st where st: "m_stack c = fr # st" by (cases "m_stack c") (auto simp: stands_def)
    from unpack_container(2) [OF assms(2), of "length xs" "m_user c"] len(2) lim obtain u where
      u: "unpack_map alloc (m_user c) (length xs) = Inr (MAP [], u)" "limit u = limit (m_user c)" by auto
    show "arrives alloc data c (MAP xs) (length (enc (MAP xs)))"
    proof (cases "xs = []")
      case True
      then show ?thesis using opens_empty [of alloc data c "unpack_map alloc"] op u st by simp
    next
      case False
      let ?sp = "fr\<lparr>obj := MAP [], container_type := Some CT_MAP_KEY, count := length xs\<rparr>"
      have "?items \<noteq> []" using False enc_nonempty by (cases xs) auto
      from opens_frame [OF op u _ _ st at this refl] False MAP.prems k lim obtain e where
        e: "exec_loop alloc data False c = exec_loop alloc data False e"
        "stands data e ?items" "m_stack e = unpack_stack_new # ?sp # st"
        "limit (m_user e) = limit (m_user c)" "m_current e = m_current c + length (enc_map (length xs))"
        by auto
      have sp: "container_type ?sp = Some CT_MAP_KEY" "obj ?sp = MAP []" "count ?sp = length xs"
        by simp_all
      have "\<exists>d fr. exec_loop alloc data False e = finish alloc data (push_proc (MAP ([] @ xs)) d) \<and>
        m_stack d = fr # st \<and> m_current d + 1 = m_current e + length ?items \<and> same_rules e d"
      proof (rule map_items [OF False _ e(2) _ e(3) sp])
        show "decodes alloc data a (Suc (Suc (length st))) lim \<and> decodes alloc data x (Suc (Suc (length st))) lim"
          if ax: "(a, x) \<in> set xs" for a x
        proof -
          have "a \<in> Basic_BNFs.fsts (a, x)" "x \<in> Basic_BNFs.snds (a, x)" by simp_all
          moreover have "object_ok a" "object_ok x" "fits lim (Suc k) a" "fits lim (Suc k) x"
            using MAP.prems ax by (auto simp: list_all_iff)
          ultimately have "decodes alloc data a (Suc k) lim" "decodes alloc data x (Suc k) lim"
            using MAP.IH ax by metis+
          then show ?thesis using k st by simp
        qed
      qed (use e(4) lim in simp)
      then show ?thesis
        using e st unfolding arrives_def by (auto simp: same_rules_def)
    qed
  qed
qed

text \<open>The bytes of an object, with anything behind them, give the object back.\<close>

lemma unpack_enc:
  assumes "object_ok x" "total_allocator alloc" "fits lim 1 x"
  shows "\<exists>refd. unpack alloc (pre @ enc x @ suf) (length pre) z f lim =
    Some (Inr (x, length pre + length (enc x), refd))"
proof -
  let ?data = "pre @ enc x @ suf"
  let ?c = "(context_init (context_new f lim z))\<lparr>m_current := length pre\<rparr>"
  have st: "m_stack ?c = [unpack_stack_new]"
    by (simp add: context_init_def context_new_def unpack_stack_new_def)
  have at: "stands ?data ?c (enc x)"
    by (auto simp: stands_def context_init_def context_new_def)
  have "decodes alloc ?data x (length (m_stack ?c)) (limit (m_user ?c))"
    using object_decodes [OF assms, of ?data] by (simp add: context_init_def context_new_def)
  from decodesD [OF this at] obtain d fr where
    d: "exec_loop alloc ?data False ?c = finish alloc ?data (push_proc x d)" "m_stack d = [fr]"
      "m_current d + 1 = length pre + length (enc x)"
    using st by auto
  have "push_proc x d = Return 1 (m_current d + 1)
      (d\<lparr>m_stack := set_bottom x [fr], m_current := m_current d + 1\<rparr>)"
    using d(2) by (simp add: push_proc_def Let_def)
  then have exec: "execute alloc ?data (length pre) (context_init (context_new f lim z)) =
      Some (Inr (1, length pre + length (enc x),
        d\<lparr>m_stack := set_bottom x [fr], m_current := m_current d + 1\<rparr>))"
    using d enc_nonempty [of x] by (simp add: execute_def Let_def finish_def)
  have "\<not> length ?data \<le> length pre" using enc_nonempty [of x] by simp
  then show ?thesis
    by (auto simp: unpack_def unpack_imp_def exec Let_def context_data_def set_bottom_def)
qed

end
