(* ===== verification/Msgpack_Typed.thy ===== *)
theory Msgpack_Typed
  imports Msgpack_Safe
begin

unbundle bit_operations_syntax

text \<open>
  What the decoder builds is well formed: sizes of 32 bits, exts with their type
  byte, containers filled up to the size their header announced.
\<close>

section \<open>Containers under construction\<close>

text \<open>A container of the stack holds good items, and with those to come stays below \<open>2 ^ 32\<close>.\<close>

definition frame_ok :: "unpack_stack \<Rightarrow> bool" where
  "frame_ok sp \<longleftrightarrow>
     object_ok (obj sp) \<and> object_ok (map_key sp) \<and> 0 < count sp \<and>
     (case container_type sp of
        None \<Rightarrow> False
      | Some CT_ARRAY_ITEM \<Rightarrow> (\<exists>xs. obj sp = ARRAY xs \<and> length xs + count sp < 2 ^ 32)
      | _ \<Rightarrow> (\<exists>xs. obj sp = MAP xs \<and> length xs + count sp < 2 ^ 32))"

definition stack_ok :: "unpack_stack list \<Rightarrow> bool" where
  "stack_ok st \<longleftrightarrow> st \<noteq> [] \<and> object_ok (map_key (hd st)) \<and> (\<forall>sp \<in> set (tl st). frame_ok sp)"

lemma frame_array:
  assumes "frame_ok sp" "container_type sp = Some CT_ARRAY_ITEM" "object_ok x"
  defines "sp' \<equiv> decr_count (sp\<lparr>obj := unpack_array_item (obj sp) x\<rparr>)"
  shows "object_ok (obj sp')" and "object_ok (map_key sp')" and "count sp' \<noteq> 0 \<Longrightarrow> frame_ok sp'"
  using assms by (auto simp: frame_ok_def decr_count_def)

lemma frame_map:
  assumes "frame_ok sp" "container_type sp = Some CT_MAP_VALUE" "object_ok x"
  defines "sp' \<equiv> decr_count (sp\<lparr>obj := unpack_map_item (obj sp) (map_key sp) x\<rparr>)"
  shows "object_ok (obj sp')" and "object_ok (map_key sp')"
    and "count sp' \<noteq> 0 \<Longrightarrow> frame_ok (sp'\<lparr>container_type := Some CT_MAP_KEY\<rparr>)"
  using assms by (auto simp: frame_ok_def decr_count_def)

lemma push_item_ok:
  "push_item st x = (ret, y, st') \<Longrightarrow> stack_ok st \<Longrightarrow> object_ok x \<Longrightarrow> object_ok y \<and> stack_ok st'"
proof (induction st x arbitrary: ret y st' rule: push_item.induct)
  case (1 frame sp st x)
  have sp: "frame_ok sp" "\<forall>s \<in> set st. frame_ok s" "object_ok (map_key frame)"
    using "1.prems"(2) by (simp_all add: stack_ok_def)
  show ?case
  proof (cases "container_type sp")
    case None
    then show ?thesis using "1.prems" by auto
  next
    case (Some t)
    show ?thesis
    proof (cases t)
      case CT_ARRAY_ITEM
      note f = frame_array [OF sp(1) Some [unfolded CT_ARRAY_ITEM] "1.prems"(3)]
      show ?thesis
      proof (cases "count (decr_count (sp\<lparr>obj := unpack_array_item (obj sp) x\<rparr>)) = 0")
        case True
        have "stack_ok (decr_count (sp\<lparr>obj := unpack_array_item (obj sp) x\<rparr>) # st)"
          using f(2) sp(2) by (simp add: stack_ok_def)
        from "1.IH"(1) [OF Some CT_ARRAY_ITEM refl True _ this f(1)] "1.prems"(1) show ?thesis
          by (simp add: Some CT_ARRAY_ITEM True Let_def)
      next
        case False
        then show ?thesis
          using f(3) "1.prems" sp by (auto simp: Some CT_ARRAY_ITEM stack_ok_def Let_def)
      qed
    next
      case CT_MAP_KEY
      then show ?thesis
        using "1.prems" sp Some by (auto simp: stack_ok_def frame_ok_def)
    next
      case CT_MAP_VALUE
      note f = frame_map [OF sp(1) Some [unfolded CT_MAP_VALUE] "1.prems"(3)]
      show ?thesis
      proof (cases "count (decr_count (sp\<lparr>obj := unpack_map_item (obj sp) (map_key sp) x\<rparr>)) = 0")
        case True
        have "stack_ok (decr_count (sp\<lparr>obj := unpack_map_item (obj sp) (map_key sp) x\<rparr>) # st)"
          using f(2) sp(2) by (simp add: stack_ok_def)
        from "1.IH"(2) [OF Some CT_MAP_VALUE refl True _ this f(1)] "1.prems"(1) show ?thesis
          by (simp add: Some CT_MAP_VALUE True Let_def)
      next
        case False
        then show ?thesis
          using f(3) "1.prems" sp by (auto simp: Some CT_MAP_VALUE stack_ok_def Let_def)
      qed
    qed
  qed
qed auto

section \<open>Steps of the decoder\<close>

text \<open>
  Without a reference function every ext is checked against its limit. An ext to
  come has at least its type byte, and a string or bin a size of 32 bits.
\<close>

definition typed :: "unpack_limit \<Rightarrow> 'z unpack_context \<Rightarrow> bool" where
  "typed lim c \<longleftrightarrow>
     stack_ok (m_stack c) \<and> reference_func (m_user c) = None \<and> limit (m_user c) = lim \<and>
     (m_cs c = MSGPACK_ACS_EXT_VALUE \<longrightarrow> 0 < m_trail c) \<and>
     (m_cs c \<in> {MSGPACK_ACS_STR_VALUE, MSGPACK_ACS_BIN_VALUE} \<longrightarrow> m_trail c < 2 ^ 32)"

definition typed_exec :: "unpack_limit \<Rightarrow> 'z exec result \<Rightarrow> bool" where
  "typed_exec lim r \<longleftrightarrow>
     (case r of
        Inl e \<Rightarrow> True
      | Inr (Return ret off c) \<Rightarrow> ret > 0 \<longrightarrow> object_ok (context_data c)
      | Inr (Next fta c) \<Rightarrow> typed lim c)"

lemma typed_push_proc:
  assumes "stack_ok (m_stack c)" "reference_func (m_user c) = None" "limit (m_user c) = lim" "object_ok x"
  shows "typed_exec lim (Inr (push_proc x c))"
proof -
  obtain ret y st where p: "push_item (m_stack c) x = (ret, y, st)" by (metis prod_cases3)
  from push_item_ok [OF p assms(1,4)] show ?thesis
    using assms(2,3)
    by (auto simp: typed_exec_def push_proc_def p typed_def context_data_def set_bottom_def)
qed

lemma typed_push_result:
  assumes "stack_ok (m_stack c)"
    and "\<And>x u. r = Inr (x, u) \<Longrightarrow> reference_func u = None \<and> limit u = lim \<and> object_ok x"
  shows "typed_exec lim (push_result r c)"
proof (cases r)
  case (Inl e)
  then show ?thesis by (simp add: push_result_def typed_exec_def)
next
  case (Inr a)
  obtain x u where "a = (x, u)" by force
  then show ?thesis
    using assms Inr by (auto simp: push_result_def intro!: typed_push_proc)
qed

lemma allocate_keeps:
  "allocate alloc u s a = Inr u' \<Longrightarrow> reference_func u' = reference_func u \<and> limit u' = limit u"
  by (cases "alloc (zone u) s a") (auto simp: allocate_def)

lemma typed_unpack:
  assumes "reference_func u = None" "limit u = lim"
  shows "unpack_array alloc u n = Inr (x, v) \<Longrightarrow> reference_func v = None \<and> limit v = lim \<and> x = ARRAY []"
    and "unpack_map alloc u n = Inr (x, v) \<Longrightarrow> reference_func v = None \<and> limit v = lim \<and> x = MAP []"
    and "unpack_str alloc u p = Inr (x, v) \<Longrightarrow> length p < 2 ^ 32 \<Longrightarrow>
      reference_func v = None \<and> limit v = lim \<and> object_ok x"
    and "unpack_bin alloc u p = Inr (x, v) \<Longrightarrow> length p < 2 ^ 32 \<Longrightarrow>
      reference_func v = None \<and> limit v = lim \<and> object_ok x"
    and "unpack_ext alloc u p = Inr (x, v) \<Longrightarrow> p \<noteq> [] \<Longrightarrow> limit_ext lim < 2 ^ 32 \<Longrightarrow>
      reference_func v = None \<and> limit v = lim \<and> object_ok x"
  using assms
  by (auto simp: unpack_array_def unpack_map_def unpack_str_def unpack_bin_def unpack_ext_def
      by_reference_def Let_def split: if_splits dest!: allocate_keeps)

lemma typed_push_aggregate:
  assumes "typed lim c" "n < 2 ^ 32"
    and "(f, ct) = (unpack_array alloc, CT_ARRAY_ITEM) \<or> (f, ct) = (unpack_map alloc, CT_MAP_KEY)"
  shows "typed_exec lim (push_aggregate f ct n c)"
proof (cases "f (m_user c) n")
  case (Inl e)
  then show ?thesis by (simp add: push_aggregate_def typed_exec_def)
next
  case (Inr a)
  obtain x u where a: "a = (x, u)" by force
  have st: "m_stack c \<noteq> []" "object_ok (map_key (hd (m_stack c)))"
      "\<forall>sp \<in> set (tl (m_stack c)). frame_ok sp"
    and u: "reference_func (m_user c) = None" "limit (m_user c) = lim"
    using assms(1) by (simp_all add: typed_def stack_ok_def)
  have x: "reference_func u = None" "limit u = lim"
    "(ct = CT_ARRAY_ITEM \<and> x = ARRAY []) \<or> (ct = CT_MAP_KEY \<and> x = MAP [])"
    using assms(3) typed_unpack(1,2) [OF u, of alloc n x] Inr a by auto
  let ?c = "c\<lparr>m_user := u, m_stack := (hd (m_stack c))\<lparr>obj := x\<rparr> # tl (m_stack c)\<rparr>"
  have "typed_exec lim (Inr (push_proc x ?c))"
    by (rule typed_push_proc) (use st x in \<open>auto simp: stack_ok_def\<close>)
  moreover have "frame_ok ((hd (m_stack c))\<lparr>obj := x, container_type := Some ct, count := n\<rparr>)" if "0 < n"
    using that x(3) st(2) assms(2) by (auto simp: frame_ok_def)
  ultimately show ?thesis
    using x st
    by (auto simp: push_aggregate_def Inr a Let_def typed_exec_def typed_def stack_ok_def unpack_stack_new_def)
qed

lemma typed_rbind:
  "(\<And>a. m = Inr a \<Longrightarrow> typed_exec lim (f a)) \<Longrightarrow> typed_exec lim (rbind m f)"
  by (cases m) (simp_all add: typed_exec_def)

lemma read_bytes_length: "read_bytes data n k = Inr p \<Longrightarrow> length p = k"
  by (auto simp: read_bytes_def split: if_splits)

lemma byte_below: "unat (b :: byte) < 4294967296"
  using unsigned_less [of b, where 'a = nat] by simp

lemma typed_pushes:
  assumes "typed lim c"
  shows "object_ok x \<Longrightarrow> typed_exec lim (Inr (push_proc x c))"
    and "length p < 2 ^ 32 \<Longrightarrow> typed_exec lim (push_result (unpack_str alloc (m_user c) p) (c\<lparr>m_trail := t\<rparr>))"
    and "length p < 2 ^ 32 \<Longrightarrow> typed_exec lim (push_result (unpack_bin alloc (m_user c) p) (c\<lparr>m_trail := t\<rparr>))"
    and "p \<noteq> [] \<Longrightarrow> limit_ext lim < 2 ^ 32 \<Longrightarrow>
      typed_exec lim (push_result (unpack_ext alloc (m_user c) p) c)"
    and "length p < 2 ^ 32 \<Longrightarrow> typed_exec lim (push_result (unpack_str alloc (m_user c) p) c)"
    and "length p < 2 ^ 32 \<Longrightarrow> typed_exec lim (push_result (unpack_bin alloc (m_user c) p) c)"
    and "n < 2 ^ 32 \<Longrightarrow> typed_exec lim (push_aggregate (unpack_array alloc) CT_ARRAY_ITEM n c)"
    and "n < 2 ^ 32 \<Longrightarrow> typed_exec lim (push_aggregate (unpack_map alloc) CT_MAP_KEY n c)"
proof -
  have c: "stack_ok (m_stack c)" "reference_func (m_user c) = None" "limit (m_user c) = lim"
    using assms by (simp_all add: typed_def)
  note u = typed_unpack [OF c(2,3)]
  show "object_ok x \<Longrightarrow> typed_exec lim (Inr (push_proc x c))"
    using typed_push_proc [OF c] .
  show "typed_exec lim (push_result (unpack_str alloc (m_user c) p) (c\<lparr>m_trail := t\<rparr>))"
    "typed_exec lim (push_result (unpack_bin alloc (m_user c) p) (c\<lparr>m_trail := t\<rparr>))"
    "typed_exec lim (push_result (unpack_str alloc (m_user c) p) c)"
    "typed_exec lim (push_result (unpack_bin alloc (m_user c) p) c)" if "length p < 2 ^ 32"
    using u(3,4) that c(1) by (auto intro!: typed_push_result)
  show "typed_exec lim (push_result (unpack_ext alloc (m_user c) p) c)" if "p \<noteq> []" "limit_ext lim < 2 ^ 32"
    using u(5) that c(1) by (auto intro!: typed_push_result)
  show "typed_exec lim (push_aggregate (unpack_array alloc) CT_ARRAY_ITEM n c)"
    "typed_exec lim (push_aggregate (unpack_map alloc) CT_MAP_KEY n c)" if "n < 2 ^ 32"
    using typed_push_aggregate [OF assms that] by blast+
qed

lemma typed_integers:
  "object_ok (unpack_uint8 a)" "object_ok (unpack_uint16 b)" "object_ok (unpack_uint32 d)"
  "object_ok (unpack_uint64 e)" "object_ok (unpack_int8 i)" "object_ok (unpack_int16 j)"
  "object_ok (unpack_int32 k)" "object_ok (unpack_int64 l)" "object_ok (unpack_float d)"
  "object_ok (unpack_double e)" "object_ok unpack_nil" "object_ok unpack_true" "object_ok unpack_false"
  by (simp_all add: unpack_uint8_def unpack_uint16_def unpack_uint32_def unpack_uint64_def
      unpack_int8_def unpack_int16_def unpack_int32_def unpack_int64_def unpack_float_def
      unpack_double_def unpack_nil_def unpack_true_def unpack_false_def sint_up_scast is_up)

lemma typed_header:
  assumes "typed lim c"
  shows "typed_exec lim (exec_header alloc data c)"
proof -
  note push = typed_pushes [OF assms]
  have fix_size: "typed_exec lim (rbind (load_fix data k) g)"
    if "\<And>n. n < 2 ^ 32 \<Longrightarrow> typed_exec lim (g n)" for k g
    using that byte_below by (intro typed_rbind) (auto simp: load_fix_def)
  have low: "next_cs b < 32" "unat (b AND 0x1f) < 2 ^ 32" for b :: byte
    by (simp_all add: next_cs_def unat_low_bits)
  have "typed_exec lim (Inr (Next True (c\<lparr>m_trail := t, m_cs := next_cs b\<rparr>)))" for t b
    using assms low(1) [of b] by (auto simp: typed_exec_def typed_def)
  moreover have "typed_exec lim (Inr (Next True (c\<lparr>m_trail := unat (b AND 0x1f), m_cs := MSGPACK_ACS_STR_VALUE\<rparr>)))"
    for b :: byte using assms low(2) [of b] by (auto simp: typed_exec_def typed_def)
  moreover have "typed_exec lim (Inr (Return (-1) off c))" for off
    by (simp add: typed_exec_def)
  moreover have "typed_exec lim (rbind (load_fix data k) (\<lambda>n. push_aggregate (unpack_array alloc) CT_ARRAY_ITEM n c))"
    "typed_exec lim (rbind (load_fix data k) (\<lambda>n. push_aggregate (unpack_map alloc) CT_MAP_KEY n c))" for k
    by (intro fix_size push, assumption)+
  ultimately show ?thesis
    unfolding exec_header_def
    by (intro typed_rbind) (simp add: Let_def push typed_integers)
qed

lemma typed_number: "typed lim c \<Longrightarrow> typed_exec lim (exec_number data n c)"
  using typed_pushes(1) typed_integers
  by (auto simp: exec_number_def intro!: typed_rbind)

lemma typed_lengths:
  assumes "typed lim c"
  shows "k < 2 ^ 32 \<Longrightarrow> typed_exec lim (str_length alloc k c)"
    and "k < 2 ^ 32 \<Longrightarrow> typed_exec lim (bin_length alloc k c)"
    and "0 < k \<Longrightarrow> typed_exec lim (ext_length alloc k c)"
  using assms typed_pushes(2,3) [OF assms, of "[]"]
  by (auto simp: str_length_def bin_length_def ext_length_def typed_exec_def typed_def Let_def)

lemma unat_word_below:
  "unat (x :: 8 word) < 2 ^ 32" "unat (y :: 16 word) < 2 ^ 32" "unat (z :: 32 word) < 2 ^ 32"
  using unsigned_less [of x, where 'a = nat] unsigned_less [of y, where 'a = nat]
    unsigned_less [of z, where 'a = nat] by simp_all

lemma typed_switch:
  assumes c: "typed lim c" and l: "limit_ext lim < 2 ^ 32"
    and m: "m_cs c = MSGPACK_ACS_EXT_VALUE \<Longrightarrow> 0 < m_trail c"
    "m_cs c \<in> {MSGPACK_ACS_STR_VALUE, MSGPACK_ACS_BIN_VALUE} \<Longrightarrow> m_trail c < 2 ^ 32"
  shows "typed_exec lim (exec_switch alloc data n c)"
proof -
  note push = typed_pushes [OF c] and len = typed_lengths [OF c] and below = unat_word_below
  have ext: "typed_exec lim (exec_ext alloc data n k c)" if "0 < k" for k
    using push(4) l that unfolding exec_ext_def
    by (intro typed_rbind) (auto dest!: read_bytes_length)
  have "typed_exec lim (exec_fixext alloc data n c)"
    unfolding exec_fixext_def using ext by simp
  moreover have "typed_exec lim (exec_length8 alloc data n c)" "typed_exec lim (exec_length16 alloc data n c)"
    "typed_exec lim (exec_length32 alloc data n c)"
    unfolding exec_length8_def exec_length16_def exec_length32_def
    using len below by (auto intro!: typed_rbind)
  moreover have "typed_exec lim (exec_container alloc data n c)"
    unfolding exec_container_def using push(7,8) below by (auto intro!: typed_rbind)
  moreover have "typed_exec lim (exec_body_value alloc data n c)"
    if "m_cs c \<in> {MSGPACK_ACS_STR_VALUE..MSGPACK_ACS_EXT_VALUE}"
  proof -
    have "m_cs c = 32 \<or> m_cs c = 33 \<or> m_cs c = 34" using that by auto
    then show ?thesis
    proof (elim disjE)
      assume e: "m_cs c = 34"
      have "typed_exec lim (push_result (unpack_ext alloc (m_user c) p) c)" if "length p = m_trail c" for p
        using push(4) [of p alloc] l m(1) [OF e] that by fastforce
      then show ?thesis
        using e by (auto simp: exec_body_value_def intro!: typed_rbind dest!: read_bytes_length)
    qed (use push(5,6) m(2) in
        \<open>auto simp: exec_body_value_def intro!: typed_rbind dest!: read_bytes_length\<close>)
  qed
  moreover have "typed_exec lim (Inr (Return (-1) off c))" for off
    by (simp add: typed_exec_def)
  ultimately show ?thesis
    using typed_number [OF c] by (simp add: exec_switch_def)
qed

lemma typed_value:
  assumes "typed lim c" "limit_ext lim < 2 ^ 32"
  shows "typed_exec lim (exec_value alloc data fta c)"
proof -
  have "typed lim (c\<lparr>m_current := i\<rparr>)" for i using assms(1) by (simp add: typed_def)
  then have "typed_exec lim (exec_switch alloc data n (c\<lparr>m_current := i\<rparr>))" for n i
    by (rule typed_switch [OF _ assms(2)]) (use assms(1) in \<open>auto simp: typed_def\<close>)
  then show ?thesis by (simp add: exec_value_def Let_def typed_exec_def)
qed

lemma typed_pass:
  assumes "typed lim c" "limit_ext lim < 2 ^ 32"
  shows "typed_exec lim (exec_pass alloc data fta c)"
proof (cases "m_cs c = MSGPACK_CS_HEADER")
  case True
  note h = typed_header [OF assms(1), of alloc data]
  show ?thesis
  proof (cases "exec_header alloc data c")
    case (Inl e)
    then show ?thesis by (simp add: exec_pass_def True typed_exec_def)
  next
    case (Inr r)
    with h have "typed_exec lim (Inr r)" by simp
    then show ?thesis
      using typed_value [OF _ assms(2)] by (cases r) (auto simp: exec_pass_def True Inr typed_exec_def)
  qed
qed (use typed_value [OF assms] in \<open>simp add: exec_pass_def\<close>)

lemma typed_loop:
  assumes "exec_loop alloc data fta c = Some r" "typed lim c" "limit_ext lim < 2 ^ 32"
  shows "case r of Inl e \<Rightarrow> True | Inr (ret, off, c) \<Rightarrow> ret > 0 \<longrightarrow> object_ok (context_data c)"
  using assms(1,2)
proof (induction alloc data fta c r rule: exec_loop.raw_induct [rotated, consumes 1, case_names step])
  case (step loop alloc data fta c r)
  note p = typed_pass [OF step.prems assms(3), of alloc data fta]
  show ?case
  proof (cases "exec_pass alloc data fta c")
    case (Inl e)
    then show ?thesis using step.hyps by auto
  next
    case (Inr x)
    show ?thesis
    proof (cases x)
      case (Return ret off d)
      then show ?thesis using Inr p step.hyps by (auto simp: typed_exec_def)
    next
      case (Next f d)
      then have "typed lim d" using Inr p by (simp add: typed_exec_def)
      then show ?thesis
        using Inr Next step.hyps step.IH by (cases "m_current d = length data") auto
    qed
  qed
qed

text \<open>What \<open>unpack\<close> returns is a well-formed object.\<close>

lemma unpack_typed:
  assumes "unpack alloc data off z None lim = Some (Inr (x, noff, refd))" "limit_ext lim < 2 ^ 32"
  shows "object_ok x"
proof -
  let ?c = "context_init (context_new None lim z)"
  have c: "typed lim (?c\<lparr>m_current := off\<rparr>)"
    by (simp add: typed_def context_init_def context_new_def stack_ok_def unpack_stack_new_def)
  obtain r where r: "execute alloc data off ?c = Some (Inr r)"
    using assms(1) by (auto simp: unpack_def unpack_imp_def split: if_splits option.splits sum.splits)
  obtain ret no d where rr: "r = (ret, no, d)" by (metis prod_cases3)
  have "ret > 0 \<longrightarrow> object_ok (context_data d)"
    using typed_loop [OF _ c assms(2), of alloc data False "Inr r"] r
    by (auto simp: execute_def rr Let_def split: if_splits)
  then show ?thesis
    using assms(1) r by (auto simp: unpack_def unpack_imp_def rr Let_def split: if_splits)
qed

end
