(* ===== verification/Msgpack_Convert.thy ===== *)
theory Msgpack_Convert
  imports Msgpack_Visitors
begin

unbundle bit_operations_syntax

text \<open>
  Adaptors of \<open>src/3rd/inc/msgpack/v1/adaptor\<close>: how values of C++ types are read
  from an object (\<open>convert\<close>), packed (\<open>pack\<close>) and made into an object (\<open>object\<close>),
  for the integer types, \<open>bool\<close>, strings and tuples. \<open>char\<close> is signed or not,
  depending on the platform; that is the argument \<open>char_signed\<close>.
\<close>

section \<open>Integers\<close>

text \<open>\<open>convert_integer_sign<T, true>\<close>, for a type \<open>T\<close> of the width of the result.\<close>

fun convert_integer_signed :: "object \<Rightarrow> 'a::len word result" where
  "convert_integer_signed (POSITIVE_INTEGER u) =
     (if uint u > 2 ^ (LENGTH('a) - 1) - 1 then Inl (Throw Type_Error) else Inr (ucast u))"
| "convert_integer_signed (NEGATIVE_INTEGER i) =
     (if sint i < - (2 ^ (LENGTH('a) - 1)) then Inl (Throw Type_Error) else Inr (scast i))"
| "convert_integer_signed _ = Inl (Throw Type_Error)"

text \<open>\<open>convert_integer_sign<T, false>\<close>.\<close>

fun convert_integer_unsigned :: "object \<Rightarrow> 'a::len word result" where
  "convert_integer_unsigned (POSITIVE_INTEGER u) =
     (if uint u > 2 ^ LENGTH('a) - 1 then Inl (Throw Type_Error) else Inr (ucast u))"
| "convert_integer_unsigned _ = Inl (Throw Type_Error)"

definition convert_integer :: "bool \<Rightarrow> object \<Rightarrow> 'a::len word result" where
  "convert_integer is_signed x =
     (if is_signed then convert_integer_signed x else convert_integer_unsigned x)"

definition object_sign_true :: "'a::len word \<Rightarrow> object" where
  "object_sign_true v =
     (if sint v < 0 then NEGATIVE_INTEGER (scast v) else POSITIVE_INTEGER (scast v))"

definition object_sign_false :: "'a::len word \<Rightarrow> object" where
  "object_sign_false v = POSITIVE_INTEGER (ucast v)"

definition object_char :: "bool \<Rightarrow> 'a::len word \<Rightarrow> object" where
  "object_char is_signed v = (if is_signed then object_sign_true v else object_sign_false v)"

definition convert_char :: "bool \<Rightarrow> object \<Rightarrow> 8 word result" where
  "convert_char char_signed x = convert_integer char_signed x"

definition convert_wchar :: "object \<Rightarrow> 32 word result" where
  "convert_wchar x = convert_integer True x"

definition convert_signed_char :: "object \<Rightarrow> 8 word result" where
  "convert_signed_char x = convert_integer True x"

definition convert_signed_short :: "object \<Rightarrow> 16 word result" where
  "convert_signed_short x = convert_integer True x"

definition convert_signed_int :: "object \<Rightarrow> 32 word result" where
  "convert_signed_int x = convert_integer True x"

definition convert_signed_long :: "object \<Rightarrow> 64 word result" where
  "convert_signed_long x = convert_integer True x"

definition convert_signed_long_long :: "object \<Rightarrow> 64 word result" where
  "convert_signed_long_long x = convert_integer True x"

definition convert_unsigned_char :: "object \<Rightarrow> 8 word result" where
  "convert_unsigned_char x = convert_integer False x"

definition convert_unsigned_short :: "object \<Rightarrow> 16 word result" where
  "convert_unsigned_short x = convert_integer False x"

definition convert_unsigned_int :: "object \<Rightarrow> 32 word result" where
  "convert_unsigned_int x = convert_integer False x"

definition convert_unsigned_long :: "object \<Rightarrow> 64 word result" where
  "convert_unsigned_long x = convert_integer False x"

definition convert_unsigned_long_long :: "object \<Rightarrow> 64 word result" where
  "convert_unsigned_long_long x = convert_integer False x"

text \<open>The objects of integers.\<close>

definition object_wchar :: "32 word \<Rightarrow> object" where
  "object_wchar v = object_char True v"

definition object_signed_char :: "8 word \<Rightarrow> object" where
  "object_signed_char v =
     (if sint v < 0 then NEGATIVE_INTEGER (scast v) else POSITIVE_INTEGER (scast v))"

definition object_signed_short :: "16 word \<Rightarrow> object" where
  "object_signed_short v =
     (if sint v < 0 then NEGATIVE_INTEGER (scast v) else POSITIVE_INTEGER (scast v))"

definition object_signed_int :: "32 word \<Rightarrow> object" where
  "object_signed_int v =
     (if sint v < 0 then NEGATIVE_INTEGER (scast v) else POSITIVE_INTEGER (scast v))"

definition object_signed_long :: "64 word \<Rightarrow> object" where
  "object_signed_long v = (if sint v < 0 then NEGATIVE_INTEGER v else POSITIVE_INTEGER v)"

definition object_signed_long_long :: "64 word \<Rightarrow> object" where
  "object_signed_long_long v = (if sint v < 0 then NEGATIVE_INTEGER v else POSITIVE_INTEGER v)"

definition object_unsigned_char :: "8 word \<Rightarrow> object" where
  "object_unsigned_char v = POSITIVE_INTEGER (ucast v)"

definition object_unsigned_short :: "16 word \<Rightarrow> object" where
  "object_unsigned_short v = POSITIVE_INTEGER (ucast v)"

definition object_unsigned_int :: "32 word \<Rightarrow> object" where
  "object_unsigned_int v = POSITIVE_INTEGER (ucast v)"

definition object_unsigned_long :: "64 word \<Rightarrow> object" where
  "object_unsigned_long v = POSITIVE_INTEGER v"

definition object_unsigned_long_long :: "64 word \<Rightarrow> object" where
  "object_unsigned_long_long v = POSITIVE_INTEGER v"

section \<open>Booleans and strings\<close>

fun convert_bool :: "object \<Rightarrow> bool result" where
  "convert_bool (BOOLEAN v) = Inr v"
| "convert_bool _ = Inl (Throw Type_Error)"

definition pack_bool :: "'s writer \<Rightarrow> 's \<Rightarrow> bool \<Rightarrow> 's result" where
  "pack_bool wr s v = (if v then pack_true wr s else pack_false wr s)"

definition object_bool :: "bool \<Rightarrow> object" where
  "object_bool v = BOOLEAN v"

fun convert_string :: "object \<Rightarrow> byte list result" where
  "convert_string (BIN p) = Inr p"
| "convert_string (STR' p) = Inr p"
| "convert_string _ = Inl (Throw Type_Error)"

definition checked_get_container_size :: "nat \<Rightarrow> 32 word result" where
  "checked_get_container_size n = rbind (check_container_size n) (\<lambda>_. Inr (of_nat n))"

definition pack_string :: "'s writer \<Rightarrow> 's \<Rightarrow> byte list \<Rightarrow> 's result" where
  "pack_string wr s v =
     rbind (checked_get_container_size (length v)) (\<lambda>n.
     rbind (pack_str wr s n) (\<lambda>s. pack_str_body wr s v n))"

definition object_string :: "byte list \<Rightarrow> object result" where
  "object_string v = rbind (checked_get_container_size (length v)) (\<lambda>n. Inr (STR' v))"

text \<open>\<open>const char*\<close>: the bytes up to the first 0. Without one, \<open>strlen\<close> leaves the array.\<close>

definition strlen :: "byte list \<Rightarrow> nat result" where
  "strlen v = (if 0 \<in> set v then Inr (length (takeWhile (\<lambda>b. b \<noteq> 0) v)) else Inl (UB Out_Of_Bounds))"

definition pack_char_ptr :: "'s writer \<Rightarrow> 's \<Rightarrow> byte list \<Rightarrow> 's result" where
  "pack_char_ptr wr s v =
     rbind (strlen v) (\<lambda>l.
     rbind (checked_get_container_size l) (\<lambda>n.
     rbind (pack_str wr s n) (\<lambda>s. pack_str_body wr s v n)))"

section \<open>Tuples\<close>

text \<open>
  The elements of the tuples of the program: a value with its C++ type. A tuple
  type is the list of its element types. A \<open>const char*\<close> is only ever packed.
\<close>

datatype arg_type = Int_T | Unsigned_T | Bool_T | String_T

datatype arg =
    Int_Arg "32 word"
  | Unsigned_Arg "32 word"
  | Bool_Arg bool
  | String_Arg "byte list"
  | Char_Ptr_Arg "byte list"

fun type_of_arg :: "arg \<Rightarrow> arg_type" where
  "type_of_arg (Int_Arg _) = Int_T"
| "type_of_arg (Unsigned_Arg _) = Unsigned_T"
| "type_of_arg (Bool_Arg _) = Bool_T"
| "type_of_arg (String_Arg _) = String_T"
| "type_of_arg (Char_Ptr_Arg _) = String_T"

fun convert_arg :: "arg_type \<Rightarrow> object \<Rightarrow> arg result" where
  "convert_arg Int_T x = rbind (convert_signed_int x) (\<lambda>v. Inr (Int_Arg v))"
| "convert_arg Unsigned_T x = rbind (convert_unsigned_int x) (\<lambda>v. Inr (Unsigned_Arg v))"
| "convert_arg Bool_T x = rbind (convert_bool x) (\<lambda>v. Inr (Bool_Arg v))"
| "convert_arg String_T x = rbind (convert_string x) (\<lambda>v. Inr (String_Arg v))"

text \<open>The element of a new tuple.\<close>

fun default_arg :: "arg_type \<Rightarrow> arg" where
  "default_arg Int_T = Int_Arg 0"
| "default_arg Unsigned_T = Unsigned_Arg 0"
| "default_arg Bool_T = Bool_Arg False"
| "default_arg String_T = String_Arg []"

text \<open>An element beyond the end of the array keeps its value.\<close>

fun StdTupleConverter :: "arg_type list \<Rightarrow> nat \<Rightarrow> object list \<Rightarrow> arg list \<Rightarrow> arg list result" where
  "StdTupleConverter ts 0 xs v = Inr v"
| "StdTupleConverter ts (Suc n) xs v =
     rbind (StdTupleConverter ts n xs v) (\<lambda>v.
       if unat (size_of xs) \<ge> Suc n then
         rbind (convert_arg (ts ! n) (xs ! n)) (\<lambda>a. Inr (v[n := a]))
       else Inr v)"

fun convert_tuple :: "arg_type list \<Rightarrow> object \<Rightarrow> arg list \<Rightarrow> arg list result" where
  "convert_tuple ts (ARRAY xs) v = StdTupleConverter ts (length ts) xs v"
| "convert_tuple ts _ v = Inl (Throw Type_Error)"

text \<open>\<open>object::as\<close> of a tuple type.\<close>

definition as_tuple :: "arg_type list \<Rightarrow> object \<Rightarrow> arg list result" where
  "as_tuple ts x = convert_tuple ts x (map default_arg ts)"

fun pack_arg :: "'s writer \<Rightarrow> 's \<Rightarrow> arg \<Rightarrow> 's result" where
  "pack_arg wr s (Int_Arg v) = pack_int wr s v"
| "pack_arg wr s (Unsigned_Arg v) = pack_unsigned_int wr s v"
| "pack_arg wr s (Bool_Arg v) = pack_bool wr s v"
| "pack_arg wr s (String_Arg v) = pack_string wr s v"
| "pack_arg wr s (Char_Ptr_Arg v) = pack_char_ptr wr s v"

fun StdTuplePacker :: "'s writer \<Rightarrow> 's \<Rightarrow> arg list \<Rightarrow> nat \<Rightarrow> 's result" where
  "StdTuplePacker wr s v 0 = Inr s"
| "StdTuplePacker wr s v (Suc n) =
     rbind (StdTuplePacker wr s v n) (\<lambda>s. pack_arg wr s (v ! n))"

definition pack_tuple :: "'s writer \<Rightarrow> 's \<Rightarrow> arg list \<Rightarrow> 's result" where
  "pack_tuple wr s v =
     rbind (checked_get_container_size (length v)) (\<lambda>n.
     rbind (pack_array wr s n) (\<lambda>s. StdTuplePacker wr s v (length v)))"

section \<open>Integers come back\<close>

text \<open>The integer of an object.\<close>

fun integer_of :: "object \<Rightarrow> int option" where
  "integer_of (POSITIVE_INTEGER u) = Some (uint u)"
| "integer_of (NEGATIVE_INTEGER i) = Some (sint i)"
| "integer_of _ = None"

lemma sint_scast_fits:
  assumes "- (2 ^ (LENGTH('a) - 1)) \<le> sint i" "sint i < 0"
  shows "sint (scast (i :: 64 word) :: 'a::len word) = sint i"
proof -
  have "sint i < 2 ^ (LENGTH('a) - 1)" using assms(2) by (simp add: order_less_trans [of _ 0])
  with assms(1) show ?thesis
    by (simp add: signed_scast_eq signed_take_bit_int_eq_self)
qed

lemma sint_ucast_fits:
  assumes "uint u < 2 ^ (LENGTH('a) - 1)"
  shows "sint (ucast (u :: 64 word) :: 'a::len word) = uint u"
proof -
  have "- (2 ^ (LENGTH('a) - 1)) \<le> uint u" by (rule order_trans [of _ 0]) simp_all
  with assms show ?thesis
    by (simp add: signed_ucast_eq signed_take_bit_int_eq_self)
qed

text \<open>A conversion succeeds exactly on the integers of the type, and gives their value.\<close>

lemma convert_signed_iff:
  fixes v :: "'a::len word"
  assumes "object_ok x"
  shows "convert_integer_signed x = Inr v \<longleftrightarrow> integer_of x = Some (sint v)"
proof (cases x)
  case (POSITIVE_INTEGER u)
  show ?thesis
  proof
    assume "convert_integer_signed x = Inr v"
    then show "integer_of x = Some (sint v)"
      by (auto simp: POSITIVE_INTEGER sint_ucast_fits split: if_splits)
  next
    assume "integer_of x = Some (sint v)"
    then have u: "uint u = sint v" by (simp add: POSITIVE_INTEGER)
    moreover have "sint v < 2 ^ (LENGTH('a) - 1)" using sint_less [of v] by simp
    ultimately have "sint (ucast u :: 'a word) = sint v" by (simp add: sint_ucast_fits)
    then have "ucast u = v" by (simp add: signed_word_eqI)
    then show "convert_integer_signed x = Inr v"
      using u \<open>sint v < _\<close> by (simp add: POSITIVE_INTEGER)
  qed
next
  case (NEGATIVE_INTEGER i)
  then have neg: "sint i < 0" using assms by simp
  show ?thesis
  proof
    assume "convert_integer_signed x = Inr v"
    then show "integer_of x = Some (sint v)"
      using neg by (auto simp: NEGATIVE_INTEGER sint_scast_fits split: if_splits)
  next
    assume "integer_of x = Some (sint v)"
    then have i: "sint i = sint v" by (simp add: NEGATIVE_INTEGER)
    moreover have "- (2 ^ (LENGTH('a) - 1)) \<le> sint v" using sint_greater_eq [of v] by simp
    ultimately have "sint (scast i :: 'a word) = sint v" using neg by (simp add: sint_scast_fits)
    then have "scast i = v" by (simp add: signed_word_eqI)
    then show "convert_integer_signed x = Inr v"
      using i \<open>_ \<le> sint v\<close> by (simp add: NEGATIVE_INTEGER)
  qed
qed simp_all

lemma convert_unsigned_iff:
  fixes v :: "'a::len word"
  assumes "object_ok x"
  shows "convert_integer_unsigned x = Inr v \<longleftrightarrow> integer_of x = Some (uint v)"
proof (cases x)
  case (POSITIVE_INTEGER u)
  have fits: "uint (ucast u :: 'a word) = uint u" if "uint u < 2 ^ LENGTH('a)"
    using that by (simp add: unsigned_ucast_eq take_bit_int_eq_self)
  show ?thesis
  proof
    assume "convert_integer_unsigned x = Inr v"
    then show "integer_of x = Some (uint v)"
      using fits by (auto simp: POSITIVE_INTEGER split: if_splits)
  next
    assume "integer_of x = Some (uint v)"
    then have u: "uint u = uint v" by (simp add: POSITIVE_INTEGER)
    moreover have "uint v < 2 ^ LENGTH('a)" by (rule unsigned_less)
    ultimately have "uint (ucast u :: 'a word) = uint v" using fits by simp
    then have "ucast u = v" by (simp add: word_uint_eq_iff)
    moreover have "\<not> uint u > 2 ^ LENGTH('a) - 1" using u \<open>uint v < _\<close> by linarith
    ultimately show "convert_integer_unsigned x = Inr v" by (simp add: POSITIVE_INTEGER)
  qed
next
  case (NEGATIVE_INTEGER i)
  then have "sint i < 0" using assms by simp
  moreover have "0 \<le> uint v" by simp
  ultimately have "sint i \<noteq> uint v" by linarith
  then show ?thesis by (simp add: NEGATIVE_INTEGER)
qed simp_all

section \<open>Tuples come back\<close>

fun object_of_arg :: "arg \<Rightarrow> object" where
  "object_of_arg (Int_Arg v) = object_signed_int v"
| "object_of_arg (Unsigned_Arg v) = object_unsigned_int v"
| "object_of_arg (Bool_Arg v) = object_bool v"
| "object_of_arg (String_Arg v) = STR' v"
| "object_of_arg (Char_Ptr_Arg v) = STR' (takeWhile (\<lambda>b. b \<noteq> 0) v)"

fun arg_ok :: "arg \<Rightarrow> bool" where
  "arg_ok (String_Arg v) \<longleftrightarrow> length v < 2 ^ 32"
| "arg_ok (Char_Ptr_Arg v) \<longleftrightarrow> 0 \<in> set v \<and> length v < 2 ^ 32"
| "arg_ok _ \<longleftrightarrow> True"

text \<open>A value that a tuple can hold after a conversion.\<close>

definition is_value :: "arg \<Rightarrow> bool" where
  "is_value a \<longleftrightarrow> (\<forall>v. a \<noteq> Char_Ptr_Arg v)"

lemma length_c_str_less: "length (takeWhile (\<lambda>b. b \<noteq> 0) v) \<le> length v"
  by (rule length_takeWhile_le)

lemmas object_int_defs = object_signed_int_def object_unsigned_int_def object_bool_def

lemma sint_widen: "sint (scast (v :: 32 word) :: 64 word) = sint v"
  by (simp add: sint_up_scast is_up)

lemma uint_widen: "0 \<le> sint (v :: 32 word) \<Longrightarrow> uint (scast v :: 64 word) = sint v"
proof -
  assume pos: "0 \<le> sint v"
  have "take_bit LENGTH(64) (sint v) = sint v"
    using pos sint_less [of v] by (intro take_bit_int_eq_self) simp_all
  with pos show ?thesis unfolding scast_eq unsigned_of_int by simp
qed

lemma uint_widen_unsigned: "uint (ucast (v :: 32 word) :: 64 word) = uint v"
  by (simp add: uint_up_ucast is_up)

lemma object_of_arg_ok: "arg_ok a \<Longrightarrow> object_ok (object_of_arg a)"
  using length_c_str_less by (cases a) (auto simp: object_int_defs sint_widen intro: le_less_trans)

lemma convert_object_of_arg: "is_value a \<Longrightarrow> convert_arg (type_of_arg a) (object_of_arg a) = Inr a"
proof (cases a)
  case (Int_Arg v)
  have "integer_of (object_signed_int v) = Some (sint v)"
    by (simp add: object_int_defs sint_widen uint_widen)
  moreover have "object_ok (object_signed_int v)"
    by (simp add: object_int_defs sint_widen)
  ultimately have "convert_integer_signed (object_signed_int v) = Inr v"
    by (simp add: convert_signed_iff)
  then show ?thesis
    by (simp add: Int_Arg convert_signed_int_def convert_integer_def)
next
  case (Unsigned_Arg v)
  have "convert_integer_unsigned (object_unsigned_int v) = Inr v"
    by (subst convert_unsigned_iff)
      (simp_all add: object_int_defs uint_widen_unsigned)
  then show ?thesis
    by (simp add: Unsigned_Arg convert_unsigned_int_def convert_integer_def)
qed (simp_all add: object_int_defs is_value_def)

text \<open>What a tuple becomes: the elements there are, and the defaults behind them.\<close>

lemma StdTupleConverter_ok:
  assumes "length xs < 2 ^ 32" "n \<le> length v"
    and "\<And>i. i < n \<Longrightarrow> i < length xs \<Longrightarrow> convert_arg (ts ! i) (xs ! i) = Inr (as ! i)"
  shows "StdTupleConverter ts n xs v =
    Inr (map (\<lambda>i. if i < n \<and> i < length xs then as ! i else v ! i) [0..<length v])"
  using assms(2,3)
proof (induction n)
  case 0
  have "map (\<lambda>i. v ! i) [0..<length v] = v" by (rule map_nth)
  then show ?case by simp
next
  case (Suc n)
  have xs: "unat (size_of xs) = length xs" by (rule unat_size_of [OF assms(1)])
  from Suc have ih: "StdTupleConverter ts n xs v =
      Inr (map (\<lambda>i. if i < n \<and> i < length xs then as ! i else v ! i) [0..<length v])" by simp
  show ?case
  proof (cases "n < length xs")
    case True
    then have "convert_arg (ts ! n) (xs ! n) = Inr (as ! n)" using Suc.prems(2) by simp
    moreover have "(map (\<lambda>i. if i < n \<and> i < length xs then as ! i else v ! i) [0..<length v])[n := as ! n] =
        map (\<lambda>i. if i < Suc n \<and> i < length xs then as ! i else v ! i) [0..<length v]"
      by (rule nth_equalityI) (use True in \<open>auto simp: nth_list_update less_Suc_eq\<close>)
    ultimately show ?thesis using True by (simp add: ih xs)
  next
    case False
    then have "(i < Suc n \<and> i < length xs) = (i < n \<and> i < length xs)" for i by auto
    with False show ?thesis by (simp add: ih xs)
  qed
qed

lemma as_tuple_of_args:
  assumes "length as + length extra < 2 ^ 32" "list_all is_value as"
  shows "as_tuple (map type_of_arg as) (ARRAY (map object_of_arg as @ extra)) = Inr as"
proof -
  have "StdTupleConverter (map type_of_arg as) (length as) (map object_of_arg as @ extra)
      (map default_arg (map type_of_arg as)) =
    Inr (map (\<lambda>i. if i < length as \<and> i < length (map object_of_arg as @ extra) then as ! i
        else map default_arg (map type_of_arg as) ! i) [0..<length (map default_arg (map type_of_arg as))])"
    by (rule StdTupleConverter_ok) (use assms in \<open>simp_all add: nth_append convert_object_of_arg list_all_length\<close>)
  also have "map (\<lambda>i. if i < length as \<and> i < length (map object_of_arg as @ extra) then as ! i
        else map default_arg (map type_of_arg as) ! i) [0..<length (map default_arg (map type_of_arg as))] = as"
    by (rule nth_equalityI) simp_all
  finally show ?thesis by (simp add: as_tuple_def)
qed

context stream
begin

lemma emits_pack_string:
  assumes "length p < 2 ^ 32"
  shows "emits (\<lambda>s. pack_string wr s p) (enc (STR' p))"
proof -
  have "emits (\<lambda>s. rbind (pack_str wr s (size_of p)) (\<lambda>s. pack_str_body wr s p (size_of p)))
      (enc_str (length p) @ p)"
    using assms unfolding pack_headers pack_str_body_def
    by (intro emits_seq emits_body) (simp_all add: unat_size_of emits_wr)
  moreover have "checked_get_container_size (length p) = Inr (size_of p)"
    using assms by (simp add: checked_get_container_size_def check_container_size_def size_of_def)
  ultimately show ?thesis by (simp add: pack_string_def)
qed

lemma emits_pack_char_ptr:
  assumes "0 \<in> set v" "length v < 2 ^ 32"
  shows "emits (\<lambda>s. pack_char_ptr wr s v) (enc (STR' (takeWhile (\<lambda>b. b \<noteq> 0) v)))"
proof -
  let ?p = "takeWhile (\<lambda>b. b \<noteq> 0) v"
  have p: "length ?p < 2 ^ 32" "length ?p \<le> length v"
    using length_c_str_less [of v] assms(2) by simp_all
  have "pack_str_body wr s v (size_of ?p) = pack_str_body wr s ?p (size_of ?p)" for s
    using p by (simp add: pack_str_body_def bytes_at_def unat_size_of takeWhile_eq_take [symmetric])
  moreover have "strlen v = Inr (length ?p)" using assms(1) by (simp add: strlen_def)
  ultimately have "(\<lambda>s. pack_char_ptr wr s v) = (\<lambda>s. pack_string wr s ?p)"
    using p by (simp add: fun_eq_iff pack_char_ptr_def pack_string_def checked_get_container_size_def
        check_container_size_def size_of_def)
  then show ?thesis using emits_pack_string [OF p(1)] by simp
qed

lemma emits_pack_arg:
  assumes "arg_ok a"
  shows "emits (\<lambda>s. pack_arg wr s a) (enc (object_of_arg a))"
proof (cases a)
  case (Int_Arg v)
  have "enc (object_of_arg a) = enc_int (sint v)"
    by (simp add: Int_Arg object_int_defs sint_widen uint_widen)
  then show ?thesis
    using emits_wr by (simp add: Int_Arg pack_int_types pack_imp_int)
next
  case (Unsigned_Arg v)
  have "enc (object_of_arg a) = enc_int (uint v)"
    by (simp add: Unsigned_Arg object_int_defs uint_widen_unsigned)
  then show ?thesis
    using emits_wr by (simp add: Unsigned_Arg pack_int_types pack_imp_uint)
next
  case (Bool_Arg v)
  then show ?thesis
    using emits_wr
    by (cases v) (simp_all add: pack_bool_def pack_true_def pack_false_def append_buffer_def object_bool_def)
next
  case (String_Arg v)
  then show ?thesis using assms emits_pack_string by simp
next
  case (Char_Ptr_Arg v)
  then show ?thesis using assms emits_pack_char_ptr by simp
qed

lemma emits_StdTuplePacker:
  assumes "list_all arg_ok as" "n \<le> length as"
  shows "emits (\<lambda>s. StdTuplePacker wr s as n) (concat (map (\<lambda>a. enc (object_of_arg a)) (take n as)))"
  using assms(2)
proof (induction n)
  case (Suc n)
  then have "emits (\<lambda>s. rbind (StdTuplePacker wr s as n) (\<lambda>s. pack_arg wr s (as ! n)))
      (concat (map (\<lambda>a. enc (object_of_arg a)) (take n as)) @ enc (object_of_arg (as ! n)))"
    using assms(1) by (intro emits_seq Suc.IH emits_pack_arg) (simp_all add: list_all_length)
  then show ?case using Suc.prems by (simp add: take_Suc_conv_app_nth)
qed (simp add: emits_nothing)

lemma emits_pack_tuple:
  assumes "list_all arg_ok as" "length as < 2 ^ 32"
  shows "emits (\<lambda>s. pack_tuple wr s as) (enc (ARRAY (map object_of_arg as)))"
proof -
  have "checked_get_container_size (length as) = Inr (size_of as)"
    using assms(2) by (simp add: checked_get_container_size_def check_container_size_def size_of_def)
  moreover have "emits (\<lambda>s. rbind (pack_array wr s (size_of as)) (\<lambda>s. StdTuplePacker wr s as (length as)))
      (enc_array (length as) @ concat (map (\<lambda>a. enc (object_of_arg a)) as))"
  proof (rule emits_seq)
    show "emits (\<lambda>s. pack_array wr s (size_of as)) (enc_array (length as))"
      unfolding pack_headers using emits_wr assms(2) by (simp add: unat_size_of)
    show "emits (\<lambda>s. StdTuplePacker wr s as (length as)) (concat (map (\<lambda>a. enc (object_of_arg a)) as))"
      using emits_StdTuplePacker [OF assms(1), of "length as"] by simp
  qed
  ultimately show ?thesis by (simp add: pack_tuple_def comp_def)
qed

end

end
