(* ===== verification/Msgpack_Zone.thy ===== *)
theory Msgpack_Zone
  imports Sbuffer
begin

unbundle bit_operations_syntax

text \<open>
  The zone of \<open>src/3rd/inc/msgpack/v1/detail/cpp11_zone.hpp\<close>: memory for the
  objects of one message, handed out from chunks that grow and are freed all
  together, with the finalizers of the objects built in it.

  A pointer is an address, a \<open>nat\<close> below \<open>2 ^ 64\<close>, and \<open>size_t\<close> arithmetic wraps.
  The heap is the list of its live blocks, each an address with its size. The C
  function \<open>malloc\<close> is a parameter: for the live blocks and a size it gives the
  address of a new block or fails. For the small arrays of finalizers the model
  keeps the bound \<open>avail\<close> on the size of a block, as for \<open>sbuffer\<close>.
\<close>

type_synonym blocks = "(nat \<times> nat) list"
type_synonym malloc = "blocks \<Rightarrow> nat \<Rightarrow> nat option"

definition add64 :: "nat \<Rightarrow> nat \<Rightarrow> nat" where
  "add64 a b = (a + b) mod 2 ^ 64"

definition sub64 :: "nat \<Rightarrow> nat \<Rightarrow> nat" where
  "sub64 a b = (a + 2 ^ 64 - b) mod 2 ^ 64"

section \<open>Finalizers\<close>

text \<open>A finalizer is a function and its argument, both pointers.\<close>

type_synonym finalizer = "nat \<times> nat"

definition sizeof_finalizer :: nat where "sizeof_finalizer = 16"

text \<open>The array from \<open>m_array\<close> up to \<open>m_tail\<close>, and the room up to \<open>m_end\<close>.\<close>

record finalizer_array =
  fins :: "finalizer list"
  room :: nat

definition finalizer_array_new :: finalizer_array where
  "finalizer_array_new = \<lparr>fins = [], room = 0\<rparr>"

text \<open>What \<open>call\<close> runs, in order: the last one pushed comes first.\<close>

definition finalizer_array_call :: "finalizer_array \<Rightarrow> finalizer list" where
  "finalizer_array_call a = rev (fins a)"

definition finalizer_array_clear :: "finalizer_array \<Rightarrow> finalizer list \<times> finalizer_array" where
  "finalizer_array_clear a = (finalizer_array_call a, a\<lparr>fins := []\<rparr>)"

definition push_expand :: "nat \<Rightarrow> finalizer \<Rightarrow> finalizer_array \<Rightarrow> finalizer_array result" where
  "push_expand avail f a =
     (let nused = room a;
          nnext = (if nused = 0 then (if sizeof_finalizer < 72 div 2 then 72 div sizeof_finalizer else 8)
                   else nused * 2)
      in if avail < sizeof_finalizer * nnext then Inl (Throw Bad_Alloc)
         else Inr (a\<lparr>fins := take nused (fins a) @ [f], room := nnext\<rparr>))"

definition finalizer_array_push :: "nat \<Rightarrow> finalizer \<Rightarrow> finalizer_array \<Rightarrow> finalizer_array result" where
  "finalizer_array_push avail f a =
     (if length (fins a) = room a then push_expand avail f a
      else Inr (a\<lparr>fins := fins a @ [f]\<rparr>))"

text \<open>Moving leaves an empty array.\<close>

definition finalizer_array_move :: "finalizer_array \<Rightarrow> finalizer_array \<times> finalizer_array" where
  "finalizer_array_move other = (other, \<lparr>fins = [], room = 0\<rparr>)"

section \<open>Chunks\<close>

definition sizeof_chunk :: nat where "sizeof_chunk = 8"

text \<open>The chunks, each with its address and the bytes behind its header, from \<open>m_head\<close> on.\<close>

record chunk_list =
  m_free :: nat
  m_ptr :: nat
  chunks :: blocks

definition chunk_block :: "nat \<times> nat \<Rightarrow> nat \<times> nat" where
  "chunk_block c = (fst c, add64 sizeof_chunk (snd c))"

definition chunk_list_new :: "malloc \<Rightarrow> nat \<Rightarrow> blocks \<Rightarrow> (chunk_list \<times> blocks) result" where
  "chunk_list_new malloc chunk_size h =
     (case malloc h (add64 sizeof_chunk chunk_size) of
        None \<Rightarrow> Inl (Throw Bad_Alloc)
      | Some c \<Rightarrow>
          Inr (\<lparr>m_free = chunk_size, m_ptr = add64 c sizeof_chunk, chunks = [(c, chunk_size)]\<rparr>,
               chunk_block (c, chunk_size) # h))"

definition free_chunks :: "blocks \<Rightarrow> blocks \<Rightarrow> blocks" where
  "free_chunks cs h = filter (\<lambda>b. b \<notin> chunk_block ` set cs) h"

definition chunk_list_destroy :: "chunk_list \<Rightarrow> blocks \<Rightarrow> blocks" where
  "chunk_list_destroy cl h = free_chunks (chunks cl) h"

text \<open>All chunks but the last are freed; a list that was moved from has no chunk to keep.\<close>

definition chunk_list_clear :: "nat \<Rightarrow> chunk_list \<Rightarrow> blocks \<Rightarrow> (chunk_list \<times> blocks) result" where
  "chunk_list_clear chunk_size cl h =
     (if chunks cl = [] then Inl (UB Null_Pointer)
      else
        let c = last (chunks cl) in
        Inr (\<lparr>m_free = chunk_size, m_ptr = add64 (fst c) sizeof_chunk, chunks = [c]\<rparr>,
             free_chunks (butlast (chunks cl)) h))"

definition chunk_list_move :: "chunk_list \<Rightarrow> chunk_list \<times> chunk_list" where
  "chunk_list_move other = (other, other\<lparr>chunks := []\<rparr>)"

section \<open>The zone\<close>

record zone =
  m_chunk_size :: nat
  m_chunk_list :: chunk_list
  m_finalizer_array :: finalizer_array

definition MSGPACK_ZONE_CHUNK_SIZE :: nat where
  "MSGPACK_ZONE_CHUNK_SIZE = 8192"

definition MSGPACK_ZONE_ALIGN :: nat where
  "MSGPACK_ZONE_ALIGN = 8"

text \<open>The size of a zone, for \<open>new zone\<close>.\<close>

definition sizeof_zone :: nat where "sizeof_zone = 56"

text \<open>The constructor is \<open>noexcept\<close>: an exception of the chunk list ends the program.\<close>

definition zone_new :: "malloc \<Rightarrow> nat \<Rightarrow> blocks \<Rightarrow> (zone \<times> blocks) result" where
  "zone_new malloc chunk_size h =
     (case chunk_list_new malloc chunk_size h of
        Inl e \<Rightarrow> Inl (UB Terminated)
      | Inr (cl, h) \<Rightarrow>
          Inr (\<lparr>m_chunk_size = chunk_size, m_chunk_list = cl,
                m_finalizer_array = finalizer_array_new\<rparr>, h))"

definition get_aligned :: "nat \<Rightarrow> nat \<Rightarrow> nat result" where
  "get_aligned ptr align =
     (let a = word_of_nat align :: 64 word in
      if a \<noteq> 0 \<and> a AND (a - 1) = 0 then
        Inr (unat ((word_of_nat ptr + (a - 1)) AND NOT (a - 1)))
      else Inl (UB Assertion_Failed))"

text \<open>
  The loop of \<open>allocate_expand\<close> is that of \<open>sbuffer\<close>: doubling up to the size
  asked for.
\<close>

definition allocate_expand :: "malloc \<Rightarrow> nat \<Rightarrow> zone \<Rightarrow> blocks \<Rightarrow> (nat \<times> zone \<times> blocks) result" where
  "allocate_expand malloc sz z h =
     (let sz = expanded_size sz (m_chunk_size z) in
      case malloc h (add64 sizeof_chunk sz) of
        None \<Rightarrow> Inl (Throw Bad_Alloc)
      | Some c \<Rightarrow>
          let ptr = add64 c sizeof_chunk;
              cl = \<lparr>m_free = sz, m_ptr = ptr, chunks = (c, sz) # chunks (m_chunk_list z)\<rparr>
          in Inr (ptr, z\<lparr>m_chunk_list := cl\<rparr>, chunk_block (c, sz) # h))"

definition take_from_chunk :: "nat \<Rightarrow> zone \<Rightarrow> zone" where
  "take_from_chunk n z =
     (let cl = m_chunk_list z in
      z\<lparr>m_chunk_list := cl\<lparr>m_free := sub64 (m_free cl) n, m_ptr := add64 (m_ptr cl) n\<rparr>\<rparr>)"

definition zone_allocate_align ::
    "malloc \<Rightarrow> nat \<Rightarrow> nat \<Rightarrow> zone \<Rightarrow> blocks \<Rightarrow> (nat \<times> zone \<times> blocks) result" where
  "zone_allocate_align malloc n align z h =
     rbind (get_aligned (m_ptr (m_chunk_list z)) align) (\<lambda>aligned.
       let adjusted_size = add64 n (sub64 aligned (m_ptr (m_chunk_list z))) in
       if m_free (m_chunk_list z) < adjusted_size then
         (let enough_size = sub64 (add64 n align) 1 in
          rbind (allocate_expand malloc enough_size z h) (\<lambda>(ptr, z, h).
          rbind (get_aligned ptr align) (\<lambda>aligned.
            let adjusted_size = add64 n (sub64 aligned (m_ptr (m_chunk_list z))) in
            Inr (aligned, take_from_chunk adjusted_size z, h))))
       else Inr (aligned, take_from_chunk adjusted_size z, h))"

definition zone_allocate_no_align ::
    "malloc \<Rightarrow> nat \<Rightarrow> zone \<Rightarrow> blocks \<Rightarrow> (nat \<times> zone \<times> blocks) result" where
  "zone_allocate_no_align malloc n z h =
     rbind (if m_free (m_chunk_list z) < n then allocate_expand malloc n z h
            else Inr (m_ptr (m_chunk_list z), z, h))
       (\<lambda>(ptr, z, h). Inr (ptr, take_from_chunk n z, h))"

definition zone_push_finalizer :: "nat \<Rightarrow> finalizer \<Rightarrow> zone \<Rightarrow> zone result" where
  "zone_push_finalizer avail f z =
     rbind (finalizer_array_push avail f (m_finalizer_array z)) (\<lambda>a.
       Inr (z\<lparr>m_finalizer_array := a\<rparr>))"

text \<open>\<open>clear\<close> runs the finalizers and keeps one chunk.\<close>

definition zone_clear :: "zone \<Rightarrow> blocks \<Rightarrow> (finalizer list \<times> zone \<times> blocks) result" where
  "zone_clear z h =
     (let (calls, a) = finalizer_array_clear (m_finalizer_array z) in
      rbind (chunk_list_clear (m_chunk_size z) (m_chunk_list z) h) (\<lambda>(cl, h).
        Inr (calls, z\<lparr>m_finalizer_array := a, m_chunk_list := cl\<rparr>, h)))"

text \<open>The destructor: members are destroyed in reverse order, finalizers first.\<close>

definition zone_destroy :: "zone \<Rightarrow> blocks \<Rightarrow> finalizer list \<times> blocks" where
  "zone_destroy z h =
     (finalizer_array_call (m_finalizer_array z), chunk_list_destroy (m_chunk_list z) h)"

definition undo_allocate :: "nat \<Rightarrow> zone \<Rightarrow> zone" where
  "undo_allocate n z =
     (let cl = m_chunk_list z in
      z\<lparr>m_chunk_list := cl\<lparr>m_ptr := sub64 (m_ptr cl) n, m_free := add64 (m_free cl) n\<rparr>\<rparr>)"

text \<open>
  \<open>allocate<T>\<close>: memory for a \<open>T\<close>, its finalizer, its constructor, whose outcome
  is an argument. The state is returned also when an exception leaves.
\<close>

definition zone_allocate ::
    "malloc \<Rightarrow> nat \<Rightarrow> nat \<Rightarrow> nat \<Rightarrow> nat \<Rightarrow> exn option \<Rightarrow> zone \<Rightarrow> blocks \<Rightarrow> nat result \<times> zone \<times> blocks" where
  "zone_allocate malloc avail sizeof_T alignof_T object_destruct ctor z h =
     (case zone_allocate_align malloc sizeof_T alignof_T z h of
        Inl e \<Rightarrow> (Inl e, z, h)
      | Inr (x, z, h) \<Rightarrow>
          (case zone_push_finalizer avail (object_destruct, x) z of
             Inl e \<Rightarrow> (Inl e, undo_allocate sizeof_T z, h)
           | Inr z \<Rightarrow>
               (case ctor of
                  None \<Rightarrow> (Inr x, z, h)
                | Some e \<Rightarrow>
                    (Inl (Throw e),
                     undo_allocate sizeof_T
                       (z\<lparr>m_finalizer_array := (m_finalizer_array z)\<lparr>fins := butlast (fins (m_finalizer_array z))\<rparr>\<rparr>),
                     h))))"

definition aligned_size :: "nat \<Rightarrow> nat \<Rightarrow> nat" where
  "aligned_size n align = sub64 (add64 n align) 1 div align * align mod 2 ^ 64"

end
