(* ===== verification/Msgpack_Zone_Safe.thy ===== *)
theory Msgpack_Zone_Safe
  imports Msgpack_Zone
begin

unbundle bit_operations_syntax

text \<open>
  What a zone hands out: aligned blocks inside its chunks, apart from each other,
  as long as sizes stay below \<open>2 ^ 62\<close> and \<open>malloc\<close> does what the C standard says.
\<close>

section \<open>Alignment\<close>

lemma add64_eq: "a + b < 2 ^ 64 \<Longrightarrow> add64 a b = a + b"
  by (simp add: add64_def)

lemma sub64_eq:
  assumes "b \<le> a" "a < 2 ^ 64"
  shows "sub64 a b = a - b"
proof -
  have "a + 2 ^ 64 - b = (a - b) + 2 ^ 64" using assms(1) by linarith
  then have "sub64 a b = (a - b) mod 2 ^ 64" by (simp only: sub64_def mod_add_self2)
  then show ?thesis using assms by simp
qed

lemma get_aligned_ok:
  assumes "k \<le> 62" "ptr \<le> 2 ^ 63"
  shows "\<exists>a. get_aligned ptr (2 ^ k) = Inr a \<and> 2 ^ k dvd a \<and> ptr \<le> a \<and> a < ptr + 2 ^ k"
proof -
  let ?w = "word_of_nat ptr + mask k :: 64 word"
  have p: "(2::nat) ^ k \<le> 2 ^ 62" using assms(1) by (rule power_increasing) simp
  have a: "word_of_nat (2 ^ k) = (2 ^ k :: 64 word)" by simp
  have m: "(2 ^ k :: 64 word) - 1 = mask k" by (simp add: mask_eq_exp_minus_1)
  have nz: "(2 ^ k :: 64 word) \<noteq> 0" using assms(1) by simp
  have z: "(2 ^ k :: 64 word) AND mask k = 0"
    by (rule bit_eqI) (auto simp: bit_simps)
  have uw: "unat ?w = ptr + (2 ^ k - 1)"
  proof -
    have "(mask k :: 64 word) = word_of_nat (2 ^ k - 1)"
      by (simp add: mask_eq_exp_minus_1 of_nat_diff)
    then have "unat (mask k :: 64 word) = (2 ^ k - 1) mod 2 ^ 64"
      by (simp only: unat_of_nat) simp
    also have "\<dots> = 2 ^ k - 1" using p by simp
    finally have "unat (mask k :: 64 word) = 2 ^ k - 1" .
    moreover have "unat (word_of_nat ptr :: 64 word) = ptr"
      using assms(2) by (simp add: unat_of_nat)
    ultimately show ?thesis
      using p assms(2) by (subst unat_word_ariths) simp
  qed
  have "?w AND NOT (mask k) = push_bit k (drop_bit k ?w)"
    by (rule bit_eqI) (auto simp: bit_simps)
  then have v: "unat (?w AND NOT (mask k)) = (ptr + (2 ^ k - 1)) div 2 ^ k * 2 ^ k"
  proof -
    have "unat ?w div 2 ^ k * 2 ^ k < 2 ^ 64"
      by (rule le_less_trans [OF div_times_less_eq_dividend]) (use unsigned_less [of ?w, where 'a = nat] in simp)
    then have "take_bit 64 (unat ?w div 2 ^ k * 2 ^ k) = unat ?w div 2 ^ k * 2 ^ k"
      by (simp only: take_bit_nat_eq_self)
    moreover have "unat (drop_bit k ?w) = unat ?w div 2 ^ k"
      unfolding unat_drop_bit_eq by (rule drop_bit_eq_div)
    then have "unat (push_bit k (drop_bit k ?w)) = take_bit 64 (unat ?w div 2 ^ k * 2 ^ k)"
      unfolding unsigned_push_bit_eq by (simp only: push_bit_eq_mult) simp
    ultimately show ?thesis
      by (simp only: \<open>?w AND NOT (mask k) = _\<close> uw)
  qed
  have "get_aligned ptr (2 ^ k) = Inr (unat (?w AND NOT (mask k)))"
    unfolding get_aligned_def Let_def a m using nz z by simp
  moreover have "ptr \<le> (ptr + (2 ^ k - 1)) div 2 ^ k * 2 ^ k"
  proof -
    have "(ptr + (2 ^ k - 1)) div 2 ^ k * 2 ^ k + (ptr + (2 ^ k - 1)) mod 2 ^ k = ptr + (2 ^ k - 1)"
      by (rule div_mult_mod_eq)
    moreover have "(ptr + (2 ^ k - 1)) mod 2 ^ k \<le> 2 ^ k - 1"
    proof -
      have "(ptr + (2 ^ k - 1)) mod 2 ^ k < 2 ^ k" by (rule mod_less_divisor) simp
      then show ?thesis by linarith
    qed
    ultimately show ?thesis by linarith
  qed
  moreover have "(ptr + (2 ^ k - 1)) div 2 ^ k * 2 ^ k < ptr + 2 ^ k"
  proof -
    have "(ptr + (2 ^ k - 1)) div 2 ^ k * 2 ^ k \<le> ptr + (2 ^ k - 1)" by simp
    also have "\<dots> < ptr + 2 ^ k" by simp
    finally show ?thesis .
  qed
  ultimately show ?thesis by (auto simp: v)
qed

section \<open>Invariant\<close>

definition apart :: "nat \<times> nat \<Rightarrow> nat \<times> nat \<Rightarrow> bool" where
  "apart b c \<longleftrightarrow> fst b + snd b \<le> fst c \<or> fst c + snd c \<le> fst b"

text \<open>What the C standard says of \<open>malloc\<close>; objects and addresses stay in the lower half.\<close>

definition malloc_ok :: "malloc \<Rightarrow> bool" where
  "malloc_ok malloc \<longleftrightarrow>
     (\<forall>h n p. malloc h n = Some p \<longrightarrow> p + n \<le> 2 ^ 63 \<and> (\<forall>b \<in> set h. apart (p, n) b))"

definition in_chunk :: "nat \<times> nat \<Rightarrow> nat \<times> nat \<Rightarrow> bool" where
  "in_chunk b c \<longleftrightarrow> fst c + sizeof_chunk \<le> fst b \<and> fst b + snd b \<le> fst c + sizeof_chunk + snd c"

text \<open>\<open>used\<close>: the blocks handed out and not given back.\<close>

definition zone_ok :: "blocks \<Rightarrow> zone \<Rightarrow> blocks \<Rightarrow> bool" where
  "zone_ok used z h \<longleftrightarrow>
     m_chunk_size z \<le> 2 ^ 62 \<and> chunks (m_chunk_list z) \<noteq> [] \<and>
     (\<forall>c \<in> set (chunks (m_chunk_list z)).
        fst c + sizeof_chunk + snd c \<le> 2 ^ 63 \<and> chunk_block c \<in> set h) \<and>
     in_chunk (m_ptr (m_chunk_list z), m_free (m_chunk_list z)) (hd (chunks (m_chunk_list z))) \<and>
     (\<forall>b \<in> set used. (\<exists>c \<in> set (chunks (m_chunk_list z)). in_chunk b c) \<and>
        apart b (m_ptr (m_chunk_list z), m_free (m_chunk_list z))) \<and>
     sorted_wrt apart used"

lemma apart_in_chunk: "apart (c, sizeof_chunk + n) (d, sizeof_chunk + m) \<Longrightarrow> in_chunk b (d, m) \<Longrightarrow>
  apart b (c + sizeof_chunk, n)"
  by (auto simp: apart_def in_chunk_def)

lemma take_from_chunk_ok:
  assumes ok: "zone_ok used z h"
    and a: "m_ptr (m_chunk_list z) \<le> a" "a + n \<le> m_ptr (m_chunk_list z) + m_free (m_chunk_list z)"
  shows "zone_ok ((a, n) # used) (take_from_chunk (a + n - m_ptr (m_chunk_list z)) z) h"
proof -
  let ?cl = "m_chunk_list z" and ?k = "a + n - m_ptr (m_chunk_list z)"
  have small: "m_ptr ?cl + m_free ?cl \<le> 2 ^ 63"
    using ok by (cases "chunks ?cl") (auto simp: zone_ok_def in_chunk_def)
  have k: "sub64 (m_free ?cl) ?k = m_free ?cl - ?k" "add64 (m_ptr ?cl) ?k = a + n"
    using a small by (simp_all add: sub64_eq add64_eq)
  have new: "take_from_chunk ?k z =
      z\<lparr>m_chunk_list := ?cl\<lparr>m_free := m_free ?cl - ?k, m_ptr := a + n\<rparr>\<rparr>"
    by (simp add: take_from_chunk_def Let_def k)
  have u: "apart b (a, n)" "apart b (a + n, m_free ?cl - ?k)" if "b \<in> set used" for b
  proof -
    have b: "apart b (m_ptr ?cl, m_free ?cl)" using ok that by (auto simp: zone_ok_def)
    then show "apart b (a, n)" "apart b (a + n, m_free ?cl - ?k)"
      using a by (auto simp: apart_def)
  qed
  have "\<forall>b \<in> set used. apart (a, n) b" using u(1) by (auto simp: apart_def)
  moreover have "\<forall>b \<in> set used. apart b (a + n, m_free ?cl - ?k)" using u(2) by blast
  moreover have "in_chunk (a, n) (hd (chunks ?cl))" "in_chunk (a + n, m_free ?cl - ?k) (hd (chunks ?cl))"
    using ok a by (auto simp: zone_ok_def in_chunk_def)
  moreover have "hd (chunks ?cl) \<in> set (chunks ?cl)" using ok by (simp add: zone_ok_def)
  moreover have "apart (a, n) (a + n, m_free ?cl - ?k)" by (simp add: apart_def)
  ultimately show ?thesis
    using ok unfolding zone_ok_def new by (simp, blast)
qed

lemma expanded_size_twice:
  "need \<le> 2 ^ 62 \<Longrightarrow> nsize \<le> 2 ^ 62 \<Longrightarrow> expanded_size need nsize < 2 ^ 63"
proof -
  have "need \<le> 2 ^ 62 \<Longrightarrow> nsize < 2 ^ 63 \<Longrightarrow> expanded_size need nsize < 2 ^ 63"
  proof (induction need nsize rule: expanded_size.induct)
    case (1 need nsize)
    show ?case
    proof (cases "nsize < need")
      case True
      then have "nsize * 2 mod 2 ^ 64 = nsize * 2" "nsize * 2 < 2 ^ 63" using "1.prems" by simp_all
      then show ?thesis
        using 1 True by (subst expanded_size.simps) (simp add: Let_def)
    qed (use 1 in \<open>subst expanded_size.simps, simp\<close>)
  qed
  then show "need \<le> 2 ^ 62 \<Longrightarrow> nsize \<le> 2 ^ 62 \<Longrightarrow> expanded_size need nsize < 2 ^ 63" by simp
qed

lemma chunk_block_small: "sizeof_chunk + snd c < 2 ^ 64 \<Longrightarrow> chunk_block c = (fst c, sizeof_chunk + snd c)"
  by (simp add: chunk_block_def add64_def)

lemma allocate_expand_ok:
  assumes m: "malloc_ok malloc" and ok: "zone_ok used z h" and n: "n \<le> 2 ^ 62"
    and r: "allocate_expand malloc n z h = Inr (p, z', h')"
  shows "zone_ok used z' h'" and "p = m_ptr (m_chunk_list z')" and "n \<le> m_free (m_chunk_list z')"
proof -
  define sz where "sz = expanded_size n (m_chunk_size z)"
  have sz: "sz < 2 ^ 63" "n \<le> sz"
    using expanded_size_twice [OF n] ok expanded_size_enough by (simp_all add: sz_def zone_ok_def)
  have block: "add64 sizeof_chunk sz = sizeof_chunk + sz"
    using sz by (simp add: add64_def sizeof_chunk_def)
  obtain c where c: "malloc h (sizeof_chunk + sz) = Some c"
      "p = add64 c sizeof_chunk" "h' = chunk_block (c, sz) # h"
      "z' = z\<lparr>m_chunk_list := \<lparr>m_free = sz, m_ptr = add64 c sizeof_chunk,
          chunks = (c, sz) # chunks (m_chunk_list z)\<rparr>\<rparr>"
    using r by (auto simp: allocate_expand_def sz_def [symmetric] block Let_def split: option.splits)
  from m c(1) have far: "c + (sizeof_chunk + sz) \<le> 2 ^ 63" "\<forall>b \<in> set h. apart (c, sizeof_chunk + sz) b"
    unfolding malloc_ok_def by blast+
  then have ptr: "add64 c sizeof_chunk = c + sizeof_chunk" by (simp add: add64_def)
  show "p = m_ptr (m_chunk_list z')" "n \<le> m_free (m_chunk_list z')" using c sz by simp_all
  have "apart b (c + sizeof_chunk, sz)" if "b \<in> set used" for b
  proof -
    obtain d where d: "d \<in> set (chunks (m_chunk_list z))" "in_chunk b d"
      using ok \<open>b \<in> set used\<close> by (auto simp: zone_ok_def)
    then have "fst d + sizeof_chunk + snd d \<le> 2 ^ 63" "chunk_block d \<in> set h"
      using ok by (auto simp: zone_ok_def)
    then have "apart (c, sizeof_chunk + sz) (fst d, sizeof_chunk + snd d)"
      using far(2) chunk_block_small [of d] by (auto simp: sizeof_chunk_def)
    then show ?thesis using d(2) by (intro apart_in_chunk [of c sz "fst d" "snd d"]) simp_all
  qed
  then show "zone_ok used z' h'"
    using ok far(1) unfolding zone_ok_def c(3,4) ptr
    by (auto simp: in_chunk_def ac_simps)
qed

section \<open>Allocation\<close>

text \<open>A successful allocation is aligned and apart from every block in use.\<close>

lemma zone_allocate_align_ok:
  assumes m: "malloc_ok malloc" and ok: "zone_ok used z h" and k: "k \<le> 60" and n: "n \<le> 2 ^ 61"
    and r: "zone_allocate_align malloc n (2 ^ k) z h = Inr (a, z', h')"
  shows "zone_ok ((a, n) # used) z' h' \<and> 2 ^ k dvd a"
proof -
  have pk: "(2::nat) ^ k \<le> 2 ^ 60" using k by (rule power_increasing) simp
  have small: "m_ptr (m_chunk_list y) + m_free (m_chunk_list y) \<le> 2 ^ 63" if "zone_ok used y g" for y g
    using that by (cases "chunks (m_chunk_list y)") (auto simp: zone_ok_def in_chunk_def)
  have adjusted: "add64 n (sub64 b (m_ptr (m_chunk_list y))) = b + n - m_ptr (m_chunk_list y)"
    if "zone_ok used y g" "m_ptr (m_chunk_list y) \<le> b" "b < m_ptr (m_chunk_list y) + 2 ^ k" for y g b
  proof -
    have "m_ptr (m_chunk_list y) \<le> 2 ^ 63" using small [OF that(1)] by linarith
    then have "b < 2 ^ 64" using that(3) pk by simp
    then have "sub64 b (m_ptr (m_chunk_list y)) = b - m_ptr (m_chunk_list y)"
      by (rule sub64_eq [OF that(2)])
    moreover have "n + (b - m_ptr (m_chunk_list y)) < 2 ^ 64" using that(2,3) pk n by simp
    ultimately show ?thesis using that(2) by (simp add: add64_eq)
  qed
  have "k \<le> 62" using k by simp
  note aligned = get_aligned_ok [OF this]
  have low: "m_ptr (m_chunk_list y) \<le> 2 ^ 63" if "zone_ok used y g" for y g
    using small [OF that] by simp
  obtain b where b: "get_aligned (m_ptr (m_chunk_list z)) (2 ^ k) = Inr b" "2 ^ k dvd b"
      "m_ptr (m_chunk_list z) \<le> b" "b < m_ptr (m_chunk_list z) + 2 ^ k"
    using aligned [OF low [OF ok]] by blast
  note adj = adjusted [OF ok b(3,4)]
  show ?thesis
  proof (cases "m_free (m_chunk_list z) < b + n - m_ptr (m_chunk_list z)")
    case False
    then have "a = b" "h' = h" "z' = take_from_chunk (b + n - m_ptr (m_chunk_list z)) z"
      using r by (auto simp: zone_allocate_align_def b(1) adj)
    moreover have "b + n \<le> m_ptr (m_chunk_list z) + m_free (m_chunk_list z)" using False by linarith
    ultimately show ?thesis using take_from_chunk_ok [OF ok b(3)] b(2) by simp
  next
    case True
    have "n + 2 ^ k < 2 ^ 64" using n pk by simp
    moreover have "1 \<le> n + 2 ^ k" using one_le_power [of "2::nat" k] by linarith
    ultimately have enough: "sub64 (add64 n (2 ^ k)) 1 = n + 2 ^ k - 1"
      by (simp only: add64_eq sub64_eq)
    have e62: "n + 2 ^ k - 1 \<le> 2 ^ 62" using n pk by simp
    obtain p y g where y: "allocate_expand malloc (n + 2 ^ k - 1) z h = Inr (p, y, g)"
      using r True unfolding zone_allocate_align_def b(1) rbind.simps Let_def adj enough by auto
    note y' = allocate_expand_ok [OF m ok e62 y]
    obtain d where d: "get_aligned p (2 ^ k) = Inr d" "2 ^ k dvd d"
        "m_ptr (m_chunk_list y) \<le> d" "d < m_ptr (m_chunk_list y) + 2 ^ k"
      using aligned [OF low [OF y'(1)]] unfolding y'(2) by blast
    have "a = d" "h' = g" "z' = take_from_chunk (d + n - m_ptr (m_chunk_list y)) y"
      using r True adjusted [OF y'(1) d(3,4)]
      unfolding zone_allocate_align_def b(1) rbind.simps Let_def adj enough y by (auto simp: d(1))
    moreover have "d + n \<le> m_ptr (m_chunk_list y) + m_free (m_chunk_list y)"
      using d(4) y'(3) by linarith
    ultimately show ?thesis using take_from_chunk_ok [OF y'(1) d(3)] d(2) by simp
  qed
qed

text \<open>The only way to fail is that \<open>malloc\<close> fails.\<close>

lemma zone_allocate_align_error:
  assumes m: "malloc_ok malloc" and ok: "zone_ok used z h" and k: "k \<le> 60" and n: "n \<le> 2 ^ 61"
    and r: "zone_allocate_align malloc n (2 ^ k) z h = Inl e"
  shows "e = Throw Bad_Alloc"
proof -
  have pk: "(2::nat) ^ k \<le> 2 ^ 60" using k by (rule power_increasing) simp
  have aligned: "\<exists>a. get_aligned (m_ptr (m_chunk_list y)) (2 ^ k) = Inr a" if "zone_ok used y g" for y g
  proof -
    have "m_ptr (m_chunk_list y) \<le> 2 ^ 63"
      using that by (cases "chunks (m_chunk_list y)") (auto simp: zone_ok_def in_chunk_def)
    then show ?thesis using get_aligned_ok [of k] k by fastforce
  qed
  have "1 \<le> n + 2 ^ k" using one_le_power [of "2::nat" k] by linarith
  then have "sub64 (add64 n (2 ^ k)) 1 = n + 2 ^ k - 1"
    using n pk by (simp add: add64_eq sub64_eq)
  then have enough: "sub64 (add64 n (2 ^ k)) 1 \<le> 2 ^ 62" using n pk by simp
  obtain b where b: "get_aligned (m_ptr (m_chunk_list z)) (2 ^ k) = Inr b" using aligned [OF ok] by blast
  show ?thesis
  proof (cases "allocate_expand malloc (sub64 (add64 n (2 ^ k)) 1) z h")
    case (Inl f)
    then have "f = Throw Bad_Alloc" by (auto simp: allocate_expand_def Let_def split: option.splits)
    with Inl r b show ?thesis by (auto simp: zone_allocate_align_def Let_def split: if_splits)
  next
    case (Inr q)
    obtain p y g where q: "q = (p, y, g)" by (cases q)
    note y = allocate_expand_ok [OF m ok enough Inr [unfolded q]]
    from aligned [OF y(1)] y(2) obtain d where "get_aligned p (2 ^ k) = Inr d" by blast
    with r b Inr q show ?thesis by (auto simp: zone_allocate_align_def Let_def split: if_splits)
  qed
qed

section \<open>A run of allocations\<close>

lemma zone_new_ok:
  assumes "malloc_ok malloc" "chunk_size \<le> 2 ^ 62" "zone_new malloc chunk_size h = Inr (z, h')"
  shows "zone_ok [] z h'"
proof -
  have block: "add64 sizeof_chunk chunk_size = sizeof_chunk + chunk_size"
    using assms(2) by (simp add: add64_def sizeof_chunk_def)
  obtain c where c: "malloc h (sizeof_chunk + chunk_size) = Some c"
      "h' = chunk_block (c, chunk_size) # h"
      "z = \<lparr>m_chunk_size = chunk_size,
        m_chunk_list = \<lparr>m_free = chunk_size, m_ptr = add64 c sizeof_chunk, chunks = [(c, chunk_size)]\<rparr>,
        m_finalizer_array = finalizer_array_new\<rparr>"
    using assms(3) by (auto simp: zone_new_def chunk_list_new_def block split: option.splits)
  from assms(1) c(1) have "c + (sizeof_chunk + chunk_size) \<le> 2 ^ 63"
    unfolding malloc_ok_def by blast
  moreover from this have "add64 c sizeof_chunk = c + sizeof_chunk" by (simp add: add64_def)
  ultimately show ?thesis
    using assms(2) by (simp add: zone_ok_def c(2,3) in_chunk_def)
qed

lemma zone_clear_ok:
  assumes "zone_ok used z h"
  shows "\<exists>z' h'. zone_clear z h = Inr (rev (fins (m_finalizer_array z)), z', h') \<and>
    fins (m_finalizer_array z') = [] \<and> chunks (m_chunk_list z') = [last (chunks (m_chunk_list z))]"
  using assms
  by (simp add: zone_ok_def zone_clear_def finalizer_array_clear_def finalizer_array_call_def
      chunk_list_clear_def Let_def)

text \<open>The requests \<open>(n, k)\<close> ask for \<open>n\<close> bytes aligned to \<open>2 ^ k\<close>; the newest block comes first.\<close>

fun allocate_all :: "malloc \<Rightarrow> (nat \<times> nat) list \<Rightarrow> zone \<Rightarrow> blocks \<Rightarrow> (blocks \<times> zone \<times> blocks) result" where
  "allocate_all malloc [] z h = Inr ([], z, h)"
| "allocate_all malloc ((n, k) # rs) z h =
     rbind (allocate_all malloc rs z h) (\<lambda>(bs, z, h).
     rbind (zone_allocate_align malloc n (2 ^ k) z h) (\<lambda>(a, z, h). Inr ((a, n) # bs, z, h)))"

lemma allocate_all_ok:
  assumes "malloc_ok malloc" "zone_ok [] z h" "\<forall>(n, k) \<in> set rs. n \<le> 2 ^ 61 \<and> k \<le> 60"
    and "allocate_all malloc rs z h = Inr (bs, z', h')"
  shows "zone_ok bs z' h' \<and> list_all2 (\<lambda>(a, m) (n, k). m = n \<and> 2 ^ k dvd a) bs rs"
  using assms(3,4)
proof (induction rs arbitrary: bs z' h')
  case (Cons r rs)
  obtain n k where r: "r = (n, k)" by force
  with Cons.prems obtain cs y g a where
    y: "allocate_all malloc rs z h = Inr (cs, y, g)"
      "zone_allocate_align malloc n (2 ^ k) y g = Inr (a, z', h')" "bs = (a, n) # cs" by auto
  from Cons.IH [OF _ y(1)] Cons.prems(1) have
    ih: "zone_ok cs y g" "list_all2 (\<lambda>(a, m) (n, k). m = n \<and> 2 ^ k dvd a) cs rs" by auto
  from zone_allocate_align_ok [OF assms(1) ih(1) _ _ y(2)] Cons.prems(1) ih(2) show ?case
    by (simp add: r y(3))
qed (use assms(2) in simp)

end
