(* ===== verification/Msgpack_Compare.thy ===== *)
theory Msgpack_Compare
  imports Msgpack_Unpack
begin

unbundle bit_operations_syntax

text \<open>
  Equality of objects, \<open>operator==\<close> of \<open>src/3rd/inc/msgpack/v1/object.hpp\<close>: the
  parser walks the left object and \<open>object_equal_visitor\<close> follows on the right
  one. It is shown to compute the recursion \<open>same\<close>, which is the equality of
  objects but for the floats: C++ compares their values, so a NaN is not equal
  to itself and the zeros are equal.
\<close>

section \<open>Floats in IEEE 754 format\<close>

definition is_nan32 :: "32 word \<Rightarrow> bool" where
  "is_nan32 a \<longleftrightarrow> a AND 0x7FFFFFFF > 0x7F800000"

definition is_nan64 :: "64 word \<Rightarrow> bool" where
  "is_nan64 a \<longleftrightarrow> a AND 0x7FFFFFFFFFFFFFFF > 0x7FF0000000000000"

definition float_eq :: "32 word \<Rightarrow> 32 word \<Rightarrow> bool" where
  "float_eq a b \<longleftrightarrow> \<not> is_nan32 a \<and> \<not> is_nan32 b \<and>
     (a = b \<or> a AND 0x7FFFFFFF = 0 \<and> b AND 0x7FFFFFFF = 0)"

definition double_eq :: "64 word \<Rightarrow> 64 word \<Rightarrow> bool" where
  "double_eq a b \<longleftrightarrow> \<not> is_nan64 a \<and> \<not> is_nan64 b \<and>
     (a = b \<or> a AND 0x7FFFFFFFFFFFFFFF = 0 \<and> b AND 0x7FFFFFFFFFFFFFFF = 0)"

lemma float_eq_commute: "float_eq a b = float_eq b a"
  by (auto simp: float_eq_def)

lemma double_eq_commute: "double_eq a b = double_eq b a"
  by (auto simp: double_eq_def)

section \<open>The visitor\<close>

fun type_of_object :: "object \<Rightarrow> object_type" where
  "type_of_object NIL = Type_NIL"
| "type_of_object (BOOLEAN _) = Type_BOOLEAN"
| "type_of_object (POSITIVE_INTEGER _) = Type_POSITIVE_INTEGER"
| "type_of_object (NEGATIVE_INTEGER _) = Type_NEGATIVE_INTEGER"
| "type_of_object (FLOAT32 _) = Type_FLOAT32"
| "type_of_object (FLOAT64 _) = Type_FLOAT64"
| "type_of_object (STR' _) = Type_STR"
| "type_of_object (BIN _) = Type_BIN"
| "type_of_object (ARRAY _) = Type_ARRAY"
| "type_of_object (MAP _) = Type_MAP"
| "type_of_object (EXT _) = Type_EXT"

text \<open>
  The visitor's own \<open>elem\<close>, a pointer into an array of objects or of pairs; a
  pointer is the part of the array from there on.
\<close>

record cursor =
  as_obj :: "object list"
  as_kv :: "(object \<times> object) list"
  is_obj :: bool

definition obj_cursor :: "object list \<Rightarrow> cursor" where
  "obj_cursor p = \<lparr>as_obj = p, as_kv = [], is_obj = True\<rparr>"

definition kv_cursor :: "(object \<times> object) list \<Rightarrow> cursor" where
  "kv_cursor p = \<lparr>as_obj = [], as_kv = p, is_obj = False\<rparr>"

definition get_item :: "cursor \<Rightarrow> object result" where
  "get_item c = deref (as_obj c)"

definition get_key :: "cursor \<Rightarrow> object result" where
  "get_key c = rbind (deref (as_kv c)) (\<lambda>kv. Inr (fst kv))"

definition get_val :: "cursor \<Rightarrow> object result" where
  "get_val c = rbind (deref (as_kv c)) (\<lambda>kv. Inr (snd kv))"

text \<open>\<open>right\<close> is the object that \<open>m_ptr\<close> points to; \<open>m_objs\<close> has its back at the head.\<close>

record equal_state =
  m_objs :: "cursor list"
  right :: object
  m_result :: bool

definition require :: "bool \<Rightarrow> equal_state callback" where
  "require ok s = (if ok then go_on s else Inr (False, s\<lparr>m_result := False\<rparr>))"

text \<open>\<open>memcmp\<close> of as many bytes as the left string has.\<close>

definition require_bytes :: "bool \<Rightarrow> byte list \<Rightarrow> byte list \<Rightarrow> 32 word \<Rightarrow> equal_state callback" where
  "require_bytes ok p v n s =
     (if \<not> ok then require False s
      else rbind (bytes_at p (unat n)) (\<lambda>a. rbind (bytes_at v (unat n)) (\<lambda>b. require (a = b) s)))"

definition point_at :: "(cursor \<Rightarrow> object result) \<Rightarrow> equal_state callback" where
  "point_at get s =
     rbind (deref (m_objs s)) (\<lambda>c. rbind (get c) (\<lambda>x. go_on (s\<lparr>right := x\<rparr>)))"

definition advance :: "(cursor \<Rightarrow> cursor) \<Rightarrow> equal_state callback" where
  "advance f s = rbind (deref (m_objs s)) (\<lambda>c. go_on (s\<lparr>m_objs := f c # tl (m_objs s)\<rparr>))"

definition pop_back :: "equal_state callback" where
  "pop_back s = rbind (deref (m_objs s)) (\<lambda>_. go_on (s\<lparr>m_objs := tl (m_objs s)\<rparr>))"

definition object_equal_visitor :: "equal_state visitor" where
  "object_equal_visitor =
     \<lparr>visit_nil = (\<lambda>s. require (right s = NIL) s),
      visit_boolean = (\<lambda>v s. require (right s = BOOLEAN v) s),
      visit_positive_integer = (\<lambda>v s. require (right s = POSITIVE_INTEGER v) s),
      visit_negative_integer = (\<lambda>v s. require (right s = NEGATIVE_INTEGER v) s),
      visit_float32 = (\<lambda>v s. require (case right s of FLOAT32 w \<Rightarrow> float_eq w v | _ \<Rightarrow> False) s),
      visit_float64 = (\<lambda>v s. require (case right s of FLOAT64 w \<Rightarrow> double_eq w v | _ \<Rightarrow> False) s),
      visit_str = (\<lambda>v size s. case right s of
        STR' p \<Rightarrow> require_bytes (size_of p = size) p v size s | _ \<Rightarrow> require False s),
      visit_bin = (\<lambda>v size s. case right s of
        BIN p \<Rightarrow> require_bytes (size_of p = size) p v size s | _ \<Rightarrow> require False s),
      visit_ext = (\<lambda>v size s. case right s of
        EXT p \<Rightarrow> require_bytes (ext_size p = size - 1) p v size s | _ \<Rightarrow> require False s),
      start_array = (\<lambda>n s. case right s of
        ARRAY p \<Rightarrow> if size_of p = n then go_on (s\<lparr>m_objs := obj_cursor p # m_objs s\<rparr>) else require False s
      | _ \<Rightarrow> require False s),
      start_array_item = point_at get_item,
      end_array_item = advance (\<lambda>c. c\<lparr>as_obj := tl (as_obj c)\<rparr>),
      end_array = pop_back,
      start_map = (\<lambda>n s. case right s of
        MAP p \<Rightarrow> if size_of p = n then go_on (s\<lparr>m_objs := kv_cursor p # m_objs s\<rparr>) else require False s
      | _ \<Rightarrow> require False s),
      start_map_key = point_at get_key,
      end_map_key = go_on,
      start_map_value = point_at get_val,
      end_map_value = advance (\<lambda>c. c\<lparr>as_kv := tl (as_kv c)\<rparr>),
      end_map = pop_back\<rparr>"

definition object_equal :: "object \<Rightarrow> object \<Rightarrow> bool result option" where
  "object_equal x y =
     (if type_of_object x \<noteq> type_of_object y then Some (Inr False)
      else
        map_option (\<lambda>r. rbind r (\<lambda>s. Inr (m_result s)))
          (object_parser_parse object_equal_visitor x \<lparr>m_objs = [], right = y, m_result = True\<rparr>))"

definition object_not_equal :: "object \<Rightarrow> object \<Rightarrow> bool result option" where
  "object_not_equal x y = map_option (\<lambda>r. rbind r (\<lambda>b. Inr (\<not> b))) (object_equal x y)"

section \<open>The comparison by recursion\<close>

fun same :: "object \<Rightarrow> object \<Rightarrow> bool" where
  "same (FLOAT32 f) y = (case y of FLOAT32 g \<Rightarrow> float_eq f g | _ \<Rightarrow> False)"
| "same (FLOAT64 f) y = (case y of FLOAT64 g \<Rightarrow> double_eq f g | _ \<Rightarrow> False)"
| "same (ARRAY xs) y =
     (case y of ARRAY ys \<Rightarrow> list_all2 (\<lambda>f y. f y) (map same xs) ys | _ \<Rightarrow> False)"
| "same (MAP xs) y =
     (case y of
        MAP ys \<Rightarrow> list_all2 (\<lambda>(f, g) (k, x). f k \<and> g x) (map (\<lambda>(k, x). (same k, same x)) xs) ys
      | _ \<Rightarrow> False)"
| "same x y \<longleftrightarrow> x = y"

lemma same_collections:
  "same (ARRAY xs) (ARRAY ys) = list_all2 same xs ys"
  "same (MAP us) (MAP vs) = list_all2 (\<lambda>(k, x) (l, y). same k l \<and> same x y) us vs"
  by (simp_all add: list_all2_map1 case_prod_beta' comp_def)

section \<open>The visitor computes the recursion\<close>

text \<open>
  \<open>answers c s b cs\<close>: from \<open>s\<close> the callback \<open>c\<close> goes on if \<open>b\<close> and leaves the
  stack \<open>cs\<close>, and it stops with the result false otherwise.
\<close>

definition answers :: "equal_state callback \<Rightarrow> equal_state \<Rightarrow> bool \<Rightarrow> cursor list \<Rightarrow> bool" where
  "answers c s b cs \<longleftrightarrow> (\<exists>t. c s = Inr (b, t) \<and> m_result t = b \<and> (b \<longrightarrow> m_objs t = cs))"

lemma answers_require: "m_result s \<Longrightarrow> answers (require b) s b (m_objs s)"
  by (simp add: answers_def require_def go_on_def)

lemma answers_then_call:
  assumes "answers c s b cs"
    and "\<And>t. b \<Longrightarrow> m_result t \<Longrightarrow> m_objs t = cs \<Longrightarrow> answers d t b' cs'"
  shows "answers (\<lambda>s. then_call (c s) d) s (b \<and> b') cs'"
proof (cases b)
  case True
  with assms(1) obtain t where t: "c s = Inr (True, t)" "m_result t" "m_objs t = cs"
    by (auto simp: answers_def)
  with assms(2) [OF True] show ?thesis using True by (auto simp: answers_def then_call_def)
qed (use assms(1) in \<open>auto simp: answers_def then_call_def\<close>)

lemma answers_bytes:
  assumes "m_result s" "length v < 2 ^ 32" "length p < 2 ^ 32" "n = size_of v"
    and "ok \<longleftrightarrow> length v = length p"
  shows "answers (require_bytes ok p v n) s (v = p) (m_objs s)"
  using assms
  by (auto simp: answers_def require_bytes_def require_def go_on_def bytes_at_def unat_size_of)

text \<open>The callbacks on the items of an array and the pairs of a map.\<close>

definition compares :: "object \<Rightarrow> bool" where
  "compares x \<longleftrightarrow> (\<forall>s. m_result s \<longrightarrow> object_ok (right s) \<longrightarrow>
     answers (visit_object object_equal_visitor x) s (same x (right s)) (m_objs s))"

lemma comparesI:
  "(\<And>s. m_result s \<Longrightarrow> object_ok (right s) \<Longrightarrow>
     answers (visit_object object_equal_visitor x) s (same x (right s)) (m_objs s)) \<Longrightarrow> compares x"
  by (simp add: compares_def)

lemma compares_at:
  assumes "compares x" "object_ok y" "get c = Inr y" "m_result s" "m_objs s = c # cs"
  shows "answers (\<lambda>s. then_call (point_at get s) (visit_object object_equal_visitor x)) s (same x y) (c # cs)"
  using assms
  by (auto simp: compares_def point_at_def deref_def then_call_def go_on_def answers_def
      dest: spec [where x = "s\<lparr>right := y\<rparr>"])

lemma answers_advance:
  "m_result s \<Longrightarrow> m_objs s = c # cs \<Longrightarrow> answers (advance f) s True (f c # cs)"
  by (simp add: answers_def advance_def deref_def go_on_def)

lemma answers_pop_back:
  "m_result s \<Longrightarrow> m_objs s = c # cs \<Longrightarrow> answers pop_back s True cs"
  by (simp add: answers_def pop_back_def deref_def go_on_def)

lemma answers_items:
  assumes "list_all compares xs" "list_all object_ok ys" "length xs = length ys"
    and "m_result s" "m_objs s = obj_cursor ys # cs"
  shows "answers (array_rest object_equal_visitor xs) s (list_all2 same xs ys) (obj_cursor [] # cs)"
  using assms
proof (induction xs ys arbitrary: s rule: list_induct2')
  case 1
  then show ?case by (simp add: answers_def array_rest_simps)
next
  case (4 x xs y ys)
  let ?V = object_equal_visitor
  have "answers (\<lambda>s. then_call (then_call (then_call (point_at get_item s) (visit_object ?V x))
        (advance (\<lambda>c. c\<lparr>as_obj := tl (as_obj c)\<rparr>))) (array_rest ?V xs))
      s ((same x y \<and> True) \<and> list_all2 same xs ys) (obj_cursor [] # cs)"
  proof (rule answers_then_call, rule answers_then_call, rule compares_at)
    show "answers (advance (\<lambda>c. c\<lparr>as_obj := tl (as_obj c)\<rparr>)) t True (obj_cursor ys # cs)"
      if "m_result t" "m_objs t = obj_cursor (y # ys) # cs" for t
      using answers_advance [OF that, of "\<lambda>c. c\<lparr>as_obj := tl (as_obj c)\<rparr>"] by (simp add: obj_cursor_def)
    show "answers (array_rest ?V xs) t (list_all2 same xs ys) (obj_cursor [] # cs)"
      if "m_result t" "m_objs t = obj_cursor ys # cs" for t
      using 4 that by auto
  qed (use 4 in \<open>auto simp: get_item_def deref_def obj_cursor_def\<close>)
  moreover have "array_rest ?V (x # xs) = (\<lambda>s. then_call (then_call (then_call (point_at get_item s)
      (visit_object ?V x)) (advance (\<lambda>c. c\<lparr>as_obj := tl (as_obj c)\<rparr>))) (array_rest ?V xs))"
    by (simp add: fun_eq_iff array_rest_simps object_equal_visitor_def)
  ultimately show ?case by simp
qed simp_all

lemma answers_pairs:
  assumes "list_all (\<lambda>(k, x). compares k \<and> compares x) us"
    and "list_all (\<lambda>(k, x). object_ok k \<and> object_ok x) vs" "length us = length vs"
    and "m_result s" "m_objs s = kv_cursor vs # cs"
  shows "answers (map_rest object_equal_visitor us) s (same (MAP us) (MAP vs)) (kv_cursor [] # cs)"
  using assms
proof (induction us vs arbitrary: s rule: list_induct2')
  case 1
  then show ?case by (simp add: answers_def map_rest_simps)
next
  case (4 u us v vs)
  obtain k x l y where uv: "u = (k, x)" "v = (l, y)" by (cases u, cases v)
  let ?V = object_equal_visitor
  let ?next = "advance (\<lambda>c. c\<lparr>as_kv := tl (as_kv c)\<rparr>)"
  have "answers (\<lambda>s. then_call (then_call (then_call (then_call (point_at get_key s) (visit_object ?V k))
        (\<lambda>s. then_call (point_at get_val s) (visit_object ?V x))) ?next) (map_rest ?V us))
      s (((same k l \<and> same x y) \<and> True) \<and> same (MAP us) (MAP vs)) (kv_cursor [] # cs)"
  proof (rule answers_then_call, rule answers_then_call, rule answers_then_call, rule compares_at)
    show "answers (\<lambda>s. then_call (point_at get_val s) (visit_object ?V x)) t (same x y) (kv_cursor (v # vs) # cs)"
      if "m_result t" "m_objs t = kv_cursor (v # vs) # cs" for t
      by (rule compares_at) (use 4 that uv in \<open>auto simp: get_val_def deref_def kv_cursor_def\<close>)
    show "answers ?next t True (kv_cursor vs # cs)"
      if "m_result t" "m_objs t = kv_cursor (v # vs) # cs" for t
      using answers_advance [OF that, of "\<lambda>c. c\<lparr>as_kv := tl (as_kv c)\<rparr>"] by (simp add: kv_cursor_def)
    show "answers (map_rest ?V us) t (same (MAP us) (MAP vs)) (kv_cursor [] # cs)"
      if "m_result t" "m_objs t = kv_cursor vs # cs" for t
      using 4 that uv by auto
  qed (use 4 uv in \<open>auto simp: get_key_def deref_def kv_cursor_def\<close>)
  moreover have "map_rest ?V (u # us) = (\<lambda>s. then_call (then_call (then_call
      (then_call (point_at get_key s) (visit_object ?V k))
        (\<lambda>s. then_call (point_at get_val s) (visit_object ?V x))) ?next) (map_rest ?V us))"
    by (simp add: fun_eq_iff map_rest_simps object_equal_visitor_def uv then_call_assoc then_call_go_on)
  ultimately show ?case using uv by (simp add: same_collections)
qed (simp_all add: same_collections)

lemma ends_pop: "end_array object_equal_visitor = pop_back" "end_map object_equal_visitor = pop_back"
  by (simp_all add: object_equal_visitor_def)

fun bytes_of :: "object \<Rightarrow> byte list" where
  "bytes_of (STR' p) = p"
| "bytes_of (BIN p) = p"
| "bytes_of (EXT p) = p"
| "bytes_of _ = []"

lemma compares_bytes:
  assumes "m_result s" "object_ok x" "object_ok (right s)"
    and "x = STR' p \<or> x = BIN p \<or> x = EXT p"
  shows "answers (visit_object object_equal_visitor x) s (same x (right s)) (m_objs s)"
proof -
  have [simp]: "size_of q = size_of p \<longleftrightarrow> length p = length q"
    if "length p < 2 ^ 32" "length q < 2 ^ 32" for q :: "byte list"
    using that unat_size_of [of p] unat_size_of [of q] by (metis size_of_def)
  have ext: "ext_size q + 1 = size_of q" if "q \<noteq> []" for q
    using that by (cases q) (simp_all add: ext_size_def size_of_def)
  have [simp]: "ext_size q = size_of p - 1 \<longleftrightarrow> length p = length q"
    if "p \<noteq> []" "q \<noteq> []" "length p < 2 ^ 32" "length q < 2 ^ 32" for q
  proof -
    have "ext_size q = size_of p - 1 \<longleftrightarrow> size_of q = size_of p"
      using ext [OF that(2)] by (metis add_diff_cancel_right' diff_add_cancel)
    then show ?thesis using that(3,4) by simp
  qed
  have len: "length p < 2 ^ 32" and p: "x = EXT p \<Longrightarrow> p \<noteq> []" using assms by auto
  note bytes = answers_bytes [OF assms(1) len _ refl]
  have visit: "visit_object object_equal_visitor x s =
      (if type_of_object (right s) = type_of_object x then
         require_bytes (length p = length (bytes_of (right s))) (bytes_of (right s)) p (size_of p) s
       else require False s)"
    using assms len p by (cases "right s") (auto simp: visit_leaf object_equal_visitor_def ext)
  show ?thesis
  proof (cases "type_of_object (right s) = type_of_object x")
    case True
    then have "same x (right s) \<longleftrightarrow> p = bytes_of (right s)"
      using assms(4) by (cases "right s") auto
    moreover have "length (bytes_of (right s)) < 2 ^ 32"
      using True assms(3,4) by (cases "right s") auto
    ultimately show ?thesis using True bytes [of "bytes_of (right s)"] by (simp add: answers_def visit)
  next
    case False
    then have "\<not> same x (right s)" using assms(4) by (cases "right s") auto
    with False show ?thesis
      using answers_require [OF assms(1), of False] by (simp add: answers_def visit)
  qed
qed

lemma object_compares: "object_ok x \<Longrightarrow> compares x"
proof (induction x)
  case (ARRAY xs)
  show ?case
  proof (rule comparesI)
    fix s :: equal_state assume s: "m_result s" "object_ok (right s)"
    let ?V = object_equal_visitor
    show "answers (visit_object ?V (ARRAY xs)) s (same (ARRAY xs) (right s)) (m_objs s)"
    proof (cases "\<exists>ys. right s = ARRAY ys \<and> length xs = length ys")
      case True
      then obtain ys where ys: "right s = ARRAY ys" "length xs = length ys" by blast
      have all: "list_all compares xs" "list_all object_ok ys"
        using ARRAY s ys by (auto simp: list_all_iff)
      have "answers (\<lambda>s. then_call (then_call (start_array ?V (size_of xs) s) (array_rest ?V xs)) pop_back)
          s ((True \<and> same (ARRAY xs) (ARRAY ys)) \<and> True) (m_objs s)"
      proof (rule answers_then_call, rule answers_then_call)
        show "answers (start_array ?V (size_of xs)) s True (obj_cursor ys # m_objs s)"
          using s(1) ys by (simp add: answers_def object_equal_visitor_def go_on_def size_of_def)
      qed (use answers_items [OF all ys(2)] answers_pop_back in \<open>auto simp: list_all2_map1\<close>)
      then show ?thesis
        by (simp add: ys array_rest_def ends_pop answers_def)
    next
      case False
      then have "\<not> same (ARRAY xs) (right s)"
        by (auto split: object.splits simp: list_all2_map1 dest: list_all2_lengthD)
      moreover have "size_of ys \<noteq> size_of xs" if "right s = ARRAY ys" for ys
        using that False s ARRAY.prems unat_size_of [of xs] unat_size_of [of ys] by auto
      then have "start_array ?V (size_of xs) s = Inr (False, s\<lparr>m_result := False\<rparr>)"
        by (auto simp: object_equal_visitor_def require_def split: object.splits)
      ultimately show ?thesis by (simp add: answers_def then_call_def)
    qed
  qed
next
  case (MAP us)
  show ?case
  proof (rule comparesI)
    fix s :: equal_state assume s: "m_result s" "object_ok (right s)"
    let ?V = object_equal_visitor
    show "answers (visit_object ?V (MAP us)) s (same (MAP us) (right s)) (m_objs s)"
    proof (cases "\<exists>vs. right s = MAP vs \<and> length us = length vs")
      case True
      then obtain vs where vs: "right s = MAP vs" "length us = length vs" by blast
      have "compares k \<and> compares x" if "(k, x) \<in> set us" for k x
      proof -
        have "object_ok k" "object_ok x" using MAP.prems that by (auto simp: list_all_iff)
        moreover have "k \<in> Basic_BNFs.fsts (k, x)" "x \<in> Basic_BNFs.snds (k, x)" by simp_all
        ultimately show ?thesis using that MAP.IH by metis
      qed
      then have all: "list_all (\<lambda>(k, x). compares k \<and> compares x) us"
          "list_all (\<lambda>(k, x). object_ok k \<and> object_ok x) vs"
        using s vs by (auto simp: list_all_iff)
      have "answers (\<lambda>s. then_call (then_call (start_map ?V (size_of us) s) (map_rest ?V us)) pop_back)
          s ((True \<and> same (MAP us) (MAP vs)) \<and> True) (m_objs s)"
      proof (rule answers_then_call, rule answers_then_call)
        show "answers (start_map ?V (size_of us)) s True (kv_cursor vs # m_objs s)"
          using s(1) vs by (simp add: answers_def object_equal_visitor_def go_on_def size_of_def)
      qed (use answers_pairs [OF all vs(2)] answers_pop_back in auto)
      then show ?thesis
        by (simp add: vs map_rest_def ends_pop answers_def)
    next
      case False
      then have "\<not> same (MAP us) (right s)"
        by (auto split: object.splits simp: list_all2_map1 dest: list_all2_lengthD)
      moreover have "size_of vs \<noteq> size_of us" if "right s = MAP vs" for vs
        using that False s MAP.prems unat_size_of [of us] unat_size_of [of vs] by auto
      then have "start_map ?V (size_of us) s = Inr (False, s\<lparr>m_result := False\<rparr>)"
        by (auto simp: object_equal_visitor_def require_def split: object.splits)
      ultimately show ?thesis by (simp add: answers_def then_call_def)
    qed
  qed
next
  case (STR' p)
  then show ?case using compares_bytes [of _ "STR' p" p] by (intro comparesI) simp
next
  case (BIN p)
  then show ?case using compares_bytes [of _ "BIN p" p] by (intro comparesI) simp
next
  case (EXT p)
  then show ?case using compares_bytes [of _ "EXT p" p] by (intro comparesI) simp
qed (auto simp: compares_def answers_def object_equal_visitor_def require_def go_on_def
      visit_leaf float_eq_commute double_eq_commute split: object.split)

text \<open>The comparison ends, without undefined behaviour, with what the recursion says.\<close>

lemma object_equal_same:
  assumes "object_ok x" "object_ok y"
  shows "object_equal x y = Some (Inr (same x y))"
proof (cases "type_of_object x = type_of_object y")
  case True
  let ?s = "\<lparr>m_objs = [], right = y, m_result = True\<rparr>"
  have "answers (visit_object object_equal_visitor x) ?s (same x y) []"
    using object_compares [OF assms(1)] assms(2) by (simp add: compares_def)
      (metis equal_state.select_convs)
  then show ?thesis
    using True by (auto simp: object_equal_def object_parser_visits assms(1) answers_def)
next
  case False
  then have "\<not> same x y"
    by (cases x; cases y) simp_all
  with False show ?thesis by (simp add: object_equal_def)
qed

section \<open>The equality of objects\<close>

text \<open>Whether \<open>P\<close> holds of the floats, and \<open>Q\<close> of the doubles, in an object.\<close>

fun all_floats :: "(32 word \<Rightarrow> bool) \<Rightarrow> (64 word \<Rightarrow> bool) \<Rightarrow> object \<Rightarrow> bool" where
  "all_floats P Q (FLOAT32 f) = P f"
| "all_floats P Q (FLOAT64 f) = Q f"
| "all_floats P Q (ARRAY xs) = list_all (all_floats P Q) xs"
| "all_floats P Q (MAP us) = list_all (\<lambda>(k, x). all_floats P Q k \<and> all_floats P Q x) us"
| "all_floats P Q _ = True"

lemma same_refl:
  "same x x = all_floats (\<lambda>f. \<not> is_nan32 f) (\<lambda>f. \<not> is_nan64 f) x"
proof (induction x)
  case (MAP us)
  have "(case u of (k, x) \<Rightarrow> \<lambda>(l, y). same k l \<and> same x y) u =
      (case u of (k, x) \<Rightarrow> all_floats (\<lambda>f. \<not> is_nan32 f) (\<lambda>f. \<not> is_nan64 f) k \<and>
         all_floats (\<lambda>f. \<not> is_nan32 f) (\<lambda>f. \<not> is_nan64 f) x)"
    if "u \<in> set us" for u
    using that MAP [of u] by (cases u) auto
  then show ?case
    by (simp del: same.simps add: same_collections list_all2_same list_all_iff)
qed (auto simp: list_all2_map1 list_all2_same list_all_iff float_eq_def double_eq_def)

text \<open>On objects without floats, \<open>operator==\<close> is equality.\<close>

lemma same_imp_eq: "all_floats (\<lambda>_. False) (\<lambda>_. False) x \<Longrightarrow> same x y \<Longrightarrow> x = y"
proof (induction x arbitrary: y)
  case (ARRAY xs)
  then show ?case
    by (auto split: object.splits simp: list_all2_map1 list_all_iff list_all2_conv_all_nth
        intro!: nth_equalityI)
next
  case (MAP us)
  then obtain vs where vs: "y = MAP vs" "list_all2 (\<lambda>(k, x) (l, y). same k l \<and> same x y) us vs"
    by (auto split: object.splits simp: list_all2_map1 case_prod_beta')
  have "u = v" if "u \<in> set us" "(\<lambda>(k, x) (l, y). same k l \<and> same x y) u v" for u v
    using that MAP.prems(1) MAP.IH [of u "fst u"] MAP.IH [of u "snd u"]
    by (cases u; cases v) (auto simp: list_all_iff)
  then have "list_all2 (=) us vs"
    by (intro list.rel_mono_strong [OF vs(2)])
  with vs(1) show ?case by (simp add: list.rel_eq)
qed (auto split: object.splits)

lemma same_iff_eq:
  assumes "all_floats (\<lambda>_. False) (\<lambda>_. False) x"
  shows "same x y \<longleftrightarrow> x = y"
proof -
  have "all_floats (\<lambda>f. \<not> is_nan32 f) (\<lambda>f. \<not> is_nan64 f) x"
    using assms
  proof (induction x)
    case (MAP us)
    then show ?case by (fastforce simp: list_all_iff)
  qed (auto simp: list_all_iff)
  with same_refl [of x] same_imp_eq [OF assms] show ?thesis by blast
qed

end
