(* ===== verification/Msgpack_Print.thy ===== *)
theory Msgpack_Print
  imports Msgpack_Traversal
begin

unbundle bit_operations_syntax

text \<open>
  Objects as text, \<open>operator<<\<close> to a stream in
  \<open>src/3rd/inc/msgpack/v1/object.hpp\<close>: \<open>object_stringize_visitor\<close> keeps a stack
  of the items that are left, to put commas between them. It is shown to write
  the text of a recursion, and a string is recovered from its text.

  The stream is in the state of a new one, of which the visitor sees decimal
  integers and no field width. How it writes floats depends on its precision and
  flags, which the caller sets: \<open>show_float\<close> and \<open>show_double\<close> are arguments.
\<close>

section \<open>The visitor\<close>

text \<open>\<open>m_current_size\<close> has its back at the head.\<close>

record text_state =
  m_os :: string
  m_current_size :: "32 word list"

definition put :: "string \<Rightarrow> text_state \<Rightarrow> text_state" where
  "put t s = s\<lparr>m_os := m_os s @ t\<rparr>"

definition byte_char :: "byte \<Rightarrow> char" where
  "byte_char b = char_of (unat b)"

definition hex_digit :: "nat \<Rightarrow> char" where
  "hex_digit n = ''0123456789abcdef'' ! n"

text \<open>The number \<open>code & 0xff\<close> in hexadecimal, filled with zeros to a width of four.\<close>

definition hex4 :: "byte \<Rightarrow> string" where
  "hex4 b = [CHR ''0'', CHR ''0'', hex_digit (unat b div 16), hex_digit (unat b mod 16)]"

text \<open>
  The \<open>switch\<close> on a character. A \<open>char\<close> above 127 is not a control character,
  whether \<open>char\<close> is signed or not.
\<close>

definition escape :: "byte \<Rightarrow> string" where
  "escape c =
     (if c = 0x5c then [CHR 0x5c, CHR 0x5c]
      else if c = 0x22 then [CHR 0x5c, CHR 0x22]
      else if c = 0x2f then [CHR 0x5c, CHR 0x2f]
      else if c = 0x08 then [CHR 0x5c, CHR ''b'']
      else if c = 0x0c then [CHR 0x5c, CHR ''f'']
      else if c = 0x0a then [CHR 0x5c, CHR ''n'']
      else if c = 0x0d then [CHR 0x5c, CHR ''r'']
      else if c = 0x09 then [CHR 0x5c, CHR ''t'']
      else if c < 0x20 \<or> c = 0x7f then [CHR 0x5c, CHR ''u''] @ hex4 c
      else [byte_char c])"

definition push_size :: "32 word \<Rightarrow> text_state \<Rightarrow> text_state" where
  "push_size n s = s\<lparr>m_current_size := n # m_current_size s\<rparr>"

definition pop_size :: "string \<Rightarrow> text_state callback" where
  "pop_size t s =
     rbind (deref (m_current_size s)) (\<lambda>_. go_on (put t (s\<lparr>m_current_size := tl (m_current_size s)\<rparr>)))"

definition end_item :: "text_state callback" where
  "end_item s =
     rbind (deref (m_current_size s)) (\<lambda>n.
       let s = s\<lparr>m_current_size := (n - 1) # tl (m_current_size s)\<rparr> in
       go_on (if n - 1 \<noteq> 0 then put '','' s else s))"

definition object_stringize_visitor ::
    "(32 word \<Rightarrow> string) \<Rightarrow> (64 word \<Rightarrow> string) \<Rightarrow> text_state visitor" where
  "object_stringize_visitor show_float show_double =
     \<lparr>visit_nil = (\<lambda>s. go_on (put ''null'' s)),
      visit_boolean = (\<lambda>v s. go_on (put (if v then ''true'' else ''false'') s)),
      visit_positive_integer = (\<lambda>v s. go_on (put (show_int (uint v)) s)),
      visit_negative_integer = (\<lambda>v s. go_on (put (show_int (sint v)) s)),
      visit_float32 = (\<lambda>v s. go_on (put (show_float v) s)),
      visit_float64 = (\<lambda>v s. go_on (put (show_double v) s)),
      visit_str = (\<lambda>v size s. rbind (bytes_at v (unat size)) (\<lambda>p.
        go_on (put [CHR 0x22] (fold (\<lambda>c. put (escape c)) p (put [CHR 0x22] s))))),
      visit_bin = (\<lambda>v size s. go_on (put
        ([CHR 0x22] @ ''BIN(size:'' @ show_int (uint size) @ '')'' @ [CHR 0x22]) s)),
      visit_ext = (\<lambda>v size s.
        if size = 0 then go_on (put ([CHR 0x22] @ ''EXT(size:0)'' @ [CHR 0x22]) s)
        else rbind (deref v) (\<lambda>type. go_on (put
          ([CHR 0x22] @ ''EXT(type:'' @ show_int (sint type) @ '',size:'' @
           show_int (uint (size - 1)) @ '')'' @ [CHR 0x22]) s))),
      start_array = (\<lambda>n s. go_on (put ''['' (push_size n s))),
      start_array_item = go_on,
      end_array_item = end_item,
      end_array = pop_size '']'',
      start_map = (\<lambda>n s. go_on (put ''{'' (push_size n s))),
      start_map_key = go_on,
      end_map_key = (\<lambda>s. go_on (put '':'' s)),
      start_map_value = go_on,
      end_map_value = end_item,
      end_map = pop_size ''}''\<rparr>"

definition print_object ::
    "(32 word \<Rightarrow> string) \<Rightarrow> (64 word \<Rightarrow> string) \<Rightarrow> object \<Rightarrow> string \<Rightarrow> string result option" where
  "print_object show_float show_double v os =
     map_option (\<lambda>r. rbind r (\<lambda>s. Inr (m_os s)))
       (object_parser_parse (object_stringize_visitor show_float show_double) v
          \<lparr>m_os = os, m_current_size = []\<rparr>)"

section \<open>The text by recursion\<close>

fun commas :: "string list \<Rightarrow> string" where
  "commas [] = []"
| "commas [t] = t"
| "commas (t # ts) = t @ '','' @ commas ts"

definition quoted :: "byte list \<Rightarrow> string" where
  "quoted p = [CHR 0x22] @ concat (map escape p) @ [CHR 0x22]"

fun text_of :: "(32 word \<Rightarrow> string) \<Rightarrow> (64 word \<Rightarrow> string) \<Rightarrow> object \<Rightarrow> string" where
  "text_of F D NIL = ''null''"
| "text_of F D (BOOLEAN b) = (if b then ''true'' else ''false'')"
| "text_of F D (POSITIVE_INTEGER n) = show_int (uint n)"
| "text_of F D (NEGATIVE_INTEGER n) = show_int (sint n)"
| "text_of F D (FLOAT32 f) = F f"
| "text_of F D (FLOAT64 f) = D f"
| "text_of F D (STR' p) = quoted p"
| "text_of F D (BIN p) = [CHR 0x22] @ ''BIN(size:'' @ show_int (int (length p)) @ '')'' @ [CHR 0x22]"
| "text_of F D (EXT p) =
     [CHR 0x22] @ ''EXT(type:'' @ show_int (sint (hd p)) @ '',size:'' @
     show_int (int (length p) - 1) @ '')'' @ [CHR 0x22]"
| "text_of F D (ARRAY xs) = ''['' @ commas (map (text_of F D) xs) @ '']''"
| "text_of F D (MAP us) =
     ''{'' @ commas (map (\<lambda>(k, x). text_of F D k @ '':'' @ text_of F D x) us) @ ''}''"

section \<open>The visitor writes the text\<close>

lemma uint_size_of: "length xs < 2 ^ 32 \<Longrightarrow> uint (size_of xs) = int (length xs)"
  using unat_size_of [of xs] by (simp add: uint_nat)

text \<open>\<open>writes c t\<close>: the callback appends the text \<open>t\<close> and goes on.\<close>

definition writes :: "text_state callback \<Rightarrow> string \<Rightarrow> bool" where
  "writes c t \<longleftrightarrow> (\<forall>s. c s = Inr (True, put t s))"

lemma put_put: "put u (put t s) = put (t @ u) s"
  by (simp add: put_def)

lemma put_fold: "fold (\<lambda>c. put (f c)) p s = put (concat (map f p)) s"
  by (induction p arbitrary: s) (simp_all add: put_put, simp add: put_def)

lemma end_item_last:
  "m_current_size s = 1 # ns \<Longrightarrow> end_item s = Inr (True, s\<lparr>m_current_size := 0 # ns\<rparr>)"
  by (simp add: end_item_def deref_def go_on_def)

lemma end_item_comma:
  "m_current_size s = n # ns \<Longrightarrow> n \<noteq> 1 \<Longrightarrow>
     end_item s = Inr (True, put '','' (s\<lparr>m_current_size := (n - 1) # ns\<rparr>))"
  by (simp add: end_item_def deref_def go_on_def)

text \<open>The items, which the callback after each of them counts.\<close>

lemma visit_items_writes:
  assumes "list_all2 writes cs ts" "length cs < 2 ^ 32"
    and "m_current_size s = size_of cs # ns"
  shows "visit_items go_on end_item cs s =
    Inr (True, put (commas ts) (s\<lparr>m_current_size := 0 # ns\<rparr>))"
  using assms
proof (induction cs ts arbitrary: s rule: list_all2_induct)
  case Nil
  then show ?case by (simp add: size_of_def put_def)
next
  case (Cons c cs t ts)
  have first: "then_call (go_on s) c = Inr (True, put t s)"
    using Cons.hyps(1) by (simp add: then_call_def go_on_def writes_def)
  have size: "m_current_size (put t s) = size_of (c # cs) # ns"
    using Cons.prems by (simp add: put_def)
  show ?case
  proof (cases "cs = []")
    case True
    then have "ts = []" using Cons.hyps(2) by simp
    have "end_item (put t s) = Inr (True, (put t s)\<lparr>m_current_size := 0 # ns\<rparr>)"
      using size True by (simp add: end_item_last size_of_def)
    then show ?thesis
      unfolding visit_items.simps first then_call_True using True \<open>ts = []\<close>
      by (simp add: then_call_True) (simp add: put_def)
  next
    case False
    then obtain u us where ts: "ts = u # us" using Cons.hyps(2) by (cases ts) auto
    have "size_of (c # cs) \<noteq> 1"
    proof
      assume "size_of (c # cs) = 1"
      then have "unat (size_of (c # cs)) = 1" by simp
      with False Cons.prems(1) show False by (simp add: unat_size_of)
    qed
    moreover have "size_of (c # cs) - 1 = size_of cs" by (simp add: size_of_def)
    ultimately have "end_item (put t s) =
        Inr (True, put '','' ((put t s)\<lparr>m_current_size := size_of cs # ns\<rparr>))"
      using size by (simp add: end_item_comma)
    moreover have "visit_items go_on end_item cs (put '','' ((put t s)\<lparr>m_current_size := size_of cs # ns\<rparr>)) =
        Inr (True, put (commas ts) ((put '','' ((put t s)\<lparr>m_current_size := size_of cs # ns\<rparr>))\<lparr>m_current_size := 0 # ns\<rparr>))"
      by (rule Cons.IH) (use Cons.prems in \<open>simp_all add: put_def\<close>)
    ultimately show ?thesis
      unfolding visit_items.simps first then_call_True using ts
      by (simp add: then_call_True) (simp add: put_def)
  qed
qed

lemma writes_items:
  assumes "list_all2 writes cs ts" "length cs < 2 ^ 32"
    and "\<And>s. begin s = go_on (put t (push_size (size_of cs) s))"
  shows "writes (\<lambda>s. then_call (then_call (begin s) (visit_items go_on end_item cs)) (pop_size u))
    (t @ commas ts @ u)"
  using visit_items_writes [OF assms(1,2)] assms(3)
  by (simp add: writes_def then_call_def go_on_def pop_size_def deref_def push_size_def put_def)

lemma object_writes:
  "object_ok x \<Longrightarrow> writes (visit_object (object_stringize_visitor F D) x) (text_of F D x)"
proof (induction x)
  case (ARRAY xs)
  then have "list_all2 writes (map (visit_object (object_stringize_visitor F D)) xs) (map (text_of F D) xs)"
    by (auto simp: list_all2_conv_all_nth list_all_iff)
  from writes_items [OF this] ARRAY.prems show ?case
    by (simp add: object_stringize_visitor_def writes_def size_of_def)
next
  case (MAP us)
  let ?visit = "visit_object (object_stringize_visitor F D)"
  let ?pair = "\<lambda>(k, x) s. then_call (then_call (then_call (?visit k s)
      (\<lambda>s. go_on (put '':'' s))) go_on) (?visit x)"
  have "writes (?pair u) (case u of (k, x) \<Rightarrow> text_of F D k @ '':'' @ text_of F D x)" if "u \<in> set us" for u
  proof -
    obtain k x where u: "u = (k, x)" by force
    have "object_ok k" "object_ok x" using MAP.prems that u by (auto simp: list_all_iff)
    then have "writes (?visit k) (text_of F D k)" "writes (?visit x) (text_of F D x)"
      using MAP.IH [OF that] u by auto
    then show ?thesis by (simp add: u writes_def then_call_def go_on_def put_put)
  qed
  then have "list_all2 writes (map ?pair us) (map (\<lambda>(k, x). text_of F D k @ '':'' @ text_of F D x) us)"
    by (auto simp: list_all2_conv_all_nth)
  from writes_items [OF this] MAP.prems show ?case
    by (simp add: object_stringize_visitor_def writes_def size_of_def case_prod_beta')
next
  case (STR' p)
  then show ?case
    by (simp add: writes_def object_stringize_visitor_def unat_size_of bytes_at_def put_fold put_put
        quoted_def go_on_def)
next
  case (BIN p)
  then show ?case
    by (simp add: writes_def object_stringize_visitor_def uint_size_of go_on_def)
next
  case (EXT p)
  then obtain t q where p: "p = t # q" by (cases p) auto
  with EXT have "ext_size p + 1 = size_of p" "size_of p \<noteq> 0" "uint (size_of p - 1) = int (length q)"
    using size_of_eq_0 [of p] uint_size_of [of q] by (auto simp: ext_size_def size_of_def)
  then show ?case
    by (simp add: writes_def visit_leaf object_stringize_visitor_def go_on_def p deref_def)
qed (auto simp: writes_def object_stringize_visitor_def go_on_def)

text \<open>Printing an object ends, and appends its text to the stream.\<close>

lemma print_object_text:
  "object_ok x \<Longrightarrow> print_object F D x os = Some (Inr (os @ text_of F D x))"
  using object_writes [of x F D]
  by (simp add: print_object_def object_parser_visits writes_def) (simp add: put_def)

section \<open>Strings can be read back\<close>

definition hex_value :: "char \<Rightarrow> nat option" where
  "hex_value c =
     (let n = of_char c :: nat in
      if 48 \<le> n \<and> n \<le> 57 then Some (n - 48) else if 97 \<le> n \<and> n \<le> 102 then Some (n - 87) else None)"

text \<open>A reader of quoted strings: the bytes up to the closing quote, and what follows.\<close>

fun unquote :: "string \<Rightarrow> (byte list \<times> string) option" where
  "unquote (c # r) =
     (if c = CHR 0x22 then Some ([], r)
      else if c = CHR 0x5c then
        (case r of
           e # r \<Rightarrow>
             if e = CHR ''u'' then
               (case r of
                  _ # _ # h # l # r \<Rightarrow>
                    (case (hex_value h, hex_value l, unquote r) of
                       (Some a, Some b, Some (p, t)) \<Rightarrow> Some (of_nat (16 * a + b) # p, t)
                     | _ \<Rightarrow> None)
                | _ \<Rightarrow> None)
             else
               map_option (\<lambda>(p, t). ((if e = CHR ''b'' then 0x08 else if e = CHR ''f'' then 0x0c
                   else if e = CHR ''n'' then 0x0a else if e = CHR ''r'' then 0x0d
                   else if e = CHR ''t'' then 0x09 else of_char e) # p, t)) (unquote r)
         | [] \<Rightarrow> None)
      else map_option (\<lambda>(p, t). (of_char c # p, t)) (unquote r))"
| "unquote [] = None"

lemma hex_value_digit: "n < 16 \<Longrightarrow> hex_value (hex_digit n) = Some n"
proof -
  assume "n < 16"
  moreover have "\<forall>n \<in> set [0..<16]. hex_value (hex_digit n) = Some n" by code_simp
  ultimately show ?thesis by simp
qed

lemma unat_byte: "unat (b :: byte) < 256"
proof -
  have "unat b < 2 ^ LENGTH(8)" by (rule unsigned_less)
  then show ?thesis by simp
qed

lemma of_byte_char: "of_char (byte_char b) = b"
proof -
  have "(of_char (byte_char b) :: byte) = of_nat (of_char (byte_char b))"
    by (simp add: of_nat_of_char)
  also have "(of_char (byte_char b) :: nat) = unat b"
    using unat_byte [of b] by (simp add: byte_char_def)
  finally show ?thesis by simp
qed

lemma unquote_escape: "unquote (escape b @ r) = map_option (\<lambda>(p, t). (b # p, t)) (unquote r)"
proof -
  have hex: "of_nat (16 * (unat b div 16) + unat b mod 16) = b" by simp
  have small: "unat b div 16 < 16" using unat_byte [of b] by simp
  have eq: "byte_char b = c \<longleftrightarrow> b = of_char c" for c
    using of_byte_char [of b] char_of_byte [of c] by (auto simp: byte_char_def)
  have neq: "byte_char b = CHR 0x22 \<longleftrightarrow> b = 0x22" "byte_char b = CHR 0x5c \<longleftrightarrow> b = 0x5c"
    by (simp_all add: eq)
  show ?thesis
    unfolding escape_def
    by (auto simp: hex4_def hex_value_digit small hex of_byte_char neq split: option.split)
qed

lemma unquote_quoted: "unquote (tl (quoted p @ r)) = Some (p, r)"
  by (induction p) (simp_all add: quoted_def unquote_escape)

end
