(* ===== verification/Msgpack_Clone.thy ===== *)
theory Msgpack_Clone
  imports Msgpack_Unpack Msgpack_Zone_Safe
begin

unbundle bit_operations_syntax

text \<open>
  Deep copies, \<open>clone\<close> of \<open>src/3rd/inc/msgpack/v1/object.hpp\<close>: one visitor counts
  the memory a copy needs, a zone of that size is made, and a second visitor
  builds the copy in it.

  Here objects are in memory. A \<open>cell\<close> is an \<open>object\<close> struct, whose strings and
  collections are a size and an address. The heap holds bytes and cells, each
  under its address; a cell has \<open>sizeof_object\<close> bytes, and a pair of a map is two
  cells in a row. \<open>Owz\<close> is the \<open>with_zone\<close> object of the caller, a variable
  outside the heap.
\<close>

section \<open>Counting\<close>

definition count_size :: "nat \<Rightarrow> nat \<Rightarrow> nat callback" where
  "count_size n align s = go_on (add64 s (aligned_size n align))"

definition aligned_zone_size_visitor :: "nat visitor" where
  "aligned_zone_size_visitor =
     \<lparr>visit_nil = go_on, visit_boolean = (\<lambda>_. go_on),
      visit_positive_integer = (\<lambda>_. go_on), visit_negative_integer = (\<lambda>_. go_on),
      visit_float32 = (\<lambda>_. go_on), visit_float64 = (\<lambda>_. go_on),
      visit_str = (\<lambda>_ n. count_size (unat n) alignof_char),
      visit_bin = (\<lambda>_ n. count_size (unat n) alignof_char),
      visit_ext = (\<lambda>_ n. count_size (unat n) alignof_char),
      start_array = (\<lambda>n. count_size (sizeof_object * unat n) alignof_object),
      start_array_item = go_on, end_array_item = go_on, end_array = go_on,
      start_map = (\<lambda>n. count_size (sizeof_object_kv * unat n) alignof_object),
      start_map_key = go_on, end_map_key = go_on,
      start_map_value = go_on, end_map_value = go_on, end_map = go_on\<rparr>"

definition aligned_zone_size :: "object \<Rightarrow> nat result option" where
  "aligned_zone_size v = object_parser_parse aligned_zone_size_visitor v 0"

section \<open>Copying\<close>

datatype cell =
    NIL_Cell
  | BOOLEAN_Cell bool
  | POSITIVE_INTEGER_Cell "64 word"
  | NEGATIVE_INTEGER_Cell "64 word"
  | FLOAT32_Cell "32 word"
  | FLOAT64_Cell "64 word"
  | STR_Cell "32 word" nat
  | BIN_Cell "32 word" nat
  | EXT_Cell "32 word" nat
  | ARRAY_Cell "32 word" nat
  | MAP_Cell "32 word" nat

datatype place = Owz | At nat

text \<open>
  The state of the copy: \<open>m_zone\<close> with the heap it is in, the memory, \<open>m_objs\<close> with
  its back at the head, and \<open>m_ptr\<close>. The two members of the union in the
  visitor's \<open>elem\<close> are pointers, so an entry of \<open>m_objs\<close> is the address.
\<close>

record copy_state =
  copy_zone :: zone
  copy_blocks :: blocks
  cells :: "nat \<Rightarrow> cell option"
  bytes :: "nat \<Rightarrow> byte option"
  owz :: cell
  parents :: "place list"
  dest :: place

fun set_cell :: "place \<Rightarrow> cell \<Rightarrow> copy_state \<Rightarrow> copy_state" where
  "set_cell Owz c s = s\<lparr>owz := c\<rparr>"
| "set_cell (At a) c s = s\<lparr>cells := (cells s)(a := Some c)\<rparr>"

definition write_dest :: "cell \<Rightarrow> copy_state callback" where
  "write_dest c s = go_on (set_cell (dest s) c s)"

definition zone_memory ::
    "malloc \<Rightarrow> nat \<Rightarrow> nat \<Rightarrow> copy_state \<Rightarrow> (nat \<times> copy_state) result" where
  "zone_memory malloc n align s =
     rbind (zone_allocate_align malloc n align (copy_zone s) (copy_blocks s)) (\<lambda>(p, z, h).
       Inr (p, s\<lparr>copy_zone := z, copy_blocks := h\<rparr>))"

definition memcpy_at :: "nat \<Rightarrow> byte list \<Rightarrow> (nat \<Rightarrow> byte option) \<Rightarrow> nat \<Rightarrow> byte option" where
  "memcpy_at p b m = (\<lambda>a. if p \<le> a \<and> a < p + length b then Some (b ! (a - p)) else m a)"

definition copy_bytes ::
    "malloc \<Rightarrow> (nat \<Rightarrow> cell) \<Rightarrow> byte list \<Rightarrow> 32 word \<Rightarrow> copy_state callback" where
  "copy_bytes malloc c v n s =
     rbind (zone_memory malloc (unat n) alignof_char s) (\<lambda>(p, s).
     rbind (bytes_at v (unat n)) (\<lambda>b.
       write_dest (c p) (s\<lparr>bytes := memcpy_at p b (bytes s)\<rparr>)))"

definition copy_items :: "malloc \<Rightarrow> (nat \<Rightarrow> cell) \<Rightarrow> nat \<Rightarrow> copy_state callback" where
  "copy_items malloc c n s =
     rbind (zone_memory malloc n alignof_object s) (\<lambda>(p, s).
     rbind (write_dest (c p) s) (\<lambda>(_, s). go_on (s\<lparr>parents := At p # parents s\<rparr>)))"

text \<open>A pointer some bytes further; \<open>Owz\<close> is not part of an array.\<close>

fun plus_at :: "place \<Rightarrow> nat \<Rightarrow> place result" where
  "plus_at (At a) n = Inr (At (a + n))"
| "plus_at Owz n = (if n = 0 then Inr Owz else Inl (UB Out_Of_Bounds))"

definition aim :: "nat \<Rightarrow> copy_state callback" where
  "aim n s = rbind (deref (parents s)) (\<lambda>p. rbind (plus_at p n) (\<lambda>p. go_on (s\<lparr>dest := p\<rparr>)))"

definition step_parent :: "nat \<Rightarrow> copy_state callback" where
  "step_parent n s =
     rbind (deref (parents s)) (\<lambda>p. rbind (plus_at p n) (\<lambda>p.
       go_on (s\<lparr>parents := p # tl (parents s)\<rparr>)))"

definition pop_parent :: "copy_state callback" where
  "pop_parent s = rbind (deref (parents s)) (\<lambda>_. go_on (s\<lparr>parents := tl (parents s)\<rparr>))"

definition object_with_zone_visitor :: "malloc \<Rightarrow> copy_state visitor" where
  "object_with_zone_visitor malloc =
     \<lparr>visit_nil = write_dest NIL_Cell,
      visit_boolean = (\<lambda>v. write_dest (BOOLEAN_Cell v)),
      visit_positive_integer = (\<lambda>v. write_dest (POSITIVE_INTEGER_Cell v)),
      visit_negative_integer = (\<lambda>v. write_dest (NEGATIVE_INTEGER_Cell v)),
      visit_float32 = (\<lambda>v. write_dest (FLOAT32_Cell v)),
      visit_float64 = (\<lambda>v. write_dest (FLOAT64_Cell v)),
      visit_str = (\<lambda>v n. copy_bytes malloc (STR_Cell n) v n),
      visit_bin = (\<lambda>v n. copy_bytes malloc (BIN_Cell n) v n),
      visit_ext = (\<lambda>v n. copy_bytes malloc (EXT_Cell (n - 1)) v n),
      start_array = (\<lambda>n. copy_items malloc (ARRAY_Cell n) (sizeof_object * unat n)),
      start_array_item = aim 0,
      end_array_item = step_parent sizeof_object,
      end_array = pop_parent,
      start_map = (\<lambda>n. copy_items malloc (MAP_Cell n) (sizeof_object_kv * unat n)),
      start_map_key = aim 0,
      end_map_key = go_on,
      start_map_value = aim sizeof_object,
      end_map_value = step_parent sizeof_object_kv,
      end_map = pop_parent\<rparr>"

text \<open>\<open>object(v, z)\<close>: the copy of an object into a zone.\<close>

definition object_with_zone :: "malloc \<Rightarrow> object \<Rightarrow> copy_state \<Rightarrow> copy_state result option" where
  "object_with_zone malloc v s =
     object_parser_parse (object_with_zone_visitor malloc) v
       (s\<lparr>owz := NIL_Cell, parents := [Owz], dest := Owz\<rparr>)"

text \<open>
  \<open>src\<close> is the struct of the object to copy, and \<open>v\<close> the object it stands for.
  The result is the copy and its zone; a null zone means that \<open>src\<close> is returned.
\<close>

definition clone ::
    "malloc \<Rightarrow> cell \<Rightarrow> object \<Rightarrow> blocks \<Rightarrow> (nat \<Rightarrow> cell option) \<Rightarrow> (nat \<Rightarrow> byte option)
     \<Rightarrow> (cell \<times> copy_state option) result option" where
  "clone malloc src v h C B =
     (case aligned_zone_size v of
        None \<Rightarrow> None
      | Some (Inl e) \<Rightarrow> Some (Inl e)
      | Some (Inr n) \<Rightarrow>
          if n = 0 then Some (Inr (src, None))
          else
            (case malloc h sizeof_zone of
               None \<Rightarrow> Some (Inl (Throw Bad_Alloc))
             | Some p \<Rightarrow>
                 (case zone_new malloc n ((p, sizeof_zone) # h) of
                    Inl e \<Rightarrow> Some (Inl e)
                  | Inr (z, h) \<Rightarrow>
                      map_option (\<lambda>r. rbind r (\<lambda>s. Inr (owz s, Some s)))
                        (object_with_zone malloc v
                          \<lparr>copy_zone = z, copy_blocks = h, cells = C, bytes = B, owz = NIL_Cell,
                           parents = [], dest = Owz\<rparr>))))"

section \<open>The memory an object needs\<close>

fun memory_size :: "object \<Rightarrow> nat" where
  "memory_size (STR' p) = length p"
| "memory_size (BIN p) = length p"
| "memory_size (EXT p) = length p"
| "memory_size (ARRAY xs) = sizeof_object * length xs + sum_list (map memory_size xs)"
| "memory_size (MAP us) = sizeof_object_kv * length us + sum_list (map (\<lambda>(k, x). memory_size k + memory_size x) us)"
| "memory_size _ = 0"

definition counts :: "nat callback \<Rightarrow> nat \<Rightarrow> bool" where
  "counts c n \<longleftrightarrow> (\<forall>s < 2 ^ 64. c s = Inr (True, add64 s n))"

lemma add64_less: "add64 a b < 2 ^ 64"
  by (simp add: add64_def)

lemma add64_add64: "add64 (add64 s m) n = add64 s (m + n)"
  by (simp add: add64_def mod_simps ac_simps)

lemma counts_go_on: "counts go_on 0"
  by (simp add: counts_def go_on_def add64_def)

lemma counts_then_call:
  "counts c m \<Longrightarrow> counts d n \<Longrightarrow> counts (\<lambda>s. then_call (c s) d) (m + n)"
  using add64_less by (simp add: counts_def then_call_True add64_add64)

lemma counts_items:
  "list_all2 counts cs ns \<Longrightarrow> counts (visit_items go_on go_on cs) (sum_list ns)"
proof (induction rule: list_all2_induct)
  case Nil
  then show ?case using counts_go_on by (simp add: counts_def go_on_def)
next
  case (Cons c cs n ns)
  have "counts (\<lambda>s. then_call (then_call (then_call (go_on s) c) go_on) (visit_items go_on go_on cs))
      (((0 + n) + 0) + sum_list ns)"
    by (intro counts_then_call counts_go_on Cons)
  then show ?case by (simp add: counts_def)
qed

lemma aligned_size_eq:
  assumes "n < 2 ^ 63" "align dvd n" "0 < align" "align \<le> 8"
  shows "aligned_size n align = n"
proof -
  obtain k where k: "n = align * k" using assms(2) by blast
  have "add64 n align = n + align" using assms by (simp add: add64_eq)
  moreover have "sub64 (n + align) 1 = n + align - 1" using assms by (intro sub64_eq) simp_all
  moreover have "(n + align - 1) div align = k"
  proof -
    have "n + align - 1 = (align - 1) + align * k" using k assms(3) by simp
    then show ?thesis using assms(3) by (simp only: div_mult_self2) simp
  qed
  ultimately show ?thesis using assms k by (simp add: aligned_size_def mult.commute)
qed

lemma counts_size:
  "n < 2 ^ 63 \<Longrightarrow> align dvd n \<Longrightarrow> 0 < align \<Longrightarrow> align \<le> 8 \<Longrightarrow> counts (count_size n align) n"
  by (simp add: counts_def count_size_def go_on_def aligned_size_eq)

lemma object_counts: "object_ok v \<Longrightarrow> counts (visit_object aligned_zone_size_visitor v) (memory_size v)"
proof (induction v)
  case (ARRAY xs)
  have "counts (\<lambda>s. then_call (then_call (count_size (sizeof_object * length xs) alignof_object s)
      (visit_items go_on go_on (map (visit_object aligned_zone_size_visitor) xs))) go_on)
      ((sizeof_object * length xs + sum_list (map memory_size xs)) + 0)"
  proof (intro counts_then_call counts_items counts_go_on counts_size)
    show "list_all2 counts (map (visit_object aligned_zone_size_visitor) xs) (map memory_size xs)"
      using ARRAY by (auto simp: list_all2_conv_all_nth list_all_iff)
  qed (use ARRAY.prems in \<open>auto simp: sizeof_object_def alignof_object_def\<close>)
  then show ?case
    using ARRAY.prems by (simp add: aligned_zone_size_visitor_def unat_size_of counts_def)
next
  case (MAP us)
  let ?visit = "visit_object aligned_zone_size_visitor"
  let ?pair = "\<lambda>(k, x) s. then_call (then_call (then_call (?visit k s) go_on) go_on) (?visit x)"
  have pair: "counts (?pair u) (case u of (k, x) \<Rightarrow> memory_size k + memory_size x)" if "u \<in> set us" for u
  proof -
    obtain k x where u: "u = (k, x)" by force
    have "object_ok k" "object_ok x" using MAP.prems that u by (auto simp: list_all_iff)
    then have "counts (?visit k) (memory_size k)" "counts (?visit x) (memory_size x)"
      using MAP.IH [OF that] u by auto
    then show ?thesis using counts_then_call by (simp add: u then_call_go_on)
  qed
  have "counts (\<lambda>s. then_call (then_call (count_size (sizeof_object_kv * length us) alignof_object s)
      (visit_items go_on go_on (map ?pair us))) go_on)
      ((sizeof_object_kv * length us + sum_list (map (\<lambda>(k, x). memory_size k + memory_size x) us)) + 0)"
  proof (intro counts_then_call counts_items counts_go_on counts_size)
    show "list_all2 counts (map ?pair us) (map (\<lambda>(k, x). memory_size k + memory_size x) us)"
      using pair by (auto simp: list_all2_conv_all_nth)
  qed (use MAP.prems in \<open>auto simp: sizeof_object_kv_def alignof_object_def\<close>)
  then show ?case
    using MAP.prems by (simp add: aligned_zone_size_visitor_def unat_size_of counts_def)
next
  case (EXT p)
  then have "ext_size p + 1 = size_of p" by (cases p) (simp_all add: ext_size_def size_of_def)
  with EXT show ?case
    using counts_size [of "length p" alignof_char]
    by (simp add: visit_leaf aligned_zone_size_visitor_def unat_size_of alignof_char_def)
qed (use counts_go_on counts_size [where align = alignof_char] in
    \<open>auto simp: visit_leaf aligned_zone_size_visitor_def unat_size_of alignof_char_def\<close>)

text \<open>The memory that is counted, modulo \<open>2 ^ 64\<close> as \<open>size_t\<close> is.\<close>

lemma aligned_zone_size_eq:
  "object_ok v \<Longrightarrow> aligned_zone_size v = Some (Inr (memory_size v mod 2 ^ 64))"
  using object_counts [of v] by (simp add: aligned_zone_size_def object_parser_visits counts_def add64_def)

end
