(* ===== verification/Msgpack_Clone_Deep.thy ===== *)
theory Msgpack_Clone_Deep
  imports Msgpack_Clone
begin

text \<open>
  What \<open>clone\<close> gives is a copy of the object that lies in the memory of its zone
  alone: whatever happens to other memory, the copy stays. The only failures are
  those of allocations.
\<close>

section \<open>Objects in memory\<close>

text \<open>The cells from the address \<open>a\<close> on.\<close>

definition at_cells :: "(nat \<Rightarrow> cell option) \<Rightarrow> nat \<Rightarrow> (cell \<Rightarrow> bool) list \<Rightarrow> bool" where
  "at_cells C a fs \<longleftrightarrow>
     (\<forall>i < length fs. case C (a + sizeof_object * i) of Some d \<Rightarrow> (fs ! i) d | None \<Rightarrow> False)"

definition at_bytes :: "(nat \<Rightarrow> byte option) \<Rightarrow> nat \<Rightarrow> byte list \<Rightarrow> bool" where
  "at_bytes B a p \<longleftrightarrow> (\<forall>i < length p. B (a + i) = Some (p ! i))"

fun holds :: "(nat \<Rightarrow> cell option) \<Rightarrow> (nat \<Rightarrow> byte option) \<Rightarrow> cell \<Rightarrow> object \<Rightarrow> bool" where
  "holds C B c NIL \<longleftrightarrow> c = NIL_Cell"
| "holds C B c (BOOLEAN v) \<longleftrightarrow> c = BOOLEAN_Cell v"
| "holds C B c (POSITIVE_INTEGER n) \<longleftrightarrow> c = POSITIVE_INTEGER_Cell n"
| "holds C B c (NEGATIVE_INTEGER n) \<longleftrightarrow> c = NEGATIVE_INTEGER_Cell n"
| "holds C B c (FLOAT32 f) \<longleftrightarrow> c = FLOAT32_Cell f"
| "holds C B c (FLOAT64 f) \<longleftrightarrow> c = FLOAT64_Cell f"
| "holds C B c (STR' p) \<longleftrightarrow> (case c of STR_Cell n a \<Rightarrow> n = size_of p \<and> at_bytes B a p | _ \<Rightarrow> False)"
| "holds C B c (BIN p) \<longleftrightarrow> (case c of BIN_Cell n a \<Rightarrow> n = size_of p \<and> at_bytes B a p | _ \<Rightarrow> False)"
| "holds C B c (EXT p) \<longleftrightarrow> (case c of EXT_Cell n a \<Rightarrow> n = ext_size p \<and> at_bytes B a p | _ \<Rightarrow> False)"
| "holds C B c (ARRAY xs) \<longleftrightarrow>
     (case c of
        ARRAY_Cell n a \<Rightarrow> n = size_of xs \<and> at_cells C a (map (\<lambda>x d. holds C B d x) xs)
      | _ \<Rightarrow> False)"
| "holds C B c (MAP us) \<longleftrightarrow>
     (case c of
        MAP_Cell n a \<Rightarrow> n = size_of us \<and>
          at_cells C a (concat (map (\<lambda>(k, x). [\<lambda>d. holds C B d k, \<lambda>d. holds C B d x]) us))
      | _ \<Rightarrow> False)"

text \<open>The object is there, whatever the memory outside \<open>R\<close> holds.\<close>

definition deep ::
    "nat set \<Rightarrow> (nat \<Rightarrow> cell option) \<Rightarrow> (nat \<Rightarrow> byte option) \<Rightarrow> cell \<Rightarrow> object \<Rightarrow> bool" where
  "deep R C B c x \<longleftrightarrow>
     (\<forall>C' B'. (\<forall>a \<in> R. C' a = C a \<and> B' a = B a) \<longrightarrow> holds C' B' c x)"

definition region :: "blocks \<Rightarrow> nat set" where
  "region bs = (\<Union>(a, n) \<in> set bs. {a..<a + n})"

lemma region_simps:
  "region [] = {}" "region ((a, n) # bs) = {a..<a + n} \<union> region bs"
  "region (bs @ cs) = region bs \<union> region cs"
  by (auto simp: region_def)

lemma zone_ok_disjoint:
  assumes "zone_ok (new @ used) z h"
  shows "region new \<inter> region used = {}"
proof -
  have "apart b c" if "b \<in> set new" "c \<in> set used" for b c
    using assms that by (auto simp: zone_ok_def sorted_wrt_append)
  then show ?thesis by (force simp: region_def apart_def)
qed

lemma deep_mono:
  assumes "deep R C B c x" "R \<subseteq> R'" "\<And>a. a \<in> R \<Longrightarrow> C' a = C a \<and> B' a = B a"
  shows "deep R' C' B' c x"
  unfolding deep_def
proof (intro allI impI)
  fix D E assume "\<forall>a \<in> R'. D a = C' a \<and> E a = B' a"
  then have "\<forall>a \<in> R. D a = C a \<and> E a = B a" using assms(2,3) by auto
  then show "holds D E c x" using assms(1) by (simp add: deep_def)
qed

section \<open>Callbacks that fail only when memory runs out\<close>

definition goes :: "(bool \<times> copy_state) result \<Rightarrow> (copy_state \<Rightarrow> bool) \<Rightarrow> bool" where
  "goes r P \<longleftrightarrow> (case r of Inl e \<Rightarrow> e = Throw Bad_Alloc | Inr (go, t) \<Rightarrow> go \<and> P t)"

lemma goes_then_call: "goes r P \<Longrightarrow> (\<And>t. P t \<Longrightarrow> goes (d t) Q) \<Longrightarrow> goes (then_call r d) Q"
  by (cases r) (auto simp: goes_def then_call_def)

lemma goes_mono: "goes r P \<Longrightarrow> (\<And>t. P t \<Longrightarrow> Q t) \<Longrightarrow> goes r Q"
  by (cases r) (auto simp: goes_def)

lemma goes_Inr: "goes (Inr (True, t)) P \<longleftrightarrow> P t"
  by (simp add: goes_def)

fun cell_at :: "copy_state \<Rightarrow> place \<Rightarrow> cell option" where
  "cell_at s Owz = Some (owz s)"
| "cell_at s (At a) = cells s a"

text \<open>
  \<open>changed used R s t new\<close>: from \<open>s\<close> to \<open>t\<close> the zone handed out the blocks \<open>new\<close>,
  and apart from them only cells in \<open>R\<close> were written.
\<close>

definition changed :: "blocks \<Rightarrow> nat set \<Rightarrow> copy_state \<Rightarrow> copy_state \<Rightarrow> blocks \<Rightarrow> bool" where
  "changed used R s t new \<longleftrightarrow>
     zone_ok (new @ used) (copy_zone t) (copy_blocks t) \<and>
     (\<forall>a. a \<notin> region new \<longrightarrow> bytes t a = bytes s a) \<and>
     (\<forall>a. a \<notin> region new \<longrightarrow> a \<notin> R \<longrightarrow> cells t a = cells s a)"

definition copied :: "blocks \<Rightarrow> copy_state \<Rightarrow> object \<Rightarrow> copy_state \<Rightarrow> bool" where
  "copied used s x t \<longleftrightarrow>
     parents t = parents s \<and> (dest s \<noteq> Owz \<longrightarrow> owz t = owz s) \<and>
     (\<exists>new. changed used {a. dest s = At a} s t new \<and>
        (\<exists>d. cell_at t (dest s) = Some d \<and> deep (region new) (cells t) (bytes t) d x))"

definition copies :: "malloc \<Rightarrow> object \<Rightarrow> bool" where
  "copies malloc x \<longleftrightarrow>
     (\<forall>used s. zone_ok used (copy_zone s) (copy_blocks s) \<longrightarrow> (\<forall>a. dest s = At a \<longrightarrow> a \<in> region used) \<longrightarrow>
        goes (visit_object (object_with_zone_visitor malloc) x s) (copied used s x))"

text \<open>A row of objects from the address \<open>p\<close> on.\<close>

definition row :: "nat \<Rightarrow> object list \<Rightarrow> nat set" where
  "row p xs = {p..<p + sizeof_object * length xs}"

definition filled :: "blocks \<Rightarrow> nat \<Rightarrow> object list \<Rightarrow> copy_state \<Rightarrow> copy_state \<Rightarrow> blocks \<Rightarrow> bool" where
  "filled used p xs s t new \<longleftrightarrow>
     changed used (row p xs) s t new \<and>
     (\<forall>i < length xs. \<exists>d. cells t (p + sizeof_object * i) = Some d \<and>
        deep (region new) (cells t) (bytes t) d (xs ! i))"

definition fills ::
    "copy_state callback \<Rightarrow> place list \<Rightarrow> place list \<Rightarrow> object list \<Rightarrow> nat \<Rightarrow> bool" where
  "fills c P Q xs p \<longleftrightarrow>
     (\<forall>used s. zone_ok used (copy_zone s) (copy_blocks s) \<longrightarrow> parents s = P \<longrightarrow> row p xs \<subseteq> region used \<longrightarrow>
        goes (c s) (\<lambda>t. parents t = Q \<and> owz t = owz s \<and> (\<exists>new. filled used p xs s t new)))"

lemma fillsD:
  "fills c P Q xs p \<Longrightarrow> zone_ok used (copy_zone s) (copy_blocks s) \<Longrightarrow> parents s = P \<Longrightarrow>
     row p xs \<subseteq> region used \<Longrightarrow>
     goes (c s) (\<lambda>t. parents t = Q \<and> owz t = owz s \<and> (\<exists>new. filled used p xs s t new))"
  by (simp add: fills_def)

lemma row_append: "row p (xs @ ys) = row p xs \<union> row (p + sizeof_object * length xs) ys"
  by (auto simp: row_def algebra_simps)

lemma row_nth: "i < length xs \<Longrightarrow> p + sizeof_object * i \<in> row p xs"
  by (simp add: row_def sizeof_object_def)

lemma changed_trans:
  assumes "changed used R s t new" "changed (new @ used) R' t u new'"
  shows "changed used (R \<union> R') s u (new' @ new)"
  using assms by (auto simp: changed_def region_simps)

lemma filled_append:
  assumes st: "filled used p xs s t new"
    and tu: "filled (new @ used) (p + sizeof_object * length xs) ys t u new'"
    and room: "row p (xs @ ys) \<subseteq> region used"
  shows "filled used p (xs @ ys) s u (new' @ new)"
proof -
  let ?q = "p + sizeof_object * length xs"
  have ch: "changed used (row p xs) s t new" "changed (new @ used) (row ?q ys) t u new'"
    using st tu by (simp_all add: filled_def)
  have dis: "region new \<inter> region used = {}" "region new' \<inter> (region new \<union> region used) = {}"
    using ch zone_ok_disjoint by (force simp: changed_def region_simps)+
  have keep: "cells u a = cells t a \<and> bytes u a = bytes t a" if "a \<in> region new" for a
  proof -
    have "a \<notin> region new'" "a \<notin> row ?q ys" using that dis room by (auto simp: row_append)
    then show ?thesis using ch(2) by (simp add: changed_def)
  qed
  have "\<exists>d. cells u (p + sizeof_object * i) = Some d \<and>
      deep (region (new' @ new)) (cells u) (bytes u) d ((xs @ ys) ! i)" if "i < length (xs @ ys)" for i
  proof (cases "i < length xs")
    case True
    then obtain d where d: "cells t (p + sizeof_object * i) = Some d"
        "deep (region new) (cells t) (bytes t) d (xs ! i)"
      using st by (auto simp: filled_def)
    have "p + sizeof_object * i \<in> row p xs" "p + sizeof_object * i \<notin> row ?q ys"
      using True row_nth by (auto simp: row_def sizeof_object_def)
    moreover from this have "p + sizeof_object * i \<in> region used" using room by (auto simp: row_append)
    ultimately have "cells u (p + sizeof_object * i) = Some d"
      using ch(2) dis d(1) by (auto simp: changed_def)
    moreover have "deep (region (new' @ new)) (cells u) (bytes u) d (xs ! i)"
      using d(2) by (rule deep_mono) (use keep in \<open>auto simp: region_simps\<close>)
    ultimately show ?thesis using True by (simp add: nth_append)
  next
    case False
    then have i: "p + sizeof_object * i = ?q + sizeof_object * (i - length xs)" "i - length xs < length ys"
      using that by (simp_all add: algebra_simps sizeof_object_def)
    then obtain d where "cells u (p + sizeof_object * i) = Some d"
        "deep (region new') (cells u) (bytes u) d (ys ! (i - length xs))"
      using tu by (auto simp: filled_def)
    then show ?thesis
      using False by (auto simp: nth_append region_simps intro: deep_mono)
  qed
  with changed_trans [OF ch] show ?thesis by (simp add: filled_def row_append)
qed

lemma fills_then:
  assumes "fills c P Q xs p" "fills d Q R ys (p + sizeof_object * length xs)"
  shows "fills (\<lambda>s. then_call (c s) d) P R (xs @ ys) p"
  unfolding fills_def
proof (intro allI impI)
  fix used and s :: copy_state
  assume s: "zone_ok used (copy_zone s) (copy_blocks s)" "parents s = P" "row p (xs @ ys) \<subseteq> region used"
  show "goes (then_call (c s) d)
      (\<lambda>t. parents t = R \<and> owz t = owz s \<and> (\<exists>new. filled used p (xs @ ys) s t new))"
  proof (rule goes_then_call)
    show "goes (c s) (\<lambda>t. parents t = Q \<and> owz t = owz s \<and> (\<exists>new. filled used p xs s t new))"
      using assms(1) s by (simp add: fills_def row_append)
  next
    fix t assume t: "parents t = Q \<and> owz t = owz s \<and> (\<exists>new. filled used p xs s t new)"
    then obtain new where new: "filled used p xs s t new" by blast
    have "row (p + sizeof_object * length xs) ys \<subseteq> region (new @ used)"
      using s(3) by (auto simp: row_append region_simps)
    moreover have "zone_ok (new @ used) (copy_zone t) (copy_blocks t)"
      using new by (simp add: filled_def changed_def)
    ultimately have "goes (d t) (\<lambda>u. parents u = R \<and> owz u = owz t \<and>
        (\<exists>new'. filled (new @ used) (p + sizeof_object * length xs) ys t u new'))"
      using t by (intro fillsD [OF assms(2)]) auto
    then show "goes (d t) (\<lambda>u. parents u = R \<and> owz u = owz s \<and> (\<exists>new. filled used p (xs @ ys) s u new))"
      by (rule goes_mono) (use t filled_append [OF new _ s(3)] in auto)
  qed
qed

section \<open>Items\<close>

lemma fills_one:
  assumes x: "copies malloc x"
    and d: "\<And>s. parents s = At q # ps \<Longrightarrow> d s = Inr (True, s\<lparr>parents := Q\<rparr>)"
  shows "fills (\<lambda>s. then_call (then_call (aim k s) (visit_object (object_with_zone_visitor malloc) x)) d)
    (At q # ps) Q [x] (q + k)"
  unfolding fills_def
proof (intro allI impI)
  fix used and s :: copy_state
  assume s: "zone_ok used (copy_zone s) (copy_blocks s)" "parents s = At q # ps" "row (q + k) [x] \<subseteq> region used"
  let ?s = "s\<lparr>dest := At (q + k)\<rparr>"
  have aim: "aim k s = Inr (True, ?s)" by (simp add: aim_def s(2) deref_def go_on_def)
  have "q + k \<in> region used" using s(3) by (auto simp: row_def sizeof_object_def)
  then have v: "goes (visit_object (object_with_zone_visitor malloc) x ?s) (copied used ?s x)"
    using x s by (simp add: copies_def)
  show "goes (then_call (then_call (aim k s) (visit_object (object_with_zone_visitor malloc) x)) d)
      (\<lambda>t. parents t = Q \<and> owz t = owz s \<and> (\<exists>new. filled used (q + k) [x] s t new))"
    unfolding aim then_call_True
  proof (rule goes_then_call [OF v])
    fix t assume t: "copied used ?s x t"
    then obtain new c where new: "changed used {q + k} ?s t new"
        "cells t (q + k) = Some c" "deep (region new) (cells t) (bytes t) c x"
      by (auto simp: copied_def)
    have "filled used (q + k) [x] s (t\<lparr>parents := Q\<rparr>) new"
      using new by (auto simp: filled_def changed_def row_def sizeof_object_def)
    moreover have "parents t = At q # ps" "owz t = owz s" using t s(2) by (simp_all add: copied_def)
    ultimately show "goes (d t) (\<lambda>t. parents t = Q \<and> owz t = owz s \<and> (\<exists>new. filled used (q + k) [x] s t new))"
      using d by (auto simp: goes_Inr)
  qed
qed

lemma fills_none: "fills go_on P P [] p"
proof -
  have "filled used p [] s s []" if "zone_ok used (copy_zone s) (copy_blocks s)" for used s
    using that by (simp add: filled_def changed_def)
  then show ?thesis by (auto simp: fills_def go_on_def goes_Inr)
qed

lemma step_parent_At:
  "parents s = At q # ps \<Longrightarrow> step_parent n s = Inr (True, s\<lparr>parents := At (q + n) # ps\<rparr>)"
  by (simp add: step_parent_def deref_def go_on_def)

lemma fills_array:
  assumes "list_all (copies malloc) xs"
  shows "fills (array_rest (object_with_zone_visitor malloc) xs)
    (At p # ps) (At (p + sizeof_object * length xs) # ps) xs p"
  using assms
proof (induction xs arbitrary: p)
  case Nil
  have "array_rest (object_with_zone_visitor malloc) [] = go_on"
    by (simp add: fun_eq_iff array_rest_simps go_on_def)
  then show ?case using fills_none by simp
next
  case (Cons x xs)
  let ?V = "object_with_zone_visitor malloc"
  have "fills (\<lambda>s. then_call (then_call (aim 0 s) (visit_object ?V x)) (step_parent sizeof_object))
      (At p # ps) (At (p + sizeof_object) # ps) [x] (p + 0)"
    by (rule fills_one) (use Cons.prems step_parent_At in auto)
  then have "fills (\<lambda>s. then_call (then_call (then_call (aim 0 s) (visit_object ?V x)) (step_parent sizeof_object))
        (array_rest ?V xs))
      (At p # ps) (At (p + sizeof_object + sizeof_object * length xs) # ps) ([x] @ xs) p"
    using Cons by (intro fills_then) simp_all
  moreover have "array_rest ?V (x # xs) = (\<lambda>s. then_call (then_call (then_call (aim 0 s) (visit_object ?V x))
      (step_parent sizeof_object)) (array_rest ?V xs))"
    by (simp add: fun_eq_iff array_rest_simps object_with_zone_visitor_def)
  ultimately show ?case by (simp add: algebra_simps)
qed

definition flat :: "(object \<times> object) list \<Rightarrow> object list" where
  "flat us = concat (map (\<lambda>(k, x). [k, x]) us)"

lemma length_flat: "length (flat us) = 2 * length us"
  by (induction us) (auto simp: flat_def)

lemma fills_map:
  assumes "list_all (\<lambda>(k, x). copies malloc k \<and> copies malloc x) us"
  shows "fills (map_rest (object_with_zone_visitor malloc) us)
    (At p # ps) (At (p + sizeof_object_kv * length us) # ps) (flat us) p"
  using assms
proof (induction us arbitrary: p)
  case Nil
  have "map_rest (object_with_zone_visitor malloc) [] = go_on"
    by (simp add: fun_eq_iff map_rest_simps go_on_def)
  then show ?case using fills_none by (simp add: flat_def)
next
  case (Cons u us)
  obtain k x where u: "u = (k, x)" by force
  let ?V = "object_with_zone_visitor malloc"
  let ?key = "\<lambda>s. then_call (then_call (aim 0 s) (visit_object ?V k)) go_on"
  let ?val = "\<lambda>s. then_call (then_call (aim sizeof_object s) (visit_object ?V x)) (step_parent sizeof_object_kv)"
  have kv: "sizeof_object + sizeof_object = sizeof_object_kv"
    by (simp add: sizeof_object_def sizeof_object_kv_def)
  have "fills ?key (At p # ps) (At p # ps) [k] (p + 0)"
    by (rule fills_one) (use Cons.prems u in \<open>auto simp: go_on_def\<close>)
  moreover have "fills ?val (At p # ps) (At (p + sizeof_object_kv) # ps) [x] (p + sizeof_object)"
    by (rule fills_one) (use Cons.prems u step_parent_At in auto)
  moreover have "fills (map_rest ?V us) (At (p + sizeof_object_kv) # ps)
      (At (p + sizeof_object_kv + sizeof_object_kv * length us) # ps) (flat us) (p + sizeof_object_kv)"
    by (rule Cons.IH) (use Cons.prems in simp)
  ultimately have "fills (\<lambda>s. then_call (then_call (?key s) ?val) (map_rest ?V us))
      (At p # ps) (At (p + sizeof_object_kv + sizeof_object_kv * length us) # ps) (([k] @ [x]) @ flat us) p"
    by (intro fills_then) (simp_all add: kv mult_2)
  moreover have "map_rest ?V (u # us) = (\<lambda>s. then_call (then_call (?key s) ?val) (map_rest ?V us))"
    by (simp add: fun_eq_iff map_rest_simps object_with_zone_visitor_def u then_call_assoc then_call_go_on)
  ultimately show ?case by (simp add: flat_def u algebra_simps)
qed

section \<open>Objects\<close>

lemma zone_memory_goes:
  assumes m: "malloc_ok malloc" and ok: "zone_ok used (copy_zone s) (copy_blocks s)"
    and n: "n \<le> 2 ^ 61" and k: "align = 2 ^ k" "k \<le> 60"
  shows "(case zone_memory malloc n align s of
      Inl e \<Rightarrow> e = Throw Bad_Alloc
    | Inr (p, t) \<Rightarrow> \<exists>z h. t = s\<lparr>copy_zone := z, copy_blocks := h\<rparr> \<and> zone_ok ((p, n) # used) z h)"
proof (cases "zone_allocate_align malloc n align (copy_zone s) (copy_blocks s)")
  case (Inl e)
  with zone_allocate_align_error [OF m ok k(2) n] k(1) show ?thesis by (simp add: zone_memory_def)
next
  case (Inr q)
  obtain p z h where q: "q = (p, z, h)" by (cases q)
  with Inr zone_allocate_align_ok [OF m ok k(2) n] k(1) show ?thesis by (auto simp: zone_memory_def)
qed

lemma copied_leaf:
  assumes ok: "zone_ok used (copy_zone s) (copy_blocks s)"
    and h: "\<And>C B. holds C B c x"
  shows "goes (write_dest c s) (copied used s x)"
proof -
  have "changed used {a. dest s = At a} s (set_cell (dest s) c s) []"
    using ok by (cases "dest s") (auto simp: changed_def)
  moreover have "deep (region []) C B c x" for C B using h by (simp add: deep_def)
  ultimately show ?thesis
    by (cases "dest s") (fastforce simp: write_dest_def go_on_def goes_Inr copied_def)+
qed

lemma copied_bytes:
  assumes m: "malloc_ok malloc" and ok: "zone_ok used (copy_zone s) (copy_blocks s)"
    and p: "length p < 2 ^ 32" "n = size_of p"
    and h: "\<And>C B a. at_bytes B a p \<Longrightarrow> holds C B (c a) x"
  shows "goes (copy_bytes malloc c p n s) (copied used s x)"
proof -
  have un: "unat n = length p" using p by (simp add: unat_size_of)
  have "(case zone_memory malloc (length p) alignof_char s of
      Inl e \<Rightarrow> e = Throw Bad_Alloc
    | Inr (a, t) \<Rightarrow> \<exists>z h. t = s\<lparr>copy_zone := z, copy_blocks := h\<rparr> \<and> zone_ok ((a, length p) # used) z h)"
    using zone_memory_goes [OF m ok, of "length p" alignof_char 0] p(1) by (simp add: alignof_char_def)
  then consider "zone_memory malloc (length p) alignof_char s = Inl (Throw Bad_Alloc)"
    | a z g where "zone_memory malloc (length p) alignof_char s = Inr (a, s\<lparr>copy_zone := z, copy_blocks := g\<rparr>)"
        "zone_ok ((a, length p) # used) z g"
    by (auto split: sum.splits)
  then show ?thesis
  proof cases
    case 1
    then show ?thesis by (simp add: copy_bytes_def un goes_def)
  next
    case 2
    let ?t = "s\<lparr>copy_zone := z, copy_blocks := g, bytes := memcpy_at a p (bytes s)\<rparr>"
    have run: "copy_bytes malloc c p n s = Inr (True, set_cell (dest s) (c a) ?t)"
      using 2(1) by (simp add: copy_bytes_def un bytes_at_def write_dest_def go_on_def)
    have "deep (region [(a, length p)]) C (bytes ?t) (c a) x" for C
      unfolding deep_def
    proof (intro allI impI)
      fix C' B' assume B': "\<forall>b \<in> region [(a, length p)]. C' b = C b \<and> B' b = bytes ?t b"
      have "B' (a + i) = Some (p ! i)" if "i < length p" for i
        using B' that by (simp add: region_simps memcpy_at_def)
      then show "holds C' B' (c a) x" by (intro h) (simp add: at_bytes_def)
    qed
    moreover have "changed used {b. dest s = At b} s (set_cell (dest s) (c a) ?t) [(a, length p)]"
      using 2(2) by (cases "dest s") (auto simp: changed_def region_simps memcpy_at_def)
    ultimately show ?thesis
      unfolding run goes_Inr copied_def
      by (intro conjI exI [of _ "[(a, length p)]"]; cases "dest s") simp_all
  qed
qed

lemma copied_collection:
  assumes m: "malloc_ok malloc" and ok: "zone_ok used (copy_zone s) (copy_blocks s)"
    and dest: "\<And>a. dest s = At a \<Longrightarrow> a \<in> region used"
    and n: "n = sizeof_object * length xs" "n \<le> 2 ^ 61"
    and items: "\<And>p ps. fills items (At p # ps) (At (p + n) # ps) xs p"
    and h: "\<And>C B a. at_cells C a (map (\<lambda>x d. holds C B d x) xs) \<Longrightarrow> holds C B (c a) x"
  shows "goes (then_call (then_call (copy_items malloc c n s) items) pop_parent) (copied used s x)"
proof -
  have "(case zone_memory malloc n alignof_object s of
      Inl e \<Rightarrow> e = Throw Bad_Alloc
    | Inr (a, t) \<Rightarrow> \<exists>z h. t = s\<lparr>copy_zone := z, copy_blocks := h\<rparr> \<and> zone_ok ((a, n) # used) z h)"
    using zone_memory_goes [OF m ok n(2), of alignof_object 3] by (simp add: alignof_object_def)
  then consider "zone_memory malloc n alignof_object s = Inl (Throw Bad_Alloc)"
    | p z g where "zone_memory malloc n alignof_object s = Inr (p, s\<lparr>copy_zone := z, copy_blocks := g\<rparr>)"
        "zone_ok ((p, n) # used) z g"
    by (auto split: sum.splits)
  then show ?thesis
  proof cases
    case 1
    then show ?thesis by (simp add: copy_items_def goes_def then_call_def)
  next
    case 2
    let ?t = "(set_cell (dest s) (c p) (s\<lparr>copy_zone := z, copy_blocks := g\<rparr>))\<lparr>parents := At p # parents s\<rparr>"
    have run: "copy_items malloc c n s = Inr (True, ?t)"
      using 2(1) by (cases "dest s") (simp_all add: copy_items_def write_dest_def go_on_def)
    have t: "zone_ok ((p, n) # used) (copy_zone ?t) (copy_blocks ?t)" "parents ?t = At p # parents s"
      using 2(2) by (cases "dest s"; simp)+
    have row: "row p xs = region [(p, n)]" by (simp add: row_def region_simps n(1))
    then have "row p xs \<subseteq> region ((p, n) # used)" by (simp add: region_simps)
    note filled = fillsD [OF items t this]
    show ?thesis
      unfolding run then_call_True
    proof (rule goes_then_call [OF filled])
      fix u assume "parents u = At (p + n) # parents s \<and> owz u = owz ?t \<and>
        (\<exists>new. filled ((p, n) # used) p xs ?t u new)"
      then obtain new where u: "parents u = At (p + n) # parents s" "owz u = owz ?t"
          and new: "changed ((p, n) # used) (row p xs) ?t u new"
            "\<forall>i < length xs. \<exists>d. cells u (p + sizeof_object * i) = Some d \<and>
               deep (region new) (cells u) (bytes u) d (xs ! i)"
        by (auto simp: filled_def)
      let ?new = "new @ [(p, n)]" and ?u = "u\<lparr>parents := parents s\<rparr>"
      have "changed used {a. dest s = At a} s ?u ?new"
        using new(1) row
        by (cases "dest s") (auto simp: changed_def region_simps)
      moreover have "cell_at ?u (dest s) = Some (c p)"
      proof (cases "dest s")
        case (At b)
        have "zone_ok ([(p, n)] @ used) z g" "zone_ok (new @ (p, n) # used) (copy_zone u) (copy_blocks u)"
          using 2(2) new(1) by (simp_all add: changed_def)
        from this [THEN zone_ok_disjoint]
        have "region [(p, n)] \<inter> region used = {}" "region new \<inter> region ((p, n) # used) = {}" .
        then have "b \<notin> region new" "b \<notin> row p xs"
          using dest [OF At] row by (auto simp: region_simps)
        then have "cells u b = cells ?t b" using new(1) by (simp add: changed_def)
        then show ?thesis using At by simp
      qed (simp add: u(2))
      moreover have "deep (region ?new) (cells ?u) (bytes ?u) (c p) x"
        unfolding deep_def
      proof (intro allI impI h)
        fix C' B' assume same: "\<forall>a \<in> region ?new. C' a = cells ?u a \<and> B' a = bytes ?u a"
        have "case C' (p + sizeof_object * i) of
            Some d \<Rightarrow> (map (\<lambda>x d. holds C' B' d x) xs ! i) d | None \<Rightarrow> False"
          if i: "i < length xs" for i
        proof -
          obtain d where d: "cells u (p + sizeof_object * i) = Some d"
              "deep (region new) (cells u) (bytes u) d (xs ! i)"
            using new(2) i by blast
          have "p + sizeof_object * i \<in> region ?new"
            using row_nth [OF i, of p] unfolding row by (simp add: region_simps)
          then have "C' (p + sizeof_object * i) = Some d" using same d(1) by simp
          moreover have "holds C' B' d (xs ! i)"
            using d(2) same by (auto simp: deep_def region_simps)
          ultimately show ?thesis using i by simp
        qed
        then show "at_cells C' p (map (\<lambda>x d. holds C' B' d x) xs)"
          by (simp add: at_cells_def)
      qed
      moreover have "pop_parent u = Inr (True, ?u)"
        by (simp add: pop_parent_def u(1) deref_def go_on_def)
      ultimately show "goes (pop_parent u) (copied used s x)"
        using u(2) by (cases "dest s") (auto simp: goes_Inr copied_def)
    qed
  qed
qed

lemma object_copies:
  assumes m: "malloc_ok malloc"
  shows "object_ok x \<Longrightarrow> copies malloc x"
proof (induction x)
  case (ARRAY xs)
  let ?V = "object_with_zone_visitor malloc"
  have "list_all (copies malloc) xs" using ARRAY by (auto simp: list_all_iff)
  note items = fills_array [OF this]
  have visit: "visit_object ?V (ARRAY xs) s = then_call (then_call
      (copy_items malloc (ARRAY_Cell (size_of xs)) (sizeof_object * length xs) s) (array_rest ?V xs)) pop_parent" for s
    using ARRAY.prems by (simp add: array_rest_def unat_size_of) (simp add: object_with_zone_visitor_def unat_size_of)
  show ?case
    unfolding copies_def visit
    by (intro allI impI copied_collection [OF m _ _ refl _ items])
      (use ARRAY.prems in \<open>auto simp: sizeof_object_def\<close>)
next
  case (MAP us)
  let ?V = "object_with_zone_visitor malloc"
  have "copies malloc k \<and> copies malloc x" if "(k, x) \<in> set us" for k x
    using MAP.IH [OF that] MAP.prems that by (auto simp: list_all_iff)
  then have "list_all (\<lambda>(k, x). copies malloc k \<and> copies malloc x) us" by (auto simp: list_all_iff)
  note items = fills_map [OF this]
  have size: "sizeof_object_kv * length us = sizeof_object * length (flat us)"
    by (simp add: length_flat sizeof_object_def sizeof_object_kv_def)
  have visit: "visit_object ?V (MAP us) s = then_call (then_call
      (copy_items malloc (MAP_Cell (size_of us)) (sizeof_object_kv * length us) s) (map_rest ?V us)) pop_parent" for s
    using MAP.prems by (simp add: map_rest_def unat_size_of) (simp add: object_with_zone_visitor_def unat_size_of)
  have flat: "map (\<lambda>x d. holds C B d x) (flat us) =
      concat (map (\<lambda>(k, x). [\<lambda>d. holds C B d k, \<lambda>d. holds C B d x]) us)" for C B
    by (simp add: flat_def map_concat comp_def case_prod_beta')
  show ?case
    unfolding copies_def visit
    by (intro allI impI copied_collection [OF m _ _ size _ items])
      (use MAP.prems in \<open>auto simp: sizeof_object_kv_def flat\<close>)
next
  case (STR' p)
  then show ?case
    using copied_bytes [OF m, of _ _ p "size_of p" "STR_Cell (size_of p)" "STR' p"]
    by (simp add: copies_def visit_leaf object_with_zone_visitor_def)
next
  case (BIN p)
  then show ?case
    using copied_bytes [OF m, of _ _ p "size_of p" "BIN_Cell (size_of p)" "BIN p"]
    by (simp add: copies_def visit_leaf object_with_zone_visitor_def)
next
  case (EXT p)
  then have "ext_size p + 1 = size_of p" by (cases p) (simp_all add: ext_size_def size_of_def)
  moreover from this have "size_of p - 1 = ext_size p" by (metis add_diff_cancel_right')
  ultimately show ?case
    using EXT copied_bytes [OF m, of _ _ p "size_of p" "EXT_Cell (ext_size p)" "EXT p"]
    by (simp add: copies_def visit_leaf object_with_zone_visitor_def)
qed (use copied_leaf in \<open>auto simp: copies_def visit_leaf object_with_zone_visitor_def\<close>)

text \<open>
  An object of memory size 0 has no content outside its struct, so that the
  struct alone is a deep copy.
\<close>

lemma holds_shallow:
  assumes "memory_size x = 0" "object_ok x" "holds C B c x"
  shows "deep {} C B c x"
  unfolding deep_def
proof (intro allI impI)
  fix C' B'
  show "holds C' B' c x"
    using assms
    by (cases x) (auto simp: at_bytes_def at_cells_def sizeof_object_def sizeof_object_kv_def split: cell.splits)
qed

text \<open>
  A clone fails only if memory runs out (in the constructor of the zone, which is
  \<open>noexcept\<close>, that ends the program), and is a deep copy in the memory that the
  zone handed out.
\<close>

lemma clone_deep:
  assumes m: "malloc_ok malloc" and ok: "object_ok x" and size: "memory_size x \<le> 2 ^ 62"
    and src: "holds C B src x"
  obtains e where "clone malloc src x h C B = Some (Inl e)" "e = Throw Bad_Alloc \<or> e = UB Terminated"
  | "memory_size x = 0" "clone malloc src x h C B = Some (Inr (src, None))" "deep {} C B src x"
  | c s used where "clone malloc src x h C B = Some (Inr (c, Some s))"
      "zone_ok used (copy_zone s) (copy_blocks s)" "deep (region used) (cells s) (bytes s) c x"
proof -
  have n: "aligned_zone_size x = Some (Inr (memory_size x))"
    using aligned_zone_size_eq [OF ok] size by simp
  show ?thesis
  proof (cases "memory_size x = 0")
    case True
    then show ?thesis using that(2) holds_shallow [OF True ok src] n by (simp add: clone_def)
  next
    case False
    show ?thesis
    proof (cases "malloc h sizeof_zone")
      case None
      then show ?thesis using that(1) False n by (simp add: clone_def)
    next
      case (Some p)
      show ?thesis
      proof (cases "zone_new malloc (memory_size x) ((p, sizeof_zone) # h)")
        case (Inl e)
        then have "e = UB Terminated" by (auto simp: zone_new_def split: sum.splits)
        with Inl Some False n show ?thesis using that(1) [of e] by (simp add: clone_def)
      next
        case (Inr q)
        obtain z g where q: "q = (z, g)" by force
        have z: "zone_ok [] z g" using zone_new_ok [OF m size] Inr q by simp
        let ?s = "\<lparr>copy_zone = z, copy_blocks = g, cells = C, bytes = B, owz = NIL_Cell, parents = [Owz], dest = Owz\<rparr>"
        let ?r = "visit_object (object_with_zone_visitor malloc) x ?s"
        have "goes ?r (copied [] ?s x)"
          using object_copies [OF m ok] z by (simp add: copies_def)
        moreover have "clone malloc src x h C B = Some (rbind ?r (\<lambda>(_, s). Inr (owz s, Some s)))"
          using Some False Inr q n
          by (cases ?r) (auto simp: clone_def object_with_zone_def object_parser_visits ok)
        ultimately show ?thesis
        proof (cases ?r)
          case r: (Inl e)
          with \<open>goes ?r _\<close> \<open>clone _ _ _ _ _ _ = _\<close> show ?thesis using that(1) [of e] by (simp add: goes_def)
        next
          case r: (Inr w)
          obtain go t where w: "w = (go, t)" by force
          with r \<open>goes ?r _\<close> have "copied [] ?s x t" by (simp add: goes_def)
          then obtain new where "zone_ok new (copy_zone t) (copy_blocks t)"
              "deep (region new) (cells t) (bytes t) (owz t) x"
            by (auto simp: copied_def changed_def)
          with r w \<open>clone _ _ _ _ _ _ = _\<close> show ?thesis using that(3) by simp
        qed
      qed
    qed
  qed
qed

section \<open>Examples\<close>

text \<open>A \<open>malloc\<close> that hands out the memory above what is in use, up to one megabyte.\<close>

definition bump :: malloc where
  "bump h n =
     (let p = foldr (\<lambda>(a, k) m. max m (a + k)) h 4096 in if p + n \<le> 2 ^ 20 then Some p else None)"

lemma bump_ok: "malloc_ok bump"
proof -
  have "a + k \<le> foldr (\<lambda>(a, k) m. max m (a + k)) h (4096 :: nat)" if "(a, k) \<in> set h" for a k h
    using that by (induction h) (auto simp: max_def)
  then show ?thesis by (fastforce simp: malloc_ok_def bump_def apart_def Let_def split: if_splits)
qed

lemmas clone_eval = clone_def aligned_zone_size_eq object_with_zone_def object_parser_visits
  object_with_zone_visitor_def zone_new_def chunk_list_new_def bump_def chunk_block_def add64_def sub64_def
  sizeof_zone_def sizeof_chunk_def sizeof_object_def alignof_object_def alignof_char_def
  copy_items_def copy_bytes_def zone_memory_def zone_allocate_align_def get_aligned_def Let_def
  take_from_chunk_def write_dest_def go_on_def then_call_def aim_def deref_def step_parent_def pop_parent_def
  bytes_at_def size_of_def memcpy_at_def

text \<open>
  \<open>aligned_zone_size\<close> rounds each size up, but the space before an object that
  must be aligned is not counted: after a string of one byte, an array no longer
  fits, and the zone that was made for this copy allocates a second chunk.
\<close>

lemma clone_second_chunk:
  "\<exists>s. clone bump src (ARRAY [STR' [1], ARRAY [NIL]]) [] C B = Some (Inr (ARRAY_Cell 2 4160, Some s)) \<and>
     length (chunks (m_chunk_list (copy_zone s))) = 2"
  by (simp add: clone_eval allocate_expand_def expanded_size.simps)

end
