(* ===== verification/Msgpack_Resume.thy ===== *)
theory Msgpack_Resume
  imports Msgpack_Roundtrip
begin

unbundle bit_operations_syntax

text \<open>
  The decoder can be interrupted: where the buffer ends inside an object it
  returns 0, and when it is called again, with more bytes behind those it had not
  parsed and wherever these lie now, it ends as if all bytes had been there from
  the beginning.
\<close>

section \<open>More bytes behind\<close>

text \<open>\<open>r\<close> is out of bounds, or \<open>r'\<close> is the same.\<close>

definition agree :: "'a result \<Rightarrow> 'a result \<Rightarrow> bool" where
  "agree r r' \<longleftrightarrow> r = Inl (UB Out_Of_Bounds) \<or> r' = r"

lemma agree_refl [simp]: "agree r r"
  by (simp add: agree_def)

lemma agree_rbind: "agree r r' \<Longrightarrow> agree (rbind r f) (rbind r' f)"
  by (auto simp: agree_def)

lemma agree_rbind': "agree r r' \<Longrightarrow> (\<And>x. agree (f x) (g x)) \<Longrightarrow> agree (rbind r f) (rbind r' g)"
  by (cases r) (auto simp: agree_def)

lemma agree_read:
  "agree (read_bytes d n k) (read_bytes (d @ e) n k)"
  "agree (load_fix d n) (load_fix (d @ e) n)"
  "agree (load8 d n) (load8 (d @ e) n)"
  "agree (load16 d n) (load16 (d @ e) n)"
  "agree (load32 d n) (load32 (d @ e) n)"
  "agree (load64 d n) (load64 (d @ e) n)"
proof -
  show read: "agree (read_bytes d n k) (read_bytes (d @ e) n k)" for k
    by (auto simp: agree_def read_bytes_def)
  show "agree (load_fix d n) (load_fix (d @ e) n)" "agree (load8 d n) (load8 (d @ e) n)"
    "agree (load16 d n) (load16 (d @ e) n)" "agree (load32 d n) (load32 (d @ e) n)"
    "agree (load64 d n) (load64 (d @ e) n)"
    unfolding load_fix_def load8_def load16_def load32_def load64_def
    by (intro agree_rbind read)+
qed

lemmas agree_intros = agree_rbind agree_read agree_refl

lemma agree_if: "(b \<Longrightarrow> agree r r') \<Longrightarrow> (\<not> b \<Longrightarrow> agree q q') \<Longrightarrow> agree (if b then r else q) (if b then r' else q')"
  by simp

lemma agree_header: "agree (exec_header alloc d c) (exec_header alloc (d @ e) c)"
  unfolding exec_header_def Let_def
  by (intro agree_rbind' agree_if agree_intros)

lemma agree_switch: "agree (exec_switch alloc d n c) (exec_switch alloc (d @ e) n c)"
  unfolding exec_switch_def exec_number_def exec_fixext_def exec_ext_def exec_length8_def
    exec_length16_def exec_length32_def exec_body_value_def exec_container_def
  by (intro agree_if agree_intros)

text \<open>The bytes of the value are not all there: the decoder stops at its first byte.\<close>

definition waits :: "byte list \<Rightarrow> bool \<Rightarrow> 'z unpack_context \<Rightarrow> bool" where
  "waits d fta c \<longleftrightarrow> length d - (m_current c + (if fta then 1 else 0)) < m_trail c"

definition at_value :: "bool \<Rightarrow> 'z unpack_context \<Rightarrow> 'z unpack_context" where
  "at_value fta c = (if fta then c\<lparr>m_current := m_current c + 1\<rparr> else c)"

lemma exec_value_waits:
  assumes "waits d fta c" "m_current (at_value fta c) \<le> length d"
  shows "exec_value alloc d fta c = Inr (Return 0 (m_current (at_value fta c)) (at_value fta c))"
  using assms by (auto simp: exec_value_def waits_def at_value_def Let_def)

lemma exec_value_at: "exec_value alloc d False (at_value fta c) = exec_value alloc d fta c"
  by (simp add: exec_value_def at_value_def)

lemma agree_value:
  "\<not> waits d fta c \<Longrightarrow> agree (exec_value alloc d fta c) (exec_value alloc (d @ e) fta c)"
  unfolding exec_value_def Let_def
  by (auto simp: waits_def agree_def agree_switch [unfolded agree_def])

section \<open>One pass\<close>

definition decided :: "'z exec result \<Rightarrow> bool" where
  "decided r \<longleftrightarrow> (\<forall>ret off c. r = Inr (Return ret off c) \<longrightarrow> ret \<noteq> 0)"

lemma decided_basic: "decided (Inl e)" "decided (Inr (Next f c))" "decided (Inr (Return (-1) off c))"
  by (simp_all add: decided_def)

lemma decided_rbind: "(\<And>x. decided (f x)) \<Longrightarrow> decided (rbind r f)"
  by (cases r) (simp_all add: decided_def)

lemma decided_if: "(b \<Longrightarrow> decided r) \<Longrightarrow> (\<not> b \<Longrightarrow> decided q) \<Longrightarrow> decided (if b then r else q)"
  by simp

lemma decided_push:
  "decided (Inr (push_proc x c))" "decided (push_result r c)" "decided (push_aggregate f ct n c)"
proof -
  show push: "decided (Inr (push_proc x c))" for x and c :: "'b unpack_context"
    by (auto simp: decided_def push_proc_def Let_def split: prod.splits if_splits)
  show "decided (push_result r c)"
    unfolding push_result_def by (intro decided_rbind) (simp add: push split: prod.split)
  show "decided (push_aggregate f ct n c)"
    unfolding push_aggregate_def Let_def
    by (intro decided_rbind) (auto simp: push decided_basic split: prod.split)
qed

lemmas decided_intros = decided_rbind decided_if decided_push decided_basic

lemma decided_switch: "decided (exec_switch alloc d n c)"
  unfolding exec_switch_def exec_number_def exec_fixext_def exec_ext_def exec_length8_def
    exec_length16_def exec_length32_def exec_body_value_def exec_container_def
    str_length_def bin_length_def ext_length_def Let_def
  by (intro decided_intros)

lemma decided_header: "decided (exec_header alloc d c)"
  unfolding exec_header_def Let_def by (intro decided_intros)

text \<open>
  A pass ends for want of bytes, at a value where it can be taken up again, or it
  does not depend on the bytes that follow.
\<close>

definition resumes :: "'z allocator \<Rightarrow> byte list \<Rightarrow> bool \<Rightarrow> 'z unpack_context \<Rightarrow> bool" where
  "resumes alloc d fta c \<longleftrightarrow>
     (\<exists>c'. exec_pass alloc d fta c = Inr (Return 0 (m_current c') c') \<and>
        (\<forall>e. exec_pass alloc (d @ e) fta c = exec_pass alloc (d @ e) False c')) \<or>
     decided (exec_pass alloc d fta c) \<and> (\<forall>e. exec_pass alloc (d @ e) fta c = exec_pass alloc d fta c)"

lemma not_out_of_bounds: "good_exec d m r \<Longrightarrow> agree r r' \<Longrightarrow> r' = r"
  by (auto simp: good_exec_def agree_def thrown_def)

lemma value_resumes:
  assumes alloc: "sound_allocator alloc"
    and inv: "decoder_inv d fta c" "m_current c < length d" "m_cs c \<noteq> 0"
  shows "(\<exists>c'. m_cs c' \<noteq> 0 \<and> exec_value alloc d fta c = Inr (Return 0 (m_current c') c') \<and>
        (\<forall>e. exec_value alloc (d @ e) fta c = exec_value alloc (d @ e) False c')) \<or>
     decided (exec_value alloc d fta c) \<and> (\<forall>e. exec_value alloc (d @ e) fta c = exec_value alloc d fta c)"
proof (cases "waits d fta c")
  case True
  have "m_current (at_value fta c) \<le> length d" "m_cs (at_value fta c) \<noteq> 0"
    using inv by (auto simp: at_value_def decoder_inv_def)
  with exec_value_waits [OF True] exec_value_at show ?thesis by metis
next
  case False
  have "good_exec d (remaining d fta c) (exec_value alloc d fta c)"
    by (rule exec_value_good [OF alloc inv]) simp
  then have "exec_value alloc (d @ e) fta c = exec_value alloc d fta c" for e
    using agree_value [OF False] by (rule not_out_of_bounds)
  moreover have "decided (exec_value alloc d fta c)"
    using False decided_switch by (auto simp: exec_value_def waits_def Let_def decided_basic)
  ultimately show ?thesis by blast
qed

lemma pass_resumes:
  assumes alloc: "sound_allocator alloc"
    and inv: "decoder_inv d fta c" "m_current c < length d"
  shows "resumes alloc d fta c"
proof (cases "m_cs c = 0")
  case False
  then have "exec_pass alloc b fta c = exec_value alloc b fta c"
    "m_cs c' \<noteq> 0 \<Longrightarrow> exec_pass alloc b False c' = exec_value alloc b False c'" for b c'
    by (simp_all add: exec_pass_def)
  with value_resumes [OF alloc inv False] show ?thesis unfolding resumes_def by metis
next
  case True
  have f: "\<not> fta" using inv(1) True by (simp add: decoder_inv_def)
  let ?h = "exec_header alloc d c"
  have hdr: "good_header d (2 * (length d - m_current c)) (m_current c) ?h"
    by (rule exec_header_good) (use alloc inv True f in simp_all)
  have "?h \<noteq> Inl (UB Out_Of_Bounds)"
    using hdr by (auto simp: good_header_def good_exec_def thrown_def)
  then have same: "exec_header alloc (d @ e) c = ?h" for e
    using agree_header [of alloc d c e] by (simp add: agree_def)
  show ?thesis
  proof (cases "\<exists>c'. ?h = Inr (Next True c')")
    case next_value: True
    then obtain c' where c': "?h = Inr (Next True c')" by blast
    with hdr have inv': "decoder_inv d True c'" "m_current c' = m_current c"
      by (simp_all add: good_header_def)
    then have cs: "m_cs c' \<noteq> 0" by (simp add: decoder_inv_def)
    have "exec_pass alloc (d @ e) fta c = exec_value alloc (d @ e) True c'" for e
      using True c' same by (simp add: exec_pass_def)
    moreover from this [of "[]"] have "exec_pass alloc d fta c = exec_value alloc d True c'" by simp
    moreover have "m_cs c'' \<noteq> 0 \<Longrightarrow> exec_pass alloc b False c'' = exec_value alloc b False c''" for b c''
      by (simp add: exec_pass_def)
    ultimately show ?thesis
      using value_resumes [OF alloc inv'(1) _ cs] inv(2) inv'(2) unfolding resumes_def by metis
  next
    case False
    have "m_cs c' = 0" if "?h = Inr (Next f c')" for f c'
      using hdr that False by (cases f) (auto simp: good_header_def)
    then have "exec_pass alloc (d @ e) fta c = ?h" for e
      using True same False
      by (cases ?h) (auto simp: exec_pass_def split: exec.split)
    moreover from this [of "[]"] have "exec_pass alloc d fta c = ?h" by simp
    ultimately show ?thesis unfolding resumes_def using decided_header by metis
  qed
qed

section \<open>The loop\<close>

lemma finish_loop: "m_current c \<noteq> length d \<Longrightarrow> finish alloc d (Next fta c) = exec_loop alloc d fta c"
  by (simp add: finish_def)

lemma execute_finish: "off \<le> length d \<Longrightarrow> execute alloc d off c = finish alloc d (Next False (c\<lparr>m_current := off\<rparr>))"
  by (simp add: execute_def finish_def)

lemma exec_loop_cong:
  "exec_pass alloc d f c = exec_pass alloc d f' c' \<Longrightarrow> exec_loop alloc d f c = exec_loop alloc d f' c'"
  by (subst (1 2) exec_loop.simps) simp

text \<open>
  What the loop does on \<open>d\<close> says what it does when \<open>e\<close> follows: the same if it
  came to an end, and if not, it goes on from where it was.
\<close>

definition continues ::
    "'z allocator \<Rightarrow> byte list \<Rightarrow> byte list \<Rightarrow> (int \<times> nat \<times> 'z unpack_context) result option
     \<Rightarrow> (int \<times> nat \<times> 'z unpack_context) result option \<Rightarrow> bool" where
  "continues alloc d e r r' \<longleftrightarrow>
     (case r of
        Some (Inr (ret, off, c)) \<Rightarrow>
          if ret = 0 then off = m_current c \<and> r' = finish alloc (d @ e) (Next False c) else r' = r
      | _ \<Rightarrow> r' = r)"

lemma finish_continues:
  assumes alloc: "sound_allocator alloc" and inv: "decoder_inv d fta c"
  shows "continues alloc d e (finish alloc d (Next fta c)) (finish alloc (d @ e) (Next fta c))"
  using inv
proof (induction "remaining d fta c" arbitrary: fta c rule: less_induct)
  case less
  show ?case
  proof (cases "m_current c = length d")
    case True
    then have "\<not> fta" using less.prems by (auto simp: decoder_inv_def)
    then show ?thesis using True by (simp add: finish_def continues_def)
  next
    case False
    then have lt: "m_current c < length d" using less.prems by (simp add: decoder_inv_def)
    then have loop: "finish alloc d (Next fta c) = exec_loop alloc d fta c"
      "finish alloc (d @ e) (Next fta c) = exec_loop alloc (d @ e) fta c"
      by (simp_all add: finish_loop)
    note good = exec_pass_good [OF alloc less.prems lt]
    from pass_resumes [OF alloc less.prems lt] consider
        c' where "exec_pass alloc d fta c = Inr (Return 0 (m_current c') c')"
          "\<And>e. exec_pass alloc (d @ e) fta c = exec_pass alloc (d @ e) False c'"
      | "decided (exec_pass alloc d fta c)" "\<And>e. exec_pass alloc (d @ e) fta c = exec_pass alloc d fta c"
      unfolding resumes_def by blast
    then show ?thesis
    proof cases
      case 1
      have r: "exec_loop alloc d fta c = Some (Inr (0, m_current c', c'))"
        using 1(1) by (subst exec_loop.simps) simp
      have "exec_loop alloc (d @ e) fta c = exec_loop alloc (d @ e) False c'"
        by (rule exec_loop_cong) (rule 1(2))
      moreover have "exec_loop alloc (d @ e) False c' = finish alloc (d @ e) (Next False c')"
      proof (cases "m_current c' = length (d @ e)")
        case True
        have "m_current c' \<le> length d" using good 1(1) by (simp add: good_exec_def)
        with True have "e = []" by simp
        with r True \<open>exec_loop alloc (d @ e) fta c = _\<close> show ?thesis by (simp add: finish_def)
      qed (simp add: finish_loop)
      ultimately show ?thesis unfolding loop by (simp add: continues_def r)
    next
      case 2
      show ?thesis
      proof (cases "exec_pass alloc d fta c")
        case (Inl f)
        then have "exec_loop alloc d fta c = Some (Inl f)" "exec_loop alloc (d @ e) fta c = Some (Inl f)"
          using 2(2) [of e] by (subst exec_loop.simps, simp)+
        then show ?thesis unfolding loop by (simp add: continues_def)
      next
        case (Inr x)
        show ?thesis
        proof (cases x)
          case (Return ret off c')
          then have "ret \<noteq> 0" using 2(1) Inr by (simp add: decided_def)
          moreover have "exec_loop alloc d fta c = Some (Inr (ret, off, c'))"
            "exec_loop alloc (d @ e) fta c = Some (Inr (ret, off, c'))"
            using 2(2) [of e] Inr Return by (subst exec_loop.simps, simp)+
          ultimately show ?thesis unfolding loop by (simp add: continues_def)
        next
          case (Next f c')
          then have c': "decoder_inv d f c'" "remaining d f c' < remaining d fta c"
            using good Inr by (simp_all add: good_exec_def)
          have "exec_loop alloc d fta c = finish alloc d (Next f c')"
            "exec_loop alloc (d @ e) fta c = finish alloc (d @ e) (Next f c')"
            using exec_loop_finish 2(2) [of e] Inr Next by metis+
          with less.hyps [OF c'(2,1)] show ?thesis unfolding loop by simp
        qed
      qed
    qed
  qed
qed

section \<open>The same bytes elsewhere\<close>

definition shift :: "nat \<Rightarrow> 'z unpack_context \<Rightarrow> 'z unpack_context" where
  "shift k c = c\<lparr>m_current := m_current c + k\<rparr>"

fun shift_exec :: "nat \<Rightarrow> 'z exec \<Rightarrow> 'z exec" where
  "shift_exec k (Return ret off c) = Return ret (off + k) (shift k c)"
| "shift_exec k (Next f c) = Next f (shift k c)"

abbreviation shifted :: "nat \<Rightarrow> 'z exec result \<Rightarrow> 'z exec result" where
  "shifted k \<equiv> map_sum id (shift_exec k)"

named_theorems shifting \<open>evaluation after a shift\<close>

lemma shift_fields [simp]:
  "m_current (shift k c) = m_current c + k" "m_trail (shift k c) = m_trail c"
  "m_user (shift k c) = m_user c" "m_cs (shift k c) = m_cs c" "m_stack (shift k c) = m_stack c"
  by (simp_all add: shift_def)

lemma shift_updates [shifting]:
  "(shift k c)\<lparr>m_trail := t\<rparr> = shift k (c\<lparr>m_trail := t\<rparr>)"
  "(shift k c)\<lparr>m_user := u\<rparr> = shift k (c\<lparr>m_user := u\<rparr>)"
  "(shift k c)\<lparr>m_cs := s\<rparr> = shift k (c\<lparr>m_cs := s\<rparr>)"
  "(shift k c)\<lparr>m_stack := st\<rparr> = shift k (c\<lparr>m_stack := st\<rparr>)"
  by (simp_all add: shift_def)

lemma shifted_rbind [shifting]: "shifted k (rbind r f) = rbind r (\<lambda>x. shifted k (f x))"
  by (cases r) simp_all

lemma shifted_if [shifting]: "shifted k (if b then r else q) = (if b then shifted k r else shifted k q)"
  by simp

lemma shift_read [shifting]:
  "read_bytes (j @ d) (n + length j) i = read_bytes d n i"
  "load_fix (j @ d) (n + length j) = load_fix d n"
  "load8 (j @ d) (n + length j) = load8 d n"
  "load16 (j @ d) (n + length j) = load16 d n"
  "load32 (j @ d) (n + length j) = load32 d n"
  "load64 (j @ d) (n + length j) = load64 d n"
proof -
  show read: "read_bytes (j @ d) (n + length j) i = read_bytes d n i" for i
    by (simp add: read_bytes_def)
  show "load_fix (j @ d) (n + length j) = load_fix d n" "load8 (j @ d) (n + length j) = load8 d n"
    "load16 (j @ d) (n + length j) = load16 d n" "load32 (j @ d) (n + length j) = load32 d n"
    "load64 (j @ d) (n + length j) = load64 d n"
    by (simp_all add: load_fix_def load8_def load16_def load32_def load64_def read)
qed

lemma shift_push [shifting]:
  "push_proc x (shift k c) = shift_exec k (push_proc x c)"
  "push_result r (shift k c) = shifted k (push_result r c)"
  "push_aggregate f ct n (shift k c) = shifted k (push_aggregate f ct n c)"
proof -
  show push: "push_proc x (shift k c) = shift_exec k (push_proc x c)" for x and c :: "'b unpack_context"
    by (simp add: push_proc_def Let_def shift_def split: prod.split)
  show "push_result r (shift k c) = shifted k (push_result r c)"
    by (cases r) (auto simp: push_result_def push shift_updates)
  show "push_aggregate f ct n (shift k c) = shifted k (push_aggregate f ct n c)"
    by (cases "f (m_user c) n")
      (auto simp: push_aggregate_def Let_def push shift_updates)
qed

lemma shift_length [shifting]:
  "str_length alloc n (shift k c) = shifted k (str_length alloc n c)"
  "bin_length alloc n (shift k c) = shifted k (bin_length alloc n c)"
  "ext_length alloc n (shift k c) = shifted k (ext_length alloc n c)"
  by (simp_all add: str_length_def bin_length_def ext_length_def Let_def shifting cong: if_cong)

lemma shift_header:
  "exec_header alloc (j @ d) (shift (length j) c) = shifted (length j) (exec_header alloc d c)"
  by (simp add: exec_header_def Let_def shifting cong: if_cong)

lemma shift_switch:
  "exec_switch alloc (j @ d) (n + length j) (shift (length j) c) = shifted (length j) (exec_switch alloc d n c)"
  by (simp add: exec_switch_def exec_number_def exec_fixext_def exec_ext_def exec_length8_def
    exec_length16_def exec_length32_def exec_body_value_def exec_container_def shifting cong: if_cong)

lemma shift_value:
  assumes "0 < m_trail c"
  shows "exec_value alloc (j @ d) fta (shift (length j) c) = shifted (length j) (exec_value alloc d fta c)"
proof -
  let ?c = "at_value fta c"
  have at: "at_value fta (shift (length j) c) = shift (length j) ?c"
    by (simp add: at_value_def shift_def)
  have last: "(shift (length j) ?c)\<lparr>m_current := m_current ?c + length j + m_trail ?c - 1\<rparr> =
      shift (length j) (?c\<lparr>m_current := m_current ?c + m_trail ?c - 1\<rparr>)"
    using assms by (simp add: at_value_def shift_def)
  show ?thesis
    unfolding exec_value_def Let_def at_value_def [symmetric] at
    using last shift_switch [of alloc j d "m_current ?c"] by simp
qed

lemma shift_pass:
  assumes alloc: "sound_allocator alloc" and inv: "decoder_inv d fta c" "m_current c < length d"
  shows "exec_pass alloc (j @ d) fta (shift (length j) c) = shifted (length j) (exec_pass alloc d fta c)"
proof (cases "m_cs c = 0")
  case False
  then have "0 < m_trail c" using inv(1) trail_ok_pos by (auto simp: decoder_inv_def)
  then show ?thesis using False shift_value by (simp add: exec_pass_def)
next
  case True
  have f: "\<not> fta" using inv(1) True by (simp add: decoder_inv_def)
  let ?h = "exec_header alloc d c"
  have hdr: "good_header d (2 * (length d - m_current c)) (m_current c) ?h"
    by (rule exec_header_good) (use alloc inv True f in simp_all)
  have next_value: "0 < m_trail c'" if "?h = Inr (Next f c')" "m_cs c' \<noteq> 0 \<or> f" for f c'
    using hdr that trail_ok_pos by (cases f) (auto simp: good_header_def decoder_inv_def)
  show ?thesis
  proof (cases ?h)
    case (Inl e)
    then show ?thesis using True by (simp add: exec_pass_def shift_header)
  next
    case (Inr x)
    then show ?thesis
    proof (cases x)
      case (Next f c')
      then show ?thesis
        using True Inr next_value [of f c'] shift_value [of c' alloc j d f]
        by (auto simp: exec_pass_def shift_header)
    qed (use True in \<open>simp add: exec_pass_def shift_header\<close>)
  qed
qed

definition shift_end :: "nat \<Rightarrow> (int \<times> nat \<times> 'z unpack_context) result \<Rightarrow> (int \<times> nat \<times> 'z unpack_context) result" where
  "shift_end k = map_sum id (\<lambda>(ret, off, c). (ret, off + k, shift k c))"

lemma shift_endD:
  assumes "map_option (shift_end k) r = Some (Inr (ret, off, d))"
  obtains off' d' where "r = Some (Inr (ret, off', d'))" "off = off' + k" "d = shift k d'"
proof -
  from assms obtain q where q: "r = Some q" "shift_end k q = Inr (ret, off, d)" by auto
  then show ?thesis using that by (cases q) (auto simp: shift_end_def)
qed

lemma finish_shift:
  assumes alloc: "sound_allocator alloc" and inv: "decoder_inv d fta c"
  shows "finish alloc (j @ d) (Next fta (shift (length j) c)) =
    map_option (shift_end (length j)) (finish alloc d (Next fta c))"
  using inv
proof (induction "remaining d fta c" arbitrary: fta c rule: less_induct)
  case less
  show ?case
  proof (cases "m_current c = length d")
    case True
    then show ?thesis by (simp add: finish_def shift_end_def)
  next
    case False
    then have lt: "m_current c < length d" using less.prems by (simp add: decoder_inv_def)
    then have loop: "finish alloc d (Next fta c) = exec_loop alloc d fta c"
      "finish alloc (j @ d) (Next fta (shift (length j) c)) = exec_loop alloc (j @ d) fta (shift (length j) c)"
      by (simp_all add: finish_loop)
    note good = exec_pass_good [OF alloc less.prems lt] and pass = shift_pass [OF alloc less.prems lt, of j]
    show ?thesis
    proof (cases "exec_pass alloc d fta c")
      case (Inl f)
      then have "exec_loop alloc d fta c = Some (Inl f)"
        "exec_loop alloc (j @ d) fta (shift (length j) c) = Some (Inl f)"
        using pass by (subst exec_loop.simps, simp)+
      then show ?thesis unfolding loop by (simp add: shift_end_def)
    next
      case (Inr x)
      show ?thesis
      proof (cases x)
        case (Return ret off c')
        then have "exec_loop alloc d fta c = Some (Inr (ret, off, c'))"
          "exec_loop alloc (j @ d) fta (shift (length j) c) = Some (Inr (ret, off + length j, shift (length j) c'))"
          using pass Inr by (subst exec_loop.simps, simp)+
        then show ?thesis unfolding loop by (simp add: shift_end_def)
      next
        case (Next f c')
        then have c': "decoder_inv d f c'" "remaining d f c' < remaining d fta c"
          using good Inr by (simp_all add: good_exec_def)
        have "exec_loop alloc d fta c = finish alloc d (Next f c')"
          "exec_loop alloc (j @ d) fta (shift (length j) c) = finish alloc (j @ d) (Next f (shift (length j) c'))"
          using pass Inr Next by (simp_all add: exec_loop_finish)
        with less.hyps [OF c'(2,1)] show ?thesis unfolding loop by simp
      qed
    qed
  qed
qed

section \<open>The zone does not matter\<close>

text \<open>
  While its allocator does not fail, the decoder gives the same objects whatever
  zone it has and whether it has referred to the buffer. \<open>forget z\<close> puts the zone
  \<open>z\<close> in the place of its own.
\<close>

definition forget_user :: "'z \<Rightarrow> 'z unpack_user \<Rightarrow> 'z unpack_user" where
  "forget_user z u = u\<lparr>zone := z, referenced := False\<rparr>"

definition forget :: "'z \<Rightarrow> 'z unpack_context \<Rightarrow> 'z unpack_context" where
  "forget z c = c\<lparr>m_user := forget_user z (m_user c)\<rparr>"

fun forget_exec :: "'z \<Rightarrow> 'z exec \<Rightarrow> 'z exec" where
  "forget_exec z (Return ret off c) = Return ret off (forget z c)"
| "forget_exec z (Next f c) = Next f (forget z c)"

abbreviation forgotten :: "'z \<Rightarrow> 'z exec result \<Rightarrow> 'z exec result" where
  "forgotten z \<equiv> map_sum id (forget_exec z)"

named_theorems forgetting \<open>evaluation without the zone\<close>

lemma forget_fields [simp]:
  "m_current (forget z c) = m_current c" "m_trail (forget z c) = m_trail c"
  "m_cs (forget z c) = m_cs c" "m_stack (forget z c) = m_stack c"
  "m_user (forget z c) = forget_user z (m_user c)"
  by (simp_all add: forget_def)

lemma forget_user_fields [simp]:
  "zone (forget_user z u) = z" "referenced (forget_user z u) = False"
  "reference_func (forget_user z u) = reference_func u" "limit (forget_user z u) = limit u"
  "forget_user z (forget_user y u) = forget_user z u"
  by (simp_all add: forget_user_def)

lemma forget_updates [forgetting]:
  "(forget z c)\<lparr>m_trail := t\<rparr> = forget z (c\<lparr>m_trail := t\<rparr>)"
  "(forget z c)\<lparr>m_cs := s\<rparr> = forget z (c\<lparr>m_cs := s\<rparr>)"
  "(forget z c)\<lparr>m_stack := st\<rparr> = forget z (c\<lparr>m_stack := st\<rparr>)"
  "(forget z c)\<lparr>m_current := i\<rparr> = forget z (c\<lparr>m_current := i\<rparr>)"
  by (simp_all add: forget_def)

lemma forget_update_user [forgetting]:
  "(forget y c)\<lparr>m_user := u\<rparr> = c\<lparr>m_user := u\<rparr>"
  "forget z (forget y c) = forget z c"
  by (simp_all add: forget_def)

lemma forgotten_rbind [forgetting]: "forgotten z (rbind r f) = rbind r (\<lambda>x. forgotten z (f x))"
  by (cases r) simp_all

lemma forgotten_if [forgetting]: "forgotten z (if b then r else q) = (if b then forgotten z r else forgotten z q)"
  by simp

lemma forget_push_proc [forgetting]: "push_proc x (forget z c) = forget_exec z (push_proc x c)"
  by (simp add: push_proc_def Let_def forget_def split: prod.split)

lemma forget_exec_forget [forgetting]: "forget_exec z (forget_exec y r) = forget_exec z r"
  by (cases r) (simp_all add: forgetting)

text \<open>What is read for the user, up to the user's zone.\<close>

definition forget_read :: "'z \<Rightarrow> (object \<times> 'z unpack_user) result \<Rightarrow> (object \<times> 'z unpack_user) result" where
  "forget_read z = map_sum id (\<lambda>(x, u). (x, forget_user z u))"

lemma total_allocatorD:
  "total_allocator alloc \<Longrightarrow> a \<in> {alignof_char, alignof_object} \<Longrightarrow>
     \<exists>z. allocate alloc u n a = Inr (u\<lparr>zone := z\<rparr>)"
  by (fastforce simp: total_allocator_def allocate_def)

lemma forget_reads:
  assumes "total_allocator alloc"
  shows "forget_read z (unpack_array alloc (forget_user y u) n) = forget_read z (unpack_array alloc u n)"
    and "forget_read z (unpack_map alloc (forget_user y u) n) = forget_read z (unpack_map alloc u n)"
    and "forget_read z (unpack_str alloc (forget_user y u) p) = forget_read z (unpack_str alloc u p)"
    and "forget_read z (unpack_bin alloc (forget_user y u) p) = forget_read z (unpack_bin alloc u p)"
    and "forget_read z (unpack_ext alloc (forget_user y u) p) = forget_read z (unpack_ext alloc u p)"
proof -
  have alloc: "\<exists>v. allocate alloc u n a = Inr v \<and> forget_user z v = forget_user z u"
    if "a \<in> {alignof_char, alignof_object}" for u n a
    using total_allocatorD [OF assms that, of u n] by (auto simp: forget_user_def)
  have both: "\<exists>v w. allocate alloc u n a = Inr v \<and> allocate alloc (forget_user y u) n a = Inr w \<and>
      forget_user z v = forget_user z u \<and> forget_user z w = forget_user z u"
    if "a \<in> {alignof_char, alignof_object}" for n a
    using alloc [OF that, of u n] alloc [OF that, of "forget_user y u" n] by auto
  have ref: "by_reference (forget_user y u) = by_reference u" by (simp add: by_reference_def fun_eq_iff)
  have flag: "forget_user z (v\<lparr>referenced := r\<rparr>) = forget_user z v" for v r by (simp add: forget_user_def)
  show "forget_read z (unpack_array alloc (forget_user y u) n) = forget_read z (unpack_array alloc u n)"
    using both [of alignof_object "n * sizeof_object"] by (auto simp: unpack_array_def forget_read_def)
  show "forget_read z (unpack_map alloc (forget_user y u) n) = forget_read z (unpack_map alloc u n)"
    using both [of alignof_object "n * sizeof_object_kv"] by (auto simp: unpack_map_def forget_read_def)
  show "forget_read z (unpack_str alloc (forget_user y u) p) = forget_read z (unpack_str alloc u p)"
    using both [of alignof_char "length p"]
    by (auto simp: unpack_str_def forget_read_def Let_def ref flag)
  show "forget_read z (unpack_bin alloc (forget_user y u) p) = forget_read z (unpack_bin alloc u p)"
    using both [of alignof_char "length p"]
    by (auto simp: unpack_bin_def forget_read_def Let_def ref flag)
  show "forget_read z (unpack_ext alloc (forget_user y u) p) = forget_read z (unpack_ext alloc u p)"
    using both [of alignof_char "length p"]
    by (auto simp: unpack_ext_def forget_read_def Let_def ref flag)
qed

lemma forget_push_result:
  assumes "forget_read z r = forget_read z q"
  shows "forgotten z (push_result r (forget y c)) = forgotten z (push_result q c)"
proof -
  have user: "forget_exec z (push_proc x (c\<lparr>m_user := u\<rparr>)) = push_proc x (c\<lparr>m_user := forget_user z u\<rparr>)" for x u
    using forget_push_proc [of x z "c\<lparr>m_user := u\<rparr>"] by (simp add: forget_def)
  show ?thesis
    using assms
    by (cases r; cases q) (auto simp: push_result_def forget_read_def forget_update_user user)
qed

lemma forget_push_aggregate:
  assumes "forget_read z (f (forget_user y (m_user c)) n) = forget_read z (f (m_user c) n)"
  shows "forgotten z (push_aggregate f ct n (forget y c)) = forgotten z (push_aggregate f ct n c)"
proof (cases "f (m_user c) n")
  case (Inl e)
  then obtain e' where "f (forget_user y (m_user c)) n = Inl e'" "e' = e"
    using assms by (cases "f (forget_user y (m_user c)) n") (auto simp: forget_read_def)
  then show ?thesis using Inl by (simp add: push_aggregate_def)
next
  case (Inr b)
  obtain x u where b: "b = (x, u)" by force
  obtain v where v: "f (forget_user y (m_user c)) n = Inr (x, v)" "forget_user z v = forget_user z u"
    using assms Inr b by (cases "f (forget_user y (m_user c)) n") (auto simp: forget_read_def)
  have lim: "limit v = limit u" using v(2) by (metis forget_user_fields(4))
  have user: "forget_exec z (push_proc x (c\<lparr>m_user := w, m_stack := st\<rparr>)) =
      push_proc x (c\<lparr>m_user := forget_user z w, m_stack := st\<rparr>)" for x w st
  proof -
    have "forget z (c\<lparr>m_user := w, m_stack := st\<rparr>) = c\<lparr>m_user := forget_user z w, m_stack := st\<rparr>"
      by (simp add: forget_def)
    then show ?thesis using forget_push_proc [of x z "c\<lparr>m_user := w, m_stack := st\<rparr>"] by metis
  qed
  show ?thesis
    using v lim user
    by (auto simp: push_aggregate_def Inr b Let_def forget_def)
qed

lemma forget_length:
  assumes "total_allocator alloc"
  shows "forgotten z (str_length alloc n (forget y c)) = forgotten z (str_length alloc n c)"
    and "forgotten z (bin_length alloc n (forget y c)) = forgotten z (bin_length alloc n c)"
    and "forgotten z (ext_length alloc n (forget y c)) = forgotten z (ext_length alloc n c)"
  by (simp_all add: str_length_def bin_length_def ext_length_def Let_def forgetting
      forget_push_result forget_reads [OF assms] cong: if_cong)

lemma forget_header:
  assumes "total_allocator alloc"
  shows "forgotten z (exec_header alloc d (forget y c)) = forgotten z (exec_header alloc d c)"
  by (simp add: exec_header_def Let_def forgetting forget_push_result forget_push_aggregate
      forget_reads [OF assms] cong: if_cong)

lemma forget_switch:
  assumes "total_allocator alloc"
  shows "forgotten z (exec_switch alloc d n (forget y c)) = forgotten z (exec_switch alloc d n c)"
  by (simp add: exec_switch_def exec_number_def exec_fixext_def exec_ext_def exec_length8_def
    exec_length16_def exec_length32_def exec_body_value_def exec_container_def forgetting
    forget_push_result forget_push_aggregate forget_reads [OF assms] forget_length [OF assms] cong: if_cong)

lemma forget_value:
  assumes "total_allocator alloc"
  shows "forgotten z (exec_value alloc d fta (forget y c)) = forgotten z (exec_value alloc d fta c)"
proof -
  have at: "at_value fta (forget y c) = forget y (at_value fta c)"
    by (simp add: at_value_def forget_def)
  have last: "(forget y c)\<lparr>m_current := i\<rparr> = forget y (c\<lparr>m_current := i\<rparr>)" for c :: "'a unpack_context" and i
    by (simp add: forget_def)
  show ?thesis
    unfolding exec_value_def Let_def at_value_def [symmetric] at
    by (simp add: last forget_switch [OF assms] forgetting)
qed

text \<open>Two contexts that differ in the zone only give passes that differ in the zone only.\<close>

lemma forget_value_same:
  assumes "total_allocator alloc" "forget z c = forget z c'"
  shows "forgotten z (exec_value alloc d fta c) = forgotten z (exec_value alloc d fta c')"
  using forget_value [OF assms(1), of z d fta z] assms(2) by metis

lemma forget_fields_same:
  assumes "forget z c = forget z c'"
  shows "m_current c = m_current c'" "m_cs c = m_cs c'" "m_trail c = m_trail c'" "m_stack c = m_stack c'"
    "limit (m_user c) = limit (m_user c')"
proof -
  show "m_current c = m_current c'" "m_cs c = m_cs c'" "m_trail c = m_trail c'" "m_stack c = m_stack c'"
    using assms forget_fields by metis+
  have "limit (m_user (forget z c)) = limit (m_user (forget z c'))" using assms by simp
  then show "limit (m_user c) = limit (m_user c')" by simp
qed

lemma forgotten_cases:
  assumes "forgotten z r = forgotten z q"
  obtains e where "r = Inl e" "q = Inl e"
  | ret off c c' where "r = Inr (Return ret off c)" "q = Inr (Return ret off c')" "forget z c = forget z c'"
  | f c c' where "r = Inr (Next f c)" "q = Inr (Next f c')" "forget z c = forget z c'"
proof (cases r)
  case (Inl e)
  then show ?thesis using assms that(1) by (cases q) auto
next
  case (Inr x)
  then obtain y where q: "q = Inr y" using assms by (cases q) auto
  then have "forget_exec z x = forget_exec z y" using assms Inr by simp
  then show ?thesis using that(2,3) Inr q by (cases x; cases y) auto
qed

lemma forget_pass_same:
  assumes total: "total_allocator alloc" and same: "forget z c = forget z c'"
  shows "forgotten z (exec_pass alloc d fta c) = forgotten z (exec_pass alloc d fta c')"
proof (cases "m_cs c = 0")
  case False
  then show ?thesis
    using forget_fields_same(2) [OF same] forget_value_same [OF total same] by (simp add: exec_pass_def)
next
  case True
  have "forgotten z (exec_header alloc d c) = forgotten z (exec_header alloc d c')"
    using forget_header [OF total, of z d z] same by metis
  then show ?thesis
  proof (cases rule: forgotten_cases)
    case (3 f c1 c2)
    then show ?thesis
      using True forget_fields_same(2) [OF same] forget_fields_same(2) [OF 3(3)]
        forget_value_same [OF total 3(3)] by (simp add: exec_pass_def)
  qed (use True forget_fields_same(2) [OF same] in \<open>simp_all add: exec_pass_def\<close>)
qed

definition forget_end :: "'z \<Rightarrow> (int \<times> nat \<times> 'z unpack_context) result \<Rightarrow> (int \<times> nat \<times> 'z unpack_context) result" where
  "forget_end z = map_sum id (\<lambda>(ret, off, c). (ret, off, forget z c))"

lemma forget_endD:
  assumes "map_option (forget_end z) r = map_option (forget_end z) (Some (Inr (ret, off, d)))"
  obtains d' where "r = Some (Inr (ret, off, d'))" "forget z d' = forget z d"
proof -
  from assms obtain q where q: "r = Some q" "forget_end z q = Inr (ret, off, forget z d)"
    by (auto simp: forget_end_def)
  then show ?thesis using that by (cases q) (auto simp: forget_end_def)
qed

lemma total_sound: "total_allocator alloc \<Longrightarrow> sound_allocator alloc"
  unfolding total_allocator_def sound_allocator_def by (metis Inl_Inr_False)

lemma finish_forget:
  assumes total: "total_allocator alloc" and inv: "decoder_inv d fta c" and same: "forget z c = forget z c'"
  shows "map_option (forget_end z) (finish alloc d (Next fta c)) =
    map_option (forget_end z) (finish alloc d (Next fta c'))"
  using inv same
proof (induction "remaining d fta c" arbitrary: fta c c' rule: less_induct)
  case less
  note same = forget_fields_same [OF less.prems(2)]
  show ?case
  proof (cases "m_current c = length d")
    case True
    then show ?thesis using same(1) less.prems(2) by (simp add: finish_def forget_end_def)
  next
    case False
    then have lt: "m_current c < length d" using less.prems by (simp add: decoder_inv_def)
    then have loop: "finish alloc d (Next fta c) = exec_loop alloc d fta c"
      "finish alloc d (Next fta c') = exec_loop alloc d fta c'"
      using same(1) by (simp_all add: finish_loop)
    note good = exec_pass_good [OF total_sound [OF total] less.prems(1) lt]
    from forget_pass_same [OF total less.prems(2), of d fta] show ?thesis
    proof (cases rule: forgotten_cases)
      case (1 e)
      then have "exec_loop alloc d fta c = Some (Inl e)" "exec_loop alloc d fta c' = Some (Inl e)"
        by (subst exec_loop.simps, simp)+
      then show ?thesis unfolding loop by simp
    next
      case (2 ret off c1 c2)
      then have "exec_loop alloc d fta c = Some (Inr (ret, off, c1))"
        "exec_loop alloc d fta c' = Some (Inr (ret, off, c2))"
        by (subst exec_loop.simps, simp)+
      then show ?thesis using 2(3) unfolding loop by (simp add: forget_end_def)
    next
      case (3 f c1 c2)
      then have c1: "decoder_inv d f c1" "remaining d f c1 < remaining d fta c"
        using good by (simp_all add: good_exec_def)
      have "exec_loop alloc d fta c = finish alloc d (Next f c1)"
        "exec_loop alloc d fta c' = finish alloc d (Next f c2)"
        using exec_loop_finish 3 by metis+
      with less.hyps [OF c1(2,1) 3(3)] show ?thesis unfolding loop by simp
    qed
  qed
qed

end
