(* ===== verification/Msgpack_Unpacker.thy ===== *)
theory Msgpack_Unpacker
  imports Msgpack_Unpack Msgpack_Zone
begin

text \<open>
  The streaming decoder, class \<open>unpacker\<close> of \<open>src/3rd/inc/msgpack/v1/unpack.hpp\<close>:
  a client writes what it receives into a buffer and takes objects out of it. The
  objects may refer to the buffer, so buffers have a reference count in their
  first four bytes; each zone whose objects refer to a buffer has a finalizer
  that gives the reference back.

  The zone is a parameter, with the operations that the unpacker calls. A buffer
  is its count and its bytes, those of the count included; it is found under a
  number that no other buffer ever has. After an exception the model says nothing
  of the unpacker. Moving an unpacker is left out.
\<close>

section \<open>Buffers with a count\<close>

definition COUNTER_SIZE :: nat where
  "COUNTER_SIZE = 4"

definition MSGPACK_UNPACKER_INIT_BUFFER_SIZE :: nat where
  "MSGPACK_UNPACKER_INIT_BUFFER_SIZE = 64 * 1024"

definition MSGPACK_UNPACKER_RESERVE_SIZE :: nat where
  "MSGPACK_UNPACKER_RESERVE_SIZE = 32 * 1024"

type_synonym counted_buffer = "32 word \<times> byte list"
type_synonym buffer_heap = "nat \<Rightarrow> counted_buffer option"

definition buffer_at :: "nat \<Rightarrow> buffer_heap \<Rightarrow> counted_buffer result" where
  "buffer_at b h = (case h b of None \<Rightarrow> Inl (UB Dangling_Pointer) | Some x \<Rightarrow> Inr x)"

definition incr_refs :: "nat \<Rightarrow> buffer_heap \<Rightarrow> buffer_heap result" where
  "incr_refs b h = rbind (buffer_at b h) (\<lambda>(n, bs). Inr (h(b \<mapsto> (n + 1, bs))))"

definition decr_refs :: "nat \<Rightarrow> buffer_heap \<Rightarrow> buffer_heap result" where
  "decr_refs b h =
     rbind (buffer_at b h) (\<lambda>(n, bs).
       if n - 1 = 0 then Inr (h(b := None)) else Inr (h(b \<mapsto> (n - 1, bs))))"

fun decr_all :: "nat list \<Rightarrow> buffer_heap \<Rightarrow> buffer_heap result" where
  "decr_all [] h = Inr h"
| "decr_all (b # bs) h = rbind (decr_refs b h) (decr_all bs)"

section \<open>The zone\<close>

text \<open>
  \<open>first_zone\<close> and \<open>next_zone\<close> are \<open>new zone\<close>, the second when there is one
  already. A finalizer is the number of the buffer whose count it decrements;
  \<open>zone_finalizers\<close> are those that run, in order, when the zone is cleared or
  destroyed.
\<close>

record 'z zone_operations =
  zone_alloc :: "'z allocator"
  first_zone :: "'z result"
  next_zone :: "'z \<Rightarrow> 'z result"
  push_finalizer :: "nat \<Rightarrow> 'z \<Rightarrow> 'z result"
  clear_zone :: "'z \<Rightarrow> 'z result"
  zone_finalizers :: "'z \<Rightarrow> nat list"

section \<open>The unpacker\<close>

text \<open>The zone \<open>m_z\<close> is the one that the decoder's user refers to.\<close>

record 'z unpacker =
  u_buffer :: nat
  u_used :: nat
  u_free :: nat
  u_off :: nat
  u_parsed :: nat
  u_initial :: nat
  u_ctx :: "'z unpack_context"
  u_heap :: buffer_heap
  u_next :: nat

definition the_zone :: "'z unpacker \<Rightarrow> 'z" where
  "the_zone u = zone (m_user (u_ctx u))"

definition set_zone :: "'z \<Rightarrow> 'z unpacker \<Rightarrow> 'z unpacker" where
  "set_zone z u = u\<lparr>u_ctx := (u_ctx u)\<lparr>m_user := (m_user (u_ctx u))\<lparr>zone := z\<rparr>\<rparr>\<rparr>"

definition is_referenced :: "'z unpacker \<Rightarrow> bool" where
  "is_referenced u = referenced (m_user (u_ctx u))"

definition set_referenced :: "bool \<Rightarrow> 'z unpacker \<Rightarrow> 'z unpacker" where
  "set_referenced r u = u\<lparr>u_ctx := (u_ctx u)\<lparr>m_user := (m_user (u_ctx u))\<lparr>referenced := r\<rparr>\<rparr>\<rparr>"

text \<open>\<open>malloc\<close> gives a block of at most \<open>avail\<close> bytes; zeros stand for what it holds.\<close>

definition unpacker_new ::
    "'z zone_operations \<Rightarrow> nat \<Rightarrow> (object_type \<Rightarrow> nat \<Rightarrow> bool) option \<Rightarrow> unpack_limit \<Rightarrow> nat
     \<Rightarrow> 'z unpacker result" where
  "unpacker_new Z avail f lim initial_buffer_size =
     rbind (first_zone Z) (\<lambda>z.
       let initial = (if initial_buffer_size < COUNTER_SIZE then COUNTER_SIZE else initial_buffer_size) in
       if avail < initial then Inl (Throw Bad_Alloc)
       else
         Inr (set_referenced False
           \<lparr>u_buffer = 0, u_used = COUNTER_SIZE, u_free = initial - COUNTER_SIZE, u_off = COUNTER_SIZE,
            u_parsed = 0, u_initial = initial, u_ctx = context_init (context_new f lim z),
            u_heap = [0 \<mapsto> (1, replicate initial 0)], u_next = 1\<rparr>))"

section \<open>Room in the buffer\<close>

definition rewind_buffer :: "'z unpacker \<Rightarrow> 'z unpacker" where
  "rewind_buffer u =
     u\<lparr>u_free := add64 (u_free u) (sub64 (u_used u) COUNTER_SIZE), u_used := COUNTER_SIZE,
       u_off := COUNTER_SIZE\<rparr>"

text \<open>The branch with \<open>realloc\<close>: the block may move, so the model gives it a new number.\<close>

definition grow_buffer :: "nat \<Rightarrow> nat \<Rightarrow> 'z unpacker \<Rightarrow> 'z unpacker result" where
  "grow_buffer avail n u =
     (let next_size = expanded_size (add64 n (u_used u)) (add64 (u_used u) (u_free u) * 2 mod 2 ^ 64) in
      rbind (buffer_at (u_buffer u) (u_heap u)) (\<lambda>(c, bs).
        if avail < next_size then Inl (Throw Bad_Alloc)
        else
          Inr (u\<lparr>u_heap := (u_heap u)(u_buffer u := None, u_next u \<mapsto> (c, realloc bs next_size)),
                 u_buffer := u_next u, u_next := u_next u + 1,
                 u_free := sub64 next_size (u_used u)\<rparr>)))"

text \<open>The branch with \<open>malloc\<close>: what was not parsed moves to a new buffer.\<close>

definition replace_buffer :: "'z zone_operations \<Rightarrow> nat \<Rightarrow> nat \<Rightarrow> 'z unpacker \<Rightarrow> 'z unpacker result" where
  "replace_buffer Z avail n u =
     (let not_parsed = sub64 (u_used u) (u_off u);
          next_size = expanded_size (add64 (add64 n not_parsed) COUNTER_SIZE) (u_initial u) in
      if avail < next_size then Inl (Throw Bad_Alloc)
      else
        rbind (buffer_at (u_buffer u) (u_heap u)) (\<lambda>(_, bs).
        rbind (bytes_at (drop (u_off u) bs) not_parsed) (\<lambda>p.
        rbind (memcpy (replicate next_size 0) COUNTER_SIZE p) (\<lambda>tmp.
        let h = (u_heap u)(u_next u \<mapsto> (1, tmp)) in
        rbind (if is_referenced u then
                 rbind (push_finalizer Z (u_buffer u) (the_zone u))
                   (\<lambda>z. Inr (set_referenced False (set_zone z (u\<lparr>u_heap := h\<rparr>))))
               else rbind (decr_refs (u_buffer u) h) (\<lambda>h. Inr (u\<lparr>u_heap := h\<rparr>)))
          (\<lambda>u. Inr (u\<lparr>u_buffer := u_next u, u_next := u_next u + 1,
                     u_used := add64 not_parsed COUNTER_SIZE,
                     u_free := sub64 next_size (add64 not_parsed COUNTER_SIZE),
                     u_off := COUNTER_SIZE\<rparr>))))))"

definition unpacker_expand_buffer :: "'z zone_operations \<Rightarrow> nat \<Rightarrow> nat \<Rightarrow> 'z unpacker \<Rightarrow> 'z unpacker result" where
  "unpacker_expand_buffer Z avail n u =
     rbind (buffer_at (u_buffer u) (u_heap u)) (\<lambda>(c, _).
       let rewind = (u_used u = u_off u \<and> c = 1 \<and> \<not> is_referenced u);
           u = (if rewind then rewind_buffer u else u) in
       if rewind \<and> n \<le> u_free u then Inr u
       else if u_off u = COUNTER_SIZE then grow_buffer avail n u
       else replace_buffer Z avail n u)"

definition reserve_buffer :: "'z zone_operations \<Rightarrow> nat \<Rightarrow> nat \<Rightarrow> 'z unpacker \<Rightarrow> 'z unpacker result" where
  "reserve_buffer Z avail n u = (if n \<le> u_free u then Inr u else unpacker_expand_buffer Z avail n u)"

definition buffer_capacity :: "'z unpacker \<Rightarrow> nat" where
  "buffer_capacity u = u_free u"

text \<open>What the client does with the pointer \<open>buffer()\<close>: it copies bytes to it.\<close>

definition copy_to_buffer :: "byte list \<Rightarrow> 'z unpacker \<Rightarrow> 'z unpacker result" where
  "copy_to_buffer p u =
     rbind (buffer_at (u_buffer u) (u_heap u)) (\<lambda>(c, bs).
     rbind (memcpy bs (u_used u) p) (\<lambda>bs.
       Inr (u\<lparr>u_heap := (u_heap u)(u_buffer u \<mapsto> (c, bs))\<rparr>)))"

definition buffer_consumed :: "nat \<Rightarrow> 'z unpacker \<Rightarrow> 'z unpacker" where
  "buffer_consumed n u = u\<lparr>u_used := add64 (u_used u) n, u_free := sub64 (u_free u) n\<rparr>"

section \<open>Objects\<close>

definition execute_imp :: "'z zone_operations \<Rightarrow> 'z unpacker \<Rightarrow> (int \<times> 'z unpacker) result option" where
  "execute_imp Z u =
     (case buffer_at (u_buffer u) (u_heap u) of
        Inl e \<Rightarrow> Some (Inl e)
      | Inr (_, bs) \<Rightarrow>
          (case bytes_at bs (u_used u) of
             Inl e \<Rightarrow> Some (Inl e)
           | Inr data \<Rightarrow>
               map_option (\<lambda>r. rbind r (\<lambda>(ret, off, c).
                   Inr (ret, u\<lparr>u_ctx := c, u_off := off,
                     u_parsed := (if u_off u < off then add64 (u_parsed u) (sub64 off (u_off u))
                                  else u_parsed u)\<rparr>)))
                 (execute (zone_alloc Z) data (u_off u) (u_ctx u))))"

definition unpacker_data :: "'z unpacker \<Rightarrow> object" where
  "unpacker_data u = context_data (u_ctx u)"

text \<open>\<open>flush_zone\<close>: an exception of the finalizer array is caught.\<close>

definition flush_zone :: "'z zone_operations \<Rightarrow> 'z unpacker \<Rightarrow> (bool \<times> 'z unpacker) result" where
  "flush_zone Z u =
     (if is_referenced u then
        (case push_finalizer Z (u_buffer u) (the_zone u) of
           Inl (Throw _) \<Rightarrow> Inr (False, u)
         | Inl (UB b) \<Rightarrow> Inl (UB b)
         | Inr z \<Rightarrow>
             rbind (incr_refs (u_buffer u) (u_heap u)) (\<lambda>h.
               Inr (True, set_referenced False (set_zone z (u\<lparr>u_heap := h\<rparr>)))))
      else Inr (True, u))"

text \<open>The zone that is given away, or a null pointer.\<close>

definition release_zone :: "'z zone_operations \<Rightarrow> 'z unpacker \<Rightarrow> ('z option \<times> 'z unpacker) result" where
  "release_zone Z u =
     rbind (flush_zone Z u) (\<lambda>(ok, u).
       if \<not> ok then Inr (None, u)
       else rbind (next_zone Z (the_zone u)) (\<lambda>r. Inr (Some (the_zone u), set_zone r u)))"

definition reset_zone :: "'z zone_operations \<Rightarrow> 'z unpacker \<Rightarrow> 'z unpacker result" where
  "reset_zone Z u =
     rbind (decr_all (zone_finalizers Z (the_zone u)) (u_heap u)) (\<lambda>h.
     rbind (clear_zone Z (the_zone u)) (\<lambda>z. Inr (set_zone z (u\<lparr>u_heap := h\<rparr>))))"

definition unpacker_reset :: "'z unpacker \<Rightarrow> 'z unpacker" where
  "unpacker_reset u = u\<lparr>u_ctx := context_init (u_ctx u), u_parsed := 0\<rparr>"

text \<open>The handle that \<open>next\<close> fills: the object, its zone, and whether it refers to the buffer.\<close>

type_synonym 'z handle = "object \<times> 'z option \<times> bool"

definition next_object :: "'z zone_operations \<Rightarrow> 'z unpacker \<Rightarrow> ('z handle option \<times> 'z unpacker) result option" where
  "next_object Z u =
     map_option (\<lambda>r. rbind r (\<lambda>(ret, u).
       if ret < 0 then Inl (Throw Parse_Error)
       else if ret = 0 then Inr (None, u)
       else
         let refd = is_referenced u in
         rbind (release_zone Z u) (\<lambda>(z, u).
           Inr (Some (unpacker_data u, z, refd), unpacker_reset u))))
       (execute_imp Z u)"

definition unpacker_execute :: "'z zone_operations \<Rightarrow> 'z unpacker \<Rightarrow> (bool \<times> 'z unpacker) result option" where
  "unpacker_execute Z u =
     map_option (\<lambda>r. rbind r (\<lambda>(ret, u).
       if ret < 0 then Inl (Throw Parse_Error) else Inr (ret \<noteq> 0, u)))
       (execute_imp Z u)"

section \<open>Sizes, and the end\<close>

definition message_size :: "'z unpacker \<Rightarrow> nat" where
  "message_size u = add64 (sub64 (u_parsed u) (u_off u)) (u_used u)"

definition parsed_size :: "'z unpacker \<Rightarrow> nat" where
  "parsed_size u = u_parsed u"

definition nonparsed_size :: "'z unpacker \<Rightarrow> nat" where
  "nonparsed_size u = sub64 (u_used u) (u_off u)"

definition skip_nonparsed_buffer :: "nat \<Rightarrow> 'z unpacker \<Rightarrow> 'z unpacker" where
  "skip_nonparsed_buffer n u = u\<lparr>u_off := add64 (u_off u) n\<rparr>"

definition remove_nonparsed_buffer :: "'z unpacker \<Rightarrow> 'z unpacker" where
  "remove_nonparsed_buffer u = u\<lparr>u_used := u_off u\<rparr>"

text \<open>The destructor of a handle's zone, and that of the unpacker with its zone.\<close>

definition destroy_zone :: "'z zone_operations \<Rightarrow> 'z \<Rightarrow> 'z unpacker \<Rightarrow> 'z unpacker result" where
  "destroy_zone Z z u = rbind (decr_all (zone_finalizers Z z) (u_heap u)) (\<lambda>h. Inr (u\<lparr>u_heap := h\<rparr>))"

definition unpacker_destroy :: "'z zone_operations \<Rightarrow> 'z unpacker \<Rightarrow> buffer_heap result" where
  "unpacker_destroy Z u =
     rbind (decr_refs (u_buffer u) (u_heap u)) (decr_all (zone_finalizers Z (the_zone u)))"

section \<open>A client\<close>

text \<open>
  A client as the documentation has it: room for what was received, the bytes
  into the buffer, then objects until \<open>next\<close> says there are no more; at most
  \<open>fuel\<close> of them are taken.
\<close>

fun take_objects ::
    "'z zone_operations \<Rightarrow> nat \<Rightarrow> 'z unpacker \<Rightarrow> ('z handle list \<times> 'z unpacker) result option" where
  "take_objects Z 0 u = Some (Inr ([], u))"
| "take_objects Z (Suc fuel) u =
     (case next_object Z u of
        None \<Rightarrow> None
      | Some (Inl e) \<Rightarrow> Some (Inl e)
      | Some (Inr (None, u)) \<Rightarrow> Some (Inr ([], u))
      | Some (Inr (Some x, u)) \<Rightarrow>
          map_option (\<lambda>r. rbind r (\<lambda>(xs, u). Inr (x # xs, u))) (take_objects Z fuel u))"

definition receive ::
    "'z zone_operations \<Rightarrow> nat \<Rightarrow> byte list \<Rightarrow> 'z unpacker \<Rightarrow> ('z handle list \<times> 'z unpacker) result option" where
  "receive Z avail p u =
     (case rbind (reserve_buffer Z avail (length p) u) (\<lambda>u.
           rbind (copy_to_buffer p u) (\<lambda>u. Inr (buffer_consumed (length p) u))) of
        Inl e \<Rightarrow> Some (Inl e)
      | Inr u \<Rightarrow> take_objects Z (nonparsed_size u + 1) u)"

fun receive_all ::
    "'z zone_operations \<Rightarrow> nat \<Rightarrow> byte list list \<Rightarrow> 'z unpacker \<Rightarrow> ('z handle list \<times> 'z unpacker) result option" where
  "receive_all Z avail [] u = Some (Inr ([], u))"
| "receive_all Z avail (p # ps) u =
     (case receive Z avail p u of
        None \<Rightarrow> None
      | Some (Inl e) \<Rightarrow> Some (Inl e)
      | Some (Inr (xs, u)) \<Rightarrow>
          map_option (\<lambda>r. rbind r (\<lambda>(ys, u). Inr (xs @ ys, u))) (receive_all Z avail ps u))"

end
