(* ===== verification/Msgpack_Unpacker_Correct.thy ===== *)
theory Msgpack_Unpacker_Correct
  imports Msgpack_Resume Msgpack_Unpacker Msgpack_Zone_Safe
begin

text \<open>
  The streaming decoder gives the objects that were packed, however their bytes
  are cut into the pieces that arrive.
\<close>

section \<open>Waiting for an object\<close>

text \<open>\<open>c\<close> awaits \<open>s\<close>: with these bytes, whatever follows them, it has decoded \<open>x\<close>.\<close>

definition awaits ::
    "'z allocator \<Rightarrow> unpack_limit \<Rightarrow> 'z unpack_context \<Rightarrow> byte list \<Rightarrow> object \<Rightarrow> bool" where
  "awaits alloc lim c s x \<longleftrightarrow>
     (\<forall>t. \<exists>c'. finish alloc (s @ t) (Next False (c\<lparr>m_current := 0\<rparr>)) = Some (Inr (1, length s, c')) \<and>
        context_data c' = x \<and> m_stack c' \<noteq> [] \<and> limit (m_user c') = lim)"

definition context_ok :: "'z unpack_context \<Rightarrow> bool" where
  "context_ok c \<longleftrightarrow> m_stack c \<noteq> [] \<and> (m_cs c \<noteq> 0 \<longrightarrow> trail_ok (m_cs c) (m_trail c))"

lemma context_ok_inv: "decoder_inv d False (c\<lparr>m_current := i\<rparr>) \<longleftrightarrow> i \<le> length d \<and> context_ok c"
  by (auto simp: decoder_inv_def context_ok_def)

lemma context_ok_current: "context_ok (c\<lparr>m_current := i\<rparr>) = context_ok c"
  by (simp add: context_ok_def)

lemma awaits_current: "awaits alloc lim (c\<lparr>m_current := i\<rparr>) = awaits alloc lim c"
  by (simp add: awaits_def fun_eq_iff)

lemma context_data_shift: "context_data (shift k c) = context_data c"
  by (simp add: context_data_def)

lemma finish_at:
  assumes "sound_allocator alloc" "context_ok c"
  shows "finish alloc (j @ d) (Next False (c\<lparr>m_current := length j\<rparr>)) =
    map_option (shift_end (length j)) (finish alloc d (Next False (c\<lparr>m_current := 0\<rparr>)))"
proof -
  have "decoder_inv d False (c\<lparr>m_current := 0\<rparr>)" using assms(2) by (simp add: context_ok_inv)
  from finish_shift [OF assms(1) this, of j] show ?thesis by (simp add: shift_def)
qed

lemma finish_good:
  assumes "sound_allocator alloc" "context_ok c"
  shows "\<exists>r. finish alloc d (Next False (c\<lparr>m_current := 0\<rparr>)) = Some r \<and> good_end d r"
  using execute_ends [OF assms(1), of 0 d c] assms(2) by (simp add: execute_finish context_ok_def)

text \<open>Where some of the bytes are missing, the decoder stops, and awaits those it has not parsed.\<close>

lemma awaits_step:
  assumes alloc: "sound_allocator alloc" and c: "context_ok c"
    and s: "awaits alloc lim c (p @ s) x" "s \<noteq> []"
  shows "\<exists>c'. finish alloc p (Next False (c\<lparr>m_current := 0\<rparr>)) = Some (Inr (0, m_current c', c')) \<and>
    m_current c' \<le> length p \<and> context_ok c' \<and> awaits alloc lim c' (drop (m_current c') p @ s) x"
proof -
  let ?c = "c\<lparr>m_current := 0\<rparr>"
  have inv: "decoder_inv p False ?c" using c by (simp add: context_ok_inv)
  obtain r where r: "finish alloc p (Next False ?c) = Some r" "good_end p r"
    using finish_good [OF alloc c] by blast
  have all: "continues alloc p (s @ t) (Some r) (finish alloc (p @ s @ t) (Next False ?c))" for t
    using finish_continues [OF alloc inv, of "s @ t"] r(1) by simp
  have whole: "\<exists>d. finish alloc (p @ s @ t) (Next False ?c) = Some (Inr (1, length (p @ s), d)) \<and>
      context_data d = x \<and> m_stack d \<noteq> [] \<and> limit (m_user d) = lim" for t
    using s(1) by (simp add: awaits_def)
  have "\<exists>c'. r = Inr (0, m_current c', c')"
  proof (cases r)
    case (Inl e)
    then show ?thesis using all [of "[]"] whole [of "[]"] by (simp add: continues_def)
  next
    case (Inr a)
    obtain ret off c' where a: "a = (ret, off, c')" by (metis prod_cases3)
    have "off \<le> length p" "off = m_current c'" using r(2) Inr a by (simp_all add: good_end_def)
    moreover have "ret = 0"
    proof (rule ccontr)
      assume "ret \<noteq> 0"
      then have "off = length (p @ s)"
        using all [of "[]"] whole [of "[]"] Inr a by (auto simp: continues_def)
      then show False using \<open>off \<le> length p\<close> s(2) by simp
    qed
    ultimately show ?thesis using Inr a by blast
  qed
  then obtain c' where c': "r = Inr (0, m_current c', c')" by blast
  then have le: "m_current c' \<le> length p" and ok: "context_ok c'"
    using r(2) by (auto simp: good_end_def decoder_inv_def context_ok_def)
  let ?i = "m_current c'"
  have "awaits alloc lim c' (drop ?i p @ s) x"
    unfolding awaits_def
  proof
    fix t
    have split: "p @ s @ t = take ?i p @ (drop ?i p @ s) @ t" by simp
    have len: "length (take ?i p) = ?i" using le by simp
    obtain d where d: "finish alloc (p @ s @ t) (Next False ?c) = Some (Inr (1, length (p @ s), d))"
        "context_data d = x" "m_stack d \<noteq> []" "limit (m_user d) = lim"
      using whole by blast
    have "finish alloc (p @ s @ t) (Next False c') = Some (Inr (1, length (p @ s), d))"
      using all [of t] c' d(1) by (simp add: continues_def)
    moreover have "finish alloc (p @ s @ t) (Next False c') = map_option (shift_end ?i)
        (finish alloc ((drop ?i p @ s) @ t) (Next False (c'\<lparr>m_current := 0\<rparr>)))"
      using finish_at [OF alloc ok, of "take ?i p" "(drop ?i p @ s) @ t"] unfolding split len by simp
    ultimately have "map_option (shift_end ?i) (finish alloc ((drop ?i p @ s) @ t)
        (Next False (c'\<lparr>m_current := 0\<rparr>))) = Some (Inr (1, length (p @ s), d))" by metis
    then obtain off d' where d': "finish alloc ((drop ?i p @ s) @ t) (Next False (c'\<lparr>m_current := 0\<rparr>)) =
        Some (Inr (1, off, d'))" "length (p @ s) = off + ?i" "d = shift ?i d'"
      by (rule shift_endD)
    moreover from this(2) le have "off = length (drop ?i p @ s)" by simp
    ultimately show "\<exists>d. finish alloc ((drop ?i p @ s) @ t) (Next False (c'\<lparr>m_current := 0\<rparr>)) =
        Some (Inr (1, length (drop ?i p @ s), d)) \<and> context_data d = x \<and> m_stack d \<noteq> [] \<and> limit (m_user d) = lim"
      using d(2-4) by (auto simp: context_data_shift)
  qed
  with r(1) c' le ok show ?thesis by blast
qed

text \<open>The zone may be replaced meanwhile.\<close>

lemma awaits_forget:
  assumes total: "total_allocator alloc" and c: "context_ok c" and s: "awaits alloc lim c s x"
    and same: "forget z (c\<lparr>m_current := 0\<rparr>) = forget z (c'\<lparr>m_current := 0\<rparr>)"
  shows "awaits alloc lim c' s x"
  unfolding awaits_def
proof
  fix t
  obtain d where d: "finish alloc (s @ t) (Next False (c\<lparr>m_current := 0\<rparr>)) = Some (Inr (1, length s, d))"
      "context_data d = x" "m_stack d \<noteq> []" "limit (m_user d) = lim"
    using s by (auto simp: awaits_def)
  have "decoder_inv (s @ t) False (c\<lparr>m_current := 0\<rparr>)" using c by (simp add: context_ok_inv)
  from finish_forget [OF total this same, symmetric, unfolded d(1)]
  obtain d' where d': "finish alloc (s @ t) (Next False (c'\<lparr>m_current := 0\<rparr>)) = Some (Inr (1, length s, d'))"
      "forget z d' = forget z d"
    by (rule forget_endD)
  with d(2-4) forget_fields_same [OF d'(2)]
  show "\<exists>d. finish alloc (s @ t) (Next False (c'\<lparr>m_current := 0\<rparr>)) = Some (Inr (1, length s, d)) \<and>
      context_data d = x \<and> m_stack d \<noteq> [] \<and> limit (m_user d) = lim"
    by (auto simp: context_data_def)
qed

text \<open>At the start of an object the decoder awaits its encoding.\<close>

definition fresh :: "unpack_limit \<Rightarrow> 'z unpack_context \<Rightarrow> bool" where
  "fresh lim c \<longleftrightarrow> m_cs c = 0 \<and> length (m_stack c) = 1 \<and> limit (m_user c) = lim"

lemma awaits_enc:
  assumes x: "object_ok x" "fits lim 1 x" and total: "total_allocator alloc" and c: "fresh lim c"
  shows "awaits alloc lim c (enc x) x"
  unfolding awaits_def
proof
  fix t
  let ?c = "c\<lparr>m_current := 0\<rparr>" and ?data = "enc x @ t"
  have at: "stands ?data ?c (enc x)" using c by (auto simp: stands_def fresh_def)
  have "decodes alloc ?data x (length (m_stack ?c)) (limit (m_user ?c))"
    using object_decodes [OF x(1) total x(2), of ?data] c by (simp add: fresh_def)
  from decodesD [OF this at] obtain d fr where
    d: "exec_loop alloc ?data False ?c = finish alloc ?data (push_proc x d)" "m_stack d = fr # tl (m_stack c)"
      "m_current d + 1 = length (enc x)" "same_rules ?c d" by auto
  have "tl (m_stack c) = []" using c by (cases "m_stack c") (auto simp: fresh_def)
  then have "push_proc x d = Return 1 (m_current d + 1)
      (d\<lparr>m_stack := set_bottom x [fr], m_current := m_current d + 1\<rparr>)"
    using d(2) by (simp add: push_proc_def Let_def)
  moreover have "finish alloc ?data (Next False ?c) = exec_loop alloc ?data False ?c"
    using enc_nonempty [of x] by (simp add: finish_def)
  ultimately show "\<exists>d. finish alloc ?data (Next False ?c) = Some (Inr (1, length (enc x), d)) \<and>
      context_data d = x \<and> m_stack d \<noteq> [] \<and> limit (m_user d) = lim"
    using d c by (auto simp: finish_def context_data_def set_bottom_def same_rules_def fresh_def)
qed

lemma fresh_ok: "fresh lim c \<Longrightarrow> context_ok c"
  by (auto simp: fresh_def context_ok_def)

lemma fresh_init: "m_stack c \<noteq> [] \<Longrightarrow> limit (m_user c) = lim \<Longrightarrow> fresh lim (context_init c)"
  by (simp add: fresh_def context_init_def)

section \<open>The buffer\<close>

text \<open>No operation on the zone fails.\<close>

definition zone_total :: "'z zone_operations \<Rightarrow> bool" where
  "zone_total Z \<longleftrightarrow>
     total_allocator (zone_alloc Z) \<and> (\<exists>z. first_zone Z = Inr z) \<and>
     (\<forall>z. \<exists>z'. next_zone Z z = Inr z') \<and> (\<forall>b z. \<exists>z'. push_finalizer Z b z = Inr z')"

definition unpacker_ok :: "nat \<Rightarrow> 'z unpacker \<Rightarrow> bool" where
  "unpacker_ok avail u \<longleftrightarrow>
     (\<exists>c bs. u_heap u (u_buffer u) = Some (c, bs) \<and> u_used u + u_free u = length bs \<and> length bs \<le> avail) \<and>
     COUNTER_SIZE \<le> u_off u \<and> u_off u \<le> u_used u \<and> u_initial u \<le> avail \<and>
     u_buffer u < u_next u \<and> (\<forall>b \<ge> u_next u. u_heap u b = None)"

definition nonparsed :: "'z unpacker \<Rightarrow> byte list" where
  "nonparsed u = (case u_heap u (u_buffer u) of Some (_, bs) \<Rightarrow> drop (u_off u) (take (u_used u) bs) | None \<Rightarrow> [])"

lemma nonparsed_keeps [simp]:
  "nonparsed (set_zone z u) = nonparsed u" "nonparsed (set_referenced r u) = nonparsed u"
  "nonparsed (unpacker_reset u) = nonparsed u"
  by (simp_all add: nonparsed_def set_zone_def set_referenced_def unpacker_reset_def split: option.split)

lemma unpacker_okE:
  assumes "unpacker_ok avail u"
  obtains c bs where "u_heap u (u_buffer u) = Some (c, bs)" "u_used u + u_free u = length bs" "length bs \<le> avail"
    "COUNTER_SIZE \<le> u_off u" "u_off u \<le> u_used u" "nonparsed u = drop (u_off u) (take (u_used u) bs)"
    "length (nonparsed u) = u_used u - u_off u"
  using assms by (auto simp: unpacker_ok_def nonparsed_def)

lemma expanded_size_le:
  "need \<le> 2 ^ 62 \<Longrightarrow> nsize \<le> 2 ^ 63 \<Longrightarrow> expanded_size need nsize \<le> max nsize (2 * need)"
proof (induction need nsize rule: expanded_size.induct)
  case (1 need nsize)
  show ?case
  proof (cases "nsize < need")
    case True
    then have "nsize * 2 mod 2 ^ 64 = nsize * 2" "nsize * 2 \<le> 2 ^ 63" using "1.prems" by simp_all
    then show ?thesis
      using 1 True by (subst expanded_size.simps) (auto simp: Let_def max_def split: if_splits)
  qed (subst expanded_size.simps, simp)
qed

text \<open>What making room keeps: the bytes not parsed, and the decoder but for its zone.\<close>

definition same_stream :: "'z unpacker \<Rightarrow> 'z unpacker \<Rightarrow> bool" where
  "same_stream u v \<longleftrightarrow>
     nonparsed v = nonparsed u \<and> u_initial v = u_initial u \<and>
     (\<forall>z. forget z (u_ctx v) = forget z (u_ctx u))"

lemma same_stream_trans: "same_stream u v \<Longrightarrow> same_stream v w \<Longrightarrow> same_stream u w"
  by (simp add: same_stream_def)

definition roomy :: "nat \<Rightarrow> 'z unpacker \<Rightarrow> nat \<Rightarrow> bool" where
  "roomy avail u n \<longleftrightarrow> 2 * (length (nonparsed u) + n + COUNTER_SIZE) \<le> avail \<and> avail \<le> 2 ^ 62"

lemma rewind_ok:
  assumes "unpacker_ok avail u" "u_used u = u_off u" "avail \<le> 2 ^ 62"
  shows "unpacker_ok avail (rewind_buffer u) \<and> same_stream u (rewind_buffer u)"
proof -
  from assms(1) obtain c bs where u: "u_heap u (u_buffer u) = Some (c, bs)"
      "u_used u + u_free u = length bs" "length bs \<le> avail" "COUNTER_SIZE \<le> u_off u" "u_off u \<le> u_used u"
    by (rule unpacker_okE)
  have "sub64 (u_used u) COUNTER_SIZE = u_used u - COUNTER_SIZE"
    using u assms by (intro sub64_eq) auto
  moreover from this have "add64 (u_free u) (u_used u - COUNTER_SIZE) = u_free u + (u_used u - COUNTER_SIZE)"
    using u assms by (intro add64_eq) auto
  ultimately show ?thesis
    using assms u by (auto simp: unpacker_ok_def rewind_buffer_def same_stream_def nonparsed_def)
qed

lemma grow_ok:
  assumes u: "unpacker_ok avail u" "u_off u = COUNTER_SIZE" "u_free u < n" and room: "roomy avail u n"
  shows "\<exists>v. grow_buffer avail n u = Inr v \<and> unpacker_ok avail v \<and> same_stream u v \<and> n \<le> u_free v"
proof -
  from u(1) obtain c bs where b: "u_heap u (u_buffer u) = Some (c, bs)"
      "u_used u + u_free u = length bs" "length bs \<le> avail" "COUNTER_SIZE \<le> u_off u" "u_off u \<le> u_used u"
      "nonparsed u = drop (u_off u) (take (u_used u) bs)" "length (nonparsed u) = u_used u - u_off u"
    by (rule unpacker_okE)
  have need: "2 * (n + u_used u) \<le> avail" "avail \<le> 2 ^ 62"
    using room b(5,7) u(2) by (simp_all add: roomy_def)
  let ?next = "expanded_size (n + u_used u) (length bs * 2)"
  have start: "add64 n (u_used u) = n + u_used u" "add64 (u_used u) (u_free u) * 2 mod 2 ^ 64 = length bs * 2"
    using need b(2,3) by (simp_all add: add64_eq)
  have "?next \<le> max (length bs * 2) (2 * (n + u_used u))"
    using need b(3) by (intro expanded_size_le) simp_all
  then have next_le: "?next \<le> avail" using need u(3) b(2) by simp
  have next_ge: "n + u_used u \<le> ?next" by (rule expanded_size_enough)
  have len: "length bs \<le> ?next" using next_ge b(2) u(3) by simp
  have free: "sub64 ?next (u_used u) = ?next - u_used u"
    using next_ge next_le need by (intro sub64_eq) simp_all
  let ?v = "u\<lparr>u_heap := (u_heap u)(u_buffer u := None, u_next u \<mapsto> (c, realloc bs ?next)),
      u_buffer := u_next u, u_next := u_next u + 1, u_free := ?next - u_used u\<rparr>"
  have "grow_buffer avail n u = Inr ?v"
    unfolding grow_buffer_def start Let_def free using b(1) next_le by (simp add: buffer_at_def)
  moreover have "length (realloc bs ?next) = ?next" "take (u_used u) (realloc bs ?next) = take (u_used u) bs"
    using len b(2) by (simp_all add: realloc_def)
  then have "unpacker_ok avail ?v" "same_stream u ?v"
    using u(1,2) b next_le next_ge
    by (auto simp: unpacker_ok_def same_stream_def nonparsed_def)
  ultimately show ?thesis using next_ge by auto
qed

lemma replace_ok:
  assumes u: "unpacker_ok avail u" and room: "roomy avail u n" and Z: "zone_total Z"
  shows "\<exists>v. replace_buffer Z avail n u = Inr v \<and> unpacker_ok avail v \<and> same_stream u v \<and> n \<le> u_free v"
proof -
  from u obtain c bs where b: "u_heap u (u_buffer u) = Some (c, bs)"
      "u_used u + u_free u = length bs" "length bs \<le> avail" "COUNTER_SIZE \<le> u_off u" "u_off u \<le> u_used u"
      "nonparsed u = drop (u_off u) (take (u_used u) bs)" "length (nonparsed u) = u_used u - u_off u"
    by (rule unpacker_okE)
  let ?np = "u_used u - u_off u"
  have need: "2 * (n + ?np + COUNTER_SIZE) \<le> avail" "avail \<le> 2 ^ 62"
    using room b(7) by (simp_all add: roomy_def)
  let ?next = "expanded_size (n + ?np + COUNTER_SIZE) (u_initial u)"
  have sizes: "sub64 (u_used u) (u_off u) = ?np" "add64 n ?np = n + ?np"
    "add64 (n + ?np) COUNTER_SIZE = n + ?np + COUNTER_SIZE" "add64 ?np COUNTER_SIZE = ?np + COUNTER_SIZE"
    using need b(2,3,5) by (simp_all add: add64_eq sub64_eq)
  have init: "u_initial u \<le> avail" using u by (simp add: unpacker_ok_def)
  have "?next \<le> max (u_initial u) (2 * (n + ?np + COUNTER_SIZE))"
    using need init by (intro expanded_size_le) simp_all
  then have next_le: "?next \<le> avail" using need init by simp
  have next_ge: "n + ?np + COUNTER_SIZE \<le> ?next" by (rule expanded_size_enough)
  have free: "sub64 ?next (?np + COUNTER_SIZE) = ?next - (?np + COUNTER_SIZE)"
    using next_ge next_le need by (intro sub64_eq) simp_all
  have bytes: "bytes_at (drop (u_off u) bs) ?np = Inr (nonparsed u)"
    using b by (simp add: bytes_at_def take_drop)
  define tmp where "tmp = take COUNTER_SIZE (replicate ?next 0) @ nonparsed u @
      drop (COUNTER_SIZE + length (nonparsed u)) (replicate ?next 0)"
  have tmp: "memcpy (replicate ?next 0) COUNTER_SIZE (nonparsed u) = Inr tmp" "length tmp = ?next"
      "drop COUNTER_SIZE (take (?np + COUNTER_SIZE) tmp) = nonparsed u"
    using next_ge b(7) by (simp_all add: memcpy_def tmp_def)
  let ?h = "(u_heap u)(u_next u \<mapsto> (1, tmp))"
  have other: "u_buffer u < u_next u" "\<forall>b \<ge> u_next u. u_heap u b = None"
    using u by (simp_all add: unpacker_ok_def)
  obtain w where w: "(if is_referenced u then
        rbind (push_finalizer Z (u_buffer u) (the_zone u)) (\<lambda>z. Inr (set_referenced False (set_zone z (u\<lparr>u_heap := ?h\<rparr>))))
      else rbind (decr_refs (u_buffer u) ?h) (\<lambda>h. Inr (u\<lparr>u_heap := h\<rparr>))) = Inr w"
      "u_heap w (u_next u) = Some (1, tmp)" "\<forall>b > u_next u. u_heap w b = None" "u_next w = u_next u"
      "u_initial w = u_initial u" "\<forall>z. forget z (u_ctx w) = forget z (u_ctx u)"
  proof (cases "is_referenced u")
    case True
    obtain z where "push_finalizer Z (u_buffer u) (the_zone u) = Inr z"
      using Z unfolding zone_total_def by blast
    then show ?thesis
      using True other that [of "set_referenced False (set_zone z (u\<lparr>u_heap := ?h\<rparr>))"]
      by (simp add: set_referenced_def set_zone_def forget_def forget_user_def)
  next
    case False
    obtain h where h: "decr_refs (u_buffer u) ?h = Inr h" "h (u_next u) = Some (1, tmp)" "\<forall>b > u_next u. h b = None"
      using b(1) other by (cases "c = 1") (auto simp: decr_refs_def buffer_at_def)
    then show ?thesis using False that [of "u\<lparr>u_heap := h\<rparr>"] by simp
  qed
  let ?v = "w\<lparr>u_buffer := u_next u, u_next := u_next u + 1, u_used := ?np + COUNTER_SIZE,
      u_free := ?next - (?np + COUNTER_SIZE), u_off := COUNTER_SIZE\<rparr>"
  have "replace_buffer Z avail n u = Inr ?v"
    using next_le w(1,4) b(1)
    by (simp add: replace_buffer_def Let_def sizes buffer_at_def bytes tmp(1) free)
  moreover have "unpacker_ok avail ?v"
    using w tmp next_ge next_le init by (auto simp: unpacker_ok_def)
  moreover have "same_stream u ?v"
    using w tmp by (simp add: same_stream_def) (simp add: nonparsed_def)
  ultimately show ?thesis using next_ge by auto
qed

lemma reserve_ok:
  assumes u: "unpacker_ok avail u" and room: "roomy avail u n" and Z: "zone_total Z"
  shows "\<exists>v. reserve_buffer Z avail n u = Inr v \<and> unpacker_ok avail v \<and> same_stream u v \<and> n \<le> u_free v"
proof (cases "n \<le> u_free u")
  case True
  then show ?thesis using u by (simp add: reserve_buffer_def same_stream_def)
next
  case False
  from u obtain c bs where b: "u_heap u (u_buffer u) = Some (c, bs)"
    by (rule unpacker_okE)
  define rewind where "rewind = (u_used u = u_off u \<and> c = 1 \<and> \<not> is_referenced u)"
  define w where "w = (if rewind then rewind_buffer u else u)"
  have w: "unpacker_ok avail w" "same_stream u w"
    using rewind_ok [OF u] u room by (auto simp: w_def rewind_def roomy_def same_stream_def)
  have roomw: "roomy avail w n" using room w(2) by (simp add: roomy_def same_stream_def)
  have expand: "reserve_buffer Z avail n u =
      (if rewind \<and> n \<le> u_free w then Inr w
       else if u_off w = COUNTER_SIZE then grow_buffer avail n w else replace_buffer Z avail n w)"
    using False b by (simp add: reserve_buffer_def unpacker_expand_buffer_def buffer_at_def Let_def rewind_def w_def)
  consider "n \<le> u_free w" "rewind" | "u_free w < n" "u_off w = COUNTER_SIZE" | "\<not> (rewind \<and> n \<le> u_free w)" "u_off w \<noteq> COUNTER_SIZE"
    | "n \<le> u_free w" "\<not> rewind"
    by fastforce
  then show ?thesis
  proof cases
    case 1
    then show ?thesis using w expand by auto
  next
    case 2
    from grow_ok [OF w(1) 2(2,1) roomw] w(2) show ?thesis
      using expand 2 by (auto intro: same_stream_trans)
  next
    case 3
    from replace_ok [OF w(1) roomw Z] w(2) show ?thesis
      using expand 3 by (auto intro: same_stream_trans)
  next
    case 4
    then show ?thesis using False by (simp add: w_def)
  qed
qed

lemma copy_ok:
  assumes u: "unpacker_ok avail u" and p: "length p \<le> u_free u" and avail: "avail \<le> 2 ^ 62"
  shows "\<exists>v. copy_to_buffer p u = Inr v \<and> unpacker_ok avail (buffer_consumed (length p) v) \<and>
    nonparsed (buffer_consumed (length p) v) = nonparsed u @ p \<and>
    u_ctx (buffer_consumed (length p) v) = u_ctx u \<and>
    u_initial (buffer_consumed (length p) v) = u_initial u"
proof -
  from u obtain c bs where b: "u_heap u (u_buffer u) = Some (c, bs)"
      "u_used u + u_free u = length bs" "length bs \<le> avail" "COUNTER_SIZE \<le> u_off u" "u_off u \<le> u_used u"
      "nonparsed u = drop (u_off u) (take (u_used u) bs)"
    by (rule unpacker_okE)
  let ?bs = "take (u_used u) bs @ p @ drop (u_used u + length p) bs"
  let ?v = "u\<lparr>u_heap := (u_heap u)(u_buffer u \<mapsto> (c, ?bs))\<rparr>"
  have run: "copy_to_buffer p u = Inr ?v"
    using b p by (simp add: copy_to_buffer_def buffer_at_def memcpy_def)
  have sizes: "add64 (u_used u) (length p) = u_used u + length p" "sub64 (u_free u) (length p) = u_free u - length p"
    using b p avail by (simp_all add: add64_eq sub64_eq)
  have "length ?bs = length bs" using b(2) p by simp
  moreover have "drop (u_off u) (take (u_used u + length p) ?bs) = nonparsed u @ p"
    using b by simp
  ultimately show ?thesis
    using u b p run by (auto simp: buffer_consumed_def sizes unpacker_ok_def nonparsed_def)
qed

section \<open>The stream\<close>

text \<open>
  \<open>expects u R xs\<close>: with the bytes \<open>R\<close> that will still arrive, the unpacker has
  the objects \<open>xs\<close> to give.
\<close>

definition expects ::
    "'z zone_operations \<Rightarrow> unpack_limit \<Rightarrow> 'z unpacker \<Rightarrow> byte list \<Rightarrow> object list \<Rightarrow> bool" where
  "expects Z lim u R xs \<longleftrightarrow>
     context_ok (u_ctx u) \<and>
     (case xs of
        [] \<Rightarrow> nonparsed u @ R = [] \<and> fresh lim (u_ctx u)
      | x # ys \<Rightarrow> \<exists>s. s \<noteq> [] \<and> awaits (zone_alloc Z) lim (u_ctx u) s x \<and>
          nonparsed u @ R = s @ concat (map enc ys))"

lemma expects_fresh:
  assumes Z: "zone_total Z" and xs: "\<forall>x \<in> set xs. object_ok x \<and> fits lim 1 x"
    and u: "fresh lim (u_ctx u)" "nonparsed u @ R = concat (map enc xs)"
  shows "expects Z lim u R xs"
proof (cases xs)
  case (Cons x ys)
  have "awaits (zone_alloc Z) lim (u_ctx u) (enc x) x"
    using awaits_enc [OF _ _ _ u(1)] xs Z Cons by (simp add: zone_total_def)
  then show ?thesis using u Cons enc_nonempty [of x] fresh_ok [OF u(1)] by (auto simp: expects_def)
qed (use u fresh_ok in \<open>auto simp: expects_def\<close>)

lemma forget_stack:
  "(\<forall>z. forget z c = forget z d) \<Longrightarrow> context_ok c = context_ok d \<and> fresh lim c = fresh lim d"
  using forget_fields_same [where c = c and c' = d] by (simp add: context_ok_def fresh_def)

lemma expects_same:
  assumes Z: "zone_total Z" and u: "expects Z lim u R xs" and v: "same_stream u v"
  shows "expects Z lim v R xs"
proof -
  have same: "forget z ((u_ctx u)\<lparr>m_current := 0\<rparr>) = forget z ((u_ctx v)\<lparr>m_current := 0\<rparr>)" for z
    using v forget_updates(4) [where i = 0] by (metis same_stream_def)
  have ok: "context_ok (u_ctx v) = context_ok (u_ctx u)" "fresh lim (u_ctx v) = fresh lim (u_ctx u)"
    using forget_stack [of "u_ctx v" "u_ctx u"] v by (auto simp: same_stream_def)
  have "awaits (zone_alloc Z) lim (u_ctx v) s x" if "awaits (zone_alloc Z) lim (u_ctx u) s x" for s x
    using awaits_forget [OF _ _ that same] Z u by (simp add: zone_total_def expects_def)
  then show ?thesis
    using u v ok by (auto simp: expects_def same_stream_def split: list.splits)
qed

lemma expects_received:
  "expects Z lim u (p @ R) xs \<Longrightarrow> nonparsed v = nonparsed u @ p \<Longrightarrow> u_ctx v = u_ctx u \<Longrightarrow> expects Z lim v R xs"
  by (simp add: expects_def split: list.splits)

section \<open>The next object\<close>

lemma release_ok:
  assumes Z: "zone_total Z" and u: "unpacker_ok avail u"
  shows "\<exists>z v. release_zone Z u = Inr (Some z, v) \<and> unpacker_ok avail v \<and> same_stream u v"
proof -
  have "\<exists>v. flush_zone Z u = Inr (True, v) \<and> unpacker_ok avail v \<and> same_stream u v"
  proof (cases "is_referenced u")
    case True
    obtain z where z: "push_finalizer Z (u_buffer u) (the_zone u) = Inr z"
      using Z unfolding zone_total_def by blast
    from u obtain c bs where b: "u_heap u (u_buffer u) = Some (c, bs)" by (rule unpacker_okE)
    let ?v = "set_referenced False (set_zone z (u\<lparr>u_heap := (u_heap u)(u_buffer u \<mapsto> (c + 1, bs))\<rparr>))"
    have "flush_zone Z u = Inr (True, ?v)"
      using True z b by (simp add: flush_zone_def incr_refs_def buffer_at_def)
    moreover have "unpacker_ok avail ?v" "same_stream u ?v"
      using u b by (auto simp: unpacker_ok_def set_referenced_def set_zone_def same_stream_def nonparsed_def
          forget_def forget_user_def)
    ultimately show ?thesis by blast
  qed (use u in \<open>simp add: flush_zone_def same_stream_def\<close>)
  then obtain v where v: "flush_zone Z u = Inr (True, v)" "unpacker_ok avail v" "same_stream u v" by blast
  obtain r where r: "next_zone Z (the_zone v) = Inr r" using Z unfolding zone_total_def by blast
  have "unpacker_ok avail (set_zone r v)" "same_stream v (set_zone r v)"
    using v(2) by (simp_all add: unpacker_ok_def same_stream_def)
      (simp_all add: set_zone_def forget_def forget_user_def)
  then show ?thesis
    using v r by (auto simp: release_zone_def intro: same_stream_trans)
qed

text \<open>A call of the decoder, on what was not parsed.\<close>

lemma execute_imp_eq:
  assumes Z: "zone_total Z" and u: "unpacker_ok avail u" and c: "context_ok (u_ctx u)"
    and run: "finish (zone_alloc Z) (nonparsed u) (Next False ((u_ctx u)\<lparr>m_current := 0\<rparr>)) = Some (Inr (ret, i, c'))"
    and i: "i \<le> length (nonparsed u)"
  shows "\<exists>v. execute_imp Z u = Some (Inr (ret, v)) \<and> unpacker_ok avail v \<and>
    nonparsed v = drop i (nonparsed u) \<and> u_ctx v = shift (u_off u) c' \<and> u_initial v = u_initial u"
proof -
  from u obtain n bs where b: "u_heap u (u_buffer u) = Some (n, bs)"
      "u_used u + u_free u = length bs" "length bs \<le> avail" "COUNTER_SIZE \<le> u_off u" "u_off u \<le> u_used u"
      "nonparsed u = drop (u_off u) (take (u_used u) bs)" "length (nonparsed u) = u_used u - u_off u"
    by (rule unpacker_okE)
  define j where "j = take (u_off u) bs"
  have data: "take (u_used u) bs = j @ nonparsed u" "length j = u_off u"
    using b by (simp_all add: j_def min_def drop_take) (metis append_take_drop_id le_add_diff_inverse take_add)
  have "execute (zone_alloc Z) (take (u_used u) bs) (u_off u) (u_ctx u) =
      map_option (shift_end (u_off u)) (finish (zone_alloc Z) (nonparsed u) (Next False ((u_ctx u)\<lparr>m_current := 0\<rparr>)))"
    using finish_at [OF total_sound c, of "zone_alloc Z" j "nonparsed u"] Z
    by (simp add: execute_finish data zone_total_def)
  then have exec: "execute (zone_alloc Z) (take (u_used u) bs) (u_off u) (u_ctx u) =
      Some (Inr (ret, i + u_off u, shift (u_off u) c'))"
    using run by (simp add: shift_end_def)
  let ?v = "u\<lparr>u_ctx := shift (u_off u) c', u_off := i + u_off u,
      u_parsed := (if u_off u < i + u_off u then add64 (u_parsed u) (sub64 (i + u_off u) (u_off u)) else u_parsed u)\<rparr>"
  have "execute_imp Z u = Some (Inr (ret, ?v))"
    using b exec by (simp add: execute_imp_def buffer_at_def bytes_at_def)
  moreover have "unpacker_ok avail ?v" using u i b(5,7) by (auto simp: unpacker_ok_def)
  moreover have "nonparsed ?v = drop i (nonparsed u)"
    using b(1,6) by (simp add: nonparsed_def)
  ultimately show ?thesis by auto
qed

lemma shift_awaits:
  "awaits alloc lim (shift k c) = awaits alloc lim c" "context_ok (shift k c) = context_ok c"
  "fresh lim (shift k c) = fresh lim c"
  by (simp_all add: shift_def awaits_current context_ok_current) (simp add: fresh_def)

text \<open>What \<open>next\<close> gives is the first of the objects that are expected, if its bytes have arrived.\<close>

definition next_result ::
    "'z zone_operations \<Rightarrow> unpack_limit \<Rightarrow> nat \<Rightarrow> 'z unpacker \<Rightarrow> byte list \<Rightarrow> object list
     \<Rightarrow> 'z handle option \<Rightarrow> 'z unpacker \<Rightarrow> bool" where
  "next_result Z lim avail u R xs r v \<longleftrightarrow>
     unpacker_ok avail v \<and> u_initial v = u_initial u \<and>
     (case r of
        None \<Rightarrow> expects Z lim v R xs \<and> (R = [] \<longrightarrow> xs = []) \<and> length (nonparsed v) \<le> length (nonparsed u)
      | Some (x, _) \<Rightarrow> (\<exists>ys. xs = x # ys \<and> expects Z lim v R ys) \<and> length (nonparsed v) < length (nonparsed u))"

lemma next_waits:
  assumes Z: "zone_total Z" and u: "unpacker_ok avail u" and c: "context_ok (u_ctx u)"
    and s: "awaits (zone_alloc Z) lim (u_ctx u) (nonparsed u @ s) x" "s \<noteq> []" "R = s @ concat (map enc ys)"
  shows "\<exists>v. next_object Z u = Some (Inr (None, v)) \<and> next_result Z lim avail u R (x # ys) None v"
proof -
  have sound: "sound_allocator (zone_alloc Z)" using Z total_sound by (auto simp: zone_total_def)
  obtain c' where c': "finish (zone_alloc Z) (nonparsed u) (Next False ((u_ctx u)\<lparr>m_current := 0\<rparr>)) =
        Some (Inr (0, m_current c', c'))" "m_current c' \<le> length (nonparsed u)" "context_ok c'"
      "awaits (zone_alloc Z) lim c' (drop (m_current c') (nonparsed u) @ s) x"
    using awaits_step [OF sound c s(1,2)] by blast
  from execute_imp_eq [OF Z u c c'(1,2)] obtain v where
    v: "execute_imp Z u = Some (Inr (0, v))" "unpacker_ok avail v"
      "nonparsed v = drop (m_current c') (nonparsed u)" "u_ctx v = shift (u_off u) c'" "u_initial v = u_initial u"
    by blast
  have "expects Z lim v R (x # ys)"
    unfolding expects_def list.case
    by (intro conjI exI [of _ "drop (m_current c') (nonparsed u) @ s"])
      (use v c' s in \<open>simp_all add: shift_awaits\<close>)
  then show ?thesis using v s by (auto simp: next_object_def next_result_def)
qed

lemma next_gives:
  assumes Z: "zone_total Z" and u: "unpacker_ok avail u" and c: "context_ok (u_ctx u)"
    and s: "awaits (zone_alloc Z) lim (u_ctx u) s x" "s \<noteq> []" "nonparsed u = s @ t"
    and ys: "t @ R = concat (map enc ys)" "\<forall>y \<in> set ys. object_ok y \<and> fits lim 1 y"
  shows "\<exists>z v. next_object Z u = Some (Inr (Some (x, z), v)) \<and> next_result Z lim avail u R (x # ys) (Some (x, z)) v"
proof -
  obtain c' where c': "finish (zone_alloc Z) (nonparsed u) (Next False ((u_ctx u)\<lparr>m_current := 0\<rparr>)) =
        Some (Inr (1, length s, c'))" "context_data c' = x" "m_stack c' \<noteq> []" "limit (m_user c') = lim"
    using s by (auto simp: awaits_def)
  from execute_imp_eq [OF Z u c c'(1)] s(3) obtain v where
    v: "execute_imp Z u = Some (Inr (1, v))" "unpacker_ok avail v" "nonparsed v = t"
      "u_ctx v = shift (u_off u) c'" "u_initial v = u_initial u"
    by auto
  from release_ok [OF Z v(2)] obtain z w where
    w: "release_zone Z v = Inr (Some z, w)" "unpacker_ok avail w" "same_stream v w" by blast
  have same: "m_stack (u_ctx w) = m_stack c'" "limit (m_user (u_ctx w)) = limit (m_user c')"
    using w(3) forget_fields_same [where c = "u_ctx w" and c' = "u_ctx v"] v(4)
    by (auto simp: same_stream_def)
  let ?w = "unpacker_reset w"
  have "fresh lim (u_ctx ?w)" using c' same by (simp add: unpacker_reset_def fresh_init)
  moreover have np: "nonparsed ?w = t"
    using w(3) v(3) by (simp add: same_stream_def)
  ultimately have "expects Z lim ?w R ys" by (intro expects_fresh [OF Z ys(2)]) (use ys(1) in simp_all)
  moreover have "unpacker_ok avail ?w" "u_initial ?w = u_initial u"
    using w v by (simp_all add: unpacker_reset_def unpacker_ok_def same_stream_def)
  ultimately have "next_result Z lim avail u R (x # ys) (Some (x, Some z, is_referenced v)) ?w"
    using np s by (simp add: next_result_def)
  moreover have "next_object Z u = Some (Inr (Some (x, Some z, is_referenced v), ?w))"
    using v w same c'(2) by (simp add: next_object_def Let_def unpacker_data_def context_data_def)
  ultimately show ?thesis by blast
qed

lemma next_ok:
  assumes Z: "zone_total Z" and u: "unpacker_ok avail u" and e: "expects Z lim u R xs"
    and xs: "\<forall>x \<in> set xs. object_ok x \<and> fits lim 1 x"
  shows "\<exists>r v. next_object Z u = Some (Inr (r, v)) \<and> next_result Z lim avail u R xs r v"
proof (cases xs)
  case Nil
  then have np: "nonparsed u = []" and c: "context_ok (u_ctx u)" and f: "fresh lim (u_ctx u)"
    using e by (simp_all add: expects_def)
  have "finish (zone_alloc Z) (nonparsed u) (Next False ((u_ctx u)\<lparr>m_current := 0\<rparr>)) =
      Some (Inr (0, 0, (u_ctx u)\<lparr>m_current := 0\<rparr>))" by (simp add: np finish_def)
  from execute_imp_eq [OF Z u c this] obtain v where
    v: "execute_imp Z u = Some (Inr (0, v))" "unpacker_ok avail v" "nonparsed v = []"
      "u_ctx v = shift (u_off u) ((u_ctx u)\<lparr>m_current := 0\<rparr>)" "u_initial v = u_initial u"
    by (auto simp: np)
  have "expects Z lim v R xs"
    using e v c f Nil np by (simp add: expects_def shift_awaits context_ok_current) (simp add: fresh_def)
  then show ?thesis using v Nil by (auto simp: next_object_def next_result_def)
next
  case (Cons x ys)
  then obtain s where c: "context_ok (u_ctx u)" and s: "s \<noteq> []" "awaits (zone_alloc Z) lim (u_ctx u) s x"
      "nonparsed u @ R = s @ concat (map enc ys)"
    using e by (auto simp: expects_def)
  from s(3) obtain t where "nonparsed u = s @ t \<and> t @ R = concat (map enc ys) \<or>
      nonparsed u @ t = s \<and> R = t @ concat (map enc ys)"
    by (auto simp: append_eq_append_conv2)
  then consider t where "nonparsed u = s @ t" "t @ R = concat (map enc ys)"
    | t where "s = nonparsed u @ t" "t \<noteq> []" "R = t @ concat (map enc ys)"
    by (cases "t = []") auto
  then show ?thesis
  proof cases
    case 1
    from next_gives [OF Z u c s(2,1) 1] xs Cons show ?thesis by auto
  next
    case 2
    from next_waits [OF Z u c s(2) [unfolded 2(1)] 2(2,3)] Cons show ?thesis by blast
  qed
qed

section \<open>Pieces\<close>

lemma take_ok:
  assumes Z: "zone_total Z"
  shows "unpacker_ok avail u \<Longrightarrow> expects Z lim u R xs \<Longrightarrow> \<forall>x \<in> set xs. object_ok x \<and> fits lim 1 x \<Longrightarrow>
    length (nonparsed u) < fuel \<Longrightarrow>
    \<exists>hs v ys. take_objects Z fuel u = Some (Inr (hs, v)) \<and> unpacker_ok avail v \<and>
      xs = map fst hs @ ys \<and> expects Z lim v R ys \<and> (R = [] \<longrightarrow> ys = []) \<and>
      length (nonparsed v) \<le> length (nonparsed u)"
proof (induction fuel arbitrary: u xs)
  case (Suc fuel)
  from next_ok [OF Z Suc.prems(1-3)] obtain r v where
    v: "next_object Z u = Some (Inr (r, v))" "next_result Z lim avail u R xs r v" by blast
  show ?case
  proof (cases r)
    case None
    then show ?thesis using v by (auto simp: next_result_def)
  next
    case (Some h)
    obtain x z where h: "h = (x, z)" by (cases h)
    obtain ys where ys: "xs = x # ys" "unpacker_ok avail v" "expects Z lim v R ys"
        "length (nonparsed v) < length (nonparsed u)"
      using v(2) Some h by (auto simp: next_result_def)
    then obtain hs w zs where
      w: "take_objects Z fuel v = Some (Inr (hs, w))" "unpacker_ok avail w" "ys = map fst hs @ zs"
        "expects Z lim w R zs" "R = [] \<longrightarrow> zs = []" "length (nonparsed w) \<le> length (nonparsed v)"
      using Suc.IH [of v ys] Suc.prems by auto
    then show ?thesis using v(1) Some h ys by auto
  qed
qed simp

lemma nonparsed_size_eq:
  assumes "unpacker_ok avail u" "avail \<le> 2 ^ 62"
  shows "nonparsed_size u = length (nonparsed u)"
proof -
  from assms(1) obtain c bs where "u_heap u (u_buffer u) = Some (c, bs)"
      "u_used u + u_free u = length bs" "length bs \<le> avail" "COUNTER_SIZE \<le> u_off u" "u_off u \<le> u_used u"
      "nonparsed u = drop (u_off u) (take (u_used u) bs)" "length (nonparsed u) = u_used u - u_off u"
    by (rule unpacker_okE)
  then show ?thesis using assms(2) by (simp add: nonparsed_size_def sub64_eq)
qed

lemma receive_ok:
  assumes Z: "zone_total Z" and u: "unpacker_ok avail u" "expects Z lim u (p @ R) xs"
    and xs: "\<forall>x \<in> set xs. object_ok x \<and> fits lim 1 x" and room: "roomy avail u (length p)"
  shows "\<exists>hs v ys. receive Z avail p u = Some (Inr (hs, v)) \<and> unpacker_ok avail v \<and>
    xs = map fst hs @ ys \<and> expects Z lim v R ys \<and> (R = [] \<longrightarrow> ys = []) \<and>
    length (nonparsed v) \<le> length (nonparsed u) + length p"
proof -
  from reserve_ok [OF u(1) room Z] obtain v where
    v: "reserve_buffer Z avail (length p) u = Inr v" "unpacker_ok avail v" "same_stream u v" "length p \<le> u_free v"
    by blast
  have avail: "avail \<le> 2 ^ 62" using room by (simp add: roomy_def)
  let ?w = "\<lambda>w. buffer_consumed (length p) w"
  from copy_ok [OF v(2,4) avail] obtain w where
    w: "copy_to_buffer p v = Inr w" "unpacker_ok avail (?w w)" "nonparsed (?w w) = nonparsed v @ p"
      "u_ctx (?w w) = u_ctx v" by blast
  have "expects Z lim (?w w) R xs"
    by (rule expects_received [OF expects_same [OF Z u(2) v(3)] w(3,4)])
  from take_ok [OF Z w(2) this xs, of "nonparsed_size (?w w) + 1"] nonparsed_size_eq [OF w(2) avail]
  obtain hs y ys where "take_objects Z (nonparsed_size (?w w) + 1) (?w w) = Some (Inr (hs, y))"
      "unpacker_ok avail y" "xs = map fst hs @ ys" "expects Z lim y R ys" "R = [] \<longrightarrow> ys = []"
      "length (nonparsed y) \<le> length (nonparsed (?w w))"
    by auto
  moreover have "receive Z avail p u = take_objects Z (nonparsed_size (?w w) + 1) (?w w)"
    using v w by (simp add: receive_def del: take_objects.simps)
  moreover have "length (nonparsed (?w w)) = length (nonparsed u) + length p"
    using w(3) v(3) by (simp add: same_stream_def)
  ultimately show ?thesis by auto
qed

lemma receive_all_ok:
  assumes Z: "zone_total Z"
  shows "unpacker_ok avail u \<Longrightarrow> expects Z lim u (concat ps) xs \<Longrightarrow> \<forall>x \<in> set xs. object_ok x \<and> fits lim 1 x \<Longrightarrow>
    roomy avail u (length (concat ps)) \<Longrightarrow> (concat ps = [] \<longrightarrow> xs = []) \<Longrightarrow>
    \<exists>hs v. receive_all Z avail ps u = Some (Inr (hs, v)) \<and> map fst hs = xs \<and> unpacker_ok avail v"
proof (induction ps arbitrary: u xs)
  case (Cons p ps)
  have "roomy avail u (length p)" using Cons.prems(4) by (simp add: roomy_def)
  moreover have "expects Z lim u (p @ concat ps) xs" using Cons.prems(2) by simp
  ultimately obtain hs v ys where
    v: "receive Z avail p u = Some (Inr (hs, v))" "unpacker_ok avail v" "xs = map fst hs @ ys"
      "expects Z lim v (concat ps) ys" "concat ps = [] \<longrightarrow> ys = []"
      "length (nonparsed v) \<le> length (nonparsed u) + length p"
    using receive_ok [OF Z Cons.prems(1) _ Cons.prems(3)] by blast
  moreover have "roomy avail v (length (concat ps))" using Cons.prems(4) v(6) by (simp add: roomy_def)
  ultimately obtain ks w where "receive_all Z avail ps v = Some (Inr (ks, w))" "map fst ks = ys" "unpacker_ok avail w"
    using Cons.IH [of v ys] Cons.prems(3) by auto
  then show ?case using v by auto
qed simp

text \<open>A new unpacker has enough room for a stream twice whose length, with the count, can be allocated.\<close>

lemma unpacker_new_ok:
  assumes Z: "zone_total Z" and avail: "n \<le> avail" "COUNTER_SIZE \<le> avail"
  shows "\<exists>u. unpacker_new Z avail f lim n = Inr u \<and> unpacker_ok avail u \<and> nonparsed u = [] \<and> fresh lim (u_ctx u)"
proof -
  obtain z where z: "first_zone Z = Inr z" using Z by (auto simp: zone_total_def)
  then show ?thesis
    using avail
    by (auto simp: unpacker_new_def Let_def unpacker_ok_def set_referenced_def nonparsed_def fresh_def
        context_init_def context_new_def)
qed

lemma stream_of_objects:
  assumes Z: "zone_total Z" and avail: "n \<le> avail" "2 * (length (concat ps) + COUNTER_SIZE) \<le> avail" "avail \<le> 2 ^ 62"
    and xs: "\<forall>x \<in> set xs. object_ok x \<and> fits lim 1 x" and ps: "concat ps = concat (map enc xs)"
  shows "\<exists>u hs v. unpacker_new Z avail f lim n = Inr u \<and>
    receive_all Z avail ps u = Some (Inr (hs, v)) \<and> map fst hs = xs"
proof -
  obtain u where u: "unpacker_new Z avail f lim n = Inr u" "unpacker_ok avail u" "nonparsed u = []" "fresh lim (u_ctx u)"
    using unpacker_new_ok [OF Z avail(1)] avail(2) by auto
  moreover have "expects Z lim u (concat ps) xs"
    by (rule expects_fresh [OF Z xs u(4)]) (simp add: u(3) ps)
  moreover have "roomy avail u (length (concat ps))" using avail u(3) by (simp add: roomy_def)
  moreover have "concat ps = [] \<longrightarrow> xs = []" using enc_nonempty by (cases xs) (auto simp: ps)
  ultimately show ?thesis using receive_all_ok [OF Z _ _ xs] by blast
qed

end
