(* ===== verification/Msgpack_Properties.thy ===== *)
theory Msgpack_Properties
  imports
    Msgpack_Safe Msgpack_Roundtrip Msgpack_Visitors Msgpack_Typed Msgpack_Convert Msgpack_Zone_Safe
    Msgpack_Compare Msgpack_Print Msgpack_Clone_Deep Msgpack_Unpacker_Correct
begin

text \<open>
  Properties of the serialisation that the server and its clients speak: the
  packer, the traversal of objects and the decoder.
\<close>

text \<open>C32: every packing function for an integer type, whatever its width and
  signedness, writes the one encoding \<open>int_format\<close> of the value: the first, in the order of their
  sizes, of the msgpack formats that hold it, an unsigned one for a nonnegative value, with the bytes
  of the value from the highest to the lowest. That covers \<open>char\<close>, signed or not, and \<open>wchar_t\<close> of 32
  bits, signed or not. The exceptions are the functions \<open>pack_fix_*\<close>: each writes the format of its
  type whatever the value.\<close>

theorem integers_packed:
  "pack_uint8 wr s u8 = wr s (int_format (uint u8)) \<and>
   pack_uint16 wr s u16 = wr s (int_format (uint u16)) \<and>
   pack_uint32 wr s u32 = wr s (int_format (uint u32)) \<and>
   pack_uint64 wr s u64 = wr s (int_format (uint u64)) \<and>
   pack_int8 wr s i8 = wr s (int_format (sint i8)) \<and>
   pack_int16 wr s i16 = wr s (int_format (sint i16)) \<and>
   pack_int32 wr s i32 = wr s (int_format (sint i32)) \<and>
   pack_int64 wr s i64 = wr s (int_format (sint i64)) \<and>
   pack_char CHAR_MIN wr s ch = wr s (int_format (if CHAR_MIN < 0 then sint ch else uint ch)) \<and>
   pack_wchar wr s (sint (wc :: 32 word)) = wr s (int_format (sint wc)) \<and>
   pack_wchar wr s (uint (wc :: 32 word)) = wr s (int_format (uint wc)) \<and>
   pack_signed_char wr s i8 = wr s (int_format (sint i8)) \<and>
   pack_short wr s i16 = wr s (int_format (sint i16)) \<and>
   pack_int wr s i32 = wr s (int_format (sint i32)) \<and>
   pack_long wr s i64 = wr s (int_format (sint i64)) \<and>
   pack_long_long wr s i64 = wr s (int_format (sint i64)) \<and>
   pack_unsigned_char wr s u8 = wr s (int_format (uint u8)) \<and>
   pack_unsigned_short wr s u16 = wr s (int_format (uint u16)) \<and>
   pack_unsigned_int wr s u32 = wr s (int_format (uint u32)) \<and>
   pack_unsigned_long wr s u64 = wr s (int_format (uint u64)) \<and>
   pack_unsigned_long_long wr s u64 = wr s (int_format (uint u64)) \<and>
   pack_fix_uint8 wr s u8 = wr s (0xcc # big_endian 1 (uint u8)) \<and>
   pack_fix_uint16 wr s u16 = wr s (0xcd # big_endian 2 (uint u16)) \<and>
   pack_fix_uint32 wr s u32 = wr s (0xce # big_endian 4 (uint u32)) \<and>
   pack_fix_uint64 wr s u64 = wr s (0xcf # big_endian 8 (uint u64)) \<and>
   pack_fix_int8 wr s i8 = wr s (0xd0 # big_endian 1 (sint i8)) \<and>
   pack_fix_int16 wr s i16 = wr s (0xd1 # big_endian 2 (sint i16)) \<and>
   pack_fix_int32 wr s i32 = wr s (0xd2 # big_endian 4 (sint i32)) \<and>
   pack_fix_int64 wr s i64 = wr s (0xd3 # big_endian 8 (sint i64))"
  by (intro conjI)
    (simp_all only: pack_fix_format pack_char_format pack_wchar_32 pack_named_ints enc_int_format)

text \<open>C33: packing an object into the output buffer always ends; it appends the
  encoding of the object to what the buffer holds and keeps the buffer well formed, whatever
  reallocations that takes, and its only failure is an allocation that fails, which cannot
  happen if blocks of every size of 64 bits can be had.\<close>

theorem packing_appends:
  assumes "object_ok x" "sbuffer_good b" "length (sbuffer_content b) + length (enc x) < 2 ^ 64"
  shows "\<exists>r. pack_object (sbuffer_write avail) b x = Some r \<and>
    (case r of
       Inl e \<Rightarrow> avail < 2 ^ 64 \<and> e = Throw Bad_Alloc
     | Inr b' \<Rightarrow> sbuffer_good b' \<and> sbuffer_content b' = sbuffer_content b @ enc x)"
proof -
  from sbuffer.pack_object_emits [OF assms(1), of avail] obtain m where
    m: "(\<lambda>s. pack_object (sbuffer_write avail) s x) = (\<lambda>s. Some (m s))"
      "sbuffer.emits avail m (enc x)" by blast
  from m(2) assms(2,3) have "case m b of Inl e \<Rightarrow> avail < 2 ^ 64 \<and> e = Throw Bad_Alloc
      | Inr b' \<Rightarrow> sbuffer_good b' \<and> sbuffer_content b' = sbuffer_content b @ enc x"
    unfolding sbuffer.emits_def appends_def by blast
  then show ?thesis using fun_cong [OF m(1), of b] by simp
qed

lemma packing_appends_witness:
  "\<exists>r. pack_object (sbuffer_write 1) \<lparr>m_size = 1, m_data = [7], m_alloc = 1\<rparr>
       (ARRAY [NIL, POSITIVE_INTEGER 5]) = Some r \<and>
    (case r of
       Inl e \<Rightarrow> e = Throw Bad_Alloc
     | Inr b' \<Rightarrow> sbuffer_good b' \<and> sbuffer_content b' = [7, 0x92, 0xc0, 5])"
  using packing_appends [of "ARRAY [NIL, POSITIVE_INTEGER 5]" "\<lparr>m_size = 1, m_data = [7], m_alloc = 1\<rparr>" 1]
  by (auto simp: sbuffer_good_def sbuffer_content_def enc_array_def enc_int_def split: sum.splits)

text \<open>C34: the parser of objects, a loop over an explicit stack of positions
  that a visitor can stop at any time, ends on every well-formed object and makes the same calls
  in the same order as plain recursion over the object.\<close>

theorem parser_is_recursion:
  assumes "object_ok x"
  shows "object_parser_parse V x v = Some (rbind (visit_object V x v) (\<lambda>(_, v). Inr v))"
  using assms by (rule object_parser_visits)

lemma parser_is_recursion_witness:
  "object_parser_parse (object_pack_visitor (\<lambda>s p. Inr (s @ p))) (ARRAY [NIL, BOOLEAN True]) [] =
   Some (Inr [0x92, 0xc0, 0xc3])"
  using parser_is_recursion [of "ARRAY [NIL, BOOLEAN True]"
      "object_pack_visitor (\<lambda>s p. Inr (s @ p))" "[]"]
  by (simp add: object_pack_visitor_def packed_def pack_headers pack_nil_def pack_true_def
      append_buffer_def then_call_def go_on_def enc_array_def size_of_def)

text \<open>C35: what was packed into a new buffer unpacks to the same object, using
  exactly the bytes written, if the limits of the decoder admit it and its zone does not run out
  of memory.\<close>

theorem pack_then_unpack:
  assumes "object_ok x" "length (enc x) < 2 ^ 64" "initsz < 2 ^ 64"
    and "sbuffer_new avail initsz = Inr b"
    and "pack_object (sbuffer_write avail) b x = Some (Inr b')"
    and "total_allocator alloc" "fits lim 1 x"
  shows "\<exists>refd. unpack alloc (take (m_size b') (m_data b')) 0 z f lim =
    Some (Inr (x, length (enc x), refd))"
proof -
  have b: "sbuffer_good b" "sbuffer_content b = []"
    using sbuffer_new_good [OF assms(3,4)] by simp_all
  from sbuffer.pack_object_emits [OF assms(1), of avail] obtain m where
    m: "(\<lambda>s. pack_object (sbuffer_write avail) s x) = (\<lambda>s. Some (m s))"
      "sbuffer.emits avail m (enc x)" by blast
  have "m b = Inr b'" using assms(5) fun_cong [OF m(1), of b] by simp
  from sbuffer.emits_append [OF m(2) b(1) _ this] have "sbuffer_content b' = enc x"
    using assms(2) by (simp add: b(2))
  then have "take (m_size b') (m_data b') = enc x" by (simp add: sbuffer_content_def)
  then show ?thesis
    using unpack_enc [OF assms(1,6,7), of "[]" "[]" z f] by simp
qed

lemma pack_then_unpack_witness:
  "\<exists>refd. unpack (\<lambda>z n a. Inr z) [0xc3] 0 () None unpack_limit_default =
    Some (Inr (BOOLEAN True, 1, refd))"
  using pack_then_unpack [of "BOOLEAN True" 1 1 "\<lparr>m_size = 0, m_data = [0], m_alloc = 1\<rparr>"
      "\<lparr>m_size = 1, m_data = [0xc3], m_alloc = 1\<rparr>" "\<lambda>z n a. Inr z" unpack_limit_default "()" None]
  by (simp add: sbuffer_new_def pack_object_def object_parser_visits object_pack_visitor_def
      packed_def pack_true_def append_buffer_def sbuffer_write_def memcpy_def go_on_def
      total_allocator_def)

text \<open>C36: on any bytes whatever, the decoder ends, with an object and an offset inside
  the buffer or with an exception; it never reads outside the buffer nor has any other undefined
  behaviour.\<close>

theorem decoder_ends:
  assumes "sound_allocator alloc"
  shows "\<exists>r. unpack alloc data off z f lim = Some r \<and>
    (case r of
       Inl e \<Rightarrow> (\<exists>x. e = Throw x)
     | Inr (_, noff, _) \<Rightarrow> noff \<le> length data)"
  using unpack_ends [OF assms, unfolded thrown_def] .

lemma decoder_ends_witness:
  "\<exists>r. unpack (\<lambda>z n a. if n \<le> z then Inr (z - n) else Inl (Throw Bad_Alloc)) [0xdd, 0xff] 0 (100 :: nat) None
      unpack_limit_default = Some r \<and>
    (case r of
       Inl e \<Rightarrow> (\<exists>x. e = Throw x)
     | Inr (_, noff, _) \<Rightarrow> noff \<le> length ([0xdd, 0xff] :: byte list))"
  by (rule decoder_ends) (auto simp: sound_allocator_def thrown_def split: if_splits)



text \<open>A \<open>malloc\<close> that gives a single block.\<close>

definition one_block :: malloc where
  "one_block h n = (if h = [] \<and> n \<le> 1000 then Some 4096 else None)"

text \<open>C39: the blocks that a new zone hands out, whatever their sizes and
  alignments, in the first chunk or in chunks it had to allocate, are as large and as aligned as
  they were asked for, lie inside the chunks of the zone, and no two of them overlap.\<close>

theorem zone_blocks_disjoint:
  assumes "malloc_ok malloc" "chunk_size \<le> 2 ^ 62" "zone_new malloc chunk_size h = Inr (z, h')"
    and "\<forall>(n, k) \<in> set rs. n \<le> 2 ^ 61 \<and> k \<le> 60"
    and "allocate_all malloc rs z h' = Inr (bs, z', h'')"
  shows "list_all2 (\<lambda>(a, m) (n, k). m = n \<and> 2 ^ k dvd a) bs rs \<and> sorted_wrt apart bs \<and>
    (\<forall>b \<in> set bs. \<exists>c \<in> set (chunks (m_chunk_list z')). in_chunk b c)"
  using allocate_all_ok [OF assms(1) zone_new_ok [OF assms(1-3)] assms(4,5)] by (simp add: zone_ok_def)

lemma zone_blocks_disjoint_witness:
  "\<exists>z h' z' h''. zone_new one_block 64 [] = Inr (z, h') \<and>
    allocate_all one_block [(8, 3), (3, 0)] z h' = Inr ([(4112, 8), (4104, 3)], z', h'') \<and>
    sorted_wrt apart [(4112, 8), (4104, 3)]"
proof -
  let ?z = "\<lparr>m_chunk_size = 64, m_chunk_list = \<lparr>m_free = 64, m_ptr = 4104, chunks = [(4096, 64)]\<rparr>,
    m_finalizer_array = finalizer_array_new\<rparr>"
  have new: "zone_new one_block 64 [] = Inr (?z, [chunk_block (4096, 64)])"
    by (simp add: zone_new_def chunk_list_new_def add64_def sizeof_chunk_def one_block_def)
  obtain z' h'' where
    all: "allocate_all one_block [(8, 3), (3, 0)] ?z [chunk_block (4096, 64)] = Inr ([(4112, 8), (4104, 3)], z', h'')"
    by (simp add: zone_allocate_align_def get_aligned_def Let_def add64_def sub64_def take_from_chunk_def)
  have "malloc_ok one_block" by (simp add: malloc_ok_def one_block_def)
  from zone_blocks_disjoint [OF this _ new _ all] new all show ?thesis by auto
qed

text \<open>C26: comparing two well-formed objects ends without undefined behaviour, and
  \<open>!=\<close> is the negation of \<open>==\<close>. On an object without floats \<open>==\<close> is equality; an object is equal
  to itself unless it has a NaN somewhere inside.\<close>

theorem objects_compare:
  assumes "object_ok x" "object_ok y"
  shows "object_equal x y = Some (Inr (same x y)) \<and> object_not_equal x y = Some (Inr (\<not> same x y)) \<and>
    (all_floats (\<lambda>_. False) (\<lambda>_. False) x \<longrightarrow> same x y = (x = y)) \<and>
    same x x = all_floats (\<lambda>f. \<not> is_nan32 f) (\<lambda>f. \<not> is_nan64 f) x"
  using object_equal_same [OF assms] same_iff_eq same_refl by (simp add: object_not_equal_def)

text \<open>A map to an array with a NaN in it.\<close>

definition nan_inside :: object where
  "nan_inside = MAP [(STR' [97], ARRAY [POSITIVE_INTEGER 1, FLOAT64 0x7FF8000000000000])]"

lemma objects_compare_witness:
  "object_equal nan_inside nan_inside = Some (Inr False) \<and>
   object_equal (ARRAY [NIL, STR' [1]]) (ARRAY [NIL, STR' [1]]) = Some (Inr True)"
  using objects_compare [of nan_inside nan_inside] objects_compare [of "ARRAY [NIL, STR' [1]]" "ARRAY [NIL, STR' [1]]"]
  by (simp add: nan_inside_def is_nan64_def)



text \<open>C25: a stream of packed objects that is cut into pieces anywhere, also
  inside a number or a string, and fed to a streaming decoder piece by piece gives exactly these
  objects, in their order, whatever the buffer had to be moved or enlarged on the way. It needs
  objects within the limits of the decoder, operations on the zone that do not fail, and memory for
  twice the stream.\<close>

theorem pieces_do_not_matter:
  assumes "zone_total Z" "n \<le> avail" "2 * (length (concat ps) + COUNTER_SIZE) \<le> avail" "avail \<le> 2 ^ 62"
    and "\<forall>x \<in> set xs. object_ok x \<and> fits lim 1 x" "concat ps = concat (map enc xs)"
  shows "\<exists>u hs v. unpacker_new Z avail f lim n = Inr u \<and>
    receive_all Z avail ps u = Some (Inr (hs, v)) \<and> map fst hs = xs"
  by (rule stream_of_objects [OF assms])

text \<open>A zone without memory, and three pieces of two objects.\<close>

definition unit_zones :: "unit zone_operations" where
  "unit_zones =
     \<lparr>zone_alloc = (\<lambda>z n a. Inr z), first_zone = Inr (), next_zone = Inr,
      push_finalizer = (\<lambda>b. Inr), clear_zone = Inr, zone_finalizers = (\<lambda>z. [])\<rparr>"

lemma pieces_do_not_matter_witness:
  "\<exists>u hs v. unpacker_new unit_zones 30 None unpack_limit_default 8 = Inr u \<and>
     receive_all unit_zones 30 [[0xa2, 104], [105, 0x91, 0xcd], [0x01, 0x2c]] u = Some (Inr (hs, v)) \<and>
     map fst hs = [STR' [104, 105], ARRAY [POSITIVE_INTEGER 300]]"
proof (rule pieces_do_not_matter)
  show "concat [[0xa2, 104], [105, 0x91, 0xcd], [0x01, 0x2c]] =
      concat (map enc [STR' [104, 105], ARRAY [POSITIVE_INTEGER 300]])" by code_simp
qed (simp_all add: zone_total_def total_allocator_def unit_zones_def COUNTER_SIZE_def unpack_limit_default_def)

end
