(* ===== verification/Msgpack_Progress.thy ===== *)
theory Msgpack_Progress
  imports Msgpack_Resume
begin

text \<open>
  What a call of the decoder does to its user: an invariant of the zone that
  allocating keeps stays true, and a reference into the buffer is only taken
  when bytes are consumed.
\<close>

definition alloc_keeps :: "'z allocator \<Rightarrow> ('z \<Rightarrow> bool) \<Rightarrow> bool" where
  "alloc_keeps alloc Q \<longleftrightarrow> (\<forall>z n a z'. Q z \<longrightarrow> alloc z n a = Inr z' \<longrightarrow> Q z')"

text \<open>\<open>c\<close> has come from \<open>j\<close>, where there was a reference if \<open>was\<close>.\<close>

definition went :: "('z \<Rightarrow> bool) \<Rightarrow> nat \<Rightarrow> bool \<Rightarrow> 'z unpack_context \<Rightarrow> bool" where
  "went Q j was c \<longleftrightarrow>
     Q (zone (m_user c)) \<and> j \<le> m_current c \<and> (referenced (m_user c) \<longrightarrow> was \<or> j < m_current c)"

definition kept :: "('z \<Rightarrow> bool) \<Rightarrow> nat \<Rightarrow> bool \<Rightarrow> 'z exec result \<Rightarrow> bool" where
  "kept Q j was r \<longleftrightarrow>
     (case r of
        Inl e \<Rightarrow> True
      | Inr (Return ret off c) \<Rightarrow> 0 \<le> ret \<longrightarrow> went Q j was c
      | Inr (Next f c) \<Rightarrow> went Q j was c)"

lemma kept_basic: "kept Q j was (Inl e)" "kept Q j was (Inr (Return (-1) off c))"
  by (simp_all add: kept_def)

lemma kept_next: "kept Q j was (Inr (Next f c)) = went Q j was c"
  by (simp add: kept_def)

lemma kept_rbind: "(\<And>x. kept Q j was (f x)) \<Longrightarrow> kept Q j was (rbind r f)"
  by (cases r) (simp_all add: kept_def)

lemma kept_if: "(b \<Longrightarrow> kept Q j was r) \<Longrightarrow> (\<not> b \<Longrightarrow> kept Q j was q) \<Longrightarrow> kept Q j was (if b then r else q)"
  by simp

lemma kept_push_proc:
  "Q (zone (m_user c)) \<Longrightarrow> j \<le> m_current c \<Longrightarrow> kept Q j was (Inr (push_proc x c))"
  by (auto simp: kept_def push_proc_def went_def Let_def split: prod.split)

lemma kept_push_result:
  "(\<And>x u. r = Inr (x, u) \<Longrightarrow> Q (zone u)) \<Longrightarrow> j \<le> m_current c \<Longrightarrow> kept Q j was (push_result r c)"
  by (cases r) (auto simp: push_result_def kept_basic intro!: kept_push_proc)

lemma kept_push_aggregate:
  assumes "\<And>x u. f (m_user c) n = Inr (x, u) \<Longrightarrow> Q (zone u)" "j \<le> m_current c"
  shows "kept Q j was (push_aggregate f ct n c)"
proof (cases "f (m_user c) n")
  case (Inr a)
  obtain x u where a: "a = (x, u)" by force
  with assms Inr have "Q (zone u)" by simp
  then show ?thesis
    using assms(2) by (auto simp: push_aggregate_def Inr a Let_def kept_basic kept_next went_def intro!: kept_push_proc)
qed (simp add: push_aggregate_def kept_basic)

lemma unpack_keeps:
  assumes "alloc_keeps alloc Q" "Q (zone u)"
  shows "unpack_array alloc u n = Inr (x, v) \<Longrightarrow> Q (zone v)"
    and "unpack_map alloc u n = Inr (x, v) \<Longrightarrow> Q (zone v)"
    and "unpack_str alloc u p = Inr (x, v) \<Longrightarrow> Q (zone v)"
    and "unpack_bin alloc u p = Inr (x, v) \<Longrightarrow> Q (zone v)"
    and "unpack_ext alloc u p = Inr (x, v) \<Longrightarrow> Q (zone v)"
proof -
  have alloc: "Q (zone v)" if "allocate alloc u s a = Inr v" for s a v
    using assms that by (cases "alloc (zone u) s a") (auto simp: allocate_def alloc_keeps_def)
  show "unpack_array alloc u n = Inr (x, v) \<Longrightarrow> Q (zone v)"
    "unpack_map alloc u n = Inr (x, v) \<Longrightarrow> Q (zone v)"
    "unpack_str alloc u p = Inr (x, v) \<Longrightarrow> Q (zone v)"
    "unpack_bin alloc u p = Inr (x, v) \<Longrightarrow> Q (zone v)"
    "unpack_ext alloc u p = Inr (x, v) \<Longrightarrow> Q (zone v)"
    using alloc assms(2)
    by (auto simp: unpack_array_def unpack_map_def unpack_str_def unpack_bin_def unpack_ext_def Let_def
        split: if_splits)
qed

text \<open>What a pass does once its value is in the buffer.\<close>

lemma kept_pushes:
  assumes "alloc_keeps alloc Q" "Q (zone (m_user c))" "j \<le> m_current c"
  shows "kept Q j was (Inr (push_proc x c))"
    and "kept Q j was (push_result (unpack_str alloc (m_user c) p) c)"
    and "kept Q j was (push_result (unpack_bin alloc (m_user c) p) c)"
    and "kept Q j was (push_result (unpack_ext alloc (m_user c) p) c)"
    and "kept Q j was (push_result (unpack_str alloc (m_user c) p) (c\<lparr>m_trail := t\<rparr>))"
    and "kept Q j was (push_result (unpack_bin alloc (m_user c) p) (c\<lparr>m_trail := t\<rparr>))"
    and "kept Q j was (push_result (unpack_ext alloc (m_user c) p) (c\<lparr>m_trail := t\<rparr>))"
    and "kept Q j was (push_aggregate (unpack_array alloc) ct n c)"
    and "kept Q j was (push_aggregate (unpack_map alloc) ct n c)"
  using assms by (auto intro!: kept_push_proc kept_push_result kept_push_aggregate dest: unpack_keeps)

lemma went_pos: "went Q j was c \<Longrightarrow> Q (zone (m_user c))" "went Q j was c \<Longrightarrow> j \<le> m_current c"
  by (simp_all add: went_def)

lemma kept_again:
  "went Q j was c \<Longrightarrow> kept Q j was (Inr (Next f (c\<lparr>m_trail := t, m_cs := s\<rparr>)))"
  "went Q j was c \<Longrightarrow> kept Q j was (Inr (Next f (c\<lparr>m_cs := s\<rparr>)))"
  by (simp_all add: kept_next went_def)

lemmas kept_intros = kept_rbind kept_if kept_basic kept_again

lemma kept_length:
  assumes "alloc_keeps alloc Q" "went Q j was c"
  shows "kept Q j was (str_length alloc n c)" "kept Q j was (bin_length alloc n c)" "kept Q j was (ext_length alloc n c)"
  using kept_pushes [OF assms(1) went_pos [OF assms(2)]] assms(2)
  by (simp_all add: str_length_def bin_length_def ext_length_def Let_def kept_next went_def)

lemma kept_switch:
  assumes "alloc_keeps alloc Q" "went Q j was c"
  shows "kept Q j was (exec_switch alloc data n c)"
  unfolding exec_switch_def exec_number_def exec_fixext_def exec_ext_def exec_length8_def exec_length16_def
    exec_length32_def exec_body_value_def exec_container_def
  by (intro kept_intros kept_pushes [OF assms(1) went_pos [OF assms(2)]] kept_length [OF assms])

lemma kept_header:
  assumes "alloc_keeps alloc Q" "went Q j was c"
  shows "kept Q j was (exec_header alloc data c)"
  unfolding exec_header_def Let_def
  using kept_pushes [OF assms(1) went_pos [OF assms(2)]] assms(2)
  by (intro kept_intros) (simp_all add: kept_again)

section \<open>The loop\<close>

lemma kept_value:
  assumes "alloc_keeps alloc Q" "went Q j was c" "trail_ok (m_cs c) (m_trail c)"
  shows "kept Q j was (exec_value alloc data fta c)"
proof -
  let ?c = "if fta then c\<lparr>m_current := m_current c + 1\<rparr> else c"
  have "0 < m_trail c" by (rule trail_ok_pos [OF assms(3)])
  then have "went Q j was ?c" "went Q j was (?c\<lparr>m_current := m_current ?c + m_trail ?c - 1\<rparr>)"
    using assms(2) by (auto simp: went_def)
  then show ?thesis
    using kept_switch [OF assms(1)] by (simp add: exec_value_def Let_def kept_def)
qed

lemma kept_pass:
  assumes alloc: "sound_allocator alloc" "alloc_keeps alloc Q" and c: "went Q j was c"
    and inv: "decoder_inv data fta c" "m_current c < length data"
  shows "kept Q j was (exec_pass alloc data fta c)"
proof (cases "m_cs c = 0")
  case False
  then show ?thesis
    using kept_value [OF alloc(2) c] inv(1) by (simp add: exec_pass_def decoder_inv_def)
next
  case True
  then have "\<not> fta" using inv(1) by (simp add: decoder_inv_def)
  then have hdr: "good_header data (2 * (length data - m_current c)) (m_current c) (exec_header alloc data c)"
    using inv True by (intro exec_header_good alloc) simp_all
  have kept: "kept Q j was (exec_header alloc data c)" by (rule kept_header [OF alloc(2) c])
  show ?thesis
  proof (cases "exec_header alloc data c")
    case (Inr r)
    show ?thesis
    proof (cases r)
      case (Next f d)
      then have "went Q j was d" "f \<Longrightarrow> trail_ok (m_cs d) (m_trail d)" "\<not> f \<Longrightarrow> m_cs d = 0"
        using kept hdr Inr by (auto simp: kept_next good_header_def decoder_inv_def)
      then show ?thesis
        using kept_value [OF alloc(2), of j was d] Inr Next True by (cases f) (auto simp: exec_pass_def kept_next)
    qed (use kept Inr True in \<open>simp add: exec_pass_def\<close>)
  qed (simp add: exec_pass_def True kept_basic)
qed

lemma kept_loop:
  assumes alloc: "sound_allocator alloc" "alloc_keeps alloc Q"
    and "exec_loop alloc data fta c = Some (Inr (ret, off, c'))" "0 \<le> ret"
    and "went Q j was c" "decoder_inv data fta c" "m_current c < length data"
  shows "went Q j was c'"
  using assms(3,5-7)
proof (induction "remaining data fta c" arbitrary: fta c rule: less_induct)
  case less
  note good = exec_pass_good [OF alloc(1) less.prems(3,4)]
  note kept = kept_pass [OF alloc less.prems(2-4)]
  note step = exec_loop.simps [of alloc data fta c]
  obtain r where r: "exec_pass alloc data fta c = Inr r"
    using less.prems(1) by (cases "exec_pass alloc data fta c") (auto simp: step)
  show ?case
  proof (cases r)
    case (Return i off d)
    then show ?thesis
      using less.prems(1) r kept assms(4) by (simp add: step kept_def)
  next
    case (Next f d)
    then have d: "decoder_inv data f d" "remaining data f d < remaining data fta c" "went Q j was d"
      using good kept r by (simp_all add: good_exec_def kept_next)
    show ?thesis
    proof (cases "m_current d = length data")
      case True
      then show ?thesis
        using less.prems(1) r Next d(3) by (simp add: step)
    next
      case False
      then have "exec_loop alloc data f d = Some (Inr (ret, off, c'))"
        using less.prems(1) r Next by (simp add: step)
      then show ?thesis
        using less.hyps [OF d(2) _ d(3,1)] False d(1) by (simp add: decoder_inv_def)
    qed
  qed
qed

text \<open>A call that does not fail.\<close>

lemma execute_keeps:
  assumes alloc: "sound_allocator alloc" "alloc_keeps alloc Q"
    and c: "m_stack c \<noteq> []" "m_cs c \<noteq> 0 \<Longrightarrow> trail_ok (m_cs c) (m_trail c)" "Q (zone (m_user c))"
    and run: "execute alloc data off c = Some (Inr (ret, i, c'))" "0 \<le> ret" and off: "off \<le> length data"
  shows "i = m_current c' \<and> i \<le> length data \<and> m_stack c' \<noteq> [] \<and> (ret = 0 \<longrightarrow> decoder_inv data False c') \<and>
    went Q off (referenced (m_user c)) c'"
proof -
  have inv: "decoder_inv data False (c\<lparr>m_current := off\<rparr>)" and went: "went Q off (referenced (m_user c)) (c\<lparr>m_current := off\<rparr>)"
    using c off by (auto simp: decoder_inv_def went_def)
  have "good_end data (Inr (ret, i, c'))"
    using execute_ends [OF alloc(1) off c(1,2)] run(1) by auto
  moreover have "went Q off (referenced (m_user c)) c'"
  proof (cases "off = length data")
    case True
    then show ?thesis using run(1) went by (auto simp: execute_def)
  next
    case False
    then show ?thesis
      using kept_loop [OF alloc _ run(2) went inv] run(1) off by (simp add: execute_def)
  qed
  ultimately show ?thesis by (simp add: good_end_def)
qed

end
