(* ===== verification/Msgpack_Unpacker_Counts.thy ===== *)
theory Msgpack_Unpacker_Counts
  imports Msgpack_Progress Msgpack_Unpacker_Correct "HOL-Library.Sublist"
begin

text \<open>
  Who owns the buffers of the streaming decoder: the unpacker the one it reads, and
  each finalizer in a zone the one it names. The counts in the buffers are the numbers
  of their owners, so a buffer that an object refers to is there, and its bytes are not
  written, until the zone of the object is destroyed; after that it is freed.
\<close>

section \<open>Counts\<close>

definition count_ok :: "counted_buffer option \<Rightarrow> nat \<Rightarrow> bool" where
  "count_ok x n \<longleftrightarrow> (case x of None \<Rightarrow> n = 0 | Some (c, bs) \<Rightarrow> unat c = n \<and> 0 < n)"

definition block_bytes :: "buffer_heap \<Rightarrow> nat \<Rightarrow> byte list" where
  "block_bytes h b = (case h b of None \<Rightarrow> [] | Some (c, bs) \<Rightarrow> bs)"

lemma count_ok_simps [simp]: "count_ok None n = (n = 0)" "count_ok (Some (c, bs)) n = (unat c = n \<and> 0 < n)"
  by (simp_all add: count_ok_def)

definition survives :: "buffer_heap \<Rightarrow> buffer_heap \<Rightarrow> bool" where
  "survives h h' \<longleftrightarrow> (\<forall>b d bs. h' b = Some (d, bs) \<longrightarrow> (\<exists>c. h b = Some (c, bs)))"

lemma survives_refl [simp]: "survives h h"
  by (simp add: survives_def)

lemma survivesD: "survives h h' \<Longrightarrow> h' b = Some (d, bs) \<Longrightarrow> \<exists>c. h b = Some (c, bs)"
  by (simp add: survives_def)

lemma survives_none: "survives h h' \<Longrightarrow> h b = None \<Longrightarrow> h' b = None"
  unfolding survives_def by (cases "h' b") fastforce+

lemma survives_trans: "survives h h' \<Longrightarrow> survives h' h'' \<Longrightarrow> survives h h''"
  unfolding survives_def by metis

lemma decr_refs_ok:
  assumes "\<forall>b. count_ok (h b) (n b + (if b = a then 1 else 0))"
  shows "\<exists>h'. decr_refs a h = Inr h' \<and> (\<forall>b. count_ok (h' b) (n b)) \<and> survives h h'"
proof -
  have "count_ok (h a) (n a + 1)" using assms by (metis (full_types))
  then obtain c bs where a: "h a = Some (c, bs)" "unat c = n a + 1"
    by (auto simp: count_ok_def split: option.splits)
  then have "c \<noteq> 0" by auto
  then have c: "unat (c - 1) = n a" using a(2) by (simp add: unat_minus_one)
  show ?thesis
  proof (cases "n a = 0")
    case True
    then have "c - 1 = 0" using c by (simp add: unat_eq_0)
    then have "decr_refs a h = Inr (h(a := None))" using a(1) by (simp add: decr_refs_def buffer_at_def)
    moreover have "count_ok ((h(a := None)) b) (n b)" for b
      using assms [rule_format, of b] True by (cases "b = a") auto
    ultimately show ?thesis by (auto simp: survives_def)
  next
    case False
    then have "c - 1 \<noteq> 0" using c by auto
    then have "decr_refs a h = Inr (h(a \<mapsto> (c - 1, bs)))" using a(1) by (simp add: decr_refs_def buffer_at_def)
    moreover have "count_ok ((h(a \<mapsto> (c - 1, bs))) b) (n b)" for b
      using assms [rule_format, of b] False c by (cases "b = a") auto
    ultimately show ?thesis using a(1) by (auto simp: survives_def)
  qed
qed

lemma decr_all_ok:
  "\<forall>b. count_ok (h b) (n b + count_list bs b) \<Longrightarrow>
    \<exists>h'. decr_all bs h = Inr h' \<and> (\<forall>b. count_ok (h' b) (n b)) \<and> survives h h'"
proof (induction bs arbitrary: h)
  case (Cons a bs)
  have "\<forall>b. count_ok (h b) ((n b + count_list bs b) + (if b = a then 1 else 0))"
    using Cons.prems by (auto split: if_splits)
  from decr_refs_ok [OF this] obtain g where
    g: "decr_refs a h = Inr g" "\<forall>b. count_ok (g b) (n b + count_list bs b)" "survives h g" by blast
  from Cons.IH [OF g(2)] obtain h' where
    "decr_all bs g = Inr h'" "\<forall>b. count_ok (h' b) (n b)" "survives g h'" by blast
  then show ?case using g survives_trans by auto
qed simp

lemma incr_refs_ok:
  assumes "\<forall>b. count_ok (h b) (n b)" "0 < n a" "n a + 1 < 2 ^ 32"
  shows "\<exists>h'. incr_refs a h = Inr h' \<and> (\<forall>b. count_ok (h' b) (n b + (if b = a then 1 else 0))) \<and>
    (\<forall>b. block_bytes h' b = block_bytes h b) \<and> (\<forall>b. h' b = None \<longleftrightarrow> h b = None)"
proof -
  have "count_ok (h a) (n a)" using assms(1) by blast
  then obtain c bs where a: "h a = Some (c, bs)" "unat c = n a"
    using assms(2) by (auto simp: count_ok_def split: option.splits)
  have "unat (c + 1) = n a + 1"
    using a(2) assms(3) by (simp add: unat_add_lem [THEN iffD1])
  then show ?thesis
    using a(1) assms(1) by (auto simp: incr_refs_def buffer_at_def block_bytes_def)
qed

lemma distinct_count_le: "distinct xs \<Longrightarrow> m \<le> n \<Longrightarrow> count_list xs b + m \<le> Suc n"
  by (induction xs) (auto simp: count_list_0_iff)

lemma take_prefix_mono: "i \<le> j \<Longrightarrow> prefix (take i xs) (take j xs)"
  by (metis min.absorb1 take_is_prefix take_take)

section \<open>Owners\<close>

definition owners :: "'z zone_operations \<Rightarrow> 'z unpacker \<Rightarrow> 'z list \<Rightarrow> nat \<Rightarrow> nat" where
  "owners Z u zs b =
     (if b = u_buffer u then 1 else 0) + count_list (concat (map (zone_finalizers Z) (the_zone u # zs))) b"

definition counted :: "'z zone_operations \<Rightarrow> 'z list \<Rightarrow> 'z unpacker \<Rightarrow> bool" where
  "counted Z zs u \<longleftrightarrow>
     (\<forall>b. count_ok (u_heap u b) (owners Z u zs b)) \<and>
     (\<forall>z \<in> set (the_zone u # zs). distinct (zone_finalizers Z z)) \<and>
     u_buffer u \<notin> set (zone_finalizers Z (the_zone u)) \<and>
     (u_off u = COUNTER_SIZE \<longrightarrow>
        \<not> is_referenced u \<and> (\<forall>z \<in> set zs. u_buffer u \<notin> set (zone_finalizers Z z)))"

definition in_window :: "nat \<Rightarrow> 'z unpacker \<Rightarrow> bool" where
  "in_window avail u \<longleftrightarrow>
     (\<exists>c bs. u_heap u (u_buffer u) = Some (c, bs) \<and> u_used u + u_free u \<le> length bs \<and> length bs \<le> avail) \<and>
     COUNTER_SIZE \<le> u_off u \<and> u_off u \<le> u_used u \<and> u_initial u \<le> avail \<and> avail \<le> 2 ^ 62 \<and>
     u_buffer u < u_next u \<and> (\<forall>b \<ge> u_next u. u_heap u b = None)"

definition good :: "'z zone_operations \<Rightarrow> nat \<Rightarrow> 'z list \<Rightarrow> 'z unpacker \<Rightarrow> bool" where
  "good Z avail zs u \<longleftrightarrow> in_window avail u \<and> context_ok (u_ctx u) \<and> counted Z zs u"

text \<open>The bytes of a buffer that an object may refer to: those that were parsed.\<close>

definition parsed_bytes :: "'z unpacker \<Rightarrow> nat \<Rightarrow> byte list" where
  "parsed_bytes u b =
     (if b = u_buffer u then take (u_off u) (block_bytes (u_heap u) b) else block_bytes (u_heap u) b)"

definition preserves :: "'z zone_operations \<Rightarrow> 'z list \<Rightarrow> 'z unpacker \<Rightarrow> 'z unpacker \<Rightarrow> bool" where
  "preserves Z zs u v \<longleftrightarrow>
     (\<forall>z \<in> set zs. \<forall>b \<in> set (zone_finalizers Z z). prefix (parsed_bytes u b) (parsed_bytes v b))"

lemma preserves_refl [simp]: "preserves Z zs u u"
  by (simp add: preserves_def)

lemma preserves_trans: "preserves Z zs u v \<Longrightarrow> preserves Z zs v w \<Longrightarrow> preserves Z zs u w"
  unfolding preserves_def by (meson prefix_order.trans)

lemma set_simps [simp]:
  "u_buffer (set_zone z u) = u_buffer u" "u_used (set_zone z u) = u_used u" "u_free (set_zone z u) = u_free u"
  "u_off (set_zone z u) = u_off u" "u_heap (set_zone z u) = u_heap u" "u_next (set_zone z u) = u_next u"
  "u_initial (set_zone z u) = u_initial u" "the_zone (set_zone z u) = z"
  "is_referenced (set_zone z u) = is_referenced u" "context_ok (u_ctx (set_zone z u)) = context_ok (u_ctx u)"
  "u_buffer (set_referenced r u) = u_buffer u" "u_used (set_referenced r u) = u_used u"
  "u_free (set_referenced r u) = u_free u" "u_off (set_referenced r u) = u_off u"
  "u_heap (set_referenced r u) = u_heap u" "u_next (set_referenced r u) = u_next u"
  "u_initial (set_referenced r u) = u_initial u" "the_zone (set_referenced r u) = the_zone u"
  "is_referenced (set_referenced r u) = r" "context_ok (u_ctx (set_referenced r u)) = context_ok (u_ctx u)"
  by (simp_all add: set_zone_def set_referenced_def the_zone_def is_referenced_def context_ok_def)

lemma in_windowE:
  assumes "in_window avail u"
  obtains c bs where "u_heap u (u_buffer u) = Some (c, bs)" "block_bytes (u_heap u) (u_buffer u) = bs"
    "u_used u + u_free u \<le> length bs" "length bs \<le> avail"
    "COUNTER_SIZE \<le> u_off u" "u_off u \<le> u_used u" "avail \<le> 2 ^ 62" "u_buffer u < u_next u"
  using assms by (auto simp: in_window_def block_bytes_def)

text \<open>A buffer that no zone names is the unpacker's alone.\<close>

lemma owners_alone:
  "owners Z u zs b = (if b = u_buffer u then 1 else 0) \<longleftrightarrow>
    (\<forall>z \<in> set (the_zone u # zs). b \<notin> set (zone_finalizers Z z))"
  by (auto simp: owners_def count_list_0_iff)

lemma owners_few:
  assumes "\<forall>z \<in> set (the_zone u # zs). distinct (zone_finalizers Z z)" "b \<notin> set (zone_finalizers Z (the_zone u))"
  shows "owners Z u zs b \<le> length zs + 1"
proof -
  have "count_list (concat (map (zone_finalizers Z) zs)) b \<le> length zs"
    using assms(1) by (induction zs) (auto simp: distinct_count_le)
  then show ?thesis using assms(2) by (cases "b = u_buffer u") (simp_all add: owners_def count_list_0_iff)
qed

lemma owned_is_there: "counted Z zs u \<Longrightarrow> z \<in> set (the_zone u # zs) \<Longrightarrow> b \<in> set (zone_finalizers Z z) \<Longrightarrow>
    u_heap u b \<noteq> None"
proof
  assume u: "counted Z zs u" and z: "z \<in> set (the_zone u # zs)" "b \<in> set (zone_finalizers Z z)" and "u_heap u b = None"
  from u have "count_ok (u_heap u b) (owners Z u zs b)" by (simp add: counted_def)
  then have "owners Z u zs b = 0" using \<open>u_heap u b = None\<close> by simp
  then show False using z by (auto simp: owners_def count_list_0_iff split: if_splits)
qed

section \<open>Room\<close>

lemma good_rewind:
  assumes u: "good Z avail zs u" and r: "u_used u = u_off u" "u_heap u (u_buffer u) = Some (1, bs)" "\<not> is_referenced u"
  shows "good Z avail zs (rewind_buffer u) \<and> preserves Z zs u (rewind_buffer u)"
proof -
  have w: "in_window avail u" and c: "counted Z zs u" using u by (simp_all add: good_def)
  have b: "u_used u + u_free u \<le> length bs" "length bs \<le> avail" "COUNTER_SIZE \<le> u_off u" "avail \<le> 2 ^ 62"
    using w r(2) by (auto simp: in_window_def)
  have "count_ok (u_heap u (u_buffer u)) (owners Z u zs (u_buffer u))" using c by (simp add: counted_def)
  then have "owners Z u zs (u_buffer u) = 1" using r(2) by simp
  then have alone: "\<forall>z \<in> set (the_zone u # zs). u_buffer u \<notin> set (zone_finalizers Z z)"
    using owners_alone [of Z u zs "u_buffer u"] by simp
  have sizes: "sub64 (u_used u) COUNTER_SIZE = u_used u - COUNTER_SIZE"
      "add64 (u_free u) (u_used u - COUNTER_SIZE) = u_free u + u_used u - COUNTER_SIZE"
    using b r(1) by (simp_all add: sub64_eq add64_eq)
  let ?v = "rewind_buffer u"
  have v: "u_buffer ?v = u_buffer u" "u_heap ?v = u_heap u" "u_off ?v = COUNTER_SIZE" "u_used ?v = COUNTER_SIZE"
      "u_free ?v = u_free u + u_used u - COUNTER_SIZE" "the_zone ?v = the_zone u" "u_next ?v = u_next u"
      "is_referenced ?v = is_referenced u" "u_initial ?v = u_initial u" "u_ctx ?v = u_ctx u"
    by (simp_all add: rewind_buffer_def sizes the_zone_def is_referenced_def)
  have "in_window avail ?v" using w b r(1) by (auto simp: in_window_def v)
  moreover have "counted Z zs ?v" using c alone r(3) by (simp add: counted_def owners_def v)
  moreover have "preserves Z zs u ?v"
    using alone by (auto simp: preserves_def parsed_bytes_def v)
  ultimately show ?thesis using u by (simp add: good_def v)
qed

text \<open>The number of a buffer that is made has no owner yet.\<close>

lemma fresh_buffer:
  assumes "in_window avail u" "counted Z zs u"
  shows "u_heap u (u_next u) = None" "u_next u \<noteq> u_buffer u"
    "\<forall>z \<in> set (the_zone u # zs). u_next u \<notin> set (zone_finalizers Z z)"
proof -
  show n: "u_heap u (u_next u) = None" "u_next u \<noteq> u_buffer u" using assms(1) by (auto simp: in_window_def)
  have "count_ok (u_heap u (u_next u)) (owners Z u zs (u_next u))" using assms(2) by (simp add: counted_def)
  then show "\<forall>z \<in> set (the_zone u # zs). u_next u \<notin> set (zone_finalizers Z z)"
    using owners_alone [of Z u zs "u_next u"] n by simp
qed

lemma good_grow:
  assumes u: "good Z avail zs u" "u_off u = COUNTER_SIZE" and n: "n \<le> 2 ^ 62" and run: "grow_buffer avail n u = Inr v"
  shows "good Z avail zs v \<and> preserves Z zs u v"
proof -
  have w: "in_window avail u" and c: "counted Z zs u" using u by (simp_all add: good_def)
  from w obtain k bs where b: "u_heap u (u_buffer u) = Some (k, bs)" "block_bytes (u_heap u) (u_buffer u) = bs"
      "u_used u + u_free u \<le> length bs" "length bs \<le> avail" "COUNTER_SIZE \<le> u_off u" "u_off u \<le> u_used u"
      "avail \<le> 2 ^ 62" "u_buffer u < u_next u" by (rule in_windowE)
  define nx where "nx = expanded_size (n + u_used u) (add64 (u_used u) (u_free u) * 2 mod 2 ^ 64)"
  have need: "add64 n (u_used u) = n + u_used u" using n b by (simp add: add64_eq)
  have next_le: "nx \<le> avail"
    and v: "v = u\<lparr>u_heap := (u_heap u)(u_buffer u := None, u_next u \<mapsto> (k, realloc bs nx)),
        u_buffer := u_next u, u_next := u_next u + 1, u_free := sub64 nx (u_used u)\<rparr>"
    using run b(1) by (auto simp: grow_buffer_def Let_def buffer_at_def need nx_def split: if_splits)
  have ge: "n + u_used u \<le> nx" by (simp only: nx_def expanded_size_enough)
  then have free: "sub64 nx (u_used u) = nx - u_used u" using next_le b(7) by (intro sub64_eq) simp_all
  have len: "length (realloc bs nx) = nx" by (simp add: realloc_def)
  note new = fresh_buffer [OF w c]
  have off: "\<not> is_referenced u" "\<forall>z \<in> set (the_zone u # zs). u_buffer u \<notin> set (zone_finalizers Z z)"
    using c u(2) by (simp_all add: counted_def)
  have one: "owners Z u zs (u_buffer u) = 1" using owners_alone [of Z u zs "u_buffer u"] off(2) by simp
  have z: "the_zone v = the_zone u" "is_referenced v = is_referenced u" "u_ctx v = u_ctx u"
    by (simp_all add: v the_zone_def is_referenced_def)
  have "in_window avail v"
    using w ge next_le by (auto simp: in_window_def v free len)
  moreover have "count_ok (u_heap v b) (owners Z v zs b)" for b
  proof -
    have "count_ok (u_heap u a) (owners Z u zs a)" for a using c by (simp add: counted_def)
    note this [of b] this [of "u_buffer u"]
    moreover have "owners Z v zs b = (if b = u_next u then 1 else if b = u_buffer u then 0 else owners Z u zs b)"
      using new off(2) one by (auto simp: owners_def v count_list_0_iff the_zone_def)
    ultimately show ?thesis using new(2) b(1) one by (auto simp: v)
  qed
  then have "counted Z zs v" using c off new(3) by (simp add: counted_def z) (simp add: v)
  moreover have "preserves Z zs u v"
    using off(2) new(3) by (auto simp: preserves_def parsed_bytes_def block_bytes_def v)
  ultimately show ?thesis using u(1) by (simp add: good_def z)
qed

text \<open>References that are given back take no buffer from those that still own one.\<close>

lemma survives_bytes:
  assumes "survives h h'" "\<forall>b. count_ok (h' b) (n b)" "0 < n b"
  shows "\<exists>c d bs. h b = Some (c, bs) \<and> h' b = Some (d, bs)"
proof -
  have "count_ok (h' b) (n b)" using assms(2) by blast
  then obtain d bs where "h' b = Some (d, bs)" using assms(3) by (auto simp: count_ok_def split: option.splits)
  with assms(1) show ?thesis unfolding survives_def by blast
qed

lemma given_back:
  assumes u: "in_window avail u" and h: "survives (u_heap u) h'"
    and v: "u_heap v = h'" "u_buffer v = u_buffer u" "u_used v = u_used u" "u_free v = u_free u" "u_off v = u_off u"
      "u_next v = u_next u" "u_initial v = u_initial u"
    and counts: "\<forall>b. count_ok (h' b) (owners Z v zs b)"
  shows "in_window avail v \<and> preserves Z zs u v"
proof
  have "0 < owners Z v zs (u_buffer u)" by (simp add: owners_def v(2))
  from survives_bytes [OF h counts this] obtain c d bs where
    "u_heap u (u_buffer u) = Some (c, bs)" "h' (u_buffer u) = Some (d, bs)" by blast
  moreover have "h' b = None" if "b \<ge> u_next u" for b
    using u that by (intro survives_none [OF h]) (simp add: in_window_def)
  ultimately show "in_window avail v" using u by (simp add: in_window_def v)
  show "preserves Z zs u v"
    unfolding preserves_def
  proof (intro ballI)
    fix z b assume "z \<in> set zs" "b \<in> set (zone_finalizers Z z)"
    then have "0 < owners Z v zs b" by (auto simp: owners_def count_list_0_iff intro!: Nat.gr0I)
    from survives_bytes [OF h counts this] show "prefix (parsed_bytes u b) (parsed_bytes v b)"
      by (auto simp: parsed_bytes_def block_bytes_def v)
  qed
qed

section \<open>The operations on the zone\<close>

text \<open>
  What the unpacker needs of them: allocating changes no finalizer, a new zone and a cleared one
  have none, and the one pushed last runs first.
\<close>

locale finalizing_zone =
  fixes Z :: "'z zone_operations"
  assumes alloc_throws: "sound_allocator (zone_alloc Z)"
    and alloc_finalizers: "zone_alloc Z z n a = Inr z' \<Longrightarrow> zone_finalizers Z z' = zone_finalizers Z z"
    and first_finalizers: "first_zone Z = Inr z \<Longrightarrow> zone_finalizers Z z = []"
    and next_finalizers: "next_zone Z z = Inr z' \<Longrightarrow> zone_finalizers Z z' = []"
    and push_finalizers: "push_finalizer Z b z = Inr z' \<Longrightarrow> zone_finalizers Z z' = b # zone_finalizers Z z"
    and clear_finalizers: "clear_zone Z z = Inr z' \<Longrightarrow> zone_finalizers Z z' = []"
begin

lemma good_replace:
  assumes u: "good Z avail zs u" and n: "n \<le> 2 ^ 62" and run: "replace_buffer Z avail n u = Inr v"
  shows "good Z avail zs v \<and> preserves Z zs u v"
proof -
  have w: "in_window avail u" and c: "counted Z zs u" and ctx: "context_ok (u_ctx u)" using u by (simp_all add: good_def)
  from w obtain k bs where b: "u_heap u (u_buffer u) = Some (k, bs)" "block_bytes (u_heap u) (u_buffer u) = bs"
      "u_used u + u_free u \<le> length bs" "length bs \<le> avail" "COUNTER_SIZE \<le> u_off u" "u_off u \<le> u_used u"
      "avail \<le> 2 ^ 62" "u_buffer u < u_next u" by (rule in_windowE)
  define np where "np = u_used u - u_off u"
  define nx where "nx = expanded_size (n + np + COUNTER_SIZE) (u_initial u)"
  have counter: "COUNTER_SIZE = 4" by (simp add: COUNTER_SIZE_def)
  have sizes: "sub64 (u_used u) (u_off u) = np" "add64 n np = n + np" "add64 (n + np) COUNTER_SIZE = n + np + COUNTER_SIZE"
      "add64 np COUNTER_SIZE = np + COUNTER_SIZE"
    using b n by (simp_all add: np_def sub64_eq add64_eq counter)
  let ?h = "\<lambda>tmp. (u_heap u)(u_next u \<mapsto> (1, tmp))"
  define give where "give tmp =
      (if is_referenced u then
         rbind (push_finalizer Z (u_buffer u) (the_zone u)) (\<lambda>z. Inr (set_referenced False (set_zone z (u\<lparr>u_heap := ?h tmp\<rparr>))))
       else rbind (decr_refs (u_buffer u) (?h tmp)) (\<lambda>h. Inr (u\<lparr>u_heap := h\<rparr>)))" for tmp
  have "rbind (bytes_at (drop (u_off u) bs) np) (\<lambda>p. rbind (memcpy (replicate nx 0) COUNTER_SIZE p) (\<lambda>tmp.
      rbind (give tmp) (\<lambda>w. Inr (w\<lparr>u_buffer := u_next w, u_next := u_next w + 1, u_used := np + COUNTER_SIZE,
        u_free := sub64 nx (np + COUNTER_SIZE), u_off := COUNTER_SIZE\<rparr>)))) = Inr v" and le: "nx \<le> avail"
    using run b(1) unfolding replace_buffer_def Let_def sizes nx_def [symmetric] give_def [symmetric]
    by (simp_all add: buffer_at_def split: if_splits)
  then obtain p tmp w where run': "memcpy (replicate nx 0) COUNTER_SIZE p = Inr tmp" "give tmp = Inr w"
      "v = w\<lparr>u_buffer := u_next w, u_next := u_next w + 1, u_used := np + COUNTER_SIZE,
        u_free := sub64 nx (np + COUNTER_SIZE), u_off := COUNTER_SIZE\<rparr>"
    by auto
  have ge: "n + np + COUNTER_SIZE \<le> nx" by (simp only: nx_def expanded_size_enough)
  then have free: "sub64 nx (np + COUNTER_SIZE) = nx - (np + COUNTER_SIZE)"
    using le b(7) by (intro sub64_eq) simp_all
  have len: "length tmp = nx" using run'(1) by (auto simp: memcpy_def split: if_splits)
  note new = fresh_buffer [OF w c]
  let ?own = "\<lambda>z b. (if b = u_next u then 1 else 0) + count_list (concat (map (zone_finalizers Z) (z # zs))) b"
  have at: "count_ok (?h tmp b) (owners Z u zs b + (if b = u_next u then 1 else 0))" for b
    using c new by (auto simp: counted_def owners_def count_list_0_iff)
  have "\<exists>z. u_heap w (u_next u) \<noteq> None \<and> (\<forall>b. count_ok (u_heap w b) (?own z b)) \<and> survives (?h tmp) (u_heap w) \<and>
      the_zone w = z \<and> \<not> is_referenced w \<and> context_ok (u_ctx w) \<and> u_next w = u_next u \<and> u_initial w = u_initial u \<and>
      distinct (zone_finalizers Z z) \<and> u_next u \<notin> set (zone_finalizers Z z)"
  proof (cases "is_referenced u")
    case True
    then obtain z where z: "push_finalizer Z (u_buffer u) (the_zone u) = Inr z"
        "w = set_referenced False (set_zone z (u\<lparr>u_heap := ?h tmp\<rparr>))"
      using run'(2) unfolding give_def by (cases "push_finalizer Z (u_buffer u) (the_zone u)") auto
    have "count_ok (?h tmp b) (?own z b)" for b
      using at [of b] push_finalizers [OF z(1)] by (simp add: owners_def split: if_splits)
    moreover have "distinct (zone_finalizers Z z)" "u_next u \<notin> set (zone_finalizers Z z)"
      using push_finalizers [OF z(1)] c new by (auto simp: counted_def)
    ultimately show ?thesis using z(2) ctx by auto
  next
    case False
    have "count_ok (?h tmp b) (?own (the_zone u) b + (if b = u_buffer u then 1 else 0))" for b
      using at [of b] by (simp add: owners_def ac_simps split: if_splits)
    then have "\<forall>b. count_ok (?h tmp b) (?own (the_zone u) b + (if b = u_buffer u then 1 else 0))" by blast
    from decr_refs_ok [OF this] obtain h where
      h: "decr_refs (u_buffer u) (?h tmp) = Inr h" "\<forall>b. count_ok (h b) (?own (the_zone u) b)" "survives (?h tmp) h"
      by blast
    have "w = u\<lparr>u_heap := h\<rparr>" using run'(2) False h(1) by (simp add: give_def)
    moreover have "h (u_next u) \<noteq> None" using h(2) [rule_format, of "u_next u"] by (cases "h (u_next u)") auto
    ultimately show ?thesis
      using h c new ctx False by (auto simp: counted_def the_zone_def is_referenced_def)
  qed
  then obtain z where z: "u_heap w (u_next u) \<noteq> None" "\<forall>b. count_ok (u_heap w b) (?own z b)"
      "survives (?h tmp) (u_heap w)" "the_zone w = z" "\<not> is_referenced w" "context_ok (u_ctx w)" "u_next w = u_next u"
      "u_initial w = u_initial u" "distinct (zone_finalizers Z z)" "u_next u \<notin> set (zone_finalizers Z z)" by blast
  have v: "u_heap v = u_heap w" "u_buffer v = u_next u" "u_next v = u_next u + 1" "u_used v = np + COUNTER_SIZE"
      "u_free v = nx - (np + COUNTER_SIZE)" "u_off v = COUNTER_SIZE" "u_initial v = u_initial u" "u_ctx v = u_ctx w"
      "the_zone v = z" "is_referenced v = is_referenced w"
    using z by (simp_all add: run'(3) free the_zone_def is_referenced_def)
  have "u_heap w b = None" if "b > u_next u" for b
    using \<open>in_window avail u\<close> that by (intro survives_none [OF z(3)]) (simp add: in_window_def)
  moreover from z(1) obtain d cs where "u_heap w (u_next u) = Some (d, cs)" by auto
  moreover from survivesD [OF z(3) this] have "cs = tmp" by simp
  ultimately have "in_window avail v"
    using w ge le len by (auto simp: in_window_def v)
  moreover have "counted Z zs v"
    using z(2,5,9,10) c new(3) by (simp add: counted_def v owners_def)
  moreover have "preserves Z zs u v"
    unfolding preserves_def
  proof (intro ballI)
    fix y a assume y: "y \<in> set zs" "a \<in> set (zone_finalizers Z y)"
    then have a: "a \<noteq> u_next u" "0 < ?own z a" using new(3) by (auto simp: count_list_0_iff intro!: Nat.gr0I)
    from survives_bytes [OF z(3,2) a(2)] a(1) show "prefix (parsed_bytes u a) (parsed_bytes v a)"
      by (auto simp: parsed_bytes_def block_bytes_def v take_is_prefix)
  qed
  ultimately show ?thesis using z(6) by (simp add: good_def v)
qed

lemma good_reserve:
  assumes u: "good Z avail zs u" and n: "n \<le> 2 ^ 62" and run: "reserve_buffer Z avail n u = Inr v"
  shows "good Z avail zs v \<and> preserves Z zs u v"
proof (cases "n \<le> u_free u")
  case False
  from u obtain c bs where b: "u_heap u (u_buffer u) = Some (c, bs)"
    by (auto simp: good_def elim: in_windowE)
  define rewind where "rewind = (u_used u = u_off u \<and> c = 1 \<and> \<not> is_referenced u)"
  define w where "w = (if rewind then rewind_buffer u else u)"
  have w: "good Z avail zs w" "preserves Z zs u w"
    using good_rewind [OF u] u b by (auto simp: w_def rewind_def)
  have "reserve_buffer Z avail n u = (if rewind \<and> n \<le> u_free w then Inr w
      else if u_off w = COUNTER_SIZE then grow_buffer avail n w else replace_buffer Z avail n w)"
    using False b
    by (simp add: reserve_buffer_def unpacker_expand_buffer_def buffer_at_def Let_def rewind_def w_def)
  then show ?thesis
    using run w good_grow [OF w(1) _ n] good_replace [OF w(1) n]
    by (auto split: if_splits intro: preserves_trans)
qed (use run u in \<open>simp add: reserve_buffer_def\<close>)

section \<open>Bytes and objects\<close>

lemma good_copy:
  assumes u: "good Z avail zs u" and p: "length p \<le> u_free u"
  shows "\<exists>v. copy_to_buffer p u = Inr v \<and> good Z avail zs (buffer_consumed (length p) v) \<and>
    preserves Z zs u (buffer_consumed (length p) v)"
proof -
  have w: "in_window avail u" and c: "counted Z zs u" and ctx: "context_ok (u_ctx u)" using u by (simp_all add: good_def)
  from w obtain k bs where b: "u_heap u (u_buffer u) = Some (k, bs)" "block_bytes (u_heap u) (u_buffer u) = bs"
      "u_used u + u_free u \<le> length bs" "length bs \<le> avail" "COUNTER_SIZE \<le> u_off u" "u_off u \<le> u_used u"
      "avail \<le> 2 ^ 62" "u_buffer u < u_next u" by (rule in_windowE)
  let ?bs = "take (u_used u) bs @ p @ drop (u_used u + length p) bs"
  let ?v = "u\<lparr>u_heap := (u_heap u)(u_buffer u \<mapsto> (k, ?bs))\<rparr>"
  let ?w = "buffer_consumed (length p) ?v"
  have run: "copy_to_buffer p u = Inr ?v"
    using b p by (simp add: copy_to_buffer_def buffer_at_def memcpy_def)
  have "add64 (u_used u) (length p) = u_used u + length p" "sub64 (u_free u) (length p) = u_free u - length p"
    using b p by (simp_all add: add64_eq sub64_eq)
  then have v: "u_used ?w = u_used u + length p" "u_free ?w = u_free u - length p" "u_buffer ?w = u_buffer u"
      "u_heap ?w = u_heap ?v" "u_off ?w = u_off u" "u_next ?w = u_next u" "u_initial ?w = u_initial u"
      "u_ctx ?w = u_ctx u" "the_zone ?w = the_zone u" "is_referenced ?w = is_referenced u"
    by (simp_all add: buffer_consumed_def the_zone_def is_referenced_def)
  have "length ?bs = length bs" using b(3) p by simp
  then have "in_window avail ?w" using w b p by (auto simp: in_window_def v)
  moreover have "count_ok (u_heap ?w a) (owners Z ?w zs a)" for a
  proof -
    have "count_ok (u_heap u a) (owners Z u zs a)" using c by (simp add: counted_def)
    moreover have "owners Z ?w zs a = owners Z u zs a" by (simp add: owners_def v)
    ultimately show ?thesis using b(1) by (cases "a = u_buffer u") (simp_all add: v)
  qed
  then have "counted Z zs ?w" using c by (simp add: counted_def v)
  moreover have "preserves Z zs u ?w"
    using b by (auto simp: preserves_def parsed_bytes_def block_bytes_def v)
  ultimately show ?thesis using run ctx by (auto simp: good_def v)
qed

text \<open>A call of the decoder; at the end of an object its state is no longer one to go on from.\<close>

lemma execute_imp_good:
  assumes u: "good Z avail zs u" and run: "execute_imp Z u = Some (Inr (ret, v))" "0 \<le> ret"
  shows "in_window avail v \<and> counted Z zs v \<and> preserves Z zs u v \<and> m_stack (u_ctx v) \<noteq> [] \<and>
    (ret = 0 \<longrightarrow> context_ok (u_ctx v))"
proof -
  have w: "in_window avail u" and c: "counted Z zs u" and ctx: "context_ok (u_ctx u)" using u by (simp_all add: good_def)
  from w obtain k bs where b: "u_heap u (u_buffer u) = Some (k, bs)" "block_bytes (u_heap u) (u_buffer u) = bs"
      "u_used u + u_free u \<le> length bs" "length bs \<le> avail" "COUNTER_SIZE \<le> u_off u" "u_off u \<le> u_used u"
      "avail \<le> 2 ^ 62" "u_buffer u < u_next u" by (rule in_windowE)
  let ?data = "take (u_used u) bs" and ?Q = "\<lambda>z. zone_finalizers Z z = zone_finalizers Z (the_zone u)"
  have data: "bytes_at bs (u_used u) = Inr ?data" "length ?data = u_used u" using b by (simp_all add: bytes_at_def)
  obtain off d where d: "execute (zone_alloc Z) ?data (u_off u) (u_ctx u) = Some (Inr (ret, off, d))"
      "u_ctx v = d" "u_off v = off" "u_heap v = u_heap u" "u_buffer v = u_buffer u" "u_used v = u_used u"
      "u_free v = u_free u" "u_next v = u_next u" "u_initial v = u_initial u"
    using run(1) b(1) data(1)
    by (cases "execute (zone_alloc Z) ?data (u_off u) (u_ctx u)") (auto simp: execute_imp_def buffer_at_def)
  have "alloc_keeps (zone_alloc Z) ?Q" using alloc_finalizers by (auto simp: alloc_keeps_def)
  note keeps = execute_keeps [OF alloc_throws this _ _ _ d(1) run(2)]
  have "m_stack (u_ctx u) \<noteq> []" "m_cs (u_ctx u) \<noteq> 0 \<Longrightarrow> trail_ok (m_cs (u_ctx u)) (m_trail (u_ctx u))"
      "?Q (zone (m_user (u_ctx u)))" "u_off u \<le> length ?data"
    using ctx b(6) data(2) by (auto simp: context_ok_def the_zone_def)
  from keeps [OF this] have
    e: "off = m_current d" "off \<le> u_used u" "m_stack d \<noteq> []" "ret = 0 \<longrightarrow> decoder_inv ?data False d"
      "went ?Q (u_off u) (is_referenced u) d"
    unfolding data(2) is_referenced_def by blast+
  then have z: "zone_finalizers Z (the_zone v) = zone_finalizers Z (the_zone u)" "u_off u \<le> u_off v"
      "is_referenced v \<Longrightarrow> is_referenced u \<or> u_off u < u_off v"
    by (auto simp: went_def the_zone_def is_referenced_def d)
  have "in_window avail v" using w z(2) e(2) by (auto simp: in_window_def d)
  moreover have "counted Z zs v"
  proof -
    have "owners Z v zs b = owners Z u zs b" for b by (simp add: owners_def d z)
    moreover have "u_off v = COUNTER_SIZE \<Longrightarrow> u_off u = COUNTER_SIZE \<and> (is_referenced v \<longrightarrow> is_referenced u)"
      using z(2,3) b(5) by auto
    ultimately show ?thesis using c by (auto simp: counted_def d z)
  qed
  moreover have "preserves Z zs u v"
    using z(2) by (auto simp: preserves_def parsed_bytes_def d intro: take_prefix_mono)
  moreover have "ret = 0 \<longrightarrow> context_ok d" using e(4) by (simp add: decoder_inv_def context_ok_def)
  ultimately show ?thesis using e(3) by (simp add: d)
qed

text \<open>
  A zone that is given away takes a reference to the buffer with it, if its objects refer to it.
\<close>

lemma release_good:
  assumes u: "in_window avail u" "counted Z zs u" "length zs < 2 ^ 32 - 2"
    and run: "release_zone Z u = Inr (zo, v)"
  shows "(case zo of
      None \<Rightarrow> v = u
    | Some z \<Rightarrow> in_window avail v \<and> counted Z (z # zs) v \<and> preserves Z zs u v \<and> m_stack (u_ctx v) = m_stack (u_ctx u) \<and>
        (is_referenced u \<longrightarrow> u_buffer v \<in> set (zone_finalizers Z z)))"
proof (cases zo)
  case None
  then show ?thesis using run by (auto simp: release_zone_def flush_zone_def split: if_splits sum.splits fault.splits)
next
  case (Some z)
  then obtain w y where w: "flush_zone Z u = Inr (True, w)" "next_zone Z (the_zone w) = Inr y" "z = the_zone w"
      "v = set_zone y w"
    using run by (auto simp: release_zone_def split: if_splits)
  note y = next_finalizers [OF w(2)]
  have off: "is_referenced u \<Longrightarrow> u_off u \<noteq> COUNTER_SIZE" and
    fins: "\<forall>x \<in> set (the_zone u # zs). distinct (zone_finalizers Z x)" "u_buffer u \<notin> set (zone_finalizers Z (the_zone u))"
    using u(2) by (auto simp: counted_def)
  have v: "m_stack (u_ctx v) = m_stack (u_ctx w)" by (simp add: w(4) set_zone_def)
  show ?thesis
  proof (cases "is_referenced u")
    case False
    then have "w = u" using w(1) by (simp add: flush_zone_def)
    then have "in_window avail v" "counted Z (z # zs) v" "preserves Z zs u v"
      using u y w False fins by (auto simp: in_window_def counted_def owners_def preserves_def parsed_bytes_def)
    then show ?thesis using Some False v \<open>w = u\<close> by simp
  next
    case True
    then obtain x h where x: "push_finalizer Z (u_buffer u) (the_zone u) = Inr x" "incr_refs (u_buffer u) (u_heap u) = Inr h"
        "w = set_referenced False (set_zone x (u\<lparr>u_heap := h\<rparr>))"
      using w(1) by (auto simp: flush_zone_def split: sum.splits fault.splits)
    note fx = push_finalizers [OF x(1)]
    have "0 < owners Z u zs (u_buffer u)" by (simp add: owners_def)
    moreover have "owners Z u zs (u_buffer u) + 1 < 2 ^ 32" using owners_few [OF fins] u(3) by simp
    ultimately obtain h' where "incr_refs (u_buffer u) (u_heap u) = Inr h'"
        "\<forall>b. count_ok (h' b) (owners Z u zs b + (if b = u_buffer u then 1 else 0))"
        "\<forall>b. block_bytes h' b = block_bytes (u_heap u) b" "\<forall>b. h' b = None \<longleftrightarrow> u_heap u b = None"
      using incr_refs_ok [of "u_heap u" "owners Z u zs" "u_buffer u"] u(2) by (auto simp: counted_def)
    then have h: "\<forall>b. count_ok (h b) (owners Z u zs b + (if b = u_buffer u then 1 else 0))"
        "\<forall>b. block_bytes h b = block_bytes (u_heap u) b" "\<forall>b. h b = None \<longleftrightarrow> u_heap u b = None"
      using x(2) by auto
    have z: "zone_finalizers Z z = u_buffer u # zone_finalizers Z (the_zone u)" using w(3) x(3) fx by simp
    have vs: "u_heap v = h" "u_buffer v = u_buffer u" "u_off v = u_off u" "the_zone v = y" "\<not> is_referenced v"
        "u_used v = u_used u" "u_free v = u_free u" "u_next v = u_next u" "u_initial v = u_initial u"
      by (simp_all add: w(4) x(3))
    have "in_window avail v"
    proof -
      obtain c bs where "u_heap u (u_buffer u) = Some (c, bs)" using u(1) by (auto simp: in_window_def)
      moreover from this obtain d where "h (u_buffer u) = Some (d, bs)"
        using h(2) [rule_format, of "u_buffer u"] h(3) [rule_format, of "u_buffer u"]
        by (cases "h (u_buffer u)") (auto simp: block_bytes_def)
      ultimately show ?thesis using u(1) h(3) by (auto simp: in_window_def vs)
    qed
    moreover have "owners Z v (z # zs) b = owners Z u zs b + (if b = u_buffer u then 1 else 0)" for b
      by (simp add: owners_def vs y z)
    then have "counted Z (z # zs) v"
      using h(1) off [OF True] fins by (simp add: counted_def vs y z)
    moreover have "preserves Z zs u v"
      using h(2) by (simp add: preserves_def parsed_bytes_def vs)
    moreover have "m_stack (u_ctx v) = m_stack (u_ctx u)"
      by (simp add: w(4) x(3) set_zone_def set_referenced_def)
    ultimately show ?thesis using Some z vs by simp
  qed
qed

text \<open>A zone with finalizers that are all owners can be destroyed.\<close>

lemma destroy_good:
  assumes u: "good Z avail (xs @ z # ys) u"
  shows "\<exists>v. destroy_zone Z z u = Inr v \<and> good Z avail (xs @ ys) v \<and> preserves Z (xs @ ys) u v"
proof -
  have w: "in_window avail u" and c: "counted Z (xs @ z # ys) u" and ctx: "context_ok (u_ctx u)"
    using u by (simp_all add: good_def)
  have "count_ok (u_heap u b) (owners Z u (xs @ ys) b + count_list (zone_finalizers Z z) b)" for b
    using c by (simp add: counted_def owners_def ac_simps)
  then obtain h where h: "decr_all (zone_finalizers Z z) (u_heap u) = Inr h" "\<forall>b. count_ok (h b) (owners Z u (xs @ ys) b)"
      "survives (u_heap u) h"
    using decr_all_ok [of "u_heap u" "owners Z u (xs @ ys)" "zone_finalizers Z z"] by auto
  let ?v = "u\<lparr>u_heap := h\<rparr>"
  have same: "owners Z ?v zs b = owners Z u zs b" for zs b by (simp add: owners_def the_zone_def)
  have "in_window avail ?v \<and> preserves Z (xs @ ys) u ?v"
    by (rule given_back [OF w h(3)]) (simp_all add: same h(2))
  moreover have "counted Z (xs @ ys) ?v"
    using c h(2) by (simp add: counted_def same) (simp add: the_zone_def is_referenced_def)
  ultimately show ?thesis using h(1) ctx by (simp add: destroy_zone_def good_def)
qed

lemma reset_zone_good:
  assumes u: "good Z avail zs u" and run: "reset_zone Z u = Inr v"
  shows "good Z avail zs v \<and> preserves Z zs u v"
proof -
  have w: "in_window avail u" and c: "counted Z zs u" and ctx: "context_ok (u_ctx u)" using u by (simp_all add: good_def)
  let ?n = "\<lambda>b. (if b = u_buffer u then 1 else 0) + count_list (concat (map (zone_finalizers Z) zs)) b"
  have "count_ok (u_heap u b) (?n b + count_list (zone_finalizers Z (the_zone u)) b)" for b
    using c by (simp add: counted_def owners_def ac_simps)
  then obtain h where h: "decr_all (zone_finalizers Z (the_zone u)) (u_heap u) = Inr h" "\<forall>b. count_ok (h b) (?n b)"
      "survives (u_heap u) h"
    using decr_all_ok [of "u_heap u" ?n "zone_finalizers Z (the_zone u)"] by auto
  obtain z where z: "clear_zone Z (the_zone u) = Inr z" "v = set_zone z (u\<lparr>u_heap := h\<rparr>)"
    using run h(1) by (auto simp: reset_zone_def)
  note fz = clear_finalizers [OF z(1)]
  have "owners Z v zs b = ?n b" for b by (simp add: owners_def z(2) fz)
  then have own: "\<forall>b. count_ok (h b) (owners Z v zs b)" using h(2) by simp
  have "in_window avail v \<and> preserves Z zs u v"
    by (rule given_back [OF w h(3) _ _ _ _ _ _ _ own]) (simp_all add: z(2))
  moreover have "u_heap v = h" "the_zone v = z" "u_buffer v = u_buffer u" "u_off v = u_off u"
      "is_referenced v = is_referenced u"
    by (simp_all add: z(2)) (simp add: is_referenced_def)
  then have "counted Z zs v" using c own fz by (simp add: counted_def)
  ultimately show ?thesis using ctx by (simp add: good_def z(2))
qed

end

end
