(* ===== verification/Msgpack_Unpacker_Client.thy ===== *)
theory Msgpack_Unpacker_Client
  imports Msgpack_Unpacker_Counts
begin

text \<open>
  A client of the streaming decoder that uses its operations in any order and keeps
  what it is given for as long as it likes: the steps it can take, and what holds of
  the buffers after each.
\<close>

section \<open>Steps\<close>

text \<open>
  What the client was given: the zone, the buffer that \<open>next\<close> said the object refers to, and, for
  the proof only, the bytes that were parsed in each buffer the zone owns.
\<close>

record 'z given =
  g_zone :: 'z
  g_buffer :: "nat option"
  g_bytes :: "(nat \<times> byte list) list"

type_synonym 'z client = "'z unpacker \<times> 'z given list"

definition give :: "'z zone_operations \<Rightarrow> 'z unpacker \<Rightarrow> 'z \<Rightarrow> bool \<Rightarrow> 'z given" where
  "give Z u z refd =
     \<lparr>g_zone = z, g_buffer = (if refd then Some (u_buffer u) else None),
      g_bytes = map (\<lambda>b. (b, parsed_bytes u b)) (zone_finalizers Z z)\<rparr>"

text \<open>
  The client asks for less than \<open>2 ^ 62\<close> bytes, writes no more than there is room for, and keeps
  fewer objects than a count of 32 bits can count. A call that throws ends its use of the unpacker.
\<close>

inductive client_step :: "'z zone_operations \<Rightarrow> nat \<Rightarrow> 'z client \<Rightarrow> 'z client \<Rightarrow> bool" for Z avail where
  Reserve: "n \<le> 2 ^ 62 \<Longrightarrow> reserve_buffer Z avail n u = Inr v \<Longrightarrow> client_step Z avail (u, gs) (v, gs)"
| Receive: "length p \<le> buffer_capacity u \<Longrightarrow> copy_to_buffer p u = Inr v \<Longrightarrow>
    client_step Z avail (u, gs) (buffer_consumed (length p) v, gs)"
| Await: "next_object Z u = Some (Inr (None, v)) \<Longrightarrow> client_step Z avail (u, gs) (v, gs)"
| Take: "length gs < 2 ^ 32 - 2 \<Longrightarrow> next_object Z u = Some (Inr (Some (x, Some z, refd), v)) \<Longrightarrow>
    client_step Z avail (u, gs) (v, give Z v z refd # gs)"
| Take_null: "length gs < 2 ^ 32 - 2 \<Longrightarrow> next_object Z u = Some (Inr (Some (x, None, refd), v)) \<Longrightarrow>
    client_step Z avail (u, gs) (v, gs)"
| Drop: "destroy_zone Z (g_zone g) u = Inr v \<Longrightarrow> client_step Z avail (u, gs @ g # ks) (v, gs @ ks)"
| Parse: "unpacker_execute Z u = Some (Inr (False, v)) \<Longrightarrow> client_step Z avail (u, gs) (v, gs)"
| Parse_reset: "unpacker_execute Z u = Some (Inr (True, v)) \<Longrightarrow> client_step Z avail (u, gs) (unpacker_reset v, gs)"
| Reset: "client_step Z avail (u, gs) (unpacker_reset u, gs)"
| Reset_zone: "reset_zone Z u = Inr v \<Longrightarrow> client_step Z avail (u, gs) (v, gs)"
| Skip: "n \<le> nonparsed_size u \<Longrightarrow> client_step Z avail (u, gs) (skip_nonparsed_buffer n u, gs)"
| Remove: "client_step Z avail (u, gs) (remove_nonparsed_buffer u, gs)"

inductive client_run :: "'z zone_operations \<Rightarrow> nat \<Rightarrow> 'z client \<Rightarrow> 'z client \<Rightarrow> bool" for Z avail s where
  run_start: "client_run Z avail s s"
| run_step: "client_run Z avail s t \<Longrightarrow> client_step Z avail t t' \<Longrightarrow> client_run Z avail s t'"

inductive_cases client_stepE: "client_step Z avail (u, gs) s"

section \<open>The invariant\<close>

definition intact :: "'z zone_operations \<Rightarrow> 'z unpacker \<Rightarrow> 'z given \<Rightarrow> bool" where
  "intact Z u g \<longleftrightarrow>
     (\<forall>(b, s) \<in> set (g_bytes g). b \<in> set (zone_finalizers Z (g_zone g)) \<and> prefix s (parsed_bytes u b)) \<and>
     (\<forall>b. g_buffer g = Some b \<longrightarrow> b \<in> fst ` set (g_bytes g))"

definition client_ok :: "'z zone_operations \<Rightarrow> nat \<Rightarrow> 'z client \<Rightarrow> bool" where
  "client_ok Z avail s \<longleftrightarrow>
     good Z avail (map g_zone (snd s)) (fst s) \<and> (\<forall>g \<in> set (snd s). intact Z (fst s) g)"

lemma intact_preserved:
  assumes "intact Z u g" "preserves Z zs u v" "g_zone g \<in> set zs"
  shows "intact Z v g"
  using assms unfolding intact_def preserves_def by (fastforce intro: prefix_order.trans)

lemma client_ok_preserved:
  assumes "client_ok Z avail (u, gs)" "good Z avail (map g_zone ks) v" "preserves Z (map g_zone ks) u v" "set ks \<subseteq> set gs"
  shows "client_ok Z avail (v, ks)"
proof -
  have "intact Z v g" if "g \<in> set ks" for g
    by (rule intact_preserved [OF _ assms(3)]) (use assms(1,4) that in \<open>auto simp: client_ok_def\<close>)
  then show ?thesis using assms(2) by (simp add: client_ok_def)
qed

text \<open>Operations that change neither buffers nor zones.\<close>

lemma reset_good:
  assumes "in_window avail u" "counted Z zs u" "m_stack (u_ctx u) \<noteq> []"
  shows "good Z avail zs (unpacker_reset u) \<and> preserves Z zs u (unpacker_reset u)"
  using assms
  by (simp add: good_def in_window_def counted_def owners_def preserves_def parsed_bytes_def unpacker_reset_def
      context_init_def context_ok_def the_zone_def is_referenced_def)

lemma skip_good:
  assumes u: "good Z avail zs u" and n: "n \<le> nonparsed_size u"
  shows "good Z avail zs (skip_nonparsed_buffer n u) \<and> preserves Z zs u (skip_nonparsed_buffer n u)"
proof -
  from u obtain c bs where b: "u_heap u (u_buffer u) = Some (c, bs)" "block_bytes (u_heap u) (u_buffer u) = bs"
      "u_used u + u_free u \<le> length bs" "length bs \<le> avail" "COUNTER_SIZE \<le> u_off u" "u_off u \<le> u_used u"
      "avail \<le> 2 ^ 62" "u_buffer u < u_next u" by (auto simp: good_def elim: in_windowE)
  have "nonparsed_size u = u_used u - u_off u" using b by (simp add: nonparsed_size_def sub64_eq)
  then have le: "u_off u + n \<le> u_used u" using n b(6) by simp
  then have "add64 (u_off u) n = u_off u + n" using b by (simp add: add64_eq)
  then have v: "skip_nonparsed_buffer n u = u\<lparr>u_off := u_off u + n\<rparr>" by (simp add: skip_nonparsed_buffer_def)
  show ?thesis
    using u le b(5) unfolding v
    by (auto simp: good_def in_window_def counted_def owners_def preserves_def parsed_bytes_def the_zone_def
        is_referenced_def intro: take_prefix_mono)
qed

lemma remove_good:
  "good Z avail zs u \<Longrightarrow> good Z avail zs (remove_nonparsed_buffer u) \<and> preserves Z zs u (remove_nonparsed_buffer u)"
  by (auto simp: good_def in_window_def counted_def owners_def preserves_def parsed_bytes_def the_zone_def
      is_referenced_def remove_nonparsed_buffer_def)

lemma next_objectE:
  assumes "next_object Z u = Some (Inr (r, v))"
  obtains (wait) "execute_imp Z u = Some (Inr (0, v))" "r = None"
  | (object) ret w z y where "execute_imp Z u = Some (Inr (ret, w))" "0 < ret" "release_zone Z w = Inr (z, y)"
      "r = Some (unpacker_data y, z, is_referenced w)" "v = unpacker_reset y"
  using assms by (auto simp: next_object_def Let_def split: if_splits)

context finalizing_zone
begin

lemma next_good:
  assumes u: "good Z avail zs u" "length zs < 2 ^ 32 - 2" and run: "next_object Z u = Some (Inr (r, v))"
  shows "(case r of
      Some (x, Some z, refd) \<Rightarrow> good Z avail (z # zs) v \<and> preserves Z zs u v \<and>
        (refd \<longrightarrow> u_buffer v \<in> set (zone_finalizers Z z))
    | _ \<Rightarrow> good Z avail zs v \<and> preserves Z zs u v)"
  using run
proof (cases rule: next_objectE)
  case wait
  then show ?thesis using execute_imp_good [OF u(1)] by (auto simp: good_def)
next
  case (object ret w z y)
  have w: "in_window avail w" "counted Z zs w" "preserves Z zs u w" "m_stack (u_ctx w) \<noteq> []"
    using execute_imp_good [OF u(1) object(1)] object(2) by auto
  note y = release_good [OF w(1,2) u(2) object(3)]
  show ?thesis
  proof (cases z)
    case None
    then show ?thesis using y reset_good [OF w(1,2,4)] object w(3) by (auto intro: preserves_trans)
  next
    case (Some x)
    have p: "in_window avail y" "counted Z (x # zs) y" "preserves Z zs w y" "m_stack (u_ctx y) \<noteq> []"
        "is_referenced w \<longrightarrow> u_buffer y \<in> set (zone_finalizers Z x)"
      using y w(4) Some by auto
    have "preserves Z zs y (unpacker_reset y)"
      using reset_good [OF p(1,2,4)] by (simp add: preserves_def)
    then show ?thesis
      using reset_good [OF p(1,2,4)] p(3,5) w(3) object Some
      by (auto intro: preserves_trans) (simp add: unpacker_reset_def)
  qed
qed

lemma step_ok:
  assumes "client_step Z avail s t" "client_ok Z avail s"
  shows "client_ok Z avail t"
  using assms
proof (cases rule: client_step.cases)
  case (Reserve n u v gs)
  then have "good Z avail (map g_zone gs) u" using assms(2) by (simp add: client_ok_def)
  with Reserve good_reserve [OF this Reserve(3,4)] show ?thesis
    using client_ok_preserved [of Z avail u gs gs v] assms(2) by simp
next
  case (Receive p u v gs)
  then have "good Z avail (map g_zone gs) u" using assms(2) by (simp add: client_ok_def)
  from good_copy [OF this, of p] Receive show ?thesis
    using client_ok_preserved [of Z avail u gs gs] assms(2) by (auto simp: buffer_capacity_def)
next
  case (Drop g u v gs ks)
  then have "good Z avail (map g_zone gs @ g_zone g # map g_zone ks) u" using assms(2) by (simp add: client_ok_def)
  from destroy_good [OF this] Drop show ?thesis
    using client_ok_preserved [of Z avail u "gs @ g # ks" "gs @ ks" v] assms(2) by auto
next
  case (Take gs u x z refd v)
  then have "good Z avail (map g_zone gs) u" using assms(2) by (simp add: client_ok_def)
  from next_good [OF this _ Take(4)] Take(3) have
    n: "good Z avail (z # map g_zone gs) v" "preserves Z (map g_zone gs) u v"
      "refd \<longrightarrow> u_buffer v \<in> set (zone_finalizers Z z)" by simp_all
  have "intact Z v (give Z v z refd)"
    using n(3) by (auto simp: intact_def give_def image_iff)
  moreover have "intact Z v g" if "g \<in> set gs" for g
    using that assms(2) n(2) Take(1) by (auto simp: client_ok_def intro: intact_preserved)
  ultimately show ?thesis using n(1) Take(2) by (simp add: client_ok_def give_def)
next
  case (Take_null gs u x refd v)
  then have "good Z avail (map g_zone gs) u" using assms(2) by (simp add: client_ok_def)
  from next_good [OF this _ Take_null(4)] Take_null show ?thesis
    using client_ok_preserved [of Z avail u gs gs v] assms(2) by simp
next
  case (Await u v gs)
  then have g: "good Z avail (map g_zone gs) u" using assms(2) by (simp add: client_ok_def)
  have "good Z avail (map g_zone gs) v \<and> preserves Z (map g_zone gs) u v"
    using Await(3)
  proof (cases rule: next_objectE)
    case wait
    then show ?thesis using execute_imp_good [OF g] by (auto simp: good_def)
  qed simp
  with Await show ?thesis using client_ok_preserved [of Z avail u gs gs v] assms(2) by simp
next
  case (Parse u v gs)
  then have g: "good Z avail (map g_zone gs) u" using assms(2) by (simp add: client_ok_def)
  have "execute_imp Z u = Some (Inr (0, v))" using Parse(3) by (auto simp: unpacker_execute_def split: if_splits)
  from execute_imp_good [OF g this] Parse show ?thesis
    using client_ok_preserved [of Z avail u gs gs v] assms(2) by (simp add: good_def)
next
  case (Parse_reset u v gs)
  then have g: "good Z avail (map g_zone gs) u" using assms(2) by (simp add: client_ok_def)
  obtain ret where "execute_imp Z u = Some (Inr (ret, v))" "0 \<le> ret"
    using Parse_reset(3) by (auto simp: unpacker_execute_def split: if_splits)
  from execute_imp_good [OF g this] have v: "in_window avail v" "counted Z (map g_zone gs) v"
      "preserves Z (map g_zone gs) u v" "m_stack (u_ctx v) \<noteq> []" by auto
  from reset_good [OF v(1,2,4)] preserves_trans [OF v(3)] Parse_reset show ?thesis
    using client_ok_preserved [of Z avail u gs gs "unpacker_reset v"] assms(2) by auto
next
  case (Reset u gs)
  then have "good Z avail (map g_zone gs) u" using assms(2) by (simp add: client_ok_def)
  then have "good Z avail (map g_zone gs) (unpacker_reset u) \<and> preserves Z (map g_zone gs) u (unpacker_reset u)"
    by (intro reset_good) (auto simp: good_def context_ok_def)
  with Reset show ?thesis using client_ok_preserved [of Z avail u gs gs] assms(2) by simp
next
  case (Reset_zone u v gs)
  then have "good Z avail (map g_zone gs) u" using assms(2) by (simp add: client_ok_def)
  from reset_zone_good [OF this Reset_zone(3)] Reset_zone show ?thesis
    using client_ok_preserved [of Z avail u gs gs v] assms(2) by simp
next
  case (Skip n u gs)
  then have "good Z avail (map g_zone gs) u" using assms(2) by (simp add: client_ok_def)
  from skip_good [OF this Skip(3)] Skip show ?thesis
    using client_ok_preserved [of Z avail u gs gs] assms(2) by simp
next
  case (Remove u gs)
  then have "good Z avail (map g_zone gs) u" using assms(2) by (simp add: client_ok_def)
  from remove_good [OF this] Remove show ?thesis
    using client_ok_preserved [of Z avail u gs gs] assms(2) by simp
qed

lemma new_ok:
  assumes "unpacker_new Z avail f lim n = Inr u" "avail \<le> 2 ^ 62"
  shows "client_ok Z avail (u, [])"
proof -
  obtain z where z: "first_zone Z = Inr z" using assms(1) by (auto simp: unpacker_new_def)
  note fz = first_finalizers [OF z]
  show ?thesis
    using assms z
    by (auto simp: unpacker_new_def Let_def client_ok_def good_def in_window_def counted_def owners_def fz
        context_ok_def set_referenced_def the_zone_def is_referenced_def context_init_def context_new_def
        split: if_splits)
qed

lemma run_ok:
  assumes "client_run Z avail (u, []) s" "unpacker_new Z avail f lim n = Inr u" "avail \<le> 2 ^ 62"
  shows "client_ok Z avail s"
  using assms(1) by induction (use new_ok [OF assms(2,3)] step_ok in auto)

text \<open>What is still owned is there, with the bytes it had.\<close>

lemma given_intact:
  assumes "client_ok Z avail (u, gs)" "g \<in> set gs" "(b, s) \<in> set (g_bytes g)"
  shows "\<exists>c bs. u_heap u b = Some (c, bs) \<and> prefix s bs"
proof -
  have c: "counted Z (map g_zone gs) u" and i: "intact Z u g"
    using assms(1,2) by (simp_all add: client_ok_def good_def)
  from i assms(3) have b: "b \<in> set (zone_finalizers Z (g_zone g))" "prefix s (parsed_bytes u b)"
    by (auto simp: intact_def)
  from owned_is_there [OF c _ b(1)] assms(2) obtain k bs where "u_heap u b = Some (k, bs)" by auto
  moreover have "prefix (parsed_bytes u b) (block_bytes (u_heap u) b)"
    by (simp add: parsed_bytes_def take_is_prefix)
  ultimately show ?thesis using b(2) by (auto simp: block_bytes_def intro: prefix_order.trans)
qed

text \<open>When the unpacker and all zones are gone, so are all buffers.\<close>

lemma all_freed:
  assumes "client_ok Z avail (u, gs)"
  shows "\<exists>h. unpacker_destroy Z u = Inr h \<and> decr_all (concat (map (zone_finalizers Z \<circ> g_zone) gs)) h = Inr (\<lambda>b. None)"
proof -
  have c: "counted Z (map g_zone gs) u" using assms by (simp add: client_ok_def good_def)
  let ?z = "zone_finalizers Z (the_zone u)" and ?g = "concat (map (zone_finalizers Z \<circ> g_zone) gs)"
  have "count_ok (u_heap u b) ((count_list ?g b + count_list ?z b) + (if b = u_buffer u then 1 else 0))" for b
    using c by (simp add: counted_def owners_def ac_simps)
  then have "\<forall>b. count_ok (u_heap u b) ((count_list ?g b + count_list ?z b) + (if b = u_buffer u then 1 else 0))" ..
  from decr_refs_ok [OF this] obtain h1 where h1: "decr_refs (u_buffer u) (u_heap u) = Inr h1"
      "\<forall>b. count_ok (h1 b) (count_list ?g b + count_list ?z b)" by blast
  from decr_all_ok [OF h1(2)] obtain h2 where h2: "decr_all ?z h1 = Inr h2" "\<forall>b. count_ok (h2 b) (0 + count_list ?g b)"
    by auto
  from decr_all_ok [OF h2(2)] obtain h3 where h3: "decr_all ?g h2 = Inr h3" "\<forall>b. count_ok (h3 b) 0" by auto
  have "h3 = (\<lambda>b. None)"
  proof
    fix b show "h3 b = None" using h3(2) [rule_format, of b] by (cases "h3 b") auto
  qed
  then show ?thesis using h1(1) h2(1) h3(1) by (auto simp: unpacker_destroy_def)
qed

end

end
