(* ===== verification/Rpc_Codec.thy ===== *)
theory Rpc_Codec
  imports Msgpack_Convert Msgpack_Roundtrip Msgpack_Safe Msgpack_Zone
begin

text \<open>
  The codec of \<open>src/3rd/inc/rest_rpc/codec.h\<close>: arguments and results as packed
  tuples. Here the parameters of the lower layers meet: the decoder allocates
  from a zone, the packer writes into an \<open>sbuffer\<close>.
\<close>

section \<open>The memory of the process\<close>

text \<open>
  The C allocator, the blocks that are live when a message is handled, and the
  largest block that can be had for a buffer.
\<close>

record memory =
  the_malloc :: malloc
  live :: blocks
  avail :: nat

definition zone_allocator :: "memory \<Rightarrow> (zone \<times> blocks) allocator" where
  "zone_allocator M = (\<lambda>(z, h) n align.
     rbind (zone_allocate_align (the_malloc M) n align z h) (\<lambda>(_, z, h). Inr (z, h)))"

text \<open>\<open>new msgpack::zone\<close>: the object itself, then its first chunk.\<close>

definition new_zone :: "memory \<Rightarrow> (zone \<times> blocks) result" where
  "new_zone M =
     (case the_malloc M (live M) sizeof_zone of
        None \<Rightarrow> Inl (Throw Bad_Alloc)
      | Some p \<Rightarrow> zone_new (the_malloc M) MSGPACK_ZONE_CHUNK_SIZE ((p, sizeof_zone) # live M))"

section \<open>Unpacking into a handle\<close>

text \<open>A computation that never ends is undefined behaviour: it has no effects.\<close>

definition ended :: "'a result option \<Rightarrow> 'a result" where
  "ended r = (case r of None \<Rightarrow> Inl (UB No_Progress) | Some x \<Rightarrow> x)"

text \<open>The reference version of \<open>unpack\<close>, into an \<open>object_handle\<close>: object and offset.\<close>

definition unpack_handle_at ::
    "memory \<Rightarrow> byte list \<Rightarrow> nat \<Rightarrow> (object_type \<Rightarrow> nat \<Rightarrow> bool) option \<Rightarrow> unpack_limit
     \<Rightarrow> (object \<times> nat \<times> bool) result" where
  "unpack_handle_at M data off f lim =
     rbind (new_zone M) (\<lambda>z.
     rbind (ended (unpack_imp (zone_allocator M) data off z NIL False f lim)) (\<lambda>(ret, noff, x, refd).
       case ret of
         PARSE_SUCCESS \<Rightarrow> Inr (x, noff, refd)
       | PARSE_EXTRA_BYTES \<Rightarrow> Inr (x, noff, refd)
       | PARSE_CONTINUE \<Rightarrow> Inl (Throw Insufficient_Bytes)
       | PARSE_PARSE_ERROR \<Rightarrow> Inl (Throw Parse_Error)))"

definition unpack_handle ::
    "memory \<Rightarrow> byte list \<Rightarrow> (object_type \<Rightarrow> nat \<Rightarrow> bool) option \<Rightarrow> unpack_limit \<Rightarrow> object result" where
  "unpack_handle M data f lim = rbind (unpack_handle_at M data 0 f lim) (\<lambda>(x, _, _). Inr x)"

section \<open>The codec\<close>

definition init_size :: nat where
  "init_size = 2 * 1024"

definition buffer_bytes :: "sbuffer \<Rightarrow> byte list" where
  "buffer_bytes b = take (m_size b) (m_data b)"

definition pack_args :: "memory \<Rightarrow> arg list \<Rightarrow> sbuffer result" where
  "pack_args M as =
     rbind (sbuffer_new (avail M) init_size) (\<lambda>buffer.
       pack_tuple (sbuffer_write (avail M)) buffer as)"

datatype result_code = OK | FAIL

fun code_value :: "result_code \<Rightarrow> 32 word" where
  "code_value OK = 0"
| "code_value FAIL = 1"

definition pack_args_str :: "memory \<Rightarrow> result_code \<Rightarrow> arg list \<Rightarrow> byte list result" where
  "pack_args_str M code as =
     rbind (sbuffer_new (avail M) init_size) (\<lambda>buffer.
     rbind (pack_tuple (sbuffer_write (avail M)) buffer (Int_Arg (code_value code) # as)) (\<lambda>buffer.
       Inr (buffer_bytes buffer)))"

text \<open>\<open>pack\<close> of one value; the buffer has the default size.\<close>

definition codec_pack :: "memory \<Rightarrow> arg \<Rightarrow> sbuffer result" where
  "codec_pack M a =
     rbind (sbuffer_new (avail M) MSGPACK_SBUFFER_INIT_SIZE) (\<lambda>buffer.
       pack_arg (sbuffer_write (avail M)) buffer a)"

text \<open>Every exception on the way becomes one \<open>invalid_argument\<close>.\<close>

definition codec_unpack :: "memory \<Rightarrow> arg_type list \<Rightarrow> byte list \<Rightarrow> arg list result" where
  "codec_unpack M ts data =
     (case rbind (unpack_handle M data None unpack_limit_default) (as_tuple ts) of
        Inl (Throw _) \<Rightarrow> Inl (Throw (Invalid_Argument ''unpack failed: Args not match!''))
      | r \<Rightarrow> r)"

section \<open>Behaviour\<close>

text \<open>Memory never runs out.\<close>

definition endless :: "memory \<Rightarrow> bool" where
  "endless M \<longleftrightarrow> (\<forall>h n. \<exists>p. the_malloc M h n = Some p) \<and> 2 ^ 64 \<le> avail M"

lemma get_aligned_1_8: "align \<in> {1, 8} \<Longrightarrow> \<exists>a. get_aligned p align = Inr a"
  by (auto simp: get_aligned_def)

lemma zone_allocator_total:
  assumes "endless M"
  shows "total_allocator (zone_allocator M)"
  unfolding total_allocator_def
proof (intro allI ballI)
  fix zh :: "zone \<times> blocks" and n a :: nat assume "a \<in> {alignof_char, alignof_object}"
  then have a: "a \<in> {1, 8}" by (simp add: alignof_char_def alignof_object_def)
  obtain z h where zh: "zh = (z, h)" by force
  from get_aligned_1_8 [OF a] obtain b where b: "get_aligned (m_ptr (m_chunk_list z)) a = Inr b" by blast
  let ?c = "add64 n (sub64 b (m_ptr (m_chunk_list z)))"
  show "\<exists>z'. zone_allocator M zh n a = Inr z'"
  proof (cases "m_free (m_chunk_list z) < ?c")
    case True
    obtain p where "the_malloc M h (add64 sizeof_chunk
        (expanded_size (sub64 (add64 n a) 1) (m_chunk_size z))) = Some p"
      using assms unfolding endless_def by blast
    then obtain p y g where y: "allocate_expand (the_malloc M) (sub64 (add64 n a) 1) z h = Inr (p, y, g)"
      unfolding allocate_expand_def Let_def by simp
    from get_aligned_1_8 [OF a] obtain d where "get_aligned p a = Inr d" by blast
    with b y True show ?thesis
      unfolding zone_allocator_def zone_allocate_align_def zh prod.case b rbind.simps Let_def y
      by simp
  qed (simp add: zone_allocator_def zone_allocate_align_def zh b)
qed

lemma new_zone_endless:
  assumes "endless M"
  shows "\<exists>z. new_zone M = Inr z"
proof -
  obtain p where p: "the_malloc M (live M) sizeof_zone = Some p"
    using assms unfolding endless_def by blast
  obtain c where "the_malloc M ((p, sizeof_zone) # live M) (add64 sizeof_chunk MSGPACK_ZONE_CHUNK_SIZE) = Some c"
    using assms unfolding endless_def by blast
  with p show ?thesis by (simp add: new_zone_def zone_new_def chunk_list_new_def)
qed

text \<open>For these alignments the zone throws when it fails.\<close>

lemma zone_allocator_sound: "sound_allocator (zone_allocator M)"
  unfolding sound_allocator_def
proof (intro allI ballI impI)
  fix zh :: "zone \<times> blocks" and n a :: nat and e
  assume "a \<in> {alignof_char, alignof_object}" and fail: "zone_allocator M zh n a = Inl e"
  then have a: "a \<in> {1, 8}" by (simp add: alignof_char_def alignof_object_def)
  obtain z h where zh: "zh = (z, h)" by force
  have no_ub: "get_aligned p a \<noteq> Inl d" for p d using get_aligned_1_8 [OF a, of p] by auto
  have "e = Throw Bad_Alloc"
    using fail no_ub
    by (auto simp: zone_allocator_def zone_allocate_align_def zh Let_def allocate_expand_def
        split: if_splits option.splits)
  then show "thrown e" by (simp add: thrown_def)
qed

text \<open>What is packed for a result, and what arrives for arguments.\<close>

lemma pack_args_str_result:
  assumes "endless M" "list_all arg_ok as" "length as < 2 ^ 32 - 1"
    and "length (enc (ARRAY (map object_of_arg (Int_Arg (code_value code) # as)))) < 2 ^ 64"
  shows "pack_args_str M code as = Inr (enc (ARRAY (map object_of_arg (Int_Arg (code_value code) # as))))"
proof -
  let ?as = "Int_Arg (code_value code) # as"
  have big: "\<not> avail M < 2 ^ 64" using assms(1) by (simp add: endless_def)
  then have "init_size \<le> avail M" by (simp add: init_size_def)
  then obtain b where b: "sbuffer_new (avail M) init_size = Inr b"
    by (auto simp: sbuffer_new_def init_size_def)
  from sbuffer_new_good [OF _ b] have good: "sbuffer_good b" "sbuffer_content b = []"
    by (simp_all add: init_size_def)
  have "sbuffer.emits (avail M) (\<lambda>s. pack_tuple (sbuffer_write (avail M)) s ?as)
      (enc (ARRAY (map object_of_arg ?as)))"
    using assms(2,3) by (intro sbuffer.emits_pack_tuple) simp_all
  from sbuffer.emits_total [OF this big good(1)] assms(4) good(2) obtain b' where
    "pack_tuple (sbuffer_write (avail M)) b ?as = Inr b'" "sbuffer_content b' = enc (ARRAY (map object_of_arg ?as))"
    by auto
  then show ?thesis by (simp add: pack_args_str_def b buffer_bytes_def sbuffer_content_def)
qed

lemma unpack_handle_at_unpack:
  "unpack_handle_at M data off f lim =
     rbind (new_zone M) (\<lambda>z. ended (unpack (zone_allocator M) data off z f lim))"
proof (cases "new_zone M")
  case (Inr z)
  show ?thesis
  proof (cases "unpack_imp (zone_allocator M) data off z NIL False f lim")
    case (Some r)
    then show ?thesis
      by (cases r) (auto simp: unpack_handle_at_def unpack_def ended_def Inr split: parse_return.split)
  qed (simp add: unpack_handle_at_def unpack_def ended_def Inr)
qed (simp add: unpack_handle_at_def)

lemma unpack_handle_enc:
  assumes "endless M" "object_ok x" "fits unpack_limit_default 1 x"
  shows "unpack_handle M (enc x @ extra) None unpack_limit_default = Inr x"
proof -
  obtain z where z: "new_zone M = Inr z" using new_zone_endless [OF assms(1)] by blast
  obtain refd where "unpack (zone_allocator M) (enc x @ extra) 0 z None unpack_limit_default =
      Some (Inr (x, length (enc x), refd))"
    using unpack_enc [OF assms(2) zone_allocator_total [OF assms(1)] assms(3), of "[]" extra z None]
    by auto
  then show ?thesis
    by (simp add: unpack_handle_def unpack_handle_at_unpack z ended_def)
qed

text \<open>Arguments arrive as they were sent; surplus ones are ignored.\<close>

lemma codec_unpack_args:
  assumes "endless M" "list_all arg_ok as" "list_all is_value as"
    and "list_all object_ok extra" "length as + length extra < 2 ^ 32"
    and "fits unpack_limit_default 1 (ARRAY (map object_of_arg as @ extra))"
  shows "codec_unpack M (map type_of_arg as) (enc (ARRAY (map object_of_arg as @ extra)) @ junk) = Inr as"
proof -
  have "object_ok (ARRAY (map object_of_arg as @ extra))"
    using assms(2,4,5) object_of_arg_ok by (auto simp: list_all_iff)
  from unpack_handle_enc [OF assms(1) this assms(6)] as_tuple_of_args [OF assms(5,3)] show ?thesis
    by (simp add: codec_unpack_def)
qed

text \<open>Whatever arrives, the codec gives arguments or one exception, or the program ends.\<close>

lemma codec_unpack_outcome:
  "codec_unpack M ts data = Inl e \<Longrightarrow>
     e = Throw (Invalid_Argument ''unpack failed: Args not match!'') \<or> (\<exists>u. e = UB u)"
  by (auto simp: codec_unpack_def split: sum.splits fault.splits)

end
