(* ===== verification/Msgpack_Unpacker_Zone.thy ===== *)
theory Msgpack_Unpacker_Zone
  imports Msgpack_Unpacker_Client Rpc_Codec
begin

text \<open>
  The zone of \<open>src/3rd/inc/msgpack/v1/detail/cpp11_zone.hpp\<close> as the zone of a streaming decoder.

  The state is the zone with the blocks that \<open>malloc\<close> has given out so far; those of zones that
  were destroyed stay among them, so their addresses are not used again.
\<close>

text \<open>The address of the function \<open>detail::decr_count\<close>, the only finalizer in these zones.\<close>

definition decr_count_function :: nat where
  "decr_count_function = 1"

definition real_zones :: "memory \<Rightarrow> (zone \<times> blocks) zone_operations" where
  "real_zones M =
     \<lparr>zone_alloc = zone_allocator M,
      first_zone = new_zone M,
      next_zone = (\<lambda>(z, h). new_zone (M\<lparr>live := h\<rparr>)),
      push_finalizer = (\<lambda>b (z, h).
        rbind (zone_push_finalizer (avail M) (decr_count_function, b) z) (\<lambda>z. Inr (z, h))),
      clear_zone = (\<lambda>(z, h). rbind (zone_clear z h) (\<lambda>(_, z, h). Inr (z, h))),
      zone_finalizers = (\<lambda>(z, h). map snd (finalizer_array_call (m_finalizer_array z)))\<rparr>"

lemma allocate_align_finalizers:
  "zone_allocate_align malloc n a z h = Inr (p, z', h') \<Longrightarrow> m_finalizer_array z' = m_finalizer_array z"
  by (auto simp: zone_allocate_align_def allocate_expand_def take_from_chunk_def Let_def split: if_splits option.splits)

lemma new_zone_finalizers: "new_zone M = Inr (z, h) \<Longrightarrow> fins (m_finalizer_array z) = []"
  by (auto simp: new_zone_def zone_new_def finalizer_array_new_def split: option.splits sum.splits)

lemma push_finalizer_fins:
  "zone_push_finalizer a f z = Inr z' \<Longrightarrow> fins (m_finalizer_array z') = fins (m_finalizer_array z) @ [f]"
  by (auto simp: zone_push_finalizer_def finalizer_array_push_def push_expand_def Let_def split: if_splits)

interpretation real: finalizing_zone "real_zones M" for M :: memory
proof
  show "sound_allocator (zone_alloc (real_zones M))"
    by (simp add: real_zones_def zone_allocator_sound)
qed (auto simp: real_zones_def zone_allocator_def finalizer_array_call_def zone_clear_def finalizer_array_clear_def
    dest!: allocate_align_finalizers new_zone_finalizers push_finalizer_fins split: prod.splits)

end
