(* ===== verification/Unpacker_Properties.thy ===== *)
theory Unpacker_Properties
  imports Msgpack_Unpacker_Zone
begin

text \<open>
  The property of the buffers of the streaming decoder, over the zone of the code.
\<close>

text \<open>C30: whatever operations of a streaming decoder a client calls, and in
  whatever order it lets go of the objects it was given, the buffers that the objects it still has
  refer to are there, and the bytes they were decoded from are the same, although the decoder goes
  on to reuse, enlarge and replace its buffer. When all is destroyed no buffer is left, and none was
  freed twice.\<close>

theorem referenced_bytes_stay:
  assumes "unpacker_new (real_zones M) (avail M) f lim n = Inr u" "avail M \<le> 2 ^ 62"
    and "client_run (real_zones M) (avail M) (u, []) (v, gs)"
  shows "(\<forall>g \<in> set gs.
      (\<forall>b. g_buffer g = Some b \<longrightarrow> b \<in> fst ` set (g_bytes g)) \<and>
      (\<forall>(b, s) \<in> set (g_bytes g). \<exists>c bs. u_heap v b = Some (c, bs) \<and> prefix s bs)) \<and>
    (\<exists>h. unpacker_destroy (real_zones M) v = Inr h \<and>
       decr_all (concat (map (zone_finalizers (real_zones M) \<circ> g_zone) gs)) h = Inr (\<lambda>b. None))"
proof
  have ok: "client_ok (real_zones M) (avail M) (v, gs)" by (rule real.run_ok [OF assms(3,1,2)])
  then show "\<forall>g \<in> set gs.
      (\<forall>b. g_buffer g = Some b \<longrightarrow> b \<in> fst ` set (g_bytes g)) \<and>
      (\<forall>(b, s) \<in> set (g_bytes g). \<exists>c bs. u_heap v b = Some (c, bs) \<and> prefix s bs)"
    using real.given_intact [OF ok] by (auto simp: client_ok_def intact_def)
  show "\<exists>h. unpacker_destroy (real_zones M) v = Inr h \<and>
      decr_all (concat (map (zone_finalizers (real_zones M) \<circ> g_zone) gs)) h = Inr (\<lambda>b. None)"
    by (rule real.all_freed [OF ok])
qed

text \<open>
  A string of two bytes arrives and is taken; then the client asks for more room than there is left, so that
  the decoder goes on in another buffer.
\<close>

definition demo_stream_memory :: memory where
  "demo_stream_memory = \<lparr>the_malloc = (\<lambda>h n. Some (32768 * (length h + 1))), live = [], avail = 1000\<rparr>"

abbreviation (input) "demo_zones \<equiv> real_zones demo_stream_memory"
abbreviation (input) "demo_refer \<equiv> Some (\<lambda>_ _. True) :: (object_type \<Rightarrow> nat \<Rightarrow> bool) option"
abbreviation (input) "demo_context z \<equiv> context_init (context_new demo_refer unpack_limit_default z)"

lemma demo_zone: "\<exists>z g. new_zone (demo_stream_memory\<lparr>live := h\<rparr>) = Inr (z, g) \<and> m_finalizer_array z = finalizer_array_new"
  by (simp add: new_zone_def demo_stream_memory_def zone_new_def chunk_list_new_def)

lemma demo_execute:
  "execute alloc [0, 0, 0, 0, 0xa2, 104, 105] 4 (demo_context z) =
     Some (Inr (1, 7, (demo_context z)\<lparr>m_current := 7, m_trail := 2, m_cs := MSGPACK_ACS_STR_VALUE,
       m_user := \<lparr>zone = z, referenced = True, reference_func = demo_refer, limit = unpack_limit_default\<rparr>,
       m_stack := [unpack_stack_new\<lparr>obj := STR' [104, 105]\<rparr>]\<rparr>))"
  by (simp add: execute_def exec_loop.simps context_init_def context_new_def exec_pass_def exec_header_def
     load8_def read_bytes_def exec_value_def exec_switch_def exec_body_value_def push_result_def push_proc_def
     unpack_str_def by_reference_def unpack_stack_new_def set_bottom_def Let_def)

lemma demo_run:
  obtains u v z where "unpacker_new demo_zones 1000 demo_refer unpack_limit_default 16 = Inr u"
    "client_run demo_zones 1000 (u, []) (v, [\<lparr>g_zone = z, g_buffer = Some 0, g_bytes = [(0, [0, 0, 0, 0, 0xa2, 104, 105])]\<rparr>])"
    "u_buffer v = 1"
proof -
  let ?full = "[0, 0, 0, 0, 0xa2, 104, 105, 0, 0, 0, 0, 0, 0, 0, 0, 0] :: byte list"
  obtain z h where z: "new_zone demo_stream_memory = Inr (z, h)" "m_finalizer_array z = finalizer_array_new"
    using demo_zone [of "[]"] by (auto simp: demo_stream_memory_def)
  define u where "u = \<lparr>u_buffer = 0, u_used = 4, u_free = 12, u_off = 4, u_parsed = 0, u_initial = 16,
      u_ctx = demo_context (z, h), u_heap = [0 \<mapsto> (1, replicate 16 0)], u_next = 1\<rparr>"
  have new: "unpacker_new demo_zones 1000 demo_refer unpack_limit_default 16 = Inr u"
    by (simp add: unpacker_new_def Let_def COUNTER_SIZE_def real_zones_def set_referenced_def context_init_def
        context_new_def z u_def)
  define w where "w = u\<lparr>u_used := 7, u_free := 9, u_heap := [0 \<mapsto> (1, ?full)]\<rparr>"
  have "copy_to_buffer [0xa2, 104, 105] u = Inr (u\<lparr>u_heap := [0 \<mapsto> (1, ?full)]\<rparr>)"
    by (simp add: u_def copy_to_buffer_def memcpy_def buffer_at_def numeral_eq_Suc)
  note copied = this
  have consumed: "buffer_consumed (length [0xa2, 104, 105 :: byte]) (u\<lparr>u_heap := [0 \<mapsto> (1, ?full)]\<rparr>) = w"
    by (simp add: buffer_consumed_def add64_def sub64_def u_def w_def)
  have receive: "client_step demo_zones 1000 (u, []) (w, [])"
    using client_step.Receive [OF _ copied, of demo_zones 1000 "[]"]
    unfolding consumed by (simp add: buffer_capacity_def u_def)
  obtain a where a: "finalizer_array_push 1000 (decr_count_function, 0) finalizer_array_new = Inr a"
      "fins a = [(decr_count_function, 0)]"
    by (simp add: finalizer_array_push_def finalizer_array_new_def push_expand_def sizeof_finalizer_def)
  let ?z = "z\<lparr>m_finalizer_array := a\<rparr>"
  obtain y g where y: "new_zone (demo_stream_memory\<lparr>live := h\<rparr>) = Inr (y, g)" using demo_zone by blast
  define t where "t = w\<lparr>u_off := 7, u_parsed := 0, u_heap := [0 \<mapsto> (2, ?full)], u_ctx :=
      \<lparr>m_current = 7, m_trail = 0, m_user = \<lparr>zone = (y, g), referenced = False, reference_func = demo_refer,
        limit = unpack_limit_default\<rparr>, m_cs = 0, m_stack = [unpack_stack_new]\<rparr>\<rparr>"
  define x where "x = w\<lparr>u_off := 7, u_parsed := add64 0 (sub64 7 4), u_ctx := (demo_context (z, h))\<lparr>m_current := 7,
      m_trail := 2, m_cs := MSGPACK_ACS_STR_VALUE, m_user := \<lparr>zone = (z, h), referenced = True,
        reference_func = demo_refer, limit = unpack_limit_default\<rparr>,
      m_stack := [unpack_stack_new\<lparr>obj := STR' [104, 105]\<rparr>]\<rparr>\<rparr>"
  have exec: "execute_imp demo_zones w = Some (Inr (1, x))"
    using demo_execute [of "zone_alloc demo_zones" "(z, h)"]
    by (simp add: execute_imp_def buffer_at_def bytes_at_def w_def u_def x_def)
  have "zone_push_finalizer (avail demo_stream_memory) (decr_count_function, 0) z = Inr ?z"
    using a(1) z(2) by (simp add: zone_push_finalizer_def demo_stream_memory_def)
  then have "flush_zone demo_zones x = Inr (True, set_referenced False (set_zone (?z, h) (x\<lparr>u_heap := [0 \<mapsto> (2, ?full)]\<rparr>)))"
    by (simp add: flush_zone_def is_referenced_def the_zone_def real_zones_def incr_refs_def buffer_at_def x_def w_def u_def)
  then have "release_zone demo_zones x =
      Inr (Some (?z, h), set_zone (y, g) (set_referenced False (set_zone (?z, h) (x\<lparr>u_heap := [0 \<mapsto> (2, ?full)]\<rparr>))))"
    using y by (simp add: release_zone_def) (simp add: real_zones_def)
  then have next_obj: "next_object demo_zones w = Some (Inr (Some (STR' [104, 105], Some (?z, h), True), t))"
    using exec by (simp add: next_object_def Let_def)
      (simp add: set_zone_def set_referenced_def unpacker_data_def context_data_def is_referenced_def unpacker_reset_def
        context_init_def context_new_def unpack_stack_new_def x_def t_def w_def u_def)
  let ?g = "\<lparr>g_zone = (?z, h), g_buffer = Some 0, g_bytes = [(0, [0, 0, 0, 0, 0xa2, 104, 105])]\<rparr>"
  have "give demo_zones t (?z, h) True = ?g"
    using a(2) by (simp add: give_def real_zones_def finalizer_array_call_def parsed_bytes_def block_bytes_def t_def w_def u_def)
  then have take: "client_step demo_zones 1000 (w, []) (t, [?g])"
    using client_step.Take [OF _ next_obj, of "[]" 1000] by simp
  have "\<exists>v. reserve_buffer demo_zones 1000 20 t = Inr v \<and> u_buffer v = 1"
    by (simp add: reserve_buffer_def unpacker_expand_buffer_def buffer_at_def replace_buffer_def t_def w_def u_def
        COUNTER_SIZE_def is_referenced_def Let_def add64_def sub64_def bytes_at_def memcpy_def decr_refs_def
        expanded_size.simps)
  then obtain v where v: "reserve_buffer demo_zones 1000 20 t = Inr v" "u_buffer v = 1" by blast
  have "client_step demo_zones 1000 (t, [?g]) (v, [?g])" by (rule client_step.Reserve [OF _ v(1)]) simp
  with receive take have run: "client_run demo_zones 1000 (u, []) (v, [?g])"
    by (meson run_start run_step)
  show thesis by (rule that [OF new run v(2)])
qed

lemma referenced_bytes_stay_witness:
  "\<exists>u v g c bs. unpacker_new demo_zones 1000 demo_refer unpack_limit_default 16 = Inr u \<and>
     client_run demo_zones 1000 (u, []) (v, [g]) \<and> u_buffer v = 1 \<and> g_buffer g = Some 0 \<and>
     u_heap v 0 = Some (c, bs) \<and> prefix [0, 0, 0, 0, 0xa2, 104, 105] bs"
proof -
  obtain u v z where r: "unpacker_new demo_zones 1000 demo_refer unpack_limit_default 16 = Inr u"
    "client_run demo_zones 1000 (u, []) (v, [\<lparr>g_zone = z, g_buffer = Some 0, g_bytes = [(0, [0, 0, 0, 0, 0xa2, 104, 105])]\<rparr>])"
    "u_buffer v = 1" by (rule demo_run)
  have m: "avail demo_stream_memory = 1000" by (simp add: demo_stream_memory_def)
  from referenced_bytes_stay [of demo_stream_memory, unfolded m, OF r(1) _ r(2)] r show ?thesis by fastforce
qed

end
