(* ===== verification/Rpc_Router.thy ===== *)
theory Rpc_Router
  imports Rpc_Codec Md5
begin

text \<open>
  The router of \<open>src/3rd/inc/rest_rpc/router.h\<close>: handlers are registered under the
  hash of their name; a request is unpacked, handed to its handler, and answered.

  The state of the service is the type parameter \<open>'s\<close>: handlers are statements
  over it, and the connection that a request came from lives in it too, behind the
  interface of the record \<open>conn_ops\<close>. A handler takes the unpacked arguments; it
  returns a value, or \<open>None\<close> where its C++ result type is \<open>void\<close>.
\<close>

section \<open>Exceptions\<close>

definition try_catch :: "('s, 'a) stm \<Rightarrow> (exn \<Rightarrow> ('s, 'a) stm) \<Rightarrow> ('s, 'a) stm" where
  "try_catch m h s = (case m s of (Inl (Throw e), s) \<Rightarrow> h e s | r \<Rightarrow> r)"

text \<open>\<open>what()\<close>, as the standard library and msgpack give it.\<close>

fun exn_what :: "exn \<Rightarrow> string" where
  "exn_what (Invalid_Argument m) = m"
| "exn_what (Out_Of_Range m) = m"
| "exn_what (Length_Error m) = m"
| "exn_what (Runtime_Error m) = m"
| "exn_what (Logic_Error m) = m"
| "exn_what Future_Error = ''std::future_error''"
| "exn_what Bad_Alloc = ''std::bad_alloc''"
| "exn_what Type_Error = ''std::bad_cast''"
| "exn_what Parse_Error = ''parse error''"
| "exn_what Insufficient_Bytes = ''insufficient bytes''"
| "exn_what Container_Size_Overflow = ''container size overflow''"
| "exn_what Array_Size_Overflow = ''array size overflow''"
| "exn_what Map_Size_Overflow = ''map size overflow''"
| "exn_what Str_Size_Overflow = ''str size overflow''"
| "exn_what Bin_Size_Overflow = ''bin size overflow''"
| "exn_what Ext_Size_Overflow = ''ext size overflow''"
| "exn_what Depth_Size_Overflow = ''depth size overflow''"

definition string_arg :: "string \<Rightarrow> arg" where
  "string_arg m = String_Arg (map of_char m)"

definition what_arg :: "exn \<Rightarrow> arg" where
  "what_arg e = Char_Ptr_Arg (c_str (exn_what e))"

section \<open>The router\<close>

datatype ExecMode = Sync | Async

type_synonym 's handler = "arg list \<Rightarrow> ('s, arg option) stm"

text \<open>What \<open>std::bind\<close> stores: the argument types, the mode and the function.\<close>

record 's invoker =
  arg_types :: "arg_type list"
  exec_model :: ExecMode
  invoker_func :: "'s handler"

record 's router =
  map_invokers :: "32 word \<Rightarrow> 's invoker option"
  key2func_name :: "32 word \<Rightarrow> string option"

definition router_new :: "'s router" where
  "router_new = \<lparr>map_invokers = (\<lambda>_. None), key2func_name = (\<lambda>_. None)\<rparr>"

definition register_nonmember_func :: "32 word \<Rightarrow> 's invoker \<Rightarrow> 's router \<Rightarrow> 's router" where
  "register_nonmember_func key ivk r = r\<lparr>map_invokers := (map_invokers r)(key \<mapsto> ivk)\<rparr>"

text \<open>\<open>emplace\<close> keeps a name that is there; the function is overwritten.\<close>

definition register_handler :: "string \<Rightarrow> 's invoker \<Rightarrow> 's router \<Rightarrow> 's router" where
  "register_handler name ivk r =
     (let key = MD5Hash32 (c_str name);
          names = (if key2func_name r key = None then (key2func_name r)(key \<mapsto> name)
                   else key2func_name r)
      in register_nonmember_func key ivk (r\<lparr>key2func_name := names\<rparr>))"

text \<open>A member function with its object is a function too.\<close>

definition register_member_func ::
    "32 word \<Rightarrow> arg_type list \<Rightarrow> ExecMode \<Rightarrow> ('self \<Rightarrow> 's handler) \<Rightarrow> 'self \<Rightarrow> 's router \<Rightarrow> 's router" where
  "register_member_func key ts mode f self r =
     r\<lparr>map_invokers := (map_invokers r)(key \<mapsto>
       \<lparr>arg_types = ts, exec_model = mode, invoker_func = f self\<rparr>)\<rparr>"

definition register_member_handler ::
    "string \<Rightarrow> arg_type list \<Rightarrow> ExecMode \<Rightarrow> ('self \<Rightarrow> 's handler) \<Rightarrow> 'self \<Rightarrow> 's router \<Rightarrow> 's router" where
  "register_member_handler name ts mode f self r =
     (let key = MD5Hash32 (c_str name);
          names = (if key2func_name r key = None then (key2func_name r)(key \<mapsto> name)
                   else key2func_name r)
      in register_member_func key ts mode f self (r\<lparr>key2func_name := names\<rparr>))"

definition remove_handler :: "string \<Rightarrow> 's router \<Rightarrow> 's router" where
  "remove_handler name r =
     (let key = MD5Hash32 (c_str name) in
      r\<lparr>map_invokers := (map_invokers r)(key := None),
        key2func_name := (key2func_name r)(key := None)\<rparr>)"

fun decimal :: "nat \<Rightarrow> string" where
  "decimal n = (if n < 10 then [char_of (48 + n)] else decimal (n div 10) @ [char_of (48 + n mod 10)])"

declare decimal.simps [simp del]

definition get_name_by_key :: "'s router \<Rightarrow> 32 word \<Rightarrow> string" where
  "get_name_by_key r key =
     (case key2func_name r key of Some name \<Rightarrow> name | None \<Rightarrow> decimal (unat key))"

section \<open>Calls\<close>

definition call :: "memory \<Rightarrow> 's handler \<Rightarrow> arg list \<Rightarrow> ('s, byte list) stm" where
  "call M f tp =
     and_then (f tp) (\<lambda>r.
       case r of
         None \<Rightarrow> eval_expr (\<lambda>_. pack_args_str M OK [])
       | Some v \<Rightarrow> eval_expr (\<lambda>_. pack_args_str M OK [v]))"

text \<open>
  \<open>apply\<close>: the result and the mode, which stays \<open>Sync\<close> for a failed call. Both
  \<open>catch\<close> clauses do the same.
\<close>

definition invoker_apply :: "memory \<Rightarrow> 's invoker \<Rightarrow> byte list \<Rightarrow> ('s, byte list \<times> ExecMode) stm" where
  "invoker_apply M ivk data =
     try_catch
       (and_then (eval_expr (\<lambda>_. codec_unpack M (arg_types ivk) data)) (\<lambda>tp.
        and_then (call M (invoker_func ivk) tp) (\<lambda>result s. (Inr (result, exec_model ivk), s))))
       (\<lambda>e. eval_expr (\<lambda>_. rbind (pack_args_str M FAIL [what_arg e]) (\<lambda>result. Inr (result, Sync))))"

section \<open>Routing\<close>

text \<open>The connection as the router sees it: \<open>conn.lock()\<close>, \<open>request_id\<close> and \<open>response\<close>.\<close>

record 's conn_ops =
  alive :: "'s \<Rightarrow> bool"
  request_id :: "'s \<Rightarrow> 64 word"
  response :: "64 word \<Rightarrow> byte list \<Rightarrow> ('s, unit) stm"

definition MAX_BUF_LEN :: nat where
  "MAX_BUF_LEN = 1048576 * 10"

definition unknown_function_message :: "string \<Rightarrow> string" where
  "unknown_function_message name = ''unknown function: '' @ name"

definition out_of_range_message :: "string \<Rightarrow> string" where
  "out_of_range_message name = ''the response result is out of range: more than 10M '' @ name"

definition route_body :: "memory \<Rightarrow> 's conn_ops \<Rightarrow> 's router \<Rightarrow> 32 word \<Rightarrow> byte list \<Rightarrow> 64 word \<Rightarrow> ('s, unit) stm" where
  "route_body M C r key data req_id =
     (case map_invokers r key of
        None \<Rightarrow>
          and_then (eval_expr (\<lambda>_. pack_args_str M FAIL
            [string_arg (unknown_function_message (get_name_by_key r key))])) (\<lambda>result.
          response C req_id result)
      | Some ivk \<Rightarrow>
          and_then (invoker_apply M ivk data) (\<lambda>(result, model).
            if model = Sync then
              and_then
                (if MAX_BUF_LEN \<le> length result then
                   eval_expr (\<lambda>_. pack_args_str M FAIL
                     [string_arg (out_of_range_message (get_name_by_key r key))])
                 else eval_expr (\<lambda>_. Inr result))
                (\<lambda>result. response C req_id result)
            else skip))"

definition route :: "memory \<Rightarrow> 's conn_ops \<Rightarrow> 's router \<Rightarrow> 32 word \<Rightarrow> byte list \<Rightarrow> ('s, unit) stm" where
  "route M C r key data s =
     (if \<not> alive C s then (Inr (), s)
      else
        let req_id = request_id C s in
        try_catch (route_body M C r key data req_id)
          (\<lambda>e. and_then (eval_expr (\<lambda>_. pack_args_str M FAIL [what_arg e])) (\<lambda>result.
             response C req_id result)) s)"

section \<open>One answer for every request\<close>

text \<open>
  The contract of a connection: on a good state a response of less than 10 MB is
  appended to what was sent, and a longer one fails an assertion.
\<close>

locale responder =
  fixes C :: "'s conn_ops"
    and good :: "'s \<Rightarrow> bool"
    and sent :: "'s \<Rightarrow> (64 word \<times> byte list) list"
  assumes response_sends: "good s \<Longrightarrow> length d < MAX_BUF_LEN \<Longrightarrow>
      \<exists>s'. response C i d s = (Inr (), s') \<and> good s' \<and> sent s' = sent s @ [(i, d)]"
    and response_too_long: "good s \<Longrightarrow> \<not> length d < MAX_BUF_LEN \<Longrightarrow>
      response C i d s = (Inl (UB Assertion_Failed), s)"
begin

text \<open>A statement that sends nothing.\<close>

definition quiet :: "('s, 'a) stm \<Rightarrow> bool" where
  "quiet m \<longleftrightarrow> (\<forall>s. good s \<longrightarrow> good (snd (m s)) \<and> sent (snd (m s)) = sent s)"

text \<open>
  A statement that sends one answer to the request \<open>i\<close> when it returns, and
  nothing when it fails; \<open>h\<close> is what was sent before.
\<close>

definition answered :: "64 word \<Rightarrow> (64 word \<times> byte list) list \<Rightarrow> 'a result \<times> 's \<Rightarrow> bool" where
  "answered i h rs \<longleftrightarrow>
     good (snd rs) \<and>
     (case fst rs of
        Inr _ \<Rightarrow> \<exists>d. length d < MAX_BUF_LEN \<and> sent (snd rs) = h @ [(i, d)]
      | Inl _ \<Rightarrow> sent (snd rs) = h)"

definition sends :: "64 word \<Rightarrow> ('s, 'a) stm \<Rightarrow> bool" where
  "sends i m \<longleftrightarrow> (\<forall>s. good s \<longrightarrow> answered i (sent s) (m s))"

lemma quiet_eval_expr: "quiet (eval_expr f)"
  by (simp add: quiet_def eval_expr_def)

lemma quiet_and_then:
  assumes "quiet m" "\<And>a. quiet (f a)"
  shows "quiet (and_then m f)"
proof -
  have "good (snd (and_then m f s)) \<and> sent (snd (and_then m f s)) = sent s" if s: "good s" for s
  proof -
    obtain r t where m: "m s = (r, t)" by force
    have t: "good t" "sent t = sent s"
      using assms(1) s unfolding quiet_def by (metis m snd_conv)+
    show ?thesis
    proof (cases r)
      case (Inr a)
      have "good (snd (f a t)) \<and> sent (snd (f a t)) = sent t"
        using assms(2) t(1) unfolding quiet_def by blast
      then show ?thesis by (simp add: and_then_def m Inr t(2))
    qed (simp add: and_then_def m t)
  qed
  then show ?thesis by (simp add: quiet_def)
qed

lemma quiet_try_catch:
  assumes "quiet m" "\<And>e. quiet (h e)"
  shows "quiet (try_catch m h)"
proof -
  have "good (snd (try_catch m h s)) \<and> sent (snd (try_catch m h s)) = sent s" if s: "good s" for s
  proof -
    obtain r t where m: "m s = (r, t)" by force
    have t: "good t" "sent t = sent s"
      using assms(1) s unfolding quiet_def by (metis m snd_conv)+
    have "good (snd (h e t)) \<and> sent (snd (h e t)) = sent t" for e
      using assms(2) t(1) unfolding quiet_def by blast
    then show ?thesis
      using t by (auto simp: try_catch_def m split: sum.splits fault.splits)
  qed
  then show ?thesis by (simp add: quiet_def)
qed

lemma sends_response: "sends i (response C i d)"
proof -
  have "answered i (sent s) (response C i d s)" if s: "good s" for s
  proof (cases "length d < MAX_BUF_LEN")
    case True
    with response_sends [OF s, of d i] show ?thesis by (auto simp: answered_def)
  next
    case False
    with response_too_long [OF s False] show ?thesis using s by (simp add: answered_def)
  qed
  then show ?thesis by (simp add: sends_def)
qed

lemma sends_and_then:
  assumes "quiet m" "\<And>a. sends i (f a)"
  shows "sends i (and_then m f)"
  unfolding sends_def
proof (intro allI impI)
  fix s assume s: "good s"
  obtain r t where m: "m s = (r, t)" by force
  have t: "good t" "sent t = sent s"
    using assms(1) s unfolding quiet_def by (metis m snd_conv)+
  show "answered i (sent s) (and_then m f s)"
  proof (cases r)
    case (Inl e)
    then show ?thesis using t by (simp add: and_then_def m answered_def)
  next
    case (Inr a)
    have "answered i (sent t) (f a t)" using assms(2) t(1) unfolding sends_def by blast
    then show ?thesis by (simp add: and_then_def m Inr t(2))
  qed
qed

lemma sends_try_catch:
  assumes "sends i m" "\<And>e. sends i (h e)"
  shows "sends i (try_catch m h)"
  unfolding sends_def
proof (intro allI impI)
  fix s assume s: "good s"
  obtain r t where m: "m s = (r, t)" by force
  have ms: "answered i (sent s) (r, t)" using assms(1) s unfolding sends_def by (metis m)
  show "answered i (sent s) (try_catch m h s)"
  proof (cases "\<exists>e. r = Inl (Throw e)")
    case True
    then obtain e where e: "r = Inl (Throw e)" by blast
    then have t: "good t" "sent t = sent s" using ms by (simp_all add: answered_def)
    have "answered i (sent t) (h e t)" using assms(2) t(1) unfolding sends_def by blast
    then show ?thesis by (simp add: try_catch_def m e t(2))
  next
    case False
    then have "try_catch m h s = (r, t)"
      by (auto simp: try_catch_def m split: sum.splits fault.splits)
    then show ?thesis using ms by simp
  qed
qed

lemma quiet_invoker_apply:
  "(\<And>as. quiet (invoker_func ivk as)) \<Longrightarrow> quiet (invoker_apply M ivk data)"
proof -
  assume q: "\<And>as. quiet (invoker_func ivk as)"
  have ret: "quiet (\<lambda>s. (Inr x, s))" for x :: "byte list \<times> ExecMode" by (simp add: quiet_def)
  have "quiet (call M (invoker_func ivk) as)" for as
    unfolding call_def by (intro quiet_and_then q) (simp add: quiet_eval_expr split: option.split)
  then show ?thesis
    unfolding invoker_apply_def by (intro quiet_try_catch quiet_and_then quiet_eval_expr ret)
qed

lemma sends_route_body:
  assumes "\<And>ivk as. map_invokers r key = Some ivk \<Longrightarrow> exec_model ivk = Sync \<and> quiet (invoker_func ivk as)"
  shows "sends i (route_body M C r key data i)"
proof (cases "map_invokers r key")
  case None
  then show ?thesis
    by (simp add: route_body_def sends_and_then quiet_eval_expr sends_response)
next
  case (Some ivk)
  then have sync: "exec_model ivk = Sync" and q: "\<And>as. quiet (invoker_func ivk as)"
    using assms by simp_all
  have model: "model = Sync" if "invoker_apply M ivk data s = (Inr (result, model), s')" for result model s s'
    using that sync
    by (auto simp: invoker_apply_def try_catch_def and_then_def eval_expr_def
        split: prod.splits sum.splits fault.splits)
  have "route_body M C r key data i = and_then (invoker_apply M ivk data) (\<lambda>(result, model).
      and_then
        (if MAX_BUF_LEN \<le> length result then
           eval_expr (\<lambda>_. pack_args_str M FAIL
             [string_arg (out_of_range_message (get_name_by_key r key))])
         else eval_expr (\<lambda>_. Inr result))
        (\<lambda>result. response C i result))"
    unfolding route_body_def Some option.case
    by (auto simp: fun_eq_iff and_then_def split: prod.splits sum.splits dest: model)
  moreover have "sends i \<dots>"
    by (intro sends_and_then quiet_invoker_apply q)
      (auto split: prod.split intro!: sends_and_then sends_response quiet_eval_expr)
  ultimately show ?thesis by simp
qed

text \<open>
  Routing a request to synchronous handlers that send nothing themselves: one
  answer, with the identifier of the request, or nothing at all.
\<close>

lemma route_sends:
  assumes "\<And>ivk as. map_invokers r key = Some ivk \<Longrightarrow> exec_model ivk = Sync \<and> quiet (invoker_func ivk as)"
    and "good s" "alive C s" "route M C r key data s = (res, s')"
  shows "answered (request_id C s) (sent s) (res, s')"
proof -
  let ?i = "request_id C s"
  let ?m = "try_catch (route_body M C r key data ?i)
      (\<lambda>e. and_then (eval_expr (\<lambda>_. pack_args_str M FAIL [what_arg e])) (\<lambda>result. response C ?i result))"
  have "sends ?i ?m"
    by (intro sends_try_catch sends_route_body sends_and_then quiet_eval_expr sends_response assms(1))
  moreover have "route M C r key data s = ?m s" using assms(3) by (simp add: route_def Let_def)
  ultimately show ?thesis using assms(2,4) unfolding sends_def by metis
qed

end

end
