(* ===== verification/Rpc_Connection.thy ===== *)
theory Rpc_Connection
  imports Rpc_Router
begin

text \<open>
  One connection of the server (\<open>src/3rd/inc/rest_rpc/connection.h\<close>): requests are
  read as a header and a body and routed; responses go through a queue of which
  the front is being written. Encryption (\<open>CINATRA_ENABLE_SSL\<close>) is not compiled.

  Each asynchronous operation of asio is split: its start is recorded in the
  state, and its completion handler is a statement with the outcome as arguments.
  The read that is under way is \<open>reading\<close>; the writes under way are the contents
  in \<open>in_flight\<close>, with the header read from the member \<open>header_\<close> when it is sent;
  \<open>wire\<close> is what was written completely, and \<open>submitted\<close> the history of the messages
  given to \<open>response\<close>. The network callback leaves its reasons in \<open>net_errs\<close>. All handlers of a connection run on one thread.
\<close>

section \<open>Messages\<close>

abbreviation (input) "req_res \<equiv> (0 :: 8 word)"
abbreviation (input) "sub_pub \<equiv> (1 :: 8 word)"

record message_type =
  msg_req_id :: "64 word"
  msg_req_type :: "8 word"
  content :: "byte list"

definition MAGIC_NUM :: "8 word" where
  "MAGIC_NUM = 39"

record rpc_header =
  magic :: "8 word"
  hdr_req_type :: "8 word"
  body_len :: "32 word"
  hdr_req_id :: "64 word"
  hdr_func_id :: "32 word"

definition HEAD_LEN :: nat where
  "HEAD_LEN = 20"

definition INIT_BUF_SIZE :: nat where
  "INIT_BUF_SIZE = 2 * 1024"

text \<open>
  The layout under \<open>pragma pack(4)\<close> on a little-endian machine; the two bytes of
  padding may have any value.
\<close>

definition header_of_bytes :: "byte list \<Rightarrow> rpc_header" where
  "header_of_bytes head =
     \<lparr>magic = head ! 0, hdr_req_type = head ! 1,
      body_len = value_of_memory (take 4 (drop 4 head)),
      hdr_req_id = value_of_memory (take 8 (drop 8 head)),
      hdr_func_id = value_of_memory (take 4 (drop 16 head))\<rparr>"

definition header_bytes :: "byte list \<Rightarrow> rpc_header \<Rightarrow> byte list" where
  "header_bytes padding h =
     [magic h, hdr_req_type h] @ padding @ memory32 (body_len h) @ memory64 (hdr_req_id h)
       @ memory32 (hdr_func_id h)"

section \<open>State\<close>

datatype pending_read = No_Read | Read_Head | Read_Body "32 word" nat

record connection =
  socket_open :: bool
  has_closed :: bool
  body_size :: nat
  req_id :: "64 word"
  req_type :: "8 word"
  header :: rpc_header
  write_size :: "32 word"
  write_queue :: "message_type list"
  timeout_seconds :: nat
  timer_armed :: bool
  conn_id :: int
  on_net_err :: bool
  reading :: pending_read
  in_flight :: "byte list list"
  wire :: "(rpc_header \<times> byte list) list"
  submitted :: "message_type list"
  net_errs :: "string list"

text \<open>The members that the constructor leaves unset are arguments.\<close>

definition connection_new :: "nat \<Rightarrow> 64 word \<Rightarrow> 8 word \<Rightarrow> rpc_header \<Rightarrow> connection" where
  "connection_new timeout rid rty hdr =
     \<lparr>socket_open = False, has_closed = False, body_size = INIT_BUF_SIZE, req_id = rid, req_type = rty,
      header = hdr, write_size = 0, write_queue = [], timeout_seconds = timeout, timer_armed = False,
      conn_id = 0, on_net_err = False, reading = No_Read, in_flight = [], wire = [], submitted = [], net_errs = []\<rparr>"

definition set_conn_id :: "int \<Rightarrow> connection \<Rightarrow> connection" where
  "set_conn_id i c = c\<lparr>conn_id := i\<rparr>"

definition on_network_error :: "connection \<Rightarrow> connection" where
  "on_network_error c = c\<lparr>on_net_err := True\<rparr>"

definition notify :: "string \<Rightarrow> connection \<Rightarrow> connection" where
  "notify reason c = (if on_net_err c then c\<lparr>net_errs := net_errs c @ [reason]\<rparr> else c)"

definition reset_timer :: "connection \<Rightarrow> connection" where
  "reset_timer c = (if timeout_seconds c = 0 then c else c\<lparr>timer_armed := True\<rparr>)"

definition cancel_timer :: "connection \<Rightarrow> connection" where
  "cancel_timer c = (if timeout_seconds c = 0 then c else c\<lparr>timer_armed := False\<rparr>)"

definition close :: "connection \<Rightarrow> connection" where
  "close c = (if has_closed c then c else c\<lparr>socket_open := False, has_closed := True\<rparr>)"

definition on_timeout :: "connection \<Rightarrow> connection" where
  "on_timeout c = (if has_closed c then c else close c)"

section \<open>Writing\<close>

definition header_of_message :: "message_type \<Rightarrow> rpc_header" where
  "header_of_message msg =
     \<lparr>magic = MAGIC_NUM, hdr_req_type = msg_req_type msg, body_len = of_nat (length (content msg)),
      hdr_req_id = msg_req_id msg, hdr_func_id = 0\<rparr>"

definition start_write :: "connection \<Rightarrow> connection result" where
  "start_write c =
     (case write_queue c of
        [] \<Rightarrow> Inl (UB Out_Of_Bounds)
      | msg # _ \<Rightarrow>
          let n = of_nat (length (content msg)) :: 32 word in
          Inr (c\<lparr>write_size := n,
                 header := header_of_message msg,
                 in_flight := in_flight c @ [take (unat n) (content msg)]\<rparr>))"

definition connection_response :: "64 word \<Rightarrow> 8 word \<Rightarrow> byte list \<Rightarrow> connection \<Rightarrow> unit result \<times> connection" where
  "connection_response rid rty d c =
     (if \<not> length d < MAX_BUF_LEN then (Inl (UB Assertion_Failed), c)
      else
        let msg = \<lparr>msg_req_id = rid, msg_req_type = rty, content = d\<rparr>;
            c = c\<lparr>write_queue := write_queue c @ [msg], submitted := submitted c @ [msg]\<rparr> in
        if length (write_queue c) > 1 then (Inr (), c)
        else (case start_write c of Inl e \<Rightarrow> (Inl e, c) | Inr c \<Rightarrow> (Inr (), c)))"

definition pack_and_response :: "memory \<Rightarrow> 64 word \<Rightarrow> arg \<Rightarrow> connection \<Rightarrow> unit result \<times> connection" where
  "pack_and_response M rid v c =
     (case pack_args_str M OK [v] of
        Inl e \<Rightarrow> (Inl e, c)
      | Inr result \<Rightarrow> connection_response rid req_res result c)"

definition publish :: "memory \<Rightarrow> byte list \<Rightarrow> byte list \<Rightarrow> connection \<Rightarrow> unit result \<times> connection" where
  "publish M key d c =
     (case pack_args_str M OK [String_Arg key, String_Arg d] of
        Inl e \<Rightarrow> (Inl e, c)
      | Inr result \<Rightarrow> connection_response 0 sub_pub result c)"

text \<open>The oldest write completes; an error has a message.\<close>

definition on_write :: "string option \<Rightarrow> connection \<Rightarrow> unit result \<times> connection" where
  "on_write ec c =
     (case ec of
        Some m \<Rightarrow> (Inr (), close (notify m c))
      | None \<Rightarrow>
          if has_closed c then (Inr (), c)
          else if write_queue c = [] then (Inl (UB Out_Of_Bounds), c)
          else
            let c = c\<lparr>write_queue := tl (write_queue c)\<rparr> in
            if write_queue c = [] then (Inr (), c)
            else (case start_write c of Inl e \<Rightarrow> (Inl e, c) | Inr c \<Rightarrow> (Inr (), c)))"

section \<open>Reading\<close>

definition read_head :: "connection \<Rightarrow> connection" where
  "read_head c = (reset_timer c)\<lparr>reading := Read_Head\<rparr>"

definition start :: "connection \<Rightarrow> connection" where
  "start c = read_head c"

definition read_body :: "32 word \<Rightarrow> nat \<Rightarrow> connection \<Rightarrow> connection" where
  "read_body func_id n c = c\<lparr>reading := Read_Body func_id n\<rparr>"

definition on_read_head :: "string option \<Rightarrow> byte list \<Rightarrow> connection \<Rightarrow> connection" where
  "on_read_head ec head c =
     (if \<not> socket_open c then notify ''socket already closed'' c
      else
        case ec of
          None \<Rightarrow>
            (let h = header_of_bytes head in
             if magic h \<noteq> MAGIC_NUM then close c
             else
               let c = c\<lparr>req_id := hdr_req_id h, req_type := hdr_req_type h\<rparr>;
                   len = unat (body_len h)
               in if 0 < len \<and> len < MAX_BUF_LEN then
                    read_body (hdr_func_id h) len
                      (if body_size c < len then c\<lparr>body_size := len\<rparr> else c)
                  else if len = 0 then read_head (cancel_timer c)
                  else close (notify ''invalid body len'' c))
        | Some m \<Rightarrow> close (notify m c))"

text \<open>
  The world of a connection: the state of the service and the connection. The
  router answers through it.
\<close>

definition on_connection :: "(connection \<Rightarrow> unit result \<times> connection) \<Rightarrow> ('a \<times> connection, unit) stm" where
  "on_connection m = (\<lambda>(a, c). case m c of (r, c) \<Rightarrow> (r, (a, c)))"

definition connection_ops :: "('a \<times> connection) conn_ops" where
  "connection_ops =
     \<lparr>alive = (\<lambda>_. True), request_id = (\<lambda>(a, c). req_id c),
      response = (\<lambda>rid d. on_connection (connection_response rid req_res d))\<rparr>"

definition change :: "(connection \<Rightarrow> connection) \<Rightarrow> ('a \<times> connection, unit) stm" where
  "change f = modify (\<lambda>(a, c). (a, f c))"

text \<open>\<open>callback_\<close> of a subscription takes the key and the token.\<close>

definition on_read_body ::
    "memory \<Rightarrow> ('a \<times> connection) router \<Rightarrow> (byte list \<Rightarrow> byte list \<Rightarrow> ('a \<times> connection, unit) stm)
     \<Rightarrow> 32 word \<Rightarrow> string option \<Rightarrow> byte list \<Rightarrow> ('a \<times> connection, unit) stm" where
  "on_read_body M r callback func_id ec data =
     and_then (change cancel_timer) (\<lambda>_ (a, c).
       if \<not> socket_open c then (Inr (), (a, notify ''socket already closed'' c))
       else
         case ec of
           None \<Rightarrow>
             and_then (change read_head) (\<lambda>_ (a, c).
               if req_type c = req_res then route M connection_ops r func_id data (a, c)
               else if req_type c = sub_pub then
                 try_catch
                   (and_then (eval_expr (\<lambda>_. codec_unpack M [String_T, String_T] data)) (\<lambda>p.
                      case p of
                        [String_Arg key, String_Arg token] \<Rightarrow> callback key token
                      | _ \<Rightarrow> skip))
                   (\<lambda>e. change (notify (exn_what e))) (a, c)
               else (Inr (), (a, c))) (a, c)
         | Some m \<Rightarrow> (Inr (), (a, notify m c)))"

end
