(* ===== verification/Rpc_Client.thy ===== *)
theory Rpc_Client
  imports Rpc_Connection "HOL-Library.List_Lexorder" "HOL-Library.Product_Lexorder"
begin

unbundle bit_operations_syntax

text \<open>
  The client of \<open>src/3rd/inc/rest_rpc/rpc_client.hpp\<close> and the readers of replies in
  \<open>client_util.hpp\<close>. As for a connection, each asynchronous operation of asio is split
  at its completion: \<open>c_reading\<close> is the read that is under way, \<open>c_in_flight\<close> are the
  writes, \<open>c_wire\<close> is what was written completely.

  The functions that a user hands over are not modelled, only their calls: \<open>called\<close>
  lists those of callbacks, \<open>delivered\<close> those of subscriptions, \<open>received\<close> those of a
  client in another language, \<open>reported\<close> the errors. A promise and its future are an
  entry of \<open>futures\<close>. Encryption is not compiled.
\<close>

section \<open>Replies\<close>

definition has_error :: "memory \<Rightarrow> byte list \<Rightarrow> bool result" where
  "has_error M reply =
     (if reply = [] then Inr True
      else rbind (codec_unpack M [Int_T] reply) (\<lambda>tp. Inr (tp \<noteq> [Int_Arg 0])))"

definition get_result :: "memory \<Rightarrow> arg_type \<Rightarrow> byte list \<Rightarrow> arg result" where
  "get_result M t reply = rbind (codec_unpack M [Int_T, t] reply) (\<lambda>tp. Inr (tp ! 1))"

fun string_of_arg :: "arg \<Rightarrow> string" where
  "string_of_arg (String_Arg v) = map (\<lambda>b. char_of (unat b)) v"
| "string_of_arg _ = []"

definition get_error_msg :: "memory \<Rightarrow> byte list \<Rightarrow> string result" where
  "get_error_msg M reply =
     rbind (codec_unpack M [Int_T, String_T] reply) (\<lambda>tp. Inr (string_of_arg (tp ! 1)))"

text \<open>\<open>req_result\<close> wraps the bytes of a reply.\<close>

definition req_result_success :: "memory \<Rightarrow> byte list \<Rightarrow> bool result" where
  "req_result_success M reply = rbind (has_error M reply) (\<lambda>e. Inr (\<not> e))"

definition req_result_check :: "memory \<Rightarrow> byte list \<Rightarrow> unit result" where
  "req_result_check M reply =
     rbind (has_error M reply) (\<lambda>e.
       if e then
         rbind (if reply = [] then Inr [] else get_error_msg M reply) (\<lambda>m. Inl (Throw (Logic_Error m)))
       else Inr ())"

definition req_result_as :: "memory \<Rightarrow> arg_type \<Rightarrow> byte list \<Rightarrow> arg result" where
  "req_result_as M t reply = rbind (req_result_check M reply) (\<lambda>_. get_result M t reply)"

text \<open>The function \<open>as\<close>, which asks for the message of an empty reply too.\<close>

definition reply_as :: "memory \<Rightarrow> arg_type \<Rightarrow> byte list \<Rightarrow> arg result" where
  "reply_as M t reply =
     rbind (has_error M reply) (\<lambda>e.
       if e then rbind (get_error_msg M reply) (\<lambda>m. Inl (Throw (Logic_Error m)))
       else get_result M t reply)"

section \<open>State\<close>

datatype client_language_t = CPP | JAVA

datatype error_code = Not_Connected | Timed_Out | Connection_Aborted | Message_Size
  | Invalid_Argument_Code | System_Error string

datatype promise = Pending | Value "byte list" | Broken

record call_t =
  call_timeout :: nat
  has_timeout :: bool
  call_timer :: bool

record client_message_type =
  out_req_id :: "64 word"
  out_req_type :: "8 word"
  out_content :: "byte list"
  out_func_id :: "32 word"

datatype client_read = C_None | C_Head | C_Body "64 word" "8 word" nat

record rpc_client =
  c_open :: bool
  host :: string
  port :: nat
  connecting :: bool
  connect_timeout :: nat
  reconnect_cnt :: int
  has_connected :: bool
  deadline :: "nat option"
  outbox :: "client_message_type list"
  c_write_size :: "32 word"
  c_header :: rpc_header
  fu_id :: "64 word"
  err_cb :: bool
  enable_reconnect :: bool
  future_map :: "64 word set"
  callback_map :: "(64 word \<times> call_t) list"
  callback_id :: "64 word"
  temp_req_id :: "64 word"
  c_body_size :: nat
  c_sub_map :: "byte list set"
  key_token_set :: "(byte list \<times> byte list) list"
  client_language :: client_language_t
  c_reading :: client_read
  c_in_flight :: "byte list list"
  c_wire :: "(rpc_header \<times> byte list) list"
  futures :: "64 word \<Rightarrow> promise"
  called :: "(64 word \<times> error_code option \<times> byte list) list"
  delivered :: "(byte list \<times> byte list) list"
  received :: "(64 word \<times> byte list) list"
  reported :: "error_code list"

type_synonym 'a client_stm = "(rpc_client, 'a) stm"

text \<open>The header that is not set yet is an argument.\<close>

definition rpc_client_new :: "client_language_t \<Rightarrow> string \<Rightarrow> nat \<Rightarrow> rpc_header \<Rightarrow> rpc_client" where
  "rpc_client_new lang h p hdr =
     \<lparr>c_open = False, host = h, port = p, connecting = False, connect_timeout = 1000, reconnect_cnt = - 1,
      has_connected = False, deadline = None, outbox = [], c_write_size = 0, c_header = hdr, fu_id = 0,
      err_cb = False, enable_reconnect = False, future_map = {}, callback_map = [], callback_id = 0,
      temp_req_id = 0, c_body_size = INIT_BUF_SIZE, c_sub_map = {}, key_token_set = [],
      client_language = lang, c_reading = C_None, c_in_flight = [], c_wire = [], futures = (\<lambda>_. Broken),
      called = [], delivered = [], received = [], reported = []\<rparr>"

definition set_connect_timeout :: "nat \<Rightarrow> unit client_stm" where
  "set_connect_timeout milliseconds = modify (\<lambda>c. c\<lparr>connect_timeout := milliseconds\<rparr>)"

definition set_reconnect_count :: "int \<Rightarrow> unit client_stm" where
  "set_reconnect_count n = modify (\<lambda>c. c\<lparr>reconnect_cnt := n\<rparr>)"

definition enable_auto_reconnect :: "bool \<Rightarrow> unit client_stm" where
  "enable_auto_reconnect enable =
     modify (\<lambda>c. c\<lparr>enable_reconnect := enable, reconnect_cnt := int_max\<rparr>)"

definition update_addr :: "string \<Rightarrow> nat \<Rightarrow> unit client_stm" where
  "update_addr h p = modify (\<lambda>c. c\<lparr>host := h, port := p\<rparr>)"

definition set_error_callback :: "unit client_stm" where
  "set_error_callback = modify (\<lambda>c. c\<lparr>err_cb := True\<rparr>)"

section \<open>Closing and connecting\<close>

definition clear_cache :: "unit client_stm" where
  "clear_cache = modify (\<lambda>c. c\<lparr>outbox := [], callback_map := [], future_map := {},
     futures := (\<lambda>i. if i \<in> future_map c \<and> futures c i = Pending then Broken else futures c i)\<rparr>)"

definition client_close :: "unit client_stm" where
  "client_close = (\<lambda>c.
     if \<not> has_connected c then (Inr (), c)
     else and_then (modify (\<lambda>c. c\<lparr>has_connected := False, c_open := False\<rparr>)) (\<lambda>_. clear_cache) c)"

definition async_connect :: "unit client_stm" where
  "async_connect = (\<lambda>c. if port c = 0 then (Inl (UB Assertion_Failed), c) else (Inr (), c\<lparr>connecting := True\<rparr>))"

text \<open>\<open>connect\<close> up to the wait, and \<open>async_connect\<close> with an address.\<close>

definition connect_start :: "unit client_stm" where
  "connect_start = (\<lambda>c. if has_connected c then (Inr (), c) else async_connect c)"

definition connect_to :: "string \<Rightarrow> nat \<Rightarrow> unit client_stm" where
  "connect_to h p =
     and_then (modify (\<lambda>c. if port c = 0 then c\<lparr>host := h, port := p\<rparr> else c)) (\<lambda>_. connect_start)"

definition async_connect_to :: "string \<Rightarrow> nat \<Rightarrow> unit client_stm" where
  "async_connect_to h p =
     and_then (modify (\<lambda>c. if port c = 0 then c\<lparr>host := h, port := p\<rparr> else c)) (\<lambda>_. async_connect)"

text \<open>The new socket is open, but not connected.\<close>

definition reset_socket :: "unit client_stm" where
  "reset_socket = modify (\<lambda>c. c\<lparr>c_open := True\<rparr>)"

definition async_reconnect :: "unit client_stm" where
  "async_reconnect = and_then reset_socket (\<lambda>_. async_connect)"

definition error_callback :: "error_code \<Rightarrow> unit client_stm" where
  "error_callback ec =
     and_then (modify (\<lambda>c. if err_cb c then c\<lparr>reported := reported c @ [ec]\<rparr> else c)) (\<lambda>_ c.
       if enable_reconnect c then async_reconnect c else (Inr (), c))"

section \<open>Writing\<close>

definition header_of_client_message :: "client_message_type \<Rightarrow> rpc_header" where
  "header_of_client_message msg =
     \<lparr>magic = MAGIC_NUM, hdr_req_type = out_req_type msg, body_len = of_nat (length (out_content msg)),
      hdr_req_id = out_req_id msg, hdr_func_id = out_func_id msg\<rparr>"

definition client_start_write :: "unit client_stm" where
  "client_start_write = (\<lambda>c.
     case outbox c of
       [] \<Rightarrow> (Inl (UB Out_Of_Bounds), c)
     | msg # _ \<Rightarrow>
         let n = of_nat (length (out_content msg)) :: 32 word in
         (Inr (), c\<lparr>c_write_size := n, c_header := header_of_client_message msg,
                    c_in_flight := c_in_flight c @ [take (unat n) (out_content msg)]\<rparr>))"

text \<open>The message is released from its buffer and owned by the queue.\<close>

definition client_write :: "64 word \<Rightarrow> 8 word \<Rightarrow> byte list \<Rightarrow> 32 word \<Rightarrow> unit client_stm" where
  "client_write rid ty message func_id = (\<lambda>c.
     if \<not> length message < MAX_BUF_LEN then (Inl (UB Assertion_Failed), c)
     else
       let msg = \<lparr>out_req_id = rid, out_req_type = ty, out_content = message, out_func_id = func_id\<rparr>;
           c = c\<lparr>outbox := outbox c @ [msg]\<rparr>
       in if length (outbox c) > 1 then (Inr (), c) else client_start_write c)"

text \<open>The oldest write completes.\<close>

definition on_client_write :: "error_code option \<Rightarrow> unit client_stm" where
  "on_client_write ec = (\<lambda>c.
     case ec of
       Some e \<Rightarrow>
         and_then (modify (\<lambda>c. c\<lparr>has_connected := False\<rparr>)) (\<lambda>_.
         and_then client_close (\<lambda>_. error_callback e)) c
     | None \<Rightarrow>
         if outbox c = [] then (Inr (), c)
         else
           let c = c\<lparr>outbox := tl (outbox c)\<rparr> in
           if outbox c = [] then (Inr (), c) else client_start_write c)"

text \<open>The heartbeat: an empty message every \<open>timeout\<close> seconds.\<close>

definition reset_deadline_timer :: "nat \<Rightarrow> unit client_stm" where
  "reset_deadline_timer t = modify (\<lambda>c. c\<lparr>deadline := Some t\<rparr>)"

definition on_deadline :: "bool \<Rightarrow> nat \<Rightarrow> unit client_stm" where
  "on_deadline failed t =
     and_then (\<lambda>c. if \<not> failed \<and> has_connected c then client_write 0 req_res [] 0 c else (Inr (), c))
       (\<lambda>_. reset_deadline_timer t)"

definition enable_auto_heartbeat :: "bool \<Rightarrow> unit client_stm" where
  "enable_auto_heartbeat enable =
     (if enable then reset_deadline_timer 5 else modify (\<lambda>c. c\<lparr>deadline := None\<rparr>))"

section \<open>Calls\<close>

definition packed_args :: "memory \<Rightarrow> arg list \<Rightarrow> byte list client_stm" where
  "packed_args M as = eval_expr (\<lambda>_. rbind (pack_args M as) (\<lambda>b. Inr (buffer_bytes b)))"

text \<open>With a future: its number is returned. The numbers do not repeat before \<open>2 ^ 64\<close> calls.\<close>

definition async_call_future :: "memory \<Rightarrow> string \<Rightarrow> arg list \<Rightarrow> 64 word client_stm" where
  "async_call_future M rpc_name as = (\<lambda>c.
     let i = fu_id c + 1 in
     and_then (modify (\<lambda>c. c\<lparr>fu_id := i, future_map := insert i (future_map c),
                             futures := (futures c)(i := Pending)\<rparr>)) (\<lambda>_.
     and_then (packed_args M as) (\<lambda>ret.
     and_then (client_write i req_res ret (MD5Hash32 (c_str rpc_name))) (\<lambda>_ c. (Inr i, c)))) c)"

text \<open>For other languages: name and arguments are encoded already.\<close>

definition internal_async_call :: "memory \<Rightarrow> byte list \<Rightarrow> 64 word client_stm" where
  "internal_async_call M encoded = (\<lambda>c.
     let i = fu_id c + 1 in
     and_then (modify (\<lambda>c. c\<lparr>fu_id := i\<rparr>)) (\<lambda>_.
     and_then (eval_expr (\<lambda>_.
         rbind (sbuffer_new (avail M) MSGPACK_SBUFFER_INIT_SIZE) (\<lambda>b.
         rbind (sbuffer_write (avail M) b encoded) (\<lambda>b. Inr (buffer_bytes b))))) (\<lambda>ret.
     and_then (client_write i req_res ret (MD5Hash32 (encoded @ [0]))) (\<lambda>_ c. (Inr i, c)))) c)"

text \<open>With a callback, and a timer if \<open>t\<close> is not 0.\<close>

definition start_timer :: "nat \<Rightarrow> call_t" where
  "start_timer t = \<lparr>call_timeout = t, has_timeout = False, call_timer = (t \<noteq> 0)\<rparr>"

definition async_call_callback :: "memory \<Rightarrow> nat \<Rightarrow> string \<Rightarrow> arg list \<Rightarrow> unit client_stm" where
  "async_call_callback M t rpc_name as = (\<lambda>c.
     if \<not> has_connected c then
       (Inr (), c\<lparr>called := called c @ [(0, Some Not_Connected, map of_char ''not connected'')]\<rparr>)
     else
       let i = (callback_id c + 1) OR push_bit 63 1 in
       and_then (modify (\<lambda>c. c\<lparr>callback_id := i, callback_map := callback_map c @ [(i, start_timer t)]\<rparr>)) (\<lambda>_.
       and_then (packed_args M as) (\<lambda>ret.
         client_write i req_res ret (MD5Hash32 (c_str rpc_name)))) c)"

text \<open>The timer of a call fires. Nothing is called then.\<close>

definition on_call_timer :: "64 word \<Rightarrow> unit client_stm" where
  "on_call_timer i = modify (\<lambda>c. c\<lparr>callback_map :=
     map (\<lambda>(k, cl). if k = i then (k, cl\<lparr>has_timeout := True, call_timer := False\<rparr>) else (k, cl)) (callback_map c)\<rparr>)"

text \<open>The end of a synchronous call: its time is over, or its future is there.\<close>

definition call_future :: "64 word \<Rightarrow> byte list client_stm" where
  "call_future i = eval_expr (\<lambda>c.
     case futures c i of
       Pending \<Rightarrow> Inl (Throw (Out_Of_Range ''timeout or deferred''))
     | Value d \<Rightarrow> Inr d
     | Broken \<Rightarrow> Inl (Throw Future_Error))"

definition call_result :: "memory \<Rightarrow> arg_type \<Rightarrow> 64 word \<Rightarrow> arg client_stm" where
  "call_result M t i = and_then (call_future i) (\<lambda>d. eval_expr (\<lambda>_. req_result_as M t d))"

definition call_void :: "memory \<Rightarrow> 64 word \<Rightarrow> unit client_stm" where
  "call_void M i = and_then (call_future i) (\<lambda>d. eval_expr (\<lambda>_. req_result_check M d))"

text \<open>Publishing is a call as well.\<close>

definition client_publish_by_token :: "memory \<Rightarrow> byte list \<Rightarrow> arg \<Rightarrow> arg \<Rightarrow> 64 word client_stm" where
  "client_publish_by_token M key token t =
     and_then (eval_expr (\<lambda>_. codec_pack M t)) (\<lambda>buf.
       async_call_future M ''publish_by_token'' [String_Arg key, token, String_Arg (buffer_bytes buf)])"

definition client_publish :: "memory \<Rightarrow> byte list \<Rightarrow> arg \<Rightarrow> 64 word client_stm" where
  "client_publish M key t =
     and_then (eval_expr (\<lambda>_. codec_pack M t)) (\<lambda>buf.
       async_call_future M ''publish'' [String_Arg key, Char_Ptr_Arg [0], String_Arg (buffer_bytes buf)])"

section \<open>Subscriptions\<close>

definition send_subscribe :: "memory \<Rightarrow> byte list \<Rightarrow> byte list \<Rightarrow> unit client_stm" where
  "send_subscribe M key token =
     and_then (packed_args M [String_Arg key, String_Arg token]) (\<lambda>ret.
       client_write 0 sub_pub ret (MD5Hash32 (key @ [0])))"

text \<open>The assertion on a duplicate is one of a string literal, which holds.\<close>

definition client_subscribe :: "memory \<Rightarrow> byte list \<Rightarrow> byte list \<Rightarrow> unit client_stm" where
  "client_subscribe M key token = (\<lambda>c.
     if key @ token \<in> c_sub_map c then (Inr (), c)
     else
       and_then (modify (\<lambda>c. c\<lparr>c_sub_map := insert (key @ token) (c_sub_map c)\<rparr>)) (\<lambda>_.
       and_then (send_subscribe M key token) (\<lambda>_.
         modify (\<lambda>c. c\<lparr>key_token_set := insort_insert (key, token) (key_token_set c)\<rparr>))) c)"

definition client_subscribe_key :: "memory \<Rightarrow> byte list \<Rightarrow> unit client_stm" where
  "client_subscribe_key M key = client_subscribe M key []"

fun resend_pairs :: "memory \<Rightarrow> (byte list \<times> byte list) list \<Rightarrow> unit client_stm" where
  "resend_pairs M [] = skip"
| "resend_pairs M ((key, token) # ps) = and_then (send_subscribe M key token) (\<lambda>_. resend_pairs M ps)"

definition resend_subscribe :: "memory \<Rightarrow> unit client_stm" where
  "resend_subscribe M = (\<lambda>c. resend_pairs M (key_token_set c) c)"

section \<open>Reading\<close>

definition do_read :: "unit client_stm" where
  "do_read = modify (\<lambda>c. c\<lparr>c_reading := C_Head\<rparr>)"

definition client_read_body :: "64 word \<Rightarrow> 8 word \<Rightarrow> nat \<Rightarrow> unit client_stm" where
  "client_read_body rid ty n = modify (\<lambda>c. c\<lparr>c_reading := C_Body rid ty n\<rparr>)"

text \<open>The completion of \<open>async_connect\<close>.\<close>

definition on_connect :: "memory \<Rightarrow> error_code option \<Rightarrow> unit client_stm" where
  "on_connect M ec = (\<lambda>c.
     if has_connected c then (Inr (), c)
     else
       case ec of
         Some e \<Rightarrow>
           (let c = c\<lparr>has_connected := False\<rparr> in
            if reconnect_cnt c \<le> 0 then (Inr (), c)
            else async_reconnect (c\<lparr>reconnect_cnt := reconnect_cnt c - 1\<rparr>))
       | None \<Rightarrow>
           and_then (modify (\<lambda>c. c\<lparr>has_connected := True\<rparr>)) (\<lambda>_.
           and_then do_read (\<lambda>_. resend_subscribe M)) c)"

text \<open>A reply goes to its callback or to its future.\<close>

definition call_back :: "64 word \<Rightarrow> error_code option \<Rightarrow> byte list \<Rightarrow> unit client_stm" where
  "call_back rid ec d = (\<lambda>c.
     if client_language c = JAVA then (Inr (), c\<lparr>received := received c @ [(rid, d)]\<rparr>)
     else
       let c = c\<lparr>temp_req_id := rid\<rparr> in
       if drop_bit 63 rid \<noteq> 0 then
         (case map_of (callback_map c) rid of
            None \<Rightarrow> (Inl (UB Assertion_Failed), c)
          | Some cl \<Rightarrow>
              (Inr (), c\<lparr>called := called c @ [if \<not> has_timeout cl then (rid, ec, d) else (rid, Some Timed_Out, [])],
                         callback_map := filter (\<lambda>(k, _). k \<noteq> rid) (callback_map c)\<rparr>))
       else if ec \<noteq> None \<and> rid \<in> future_map c then
         (Inr (), c\<lparr>futures := (futures c)(rid := Value []), future_map := future_map c - {rid}\<rparr>)
       else if rid \<notin> future_map c then (Inl (UB Assertion_Failed), c)
       else (Inr (), c\<lparr>futures := (futures c)(rid := Value d), future_map := future_map c - {rid}\<rparr>))"

definition callback_sub :: "memory \<Rightarrow> byte list \<Rightarrow> unit client_stm" where
  "callback_sub M reply =
     try_catch
       (and_then (eval_expr (\<lambda>_. codec_unpack M [Int_T, String_T, String_T] reply)) (\<lambda>tp c.
          case tp of
            [Int_Arg code, String_Arg key, String_Arg d] \<Rightarrow>
              if key \<in> c_sub_map c then (Inr (), c\<lparr>delivered := delivered c @ [(key, d)]\<rparr>) else (Inr (), c)
          | _ \<Rightarrow> (Inr (), c)))
       (\<lambda>e. error_callback Invalid_Argument_Code)"

definition on_client_head :: "error_code option \<Rightarrow> byte list \<Rightarrow> unit client_stm" where
  "on_client_head ec head = (\<lambda>c.
     if \<not> c_open c then (Inr (), c\<lparr>has_connected := False\<rparr>)
     else
       case ec of
         None \<Rightarrow>
           (let h = header_of_bytes head;
                len = unat (body_len h)
            in if 0 < len \<and> len < MAX_BUF_LEN then
                 client_read_body (hdr_req_id h) (hdr_req_type h) len
                   (if c_body_size c < len then c\<lparr>c_body_size := len\<rparr> else c)
               else if len = 0 \<or> len > MAX_BUF_LEN then
                 and_then client_close (\<lambda>_. error_callback Message_Size) c
               else (Inr (), c))
       | Some e \<Rightarrow>
           and_then (modify (\<lambda>c. c\<lparr>called := called c @ map (\<lambda>(i, _). (i, Some e, [])) (callback_map c)\<rparr>)) (\<lambda>_.
           and_then client_close (\<lambda>_. error_callback e)) c)"

definition on_client_body :: "memory \<Rightarrow> 64 word \<Rightarrow> 8 word \<Rightarrow> error_code option \<Rightarrow> byte list \<Rightarrow> unit client_stm" where
  "on_client_body M rid ty ec d = (\<lambda>c.
     if \<not> c_open c then call_back rid (Some Connection_Aborted) [] c
     else
       case ec of
         None \<Rightarrow>
           if ty = req_res then and_then (call_back rid None d) (\<lambda>_. do_read) c
           else if ty = sub_pub then and_then (callback_sub M d) (\<lambda>_. do_read) c
           else and_then client_close (\<lambda>_. error_callback Invalid_Argument_Code) c
       | Some e \<Rightarrow>
           and_then (modify (\<lambda>c. c\<lparr>has_connected := False\<rparr>)) (\<lambda>_.
           and_then (call_back rid (Some e) []) (\<lambda>_.
           and_then client_close (\<lambda>_. error_callback e))) c)"

end
