(* ===== verification/Rpc_Connection_Safe.thy ===== *)
theory Rpc_Connection_Safe
  imports Rpc_Connection
begin

unbundle bit_operations_syntax

text \<open>
  What a connection guarantees: headers survive the wire, responses are written
  whole and in the order they were given, one at a time, and nothing stays in the
  queue while writes succeed.
\<close>

section \<open>Headers\<close>

lemma length_memory [simp]: "length (memory32 x) = 4" "length (memory64 y) = 8"
  by (simp_all add: memory32_def memory64_def)

lemma length_header_bytes: "length padding = 2 \<Longrightarrow> length (header_bytes padding h) = HEAD_LEN"
  by (simp add: header_bytes_def HEAD_LEN_def)

lemma header_of_header_bytes:
  assumes "length padding = 2"
  shows "header_of_bytes (header_bytes padding h) = h"
proof -
  from assms obtain p q where "padding = [p, q]"
    by (metis (no_types, opaque_lifting) One_nat_def Suc_1 length_0_conv length_Suc_conv)
  then show ?thesis
    by (cases h) (simp add: header_of_bytes_def header_bytes_def value_of_memory32 value_of_memory64)
qed

section \<open>Invariant\<close>

definition message_of :: "rpc_header \<times> byte list \<Rightarrow> message_type" where
  "message_of w = \<lparr>msg_req_id = hdr_req_id (fst w), msg_req_type = hdr_req_type (fst w), content = snd w\<rparr>"

text \<open>A message on the wire: its header announces its length.\<close>

definition framed :: "rpc_header \<times> byte list \<Rightarrow> bool" where
  "framed w \<longleftrightarrow> magic (fst w) = MAGIC_NUM \<and> unat (body_len (fst w)) = length (snd w)"

text \<open>At most the front of the queue is being written, under its own header.\<close>

definition writes_front :: "connection \<Rightarrow> bool" where
  "writes_front c \<longleftrightarrow>
     in_flight c = [] \<or>
     (\<exists>m ms. write_queue c = m # ms \<and> in_flight c = [content m] \<and> header c = header_of_message m)"

definition conn_ok :: "connection \<Rightarrow> bool" where
  "conn_ok c \<longleftrightarrow>
     (socket_open c \<longleftrightarrow> \<not> has_closed c) \<and>
     (\<forall>m \<in> set (write_queue c). length (content m) < MAX_BUF_LEN) \<and>
     (\<forall>w \<in> set (wire c). framed w) \<and>
     writes_front c \<and>
     (\<not> has_closed c \<longrightarrow> write_queue c \<noteq> [] \<longrightarrow> in_flight c \<noteq> []) \<and>
     (submitted c = map message_of (wire c) @ write_queue c \<or>
        has_closed c \<and> in_flight c = [] \<and> write_queue c \<noteq> [] \<and>
        submitted c = map message_of (wire c) @ tl (write_queue c)) \<and>
     body_size c < MAX_BUF_LEN"

lemma framed_header:
  "length (content m) < MAX_BUF_LEN \<Longrightarrow> framed (header_of_message m, content m)"
  by (simp add: framed_def header_of_message_def MAX_BUF_LEN_def unat_of_nat)

lemma message_of_header: "message_of (header_of_message m, content m) = m"
  by (simp add: message_of_def header_of_message_def)

lemma take_content: "length (content m) < MAX_BUF_LEN \<Longrightarrow>
  take (unat (of_nat (length (content m)) :: 32 word)) (content m) = content m"
  by (simp add: MAX_BUF_LEN_def unat_of_nat)

text \<open>Fields that the invariant does not read.\<close>

lemma conn_ok_frame [simp]:
  "conn_ok (c\<lparr>reading := x\<rparr>) = conn_ok c"
  "conn_ok (c\<lparr>timer_armed := b\<rparr>) = conn_ok c"
  "conn_ok (c\<lparr>net_errs := es\<rparr>) = conn_ok c"
  "conn_ok (c\<lparr>req_id := i, req_type := t\<rparr>) = conn_ok c"
  "conn_ok (c\<lparr>conn_id := k\<rparr>) = conn_ok c"
  "conn_ok (c\<lparr>on_net_err := b\<rparr>) = conn_ok c"
  "n < MAX_BUF_LEN \<Longrightarrow> conn_ok c \<Longrightarrow> conn_ok (c\<lparr>body_size := n\<rparr>)"
  by (simp_all add: conn_ok_def writes_front_def)

lemma conn_ok_simple [simp]:
  "conn_ok (notify m c) = conn_ok c"
  "conn_ok (reset_timer c) = conn_ok c"
  "conn_ok (cancel_timer c) = conn_ok c"
  "conn_ok (read_head c) = conn_ok c"
  "conn_ok (read_body f n c) = conn_ok c"
  by (simp_all add: notify_def reset_timer_def cancel_timer_def read_head_def read_body_def)

lemma close_closed: "has_closed (close c)"
  by (simp add: close_def)

lemma conn_ok_close: "conn_ok c \<Longrightarrow> conn_ok (close c)"
  by (auto simp: conn_ok_def close_def writes_front_def)

lemma untouched [simp]:
  "conn_id (notify m c) = conn_id c" "conn_id (reset_timer c) = conn_id c"
  "conn_id (cancel_timer c) = conn_id c" "conn_id (read_head c) = conn_id c"
  "conn_id (read_body f n c) = conn_id c" "conn_id (close c) = conn_id c"
  "submitted (notify m c) = submitted c" "submitted (reset_timer c) = submitted c"
  "submitted (cancel_timer c) = submitted c" "submitted (read_head c) = submitted c"
  "submitted (read_body f n c) = submitted c" "submitted (close c) = submitted c"
  "has_closed (notify m c) = has_closed c" "has_closed (reset_timer c) = has_closed c"
  "has_closed (cancel_timer c) = has_closed c" "has_closed (read_head c) = has_closed c"
  "has_closed (read_body f n c) = has_closed c"
  "wire (cancel_timer c) = wire c" "wire (read_head c) = wire c"
  "req_id (notify m c) = req_id c" "req_id (read_head c) = req_id c" "req_id (cancel_timer c) = req_id c"
  "req_type (read_head c) = req_type c" "req_type (cancel_timer c) = req_type c"
  "socket_open (cancel_timer c) = socket_open c" "socket_open (read_head c) = socket_open c"
  by (simp_all add: notify_def reset_timer_def cancel_timer_def read_head_def read_body_def close_def)

section \<open>Responses\<close>

lemma connection_response_ok:
  assumes ok: "conn_ok c" and short: "length d < MAX_BUF_LEN"
  shows "\<exists>c'. connection_response rid rty d c = (Inr (), c') \<and> conn_ok c' \<and>
    submitted c' = submitted c @ [\<lparr>msg_req_id = rid, msg_req_type = rty, content = d\<rparr>] \<and>
    has_closed c' = has_closed c \<and> conn_id c' = conn_id c \<and> req_id c' = req_id c \<and> wire c' = wire c"
proof -
  let ?m = "\<lparr>msg_req_id = rid, msg_req_type = rty, content = d\<rparr>"
  let ?c = "c\<lparr>write_queue := write_queue c @ [?m], submitted := submitted c @ [?m]\<rparr>"
  have m: "length (content ?m) < MAX_BUF_LEN" using short by simp
  show ?thesis
  proof (cases "write_queue c")
    case Nil
    then have idle: "in_flight c = []" "submitted c = map message_of (wire c)"
      using ok by (auto simp: conn_ok_def writes_front_def)
    have "connection_response rid rty d c = (Inr (), ?c\<lparr>write_size := of_nat (length d),
        header := header_of_message ?m, in_flight := [d]\<rparr>)"
      using short take_content [OF m] Nil idle by (simp add: connection_response_def start_write_def Let_def)
    then show ?thesis
      using ok short Nil idle by (auto simp: conn_ok_def writes_front_def)
  next
    case (Cons x xs)
    then have "connection_response rid rty d c = (Inr (), ?c)"
      using short by (simp add: connection_response_def Let_def)
    then show ?thesis
      using ok short Cons by (auto simp: conn_ok_def writes_front_def)
  qed
qed

text \<open>A connection keeps the contract of the router, together with what
  else holds of the service, the number of the connection and whether it is closed.\<close>

interpretation conn: responder connection_ops "\<lambda>(a, c). P a (conn_id c) (has_closed c) \<and> conn_ok c"
    "\<lambda>(a, c). map (\<lambda>m. (msg_req_id m, content m)) (submitted c)"
  for P :: "'a \<Rightarrow> int \<Rightarrow> bool \<Rightarrow> bool"
proof
  fix s :: "'a \<times> connection" and d :: "byte list" and i
  assume good: "case s of (a, c) \<Rightarrow> P a (conn_id c) (has_closed c) \<and> conn_ok c" and short: "length d < MAX_BUF_LEN"
  obtain a c where s: "s = (a, c)" by force
  from connection_response_ok [OF _ short, of c i req_res] good show
    "\<exists>s'. response connection_ops i d s = (Inr (), s') \<and> (case s' of (a, c) \<Rightarrow> P a (conn_id c) (has_closed c) \<and> conn_ok c) \<and>
       (case s' of (a, c) \<Rightarrow> map (\<lambda>m. (msg_req_id m, content m)) (submitted c)) =
       (case s of (a, c) \<Rightarrow> map (\<lambda>m. (msg_req_id m, content m)) (submitted c)) @ [(i, d)]"
    by (auto simp: s connection_ops_def on_connection_def)
next
  fix s :: "'a \<times> connection" and d :: "byte list" and i
  assume "case s of (a, c) \<Rightarrow> P a (conn_id c) (has_closed c) \<and> conn_ok c" and "\<not> length d < MAX_BUF_LEN"
  then show "response connection_ops i d s = (Inl (UB Assertion_Failed), s)"
    by (cases s) (simp add: connection_ops_def on_connection_def connection_response_def)
qed

section \<open>Completions\<close>

text \<open>
  A write completes: without an error its header and content are on the wire.
  A read completes, or the timer fires.
\<close>

definition write_done :: "string option \<Rightarrow> connection \<Rightarrow> unit result \<times> connection" where
  "write_done ec c =
     on_write ec
       (c\<lparr>in_flight := tl (in_flight c),
          wire := (if ec = None then wire c @ [(header c, hd (in_flight c))] else wire c)\<rparr>)"

definition head_done :: "string option \<Rightarrow> byte list \<Rightarrow> connection \<Rightarrow> connection" where
  "head_done ec head c = on_read_head ec head (c\<lparr>reading := No_Read\<rparr>)"

definition body_done ::
    "memory \<Rightarrow> ('a \<times> connection) router \<Rightarrow> (byte list \<Rightarrow> byte list \<Rightarrow> ('a \<times> connection, unit) stm)
     \<Rightarrow> 32 word \<Rightarrow> string option \<Rightarrow> byte list \<Rightarrow> ('a \<times> connection, unit) stm" where
  "body_done M r callback func_id ec data = (\<lambda>(a, c).
     on_read_body M r callback func_id ec data (a, c\<lparr>reading := No_Read\<rparr>))"

definition timeout_done :: "connection \<Rightarrow> connection" where
  "timeout_done c = on_timeout (c\<lparr>timer_armed := False\<rparr>)"

lemma write_done_ok:
  assumes ok: "conn_ok c" and busy: "in_flight c \<noteq> []"
  shows "\<exists>c'. write_done ec c = (Inr (), c') \<and> conn_ok c' \<and> submitted c' = submitted c \<and>
    conn_id c' = conn_id c \<and> (has_closed c \<longrightarrow> has_closed c') \<and>
    (ec = None \<longrightarrow> wire c' = wire c @ [(header_of_message (hd (write_queue c)), content (hd (write_queue c)))]) \<and>
    (ec = None \<longrightarrow> \<not> has_closed c \<longrightarrow>
       write_queue c' = tl (write_queue c) \<and> has_closed c' = has_closed c)"
proof -
  obtain m ms where q: "write_queue c = m # ms" "in_flight c = [content m]" "header c = header_of_message m"
    using ok busy by (auto simp: conn_ok_def writes_front_def)
  then have short: "length (content m) < MAX_BUF_LEN" "\<forall>x \<in> set ms. length (content x) < MAX_BUF_LEN"
    and sub: "submitted c = map message_of (wire c) @ m # ms"
    using ok by (auto simp: conn_ok_def)
  show ?thesis
  proof (cases ec)
    case (Some e)
    let ?d = "notify e (c\<lparr>in_flight := []\<rparr>)"
    have "write_done ec c = (Inr (), close ?d)"
      by (simp add: write_done_def on_write_def Some q)
    moreover have "conn_ok (close ?d)"
    proof -
      have "conn_ok (c\<lparr>in_flight := [], has_closed := True, socket_open := False\<rparr>)"
        using ok sub q by (auto simp: conn_ok_def writes_front_def)
      then show ?thesis
        using ok by (auto simp: close_def notify_def conn_ok_def writes_front_def)
    qed
    ultimately show ?thesis using Some by (auto simp: close_def notify_def)
  next
    case None
    let ?w = "wire c @ [(header_of_message m, content m)]"
    let ?d = "c\<lparr>in_flight := [], wire := ?w\<rparr>"
    have done_eq: "write_done ec c = on_write None ?d" by (simp add: write_done_def None q)
    have w: "\<forall>x \<in> set ?w. framed x" using ok framed_header [OF short(1)] by (auto simp: conn_ok_def)
    have hist: "submitted c = map message_of ?w @ ms" using sub message_of_header [of m] by simp
    show ?thesis
    proof (cases "has_closed c")
      case True
      have "conn_ok ?d"
        using ok w hist True q by (auto simp: conn_ok_def writes_front_def)
      then show ?thesis using True by (auto simp: done_eq on_write_def q(1))
    next
      case open_c: False
      show ?thesis
      proof (cases ms)
        case Nil
        then show ?thesis
          using ok w hist open_c q by (auto simp: done_eq on_write_def conn_ok_def writes_front_def Let_def)
      next
        case (Cons n ns)
        then have n: "length (content n) < MAX_BUF_LEN" using short by simp
        have "on_write None ?d = (Inr (), ?d\<lparr>write_queue := ms, write_size := of_nat (length (content n)),
            header := header_of_message n, in_flight := [content n]\<rparr>)"
          using open_c Cons take_content [OF n] by (simp add: on_write_def q start_write_def Let_def)
        then show ?thesis
          using ok w hist open_c q Cons short by (auto simp: done_eq conn_ok_def writes_front_def)
      qed
    qed
  qed
qed

text \<open>Reading a head queues nothing.\<close>

lemma head_done_ok:
  assumes "conn_ok c"
  shows "conn_ok (head_done ec head c) \<and> submitted (head_done ec head c) = submitted c \<and>
    conn_id (head_done ec head c) = conn_id c \<and> (has_closed c \<longrightarrow> has_closed (head_done ec head c))"
proof -
  let ?c = "c\<lparr>reading := No_Read\<rparr>"
  let ?h = "header_of_bytes head"
  let ?d = "?c\<lparr>req_id := hdr_req_id ?h, req_type := hdr_req_type ?h\<rparr>"
  have ok: "conn_ok ?c" "conn_ok ?d" "submitted ?d = submitted c" "conn_id ?d = conn_id c"
    "has_closed ?d = has_closed c" using assms by simp_all
  show ?thesis
    using ok
    by (auto simp: head_done_def on_read_head_def Let_def conn_ok_close close_closed split: option.split)
qed

lemma timeout_done_ok:
  "conn_ok c \<Longrightarrow> conn_ok (timeout_done c) \<and> submitted (timeout_done c) = submitted c \<and>
     conn_id (timeout_done c) = conn_id c \<and> (has_closed c \<longrightarrow> has_closed (timeout_done c))"
  by (simp add: timeout_done_def on_timeout_def conn_ok_close close_closed)

text \<open>
  Reading a body queues at most one response, for the request it belongs to, if the
  handlers queue nothing themselves.
\<close>

lemma on_read_body_ok:
  assumes handlers: "\<And>ivk as. map_invokers r f = Some ivk \<Longrightarrow>
        exec_model ivk = Sync \<and> conn.quiet P (invoker_func ivk as)"
    and callback: "\<And>k t. conn.quiet P (callback k t)"
    and ok: "conn_ok c" "P a (conn_id c) (has_closed c)"
    and run: "on_read_body M r callback f ec data (a, c) = (res, (a', c'))"
  shows "P a' (conn_id c') (has_closed c') \<and> conn_ok c' \<and>
    (map (\<lambda>m. (msg_req_id m, content m)) (submitted c') = map (\<lambda>m. (msg_req_id m, content m)) (submitted c) \<or>
     (\<exists>d. length d < MAX_BUF_LEN \<and> map (\<lambda>m. (msg_req_id m, content m)) (submitted c') =
        map (\<lambda>m. (msg_req_id m, content m)) (submitted c) @ [(req_id c, d)]))"
proof -
  let ?c = "cancel_timer c"
  let ?sent = "\<lambda>c. map (\<lambda>m. (msg_req_id m, content m)) (submitted c)"
  consider (closed) "\<not> socket_open c" | (error) m where "socket_open c" "ec = Some m"
    | (request) "socket_open c" "ec = None" by (cases ec) auto
  then show ?thesis
  proof cases
    case closed
    then show ?thesis
      using run ok by (auto simp: on_read_body_def and_then_def change_def modify_def)
  next
    case error
    then show ?thesis
      using run ok by (auto simp: on_read_body_def and_then_def change_def modify_def)
  next
    case request
    let ?s = "(a, read_head ?c)"
    have good: "case ?s of (a, c) \<Rightarrow> P a (conn_id c) (has_closed c) \<and> conn_ok c" using ok by simp
    consider (route) "req_type ?c = req_res" | (publish) "req_type ?c = sub_pub"
      | (other) "req_type ?c \<noteq> req_res" "req_type ?c \<noteq> sub_pub" by blast
    then show ?thesis
    proof cases
      case route
      then have "route M connection_ops r f data ?s = (res, (a', c'))"
        using run request
        by (simp add: on_read_body_def and_then_def change_def modify_def)
      from conn.route_sends [OF handlers good _ this] show ?thesis
        by (auto simp: conn.answered_def connection_ops_def split: sum.splits)
    next
      case publish
      let ?m = "try_catch
          (and_then (eval_expr (\<lambda>_. codec_unpack M [String_T, String_T] data)) (\<lambda>p.
             case p of [String_Arg key, String_Arg token] \<Rightarrow> callback key token | _ \<Rightarrow> skip))
          (\<lambda>e. change (notify (exn_what e)))"
      have silent: "conn.quiet P skip" "conn.quiet P (change (notify m))" for m
        by (auto simp: conn.quiet_def skip_def change_def modify_def)
      have "conn.quiet P (case p of [String_Arg key, String_Arg token] \<Rightarrow> callback key token | _ \<Rightarrow> skip)" for p
        by (auto split: list.split arg.split simp: callback silent)
      then have "conn.quiet P ?m"
        by (intro conn.quiet_try_catch conn.quiet_and_then conn.quiet_eval_expr silent)
      moreover have "?m ?s = (res, (a', c'))"
        using run request publish
        by (simp add: on_read_body_def and_then_def change_def modify_def)
      ultimately show ?thesis using good unfolding conn.quiet_def by fastforce
    next
      case other
      then show ?thesis
        using run request ok
        by (auto simp: on_read_body_def and_then_def change_def modify_def)
    qed
  qed
qed

section \<open>Draining the queue\<close>

text \<open>A number of writes that complete without an error, one after the other.\<close>

primrec writes_done :: "nat \<Rightarrow> connection \<Rightarrow> unit result \<times> connection" where
  "writes_done 0 c = (Inr (), c)"
| "writes_done (Suc n) c =
     (case write_done None c of (Inl e, c) \<Rightarrow> (Inl e, c) | (Inr _, c) \<Rightarrow> writes_done n c)"

lemma writes_done_drain:
  assumes "conn_ok c" "\<not> has_closed c" "length (write_queue c) = n"
  shows "\<exists>c'. writes_done n c = (Inr (), c') \<and> conn_ok c' \<and> \<not> has_closed c' \<and>
    write_queue c' = [] \<and> in_flight c' = [] \<and> submitted c' = submitted c \<and>
    map message_of (wire c') = submitted c"
  using assms
proof (induction n arbitrary: c)
  case 0
  then show ?case by (auto simp: conn_ok_def writes_front_def)
next
  case (Suc n)
  then have "write_queue c \<noteq> []" by auto
  then have "in_flight c \<noteq> []" using Suc.prems(1,2) by (simp add: conn_ok_def)
  from write_done_ok [OF Suc.prems(1) this, of None] obtain d where
    d: "write_done None c = (Inr (), d)" "conn_ok d" "submitted d = submitted c"
      "write_queue d = tl (write_queue c)" "has_closed d = has_closed c"
    using Suc.prems(2) by auto
  from Suc.IH [OF d(2)] d(4,5) Suc.prems(2,3) show ?case by (simp add: d(1,3))
qed

end
