(* ===== verification/Rpc_Server.thy ===== *)
theory Rpc_Server
  imports Rpc_Connection_Safe
begin

text \<open>
  The server of \<open>src/3rd/inc/rest_rpc/rpc_server.h\<close> and the pool of io contexts of
  \<open>io_service_pool.h\<close>: it accepts connections, keeps them until they are closed,
  remembers subscriptions and publishes to them.

  Connections are numbered in the order in which they were accepted, \<open>accepted\<close>
  lists them, and a shared or weak pointer to one is its number. The state behind the
  handlers is the field \<open>service\<close>. What the background threads do between two waits
  is one definition each, \<open>clean_pass\<close> and \<open>clean_sub_pub_pass\<close>.
\<close>

section \<open>The pool\<close>

record io_service_pool =
  io_services :: nat
  next_io_service :: nat
  pool_stopped :: bool

definition io_service_pool_new :: "nat \<Rightarrow> io_service_pool result" where
  "io_service_pool_new pool_size =
     (if pool_size = 0 then Inl (Throw (Runtime_Error ''io_service_pool size is 0''))
      else Inr \<lparr>io_services = pool_size, next_io_service = 0, pool_stopped = False\<rparr>)"

definition get_io_service :: "io_service_pool \<Rightarrow> nat \<times> io_service_pool" where
  "get_io_service p =
     (let io = next_io_service p;
          p = p\<lparr>next_io_service := next_io_service p + 1\<rparr>;
          p = (if next_io_service p = io_services p then p\<lparr>next_io_service := 0\<rparr> else p)
      in (io, p))"

definition io_service_pool_stop :: "io_service_pool \<Rightarrow> io_service_pool" where
  "io_service_pool_stop p = p\<lparr>pool_stopped := True\<rparr>"

section \<open>State\<close>

record 'a rpc_server =
  service :: 'a
  pool :: io_service_pool
  acceptor_open :: bool
  accepting :: connection
  accepted :: "connection list"
  connections :: "(int \<times> nat) list"
  next_conn_id :: int
  conn_timeout :: nat
  conn_timeout_callback :: bool
  timed_out :: "int list"
  on_net_err_callback :: bool
  stop_check :: bool
  sub_map :: "(byte list \<times> nat) list"
  token_list :: "byte list set"
  stop_check_pub_sub :: bool
  has_stoped :: bool

text \<open>The members that the constructor of a connection leaves unset.\<close>

type_synonym unset = "64 word \<times> 8 word \<times> rpc_header"

definition do_accept :: "unset \<Rightarrow> 'a rpc_server \<Rightarrow> 'a rpc_server" where
  "do_accept u s =
     (case u of (rid, rty, hdr) \<Rightarrow>
        s\<lparr>pool := snd (get_io_service (pool s)),
          accepting := connection_new (conn_timeout s) rid rty hdr\<rparr>)"

text \<open>The acceptor and the signal set take an io context each.\<close>

definition rpc_server_new :: "'a \<Rightarrow> nat \<Rightarrow> nat \<Rightarrow> unset \<Rightarrow> 'a rpc_server result" where
  "rpc_server_new a n timeout u =
     rbind (io_service_pool_new n) (\<lambda>p.
       Inr (do_accept u
         \<lparr>service = a, pool = snd (get_io_service (snd (get_io_service p))), acceptor_open = True,
          accepting = connection_new timeout 0 0 (header_of_message \<lparr>msg_req_id = 0, msg_req_type = 0, content = []\<rparr>),
          accepted = [], connections = [], next_conn_id = 0, conn_timeout = timeout,
          conn_timeout_callback = False, timed_out = [], on_net_err_callback = False, stop_check = False,
          sub_map = [], token_list = {}, stop_check_pub_sub = False, has_stoped = False\<rparr>))"

definition set_conn_timeout_callback :: "'a rpc_server \<Rightarrow> 'a rpc_server" where
  "set_conn_timeout_callback s = s\<lparr>conn_timeout_callback := True\<rparr>"

definition set_network_err_callback :: "'a rpc_server \<Rightarrow> 'a rpc_server" where
  "set_network_err_callback s = s\<lparr>on_net_err_callback := True\<rparr>"

definition get_token_list :: "'a rpc_server \<Rightarrow> byte list set" where
  "get_token_list s = token_list s"

section \<open>Accepting\<close>

text \<open>The socket is open once the accept has succeeded. The counter is an \<open>int64_t\<close>.\<close>

definition accept_connection :: "('a rpc_server, unit) stm" where
  "accept_connection s =
     (let c = (accepting s)\<lparr>socket_open := True\<rparr>;
          c = (if on_net_err_callback s then on_network_error c else c);
          c = set_conn_id (next_conn_id s) (start c);
          i = length (accepted s)
      in if next_conn_id s = 2 ^ 63 - 1 then (Inl (UB Signed_Overflow), s)
         else (Inr (), s\<lparr>accepted := accepted s @ [c],
                         connections := (if next_conn_id s \<in> fst ` set (connections s) then connections s
                                         else connections s @ [(next_conn_id s, i)]),
                         next_conn_id := next_conn_id s + 1\<rparr>))"

definition on_accept :: "unset \<Rightarrow> bool \<Rightarrow> ('a rpc_server, unit) stm" where
  "on_accept u failed s =
     (if \<not> acceptor_open s then (Inr (), s)
      else and_then (if failed then skip else accept_connection) (\<lambda>_. modify (do_accept u)) s)"

section \<open>Connections\<close>

text \<open>A statement of one connection, as a statement of the server.\<close>

definition on_conn :: "nat \<Rightarrow> ('a rpc_server \<times> connection, 'b) stm \<Rightarrow> ('a rpc_server, 'b) stm" where
  "on_conn i m = (\<lambda>s. case m (s, accepted s ! i) of
     (r, (s, c)) \<Rightarrow> (r, s\<lparr>accepted := (accepted s)[i := c]\<rparr>))"

definition on_service :: "'a handler \<Rightarrow> ('a rpc_server \<times> connection) handler" where
  "on_service h as = (\<lambda>(s, c). case h as (service s) of (r, a) \<Rightarrow> (r, (s\<lparr>service := a\<rparr>, c)))"

text \<open>The callback of a connection for subscriptions.\<close>

definition subscribe :: "nat \<Rightarrow> byte list \<Rightarrow> byte list \<Rightarrow> ('a rpc_server \<times> connection, unit) stm" where
  "subscribe i key token = modify (\<lambda>(s, c).
     (s\<lparr>sub_map := sub_map s @ [(key @ token, i)],
        token_list := (if token = [] then token_list s else insert token (token_list s))\<rparr>, c))"

text \<open>
  A connection object lives as long as something points to it: the table, or the
  handler of an operation that is under way.
\<close>

definition held :: "'a rpc_server \<Rightarrow> nat \<Rightarrow> bool" where
  "held s i \<longleftrightarrow>
     i \<in> snd ` set (connections s) \<or>
     reading (accepted s ! i) \<noteq> No_Read \<or> in_flight (accepted s ! i) \<noteq> [] \<or> timer_armed (accepted s ! i)"

definition gone :: "'a rpc_server \<Rightarrow> nat \<Rightarrow> bool" where
  "gone s i \<longleftrightarrow> \<not> held s i \<or> has_closed (accepted s ! i)"

section \<open>Cleaning\<close>

text \<open>The connections that stay, and the numbers of those that are closed.\<close>

fun clean_loop :: "connection list \<Rightarrow> (int \<times> nat) list \<Rightarrow> (int \<times> nat) list \<times> int list" where
  "clean_loop cs [] = ([], [])"
| "clean_loop cs ((k, i) # it) =
     (case clean_loop cs it of (keep, ids) \<Rightarrow>
        if has_closed (cs ! i) then (keep, conn_id (cs ! i) # ids)
        else ((k, i) # keep, ids))"

definition clean_pass :: "'a rpc_server \<Rightarrow> 'a rpc_server" where
  "clean_pass s =
     (case clean_loop (accepted s) (connections s) of (keep, ids) \<Rightarrow>
        s\<lparr>connections := keep,
          timed_out := (if conn_timeout_callback s then timed_out s @ ids else timed_out s)\<rparr>)"

text \<open>\<open>std::string::find\<close> finds something.\<close>

fun finds :: "byte list \<Rightarrow> byte list \<Rightarrow> bool" where
  "finds [] t \<longleftrightarrow> t = []"
| "finds (b # bs) t \<longleftrightarrow> take (length t) (b # bs) = t \<or> finds bs t"

fun clean_sub_pub_loop ::
    "(nat \<Rightarrow> bool) \<Rightarrow> (byte list \<times> nat) list \<Rightarrow> byte list set \<Rightarrow> (byte list \<times> nat) list \<times> byte list set" where
  "clean_sub_pub_loop dead [] tokens = ([], tokens)"
| "clean_sub_pub_loop dead ((key, i) # it) tokens =
     (if dead i then clean_sub_pub_loop dead it {t \<in> tokens. \<not> finds key t}
      else case clean_sub_pub_loop dead it tokens of (keep, tokens) \<Rightarrow> ((key, i) # keep, tokens))"

definition clean_sub_pub_pass :: "'a rpc_server \<Rightarrow> 'a rpc_server" where
  "clean_sub_pub_pass s =
     (case clean_sub_pub_loop (gone s) (sub_map s) (token_list s) of (keep, tokens) \<Rightarrow>
        s\<lparr>sub_map := keep, token_list := tokens\<rparr>)"

section \<open>Publishing\<close>

text \<open>\<open>publish\<close> of a text: to every subscription of the key with the token.\<close>

fun publish_to :: "memory \<Rightarrow> byte list \<Rightarrow> byte list \<Rightarrow> (byte list \<times> nat) list \<Rightarrow> ('a rpc_server, unit) stm" where
  "publish_to M key d [] = skip"
| "publish_to M key d ((k, i) # it) = (\<lambda>s.
     if k \<noteq> key \<or> gone s i then publish_to M key d it s
     else and_then (on_conn i (on_connection (publish M key d))) (\<lambda>_. publish_to M key d it) s)"

definition server_publish :: "memory \<Rightarrow> byte list \<Rightarrow> byte list \<Rightarrow> byte list \<Rightarrow> ('a rpc_server, unit) stm" where
  "server_publish M key token d s =
     (if sub_map s = [] then (Inr (), s) else publish_to M (key @ token) d (sub_map s) s)"

definition publish_by_token :: "memory \<Rightarrow> byte list \<Rightarrow> byte list \<Rightarrow> byte list \<Rightarrow> ('a rpc_server, unit) stm" where
  "publish_by_token M key token d = server_publish M key token d"

definition publish_all :: "memory \<Rightarrow> byte list \<Rightarrow> byte list \<Rightarrow> ('a rpc_server, unit) stm" where
  "publish_all M key d = server_publish M key [] d"

section \<open>Stopping\<close>

text \<open>The threads are joined; run with \<open>run\<close>, there is no thread \<open>thd_\<close>.\<close>

definition server_stop :: "'a rpc_server \<Rightarrow> 'a rpc_server" where
  "server_stop s =
     (if has_stoped s then s
      else s\<lparr>stop_check := True, stop_check_pub_sub := True, pool := io_service_pool_stop (pool s),
             has_stoped := True\<rparr>)"

section \<open>Steps\<close>

text \<open>
  The events of a server: a connection is accepted or not, a read or write completes,
  a timer fires (also one cancelled too late), a cleaner wakes, something is
  published, or the service changes by itself.
\<close>

inductive server_step ::
    "memory \<Rightarrow> ('a rpc_server \<times> connection) router \<Rightarrow> ('a \<Rightarrow> 'a \<Rightarrow> bool)
     \<Rightarrow> 'a rpc_server \<Rightarrow> 'a rpc_server \<Rightarrow> bool"
  for M r background where
  accept: "on_accept u failed s = (Inr (), s') \<Longrightarrow> server_step M r background s s'"
| head: "i < length (accepted s) \<Longrightarrow> reading (accepted s ! i) = Read_Head \<Longrightarrow>
    (ec = None \<longrightarrow> length bytes = HEAD_LEN) \<Longrightarrow>
    on_conn i (change (head_done ec bytes)) s = (Inr (), s') \<Longrightarrow> server_step M r background s s'"
| body: "i < length (accepted s) \<Longrightarrow> reading (accepted s ! i) = Read_Body f n \<Longrightarrow>
    (ec = None \<longrightarrow> length bytes = n) \<Longrightarrow>
    on_conn i (body_done M r (subscribe i) f ec bytes) s = (Inr (), s') \<Longrightarrow> server_step M r background s s'"
| written: "i < length (accepted s) \<Longrightarrow> in_flight (accepted s ! i) \<noteq> [] \<Longrightarrow>
    on_conn i (on_connection (write_done ec)) s = (Inr (), s') \<Longrightarrow> server_step M r background s s'"
| timeout: "i < length (accepted s) \<Longrightarrow> timeout_seconds (accepted s ! i) \<noteq> 0 \<Longrightarrow>
    on_conn i (change timeout_done) s = (Inr (), s') \<Longrightarrow> server_step M r background s s'"
| clean: "server_step M r background s (clean_pass s)"
| clean_sub_pub: "server_step M r background s (clean_sub_pub_pass s)"
| publish: "server_publish M key token d s = (Inr (), s') \<Longrightarrow> server_step M r background s s'"
| background: "background (service s) a \<Longrightarrow> server_step M r background s (s\<lparr>service := a\<rparr>)"
| stop: "server_step M r background s (server_stop s)"

inductive server_reachable ::
    "memory \<Rightarrow> ('a rpc_server \<times> connection) router \<Rightarrow> ('a \<Rightarrow> 'a \<Rightarrow> bool)
     \<Rightarrow> 'a \<Rightarrow> nat \<Rightarrow> nat \<Rightarrow> 'a rpc_server \<Rightarrow> bool"
  for M r background a n time where
  server_start: "rpc_server_new a n time u = Inr s \<Longrightarrow> server_reachable M r background a n time s"
| server_run: "server_reachable M r background a n time s \<Longrightarrow> server_step M r background s s' \<Longrightarrow>
    server_reachable M r background a n time s'"

end
