(* ===== verification/Rpc_Server_Safe.thy ===== *)
theory Rpc_Server_Safe
  imports Rpc_Server
begin

text \<open>
  The invariant of the server: whatever arrives, in whatever order, every
  connection stays well formed, and the table holds every connection that is not
  closed under its number.
\<close>

section \<open>Invariant\<close>

text \<open>What the tables of the server need to know of the connections.\<close>

definition tables_ok :: "'a rpc_server \<Rightarrow> bool" where
  "tables_ok s \<longleftrightarrow>
     next_conn_id s = int (length (accepted s)) \<and>
     (\<forall>i < length (accepted s). conn_id (accepted s ! i) = int i \<and>
        (\<not> has_closed (accepted s ! i) \<longrightarrow> (int i, i) \<in> set (connections s))) \<and>
     (\<forall>(k, i) \<in> set (connections s). k = int i \<and> i < length (accepted s)) \<and>
     distinct (connections s) \<and>
     (\<forall>(key, i) \<in> set (sub_map s). i < length (accepted s))"

definition pool_ok :: "io_service_pool \<Rightarrow> bool" where
  "pool_ok p \<longleftrightarrow> next_io_service p < io_services p"

definition fresh_connection :: "connection \<Rightarrow> bool" where
  "fresh_connection c \<longleftrightarrow> (\<exists>t rid rty hdr. c = connection_new t rid rty hdr)"

definition server_ok :: "'a rpc_server \<Rightarrow> bool" where
  "server_ok s \<longleftrightarrow>
     pool_ok (pool s) \<and> fresh_connection (accepting s) \<and>
     (\<forall>c \<in> set (accepted s). conn_ok c) \<and> tables_ok s"

text \<open>
  What the server needs of a router: its handlers are synchronous, touch nothing but
  the service, and keep an invariant \<open>K\<close> of it.
\<close>

definition service_router :: "('a \<Rightarrow> bool) \<Rightarrow> ('a rpc_server \<times> connection) router \<Rightarrow> bool" where
  "service_router K r \<longleftrightarrow>
     (\<forall>key ivk. map_invokers r key = Some ivk \<longrightarrow>
        exec_model ivk = Sync \<and> (\<exists>h. invoker_func ivk = on_service h \<and> (\<forall>as. keeps K (h as))))"

section \<open>Accepting\<close>

lemma get_io_service_ok: "pool_ok p \<Longrightarrow> pool_ok (snd (get_io_service p))"
  by (auto simp: pool_ok_def get_io_service_def Let_def)

lemma do_accept_ok: "server_ok s \<Longrightarrow> server_ok (do_accept u s)"
  using get_io_service_ok
  by (auto simp: server_ok_def do_accept_def tables_ok_def fresh_connection_def split: prod.split)

lemma conn_ok_started:
  assumes "fresh_connection c"
  shows "conn_ok (set_conn_id k (start (if b then on_network_error (c\<lparr>socket_open := True\<rparr>) else c\<lparr>socket_open := True\<rparr>)))"
proof -
  have "conn_ok (c\<lparr>socket_open := True\<rparr>)"
    using assms
    by (auto simp: fresh_connection_def connection_new_def conn_ok_def writes_front_def MAX_BUF_LEN_def
        INIT_BUF_SIZE_def)
  then show ?thesis by (simp add: set_conn_id_def start_def on_network_error_def)
qed

lemma accept_connection_ok:
  assumes "server_ok s" "accept_connection s = (Inr (), s')"
  shows "server_ok s'"
proof -
  let ?c = "(accepting s)\<lparr>socket_open := True\<rparr>"
  let ?d = "set_conn_id (next_conn_id s) (start (if on_net_err_callback s then on_network_error ?c else ?c))"
  have fresh: "next_conn_id s \<notin> fst ` set (connections s)"
    using assms(1) by (force simp: server_ok_def tables_ok_def)
  have s': "s' = s\<lparr>accepted := accepted s @ [?d], connections := connections s @ [(next_conn_id s, length (accepted s))],
      next_conn_id := next_conn_id s + 1\<rparr>"
    using assms(2) fresh by (simp add: accept_connection_def Let_def split: if_splits)
  have "conn_ok ?d"
    using assms(1) by (intro conn_ok_started) (simp add: server_ok_def)
  moreover have "conn_id ?d = next_conn_id s" by (simp add: set_conn_id_def)
  ultimately show ?thesis
    using assms(1) fresh unfolding s'
    by (auto simp: server_ok_def tables_ok_def nth_append less_Suc_eq)
qed

lemma on_accept_ok:
  assumes "server_ok s" "on_accept u failed s = (Inr (), s')"
  shows "server_ok s'"
  using assms accept_connection_ok [OF assms(1)] do_accept_ok [where u = u]
  by (auto simp: on_accept_def and_then_def skip_def modify_def split: if_splits prod.splits sum.splits)

section \<open>Connections\<close>

text \<open>The tables that stay as they are while a handler or a subscription runs.\<close>

definition serving :: "'a rpc_server \<Rightarrow> 'a rpc_server \<Rightarrow> bool" where
  "serving s t \<longleftrightarrow>
     pool t = pool s \<and> accepting t = accepting s \<and> accepted t = accepted s \<and>
     connections t = connections s \<and> next_conn_id t = next_conn_id s \<and> timed_out t = timed_out s \<and>
     (\<forall>(key, i) \<in> set (sub_map t). i < length (accepted s))"

lemma serving_refl: "server_ok s \<Longrightarrow> serving s s"
  by (auto simp: serving_def server_ok_def tables_ok_def)

lemma serving_same:
  "serving s t \<Longrightarrow> pool t = pool s" "serving s t \<Longrightarrow> accepting t = accepting s"
  "serving s t \<Longrightarrow> accepted t = accepted s" "serving s t \<Longrightarrow> connections t = connections s"
  "serving s t \<Longrightarrow> next_conn_id t = next_conn_id s"
  by (simp_all add: serving_def)

lemma on_conn_ok:
  assumes "server_ok s" "i < length (accepted s)" "on_conn i m s = (r, s')"
    and step: "\<And>r t c. m (s, accepted s ! i) = (r, (t, c)) \<Longrightarrow>
      serving s t \<and> conn_ok c \<and> conn_id c = conn_id (accepted s ! i) \<and>
      (has_closed (accepted s ! i) \<longrightarrow> has_closed c)"
  shows "server_ok s'"
proof -
  obtain t c where m: "m (s, accepted s ! i) = (r, (t, c))" "s' = t\<lparr>accepted := (accepted t)[i := c]\<rparr>"
    using assms(3) by (auto simp: on_conn_def split: prod.splits)
  from step [OF m(1)] have t: "serving s t" and c: "conn_ok c" "conn_id c = conn_id (accepted s ! i)"
    "has_closed (accepted s ! i) \<longrightarrow> has_closed c" by simp_all
  note same = serving_same [OF t]
  have subs: "\<forall>(key, j) \<in> set (sub_map t). j < length (accepted s)" using t by (simp add: serving_def)
  have "conn_id ((accepted s)[i := c] ! j) = int j \<and>
      (\<not> has_closed ((accepted s)[i := c] ! j) \<longrightarrow> (int j, j) \<in> set (connections s))"
    if "j < length (accepted s)" for j
    using assms(1) c that by (cases "j = i") (auto simp: server_ok_def tables_ok_def)
  moreover have "\<forall>x \<in> set ((accepted s)[i := c]). conn_ok x"
    using assms(1) c(1) set_update_subset_insert [of "accepted s" i c] by (auto simp: server_ok_def)
  ultimately show ?thesis
    using assms(1) subs unfolding m(2) by (simp add: server_ok_def tables_ok_def same)
qed

lemma change_ok:
  assumes "server_ok s" "i < length (accepted s)" "on_conn i (change f) s = (r, s')"
    and "\<And>c. conn_ok c \<Longrightarrow> conn_ok (f c) \<and> conn_id (f c) = conn_id c \<and> (has_closed c \<longrightarrow> has_closed (f c))"
  shows "server_ok s'"
proof (rule on_conn_ok [OF assms(1-3)])
  fix r t c assume "change f (s, accepted s ! i) = (r, (t, c))"
  moreover have "conn_ok (accepted s ! i)" using assms(1,2) by (simp add: server_ok_def)
  ultimately show "serving s t \<and> conn_ok c \<and> conn_id c = conn_id (accepted s ! i) \<and>
      (has_closed (accepted s ! i) \<longrightarrow> has_closed c)"
    using assms(4) serving_refl [OF assms(1)] by (auto simp: change_def modify_def)
qed

lemma on_connection_ok:
  assumes "server_ok s" "i < length (accepted s)" "on_conn i (on_connection m) s = (r, s')"
    and "\<And>r c. m (accepted s ! i) = (r, c) \<Longrightarrow>
      conn_ok c \<and> conn_id c = conn_id (accepted s ! i) \<and> (has_closed (accepted s ! i) \<longrightarrow> has_closed c)"
  shows "server_ok s'"
proof (rule on_conn_ok [OF assms(1-3)])
  fix r t c assume "on_connection m (s, accepted s ! i) = (r, (t, c))"
  with assms(4) serving_refl [OF assms(1)]
  show "serving s t \<and> conn_ok c \<and> conn_id c = conn_id (accepted s ! i) \<and>
      (has_closed (accepted s ! i) \<longrightarrow> has_closed c)"
    by (auto simp: on_connection_def split: prod.splits)
qed

text \<open>What a handler and a subscription keep.\<close>

definition serves ::
    "('a \<Rightarrow> bool) \<Rightarrow> 'a rpc_server \<Rightarrow> int \<Rightarrow> bool \<Rightarrow> 'a rpc_server \<Rightarrow> int \<Rightarrow> bool \<Rightarrow> bool" where
  "serves K s k b t k' b' \<longleftrightarrow> serving s t \<and> K (service t) \<and> k' = k \<and> b' = b"

lemma quiet_on_service: "keeps K (h as) \<Longrightarrow> conn.quiet (serves K s k b) (on_service h as)"
  unfolding conn.quiet_def keeps_def
  by (auto simp: on_service_def serves_def serving_def split: prod.split)

lemma quiet_subscribe: "i < length (accepted s) \<Longrightarrow> conn.quiet (serves K s k b) (subscribe i key token)"
  unfolding conn.quiet_def
  by (clarsimp simp: subscribe_def modify_def serves_def serving_def)

lemma body_done_ok:
  assumes "server_ok s" "i < length (accepted s)" "service_router K r" "K (service s)"
    and run: "on_conn i (body_done M r (subscribe i) f ec data) s = (res, s')"
  shows "server_ok s'" "K (service s')"
proof -
  let ?c = "accepted s ! i"
  let ?P = "serves K s (conn_id ?c) (has_closed ?c)"
  have ok: "conn_ok (?c\<lparr>reading := No_Read\<rparr>)" using assms(1,2) by (simp add: server_ok_def)
  have P: "?P s (conn_id (?c\<lparr>reading := No_Read\<rparr>)) (has_closed (?c\<lparr>reading := No_Read\<rparr>))"
    using serving_refl [OF assms(1)] assms(4) by (simp add: serves_def)
  have handlers: "exec_model ivk = Sync \<and> conn.quiet ?P (invoker_func ivk as)"
    if ivk: "map_invokers r f = Some ivk" for ivk as
  proof -
    obtain h where "exec_model ivk = Sync" "invoker_func ivk = on_service h" "keeps K (h as)"
      using assms(3) ivk unfolding service_router_def by blast
    then show ?thesis using quiet_on_service [of K h as s] by simp
  qed
  have kept: "?P t (conn_id c) (has_closed c) \<and> conn_ok c"
    if body: "body_done M r (subscribe i) f ec data (s, ?c) = (x, (t, c))" for x t c
    using on_read_body_ok [where P = ?P and callback = "subscribe i",
        OF handlers quiet_subscribe [OF assms(2)] ok P] body
    by (simp add: body_done_def)
  show "server_ok s'"
    by (rule on_conn_ok [OF assms(1,2) run]) (use kept in \<open>auto simp: serves_def\<close>)
  show "K (service s')"
    using run kept by (auto simp: on_conn_def serves_def split: prod.splits)
qed

section \<open>Cleaning and publishing\<close>

lemma clean_loop_eq:
  "clean_loop cs it =
     (filter (\<lambda>(k, i). \<not> has_closed (cs ! i)) it,
      map (\<lambda>(k, i). conn_id (cs ! i)) (filter (\<lambda>(k, i). has_closed (cs ! i)) it))"
  by (induction cs it rule: clean_loop.induct) auto

lemma clean_pass_eq:
  "clean_pass s = s\<lparr>connections := filter (\<lambda>(k, i). \<not> has_closed (accepted s ! i)) (connections s),
     timed_out := timed_out s @ (if conn_timeout_callback s
       then map (\<lambda>(k, i). conn_id (accepted s ! i)) (filter (\<lambda>(k, i). has_closed (accepted s ! i)) (connections s))
       else [])\<rparr>"
  by (simp add: clean_pass_def clean_loop_eq)

lemma clean_pass_ok: "server_ok s \<Longrightarrow> server_ok (clean_pass s)"
  by (auto simp: clean_pass_eq server_ok_def tables_ok_def)

lemma clean_sub_pub_loop_eq:
  "clean_sub_pub_loop dead it tokens =
     (filter (\<lambda>(key, i). \<not> dead i) it, {t \<in> tokens. \<forall>(key, i) \<in> set it. dead i \<longrightarrow> \<not> finds key t})"
proof (induction it arbitrary: tokens)
  case (Cons ki it)
  obtain key i where "ki = (key, i)" by force
  with Cons show ?case by (cases "dead i") auto
qed simp

lemma clean_sub_pub_pass_ok: "server_ok s \<Longrightarrow> server_ok (clean_sub_pub_pass s)"
  by (auto simp: clean_sub_pub_pass_def clean_sub_pub_loop_eq server_ok_def tables_ok_def)

text \<open>Every connection that is not closed is held by the table.\<close>

lemma gone_iff_closed:
  assumes "server_ok s" "i < length (accepted s)"
  shows "gone s i \<longleftrightarrow> has_closed (accepted s ! i)"
proof -
  have "i \<in> snd ` set (connections s)" if "\<not> has_closed (accepted s ! i)"
  proof -
    have "(int i, i) \<in> set (connections s)"
      using assms that by (simp add: server_ok_def tables_ok_def)
    then show ?thesis by (rule rev_image_eqI) simp
  qed
  then show ?thesis by (auto simp: gone_def held_def)
qed

lemma publish_ok:
  assumes "conn_ok c" "publish M key d c = (r, c')"
  shows "conn_ok c' \<and> conn_id c' = conn_id c \<and> has_closed c' = has_closed c"
proof (cases "pack_args_str M OK [String_Arg key, String_Arg d]")
  case (Inr b)
  show ?thesis
  proof (cases "length b < MAX_BUF_LEN")
    case True
    from connection_response_ok [OF assms(1) True, of 0 sub_pub] assms(2) show ?thesis
      by (auto simp: publish_def Inr)
  qed (use assms in \<open>auto simp: publish_def Inr connection_response_def\<close>)
qed (use assms in \<open>auto simp: publish_def\<close>)

lemma publish_to_ok:
  "publish_to M key d it s = (r, s') \<Longrightarrow> server_ok s \<Longrightarrow>
   \<forall>(k, i) \<in> set it. i < length (accepted s) \<Longrightarrow> server_ok s' \<and> length (accepted s') = length (accepted s)"
proof (induction it arbitrary: s)
  case (Cons ki it)
  obtain k i where ki: "ki = (k, i)" by force
  show ?case
  proof (cases "k \<noteq> key \<or> gone s i")
    case True
    with Cons show ?thesis by (simp add: ki)
  next
    case False
    obtain x t where t: "on_conn i (on_connection (publish M key d)) s = (x, t)" by force
    have i: "i < length (accepted s)" using Cons.prems(3) by (simp add: ki)
    have c: "conn_ok (accepted s ! i)" using Cons.prems(2) i by (simp add: server_ok_def)
    have ok: "server_ok t" "length (accepted t) = length (accepted s)"
      using on_connection_ok [OF Cons.prems(2) i t] publish_ok [OF c] t
      by (auto simp: on_conn_def on_connection_def split: prod.splits)
    then show ?thesis
      using Cons.prems(1,3) Cons.IH [of t] False t by (cases x) (simp_all add: ki and_then_def)
  qed
qed (simp add: skip_def)

section \<open>Steps\<close>

lemma server_new_ok: "rpc_server_new a n time u = Inr s \<Longrightarrow> server_ok s"
proof -
  assume "rpc_server_new a n time u = Inr s"
  then obtain p where p: "io_service_pool_new n = Inr p" and
    s: "s = do_accept u
         \<lparr>service = a, pool = snd (get_io_service (snd (get_io_service p))), acceptor_open = True,
          accepting = connection_new time 0 0 (header_of_message \<lparr>msg_req_id = 0, msg_req_type = 0, content = []\<rparr>),
          accepted = [], connections = [], next_conn_id = 0, conn_timeout = time,
          conn_timeout_callback = False, timed_out = [], on_net_err_callback = False, stop_check = False,
          sub_map = [], token_list = {}, stop_check_pub_sub = False, has_stoped = False\<rparr>"
    by (auto simp: rpc_server_new_def)
  have "pool_ok p" using p by (auto simp: io_service_pool_new_def pool_ok_def split: if_splits)
  then show ?thesis
    unfolding s
    by (intro do_accept_ok)
      (auto simp: server_ok_def tables_ok_def fresh_connection_def intro: get_io_service_ok)
qed

lemma server_new_service: "rpc_server_new a n time u = Inr s \<Longrightarrow> service s = a"
  by (cases u) (auto simp: rpc_server_new_def do_accept_def)

lemma publish_to_service: "service (snd (publish_to M key d it s)) = service s"
proof (induction it arbitrary: s)
  case (Cons ki it)
  obtain k i where ki: "ki = (k, i)" by force
  obtain x t where t: "on_conn i (on_connection (publish M key d)) s = (x, t)" by force
  then have "service t = service s" by (auto simp: on_conn_def on_connection_def split: prod.splits)
  then show ?case using Cons t by (cases x) (simp_all add: ki and_then_def)
qed (simp add: skip_def)

lemma change_service: "service (snd (on_conn i (change f) s)) = service s"
  by (simp add: on_conn_def change_def modify_def)

lemma on_connection_service: "service (snd (on_conn i (on_connection m) s)) = service s"
  by (simp add: on_conn_def on_connection_def split: prod.split)

lemma accept_service: "service (snd (on_accept u failed s)) = service s"
  by (auto simp: on_accept_def and_then_def accept_connection_def do_accept_def skip_def modify_def Let_def
      split: prod.split)

text \<open>
  The contract between the server and a service: a router whose handlers keep an
  invariant, and a background thread that keeps it too.
\<close>

locale service_contract =
  fixes r :: "('a rpc_server \<times> connection) router"
    and background :: "'a \<Rightarrow> 'a \<Rightarrow> bool"
    and K :: "'a \<Rightarrow> bool"
  assumes handlers: "service_router K r"
    and background_keeps: "background a a' \<Longrightarrow> K a \<Longrightarrow> K a'"
begin

lemma server_step_ok:
  assumes "server_step M r background s s'" "server_ok s" "K (service s)"
  shows "server_ok s' \<and> K (service s')"
  using assms(1)
proof cases
  case (accept u failed)
  then show ?thesis using on_accept_ok assms(2,3) accept_service [of u failed s] by simp
next
  case (head i ec bytes)
  then show ?thesis using change_ok [OF assms(2) head(1,4)] head_done_ok assms(3) change_service [of i _ s]
    by (metis snd_conv)
next
  case (body i f n ec bytes)
  then show ?thesis using body_done_ok [OF assms(2) body(1) handlers assms(3) body(4)] by simp
next
  case (written i ec)
  have "conn_ok (accepted s ! i)" using assms(2) written(1) by (simp add: server_ok_def)
  from write_done_ok [OF this written(2), of ec] show ?thesis
    using on_connection_ok [OF assms(2) written(1,3)] assms(3) on_connection_service [of i "write_done ec" s]
      written(3) by auto
next
  case (timeout i)
  then show ?thesis using change_ok [OF assms(2) timeout(1,3)] timeout_done_ok assms(3) change_service [of i _ s]
    by (metis snd_conv)
next
  case clean
  then show ?thesis using clean_pass_ok [OF assms(2)] assms(3) by (simp add: clean_pass_eq)
next
  case clean_sub_pub
  then show ?thesis
    using clean_sub_pub_pass_ok [OF assms(2)] assms(3)
    by (simp add: clean_sub_pub_pass_def split: prod.splits)
next
  case (publish key token d)
  then show ?thesis
    using publish_to_ok [of M "key @ token" d "sub_map s" s] assms(2,3)
      publish_to_service [of M "key @ token" d "sub_map s" s]
    by (auto simp: server_publish_def server_ok_def tables_ok_def split: if_splits)
next
  case (background a)
  then show ?thesis using assms(2,3) background_keeps by (simp add: server_ok_def tables_ok_def)
next
  case stop
  then show ?thesis
    using assms(2,3) by (auto simp: server_stop_def server_ok_def tables_ok_def pool_ok_def io_service_pool_stop_def)
qed

lemma server_reachable_ok:
  assumes "server_reachable M r background a n time s" "K a"
  shows "server_ok s \<and> K (service s)"
  using assms(1)
proof (induction rule: server_reachable.induct)
  case (server_start u s)
  then show ?case using server_new_ok server_new_service assms(2) by metis
next
  case (server_run s s')
  then show ?case using server_step_ok by blast
qed

end

end
