(* ===== verification/Rpc_Router_Correct.thy ===== *)
theory Rpc_Router_Correct
  imports Rpc_Router
begin

text \<open>
  What the router answers: if memory does not run out, routing a request is the
  call of its handler followed by one response, whose bytes are given by
  \<open>reply_bytes\<close>.
\<close>

section \<open>Arguments\<close>

lemma convert_arg_thrown: "convert_arg t x = Inl e \<Longrightarrow> \<exists>t. e = Throw t"
proof -
  have signed: "(convert_integer_signed x :: 32 word result) = Inl e \<Longrightarrow> \<exists>t. e = Throw t" for e
    by (cases x) (auto split: if_splits)
  have unsigned: "(convert_integer_unsigned x :: 32 word result) = Inl e \<Longrightarrow> \<exists>t. e = Throw t" for e
    by (cases x) (auto split: if_splits)
  have rest: "convert_bool x = Inl e \<Longrightarrow> \<exists>t. e = Throw t" "convert_string x = Inl e \<Longrightarrow> \<exists>t. e = Throw t" for e
    by (cases x; auto)+
  assume "convert_arg t x = Inl e"
  then show ?thesis
    using signed unsigned rest
    by (cases t) (auto simp: convert_signed_int_def convert_unsigned_int_def convert_integer_def)
qed

lemma StdTupleConverter_thrown: "StdTupleConverter ts n xs v = Inl e \<Longrightarrow> \<exists>t. e = Throw t"
proof (induction n)
  case (Suc n)
  then show ?case using convert_arg_thrown by (fastforce split: if_splits)
qed simp

lemma as_tuple_thrown: "as_tuple ts x = Inl e \<Longrightarrow> \<exists>t. e = Throw t"
  using StdTupleConverter_thrown by (cases x) (auto simp: as_tuple_def)

lemma unpack_handle_thrown:
  assumes "endless M" "unpack_handle M data None lim = Inl e"
  shows "\<exists>t. e = Throw t"
proof -
  obtain z where z: "new_zone M = Inr z" using new_zone_endless [OF assms(1)] by blast
  obtain r where r: "unpack (zone_allocator M) data 0 z None lim = Some r"
    "case r of Inl e \<Rightarrow> thrown e | Inr (_, noff, _) \<Rightarrow> noff \<le> length data"
    using unpack_ends [OF zone_allocator_sound, of M data 0 z None lim] by blast
  from assms(2) have "r = Inl e"
    by (auto simp: unpack_handle_def unpack_handle_at_unpack z ended_def r(1))
  with r(2) show ?thesis by (simp add: thrown_def)
qed

lemma codec_unpack_failure:
  assumes "endless M" "codec_unpack M ts data = Inl e"
  shows "e = Throw (Invalid_Argument ''unpack failed: Args not match!'')"
proof -
  let ?r = "rbind (unpack_handle M data None unpack_limit_default) (as_tuple ts)"
  have "\<exists>t. e' = Throw t" if "?r = Inl e'" for e'
    using that unpack_handle_thrown [OF assms(1)] as_tuple_thrown by auto
  with assms(2) show ?thesis
    by (cases ?r) (auto simp: codec_unpack_def split: fault.splits)
qed

section \<open>Replies\<close>

definition value_bytes :: "result_code \<Rightarrow> arg list \<Rightarrow> byte list" where
  "value_bytes code as = enc (ARRAY (map object_of_arg (Int_Arg (code_value code) # as)))"

text \<open>The largest text or argument of a reply that the theorems cover.\<close>

definition arg_short :: "arg \<Rightarrow> bool" where
  "arg_short a \<longleftrightarrow> arg_ok a \<and> length (enc (object_of_arg a)) < 2 ^ 63"

lemma length_enc_int: "length (enc_int i) \<le> 9"
  by (simp add: enc_int_def msgpack_store16_def msgpack_store32_def msgpack_store64_def memory32_def
      memory64_def memory16_def)

lemma pack_args_str_short:
  assumes "endless M" "as = [] \<or> (\<exists>a. as = [a] \<and> arg_short a)"
  shows "pack_args_str M code as = Inr (value_bytes code as)"
  unfolding value_bytes_def
proof (rule pack_args_str_result [OF assms(1)])
  have "length (enc (object_of_arg (Int_Arg (code_value code)))) \<le> 9"
    by (cases code) (simp_all add: object_int_defs length_enc_int)
  then show "length (enc (ARRAY (map object_of_arg (Int_Arg (code_value code) # as)))) < 2 ^ 64"
    using assms(2) by (auto simp: arg_short_def enc_array_def)
qed (use assms(2) in \<open>auto simp: arg_short_def\<close>)

definition exn_short :: "exn \<Rightarrow> bool" where
  "exn_short e \<longleftrightarrow> length (exn_what e) < 2 ^ 31"

lemma length_enc_str: "length (enc_str n) \<le> 5"
  by (simp add: enc_str_def msgpack_store16_def msgpack_store32_def memory32_def memory16_def)

lemma arg_short_string: "length v < 2 ^ 32 \<Longrightarrow> arg_short (String_Arg v)"
  using length_enc_str [of "length v"] by (simp add: arg_short_def)

lemma arg_short_what: "exn_short e \<Longrightarrow> arg_short (what_arg e)"
  using length_enc_str [of "length (takeWhile (\<lambda>b. b \<noteq> 0) (c_str (exn_what e)))"]
    length_takeWhile_le [of "\<lambda>b. b \<noteq> 0" "c_str (exn_what e)"]
  by (simp add: arg_short_def what_arg_def exn_short_def c_str_def)

text \<open>The bytes for the outcome of a call, before their length is checked.\<close>

fun outcome_bytes :: "arg option result \<Rightarrow> byte list" where
  "outcome_bytes (Inr None) = value_bytes OK []"
| "outcome_bytes (Inr (Some v)) = value_bytes OK [v]"
| "outcome_bytes (Inl (Throw e)) = value_bytes FAIL [what_arg e]"
| "outcome_bytes (Inl (UB _)) = []"

definition reply_bytes :: "string \<Rightarrow> arg option result \<Rightarrow> byte list" where
  "reply_bytes name r =
     (if MAX_BUF_LEN \<le> length (outcome_bytes r)
      then value_bytes FAIL [string_arg (out_of_range_message name)]
      else outcome_bytes r)"

fun outcome_ok :: "arg option result \<Rightarrow> bool" where
  "outcome_ok (Inr None) \<longleftrightarrow> True"
| "outcome_ok (Inr (Some v)) \<longleftrightarrow> arg_short v"
| "outcome_ok (Inl (Throw e)) \<longleftrightarrow> exn_short e"
| "outcome_ok (Inl (UB _)) \<longleftrightarrow> False"

text \<open>A request's arguments and its handler: what the handler returns or throws.\<close>

definition handled :: "memory \<Rightarrow> 's invoker \<Rightarrow> byte list \<Rightarrow> ('s, arg option) stm" where
  "handled M ivk data =
     and_then (eval_expr (\<lambda>_. codec_unpack M (arg_types ivk) data)) (invoker_func ivk)"

lemma arg_short_message:
  assumes "length name < 1048576"
  shows "arg_short (string_arg (out_of_range_message name))"
    "arg_short (string_arg (unknown_function_message name))"
  using assms
  by (simp_all add: string_arg_def arg_short_string out_of_range_message_def unknown_function_message_def)

lemma route_handled:
  assumes mem: "endless M" and ivk: "map_invokers r key = Some ivk" "exec_model ivk = Sync"
    and alive: "alive C s" and name: "length (get_name_by_key r key) < 1048576"
    and run: "handled M ivk data s = (res, s')" "outcome_ok res"
    and answer: "response C (request_id C s) (reply_bytes (get_name_by_key r key) res) s' = (Inr (), s'')"
  shows "route M C r key data s = (Inr (), s'')"
proof -
  have run': "(case codec_unpack M (arg_types ivk) data of
      Inl e \<Rightarrow> (Inl e, s) | Inr as \<Rightarrow> invoker_func ivk as s) = (res, s')"
    using run(1) by (simp add: handled_def and_then_def eval_expr_def split: sum.splits)
  have model: "invoker_apply M ivk data s = (Inr (outcome_bytes res, Sync), s')"
  proof (cases "codec_unpack M (arg_types ivk) data")
    case (Inl e)
    then have res: "res = Inl e" "s' = s" using run' by simp_all
    from codec_unpack_failure [OF mem Inl] have e: "e = Throw (Invalid_Argument ''unpack failed: Args not match!'')" .
    then have "exn_short (Invalid_Argument ''unpack failed: Args not match!'')" by (simp add: exn_short_def)
    from pack_args_str_short [OF mem, of "[what_arg (Invalid_Argument ''unpack failed: Args not match!'')]" FAIL]
      arg_short_what [OF this]
    show ?thesis by (simp add: invoker_apply_def try_catch_def and_then_def eval_expr_def Inl e res)
  next
    case (Inr as)
    then have h: "invoker_func ivk as s = (res, s')" using run' by simp
    show ?thesis
    proof (cases res)
      case (Inl e)
      then obtain t where t: "e = Throw t" "exn_short t" using run(2) by (cases e) auto
      with pack_args_str_short [OF mem, of "[what_arg t]" FAIL] arg_short_what [OF t(2)]
      show ?thesis
        by (simp add: invoker_apply_def call_def try_catch_def and_then_def eval_expr_def Inr h Inl)
    next
      case v: (Inr v)
      have "pack_args_str M OK (case v of None \<Rightarrow> [] | Some v \<Rightarrow> [v]) = Inr (outcome_bytes res)"
        using run(2) v by (cases v) (auto simp: pack_args_str_short [OF mem])
      then show ?thesis
        using ivk(2)
        by (cases v) (simp_all add: invoker_apply_def call_def try_catch_def and_then_def eval_expr_def Inr h v)
    qed
  qed
  have "arg_short (string_arg (out_of_range_message (get_name_by_key r key)))"
    by (rule arg_short_message [OF name])
  then have "pack_args_str M FAIL
      [string_arg (out_of_range_message (get_name_by_key r key))] =
    Inr (value_bytes FAIL [string_arg (out_of_range_message (get_name_by_key r key))])"
    by (simp add: pack_args_str_short [OF mem])
  then have "route_body M C r key data (request_id C s) s = (Inr (), s'')"
    unfolding route_body_def ivk(1) option.case
    using model answer
    by (simp add: and_then_def eval_expr_def reply_bytes_def split: if_splits)
  then show ?thesis by (simp add: route_def alive Let_def try_catch_def)
qed

text \<open>A key that nothing is registered under.\<close>

lemma route_unknown:
  assumes "endless M" "map_invokers r key = None" "alive C s" "length (get_name_by_key r key) < 1048576"
    and "response C (request_id C s)
      (value_bytes FAIL [string_arg (unknown_function_message (get_name_by_key r key))]) s = (Inr (), s')"
  shows "route M C r key data s = (Inr (), s')"
proof -
  have "arg_short (string_arg (unknown_function_message (get_name_by_key r key)))"
    by (rule arg_short_message [OF assms(4)])
  then have "pack_args_str M FAIL [string_arg (unknown_function_message (get_name_by_key r key))] =
      Inr (value_bytes FAIL [string_arg (unknown_function_message (get_name_by_key r key))])"
    by (simp add: pack_args_str_short [OF assms(1)])
  then show ?thesis
    using assms(5)
    by (simp add: route_def assms(2,3) Let_def try_catch_def route_body_def and_then_def eval_expr_def)
qed

text \<open>Every reply is short enough for a connection.\<close>

lemma length_string_reply:
  "length m < 2097152 \<Longrightarrow> length (value_bytes FAIL [string_arg m]) < MAX_BUF_LEN"
  using length_enc_str [of "length m"] length_enc_int [of "uint (1 :: 64 word)"]
  by (simp add: value_bytes_def string_arg_def object_int_defs enc_array_def MAX_BUF_LEN_def)

lemma length_reply_bytes:
  "length name < 1048576 \<Longrightarrow> length (reply_bytes name r) < MAX_BUF_LEN"
  by (simp add: reply_bytes_def length_string_reply out_of_range_message_def)

section \<open>Registration\<close>

lemma register_handler_lookup:
  "map_invokers (register_handler name ivk r) (MD5Hash32 (c_str name)) = Some ivk"
  "key \<noteq> MD5Hash32 (c_str name) \<Longrightarrow>
     map_invokers (register_handler name ivk r) key = map_invokers r key"
  "key2func_name r (MD5Hash32 (c_str name)) = None \<Longrightarrow>
     get_name_by_key (register_handler name ivk r) (MD5Hash32 (c_str name)) = name"
  "key \<noteq> MD5Hash32 (c_str name) \<Longrightarrow>
     get_name_by_key (register_handler name ivk r) key = get_name_by_key r key"
  by (simp_all add: register_handler_def register_nonmember_func_def get_name_by_key_def Let_def)

lemma remove_handler_lookup:
  "map_invokers (remove_handler name r) (MD5Hash32 (c_str name)) = None"
  "key \<noteq> MD5Hash32 (c_str name) \<Longrightarrow> map_invokers (remove_handler name r) key = map_invokers r key"
  by (simp_all add: remove_handler_def Let_def)

end
