(* ===== verification/Rpc_Main.thy ===== *)
theory Rpc_Main
  imports Rpc_Server_Safe Rpc_Router_Correct App_Correct Md5_Eval
begin

text \<open>
  The server of \<open>src/main.cpp\<close>: its handlers are registered under their names with the
  types of their arguments, and a request for one of them runs the handler on the
  strip and is answered with what it returned or threw.
\<close>

section \<open>Arguments and replies\<close>

text \<open>The values of a tuple, as the handlers take them.\<close>

fun int_arg :: "arg \<Rightarrow> int" where
  "int_arg (Int_Arg v) = sint v"
| "int_arg _ = 0"

fun color_arg :: "arg \<Rightarrow> LedColor" where
  "color_arg (Unsigned_Arg v) = v"
| "color_arg _ = 0"

fun bool_arg :: "arg \<Rightarrow> bool" where
  "bool_arg (Bool_Arg v) = v"
| "bool_arg _ = False"

fun text_arg :: "arg \<Rightarrow> string" where
  "text_arg (String_Arg v) = map (\<lambda>b. char_of (unat b)) v"
| "text_arg _ = []"

fun reply_arg :: "reply \<Rightarrow> arg option" where
  "reply_arg Void = None"
| "reply_arg (Int_Reply i) = Some (Int_Arg (word_of_int i))"
| "reply_arg (Color_Reply c) = Some (Unsigned_Arg c)"
| "reply_arg (Bool_Reply b) = Some (Bool_Arg b)"

definition replying :: "('s, reply) stm \<Rightarrow> ('s, arg option) stm" where
  "replying m = and_then m (\<lambda>v s. (Inr (reply_arg v), s))"

section \<open>Registration\<close>

text \<open>The lambdas of \<open>main\<close>: name, argument types, and the request for the arguments.\<close>

definition main_handlers :: "(string \<times> arg_type list \<times> (arg list \<Rightarrow> request)) list" where
  "main_handlers =
     [(''render'', [], \<lambda>as. Render),
      (''draw_pixel'', [Int_T, Int_T, Unsigned_T],
       \<lambda>as. Draw_Pixel (int_arg (as ! 0)) (int_arg (as ! 1)) (color_arg (as ! 2))),
      (''draw_text'', [Int_T, Int_T, String_T, Unsigned_T, Unsigned_T],
       \<lambda>as. Draw_Text (int_arg (as ! 0)) (int_arg (as ! 1)) (text_arg (as ! 2)) (color_arg (as ! 3))
         (color_arg (as ! 4))),
      (''draw_number'', [Int_T, Int_T, Int_T, Unsigned_T, Unsigned_T],
       \<lambda>as. Draw_Number (int_arg (as ! 0)) (int_arg (as ! 1)) (int_arg (as ! 2)) (color_arg (as ! 3))
         (color_arg (as ! 4))),
      (''clear'', [], \<lambda>as. Clear),
      (''width'', [], \<lambda>as. Get_Width),
      (''height'', [], \<lambda>as. Get_Height),
      (''pixel'', [Int_T, Int_T], \<lambda>as. Pixel (int_arg (as ! 0)) (int_arg (as ! 1))),
      (''set_rotate'', [Int_T, Bool_T, Bool_T],
       \<lambda>as. Set_Rotate (int_arg (as ! 0)) (bool_arg (as ! 1)) (bool_arg (as ! 2))),
      (''set_transparent'', [Bool_T], \<lambda>as. Set_Transparent (bool_arg (as ! 0))),
      (''set_background'', [Unsigned_T], \<lambda>as. Set_Background (color_arg (as ! 0))),
      (''set_auto_render'', [Bool_T], \<lambda>as. Set_Auto_Render (bool_arg (as ! 0)))]"

definition main_invoker ::
    "ws2811_lib \<Rightarrow> arg_type list \<Rightarrow> (arg list \<Rightarrow> request) \<Rightarrow> (app rpc_server \<times> connection) invoker" where
  "main_invoker lib ts f =
     \<lparr>arg_types = ts, exec_model = Sync,
      invoker_func = on_service (\<lambda>as. replying (handle lib (f as)))\<rparr>"

fun register_all ::
    "ws2811_lib \<Rightarrow> (string \<times> arg_type list \<times> (arg list \<Rightarrow> request)) list
     \<Rightarrow> (app rpc_server \<times> connection) router \<Rightarrow> (app rpc_server \<times> connection) router" where
  "register_all lib [] r = r"
| "register_all lib ((name, ts, f) # hs) r =
     register_all lib hs (register_handler name (main_invoker lib ts f) r)"

definition main_router :: "ws2811_lib \<Rightarrow> (app rpc_server \<times> connection) router" where
  "main_router lib = register_all lib main_handlers router_new"

text \<open>\<open>main\<close> up to \<open>server.run()\<close>; the time-out is the default of the constructor.\<close>

definition main_server :: "ws2811_lib \<Rightarrow> nat \<Rightarrow> unset \<Rightarrow> app rpc_server result" where
  "main_server lib hardware_concurrency u =
     rbind (main_start lib) (\<lambda>a. rpc_server_new a hardware_concurrency 15 u)"

definition render_thread :: "ws2811_lib \<Rightarrow> app \<Rightarrow> app \<Rightarrow> bool" where
  "render_thread lib a a' \<longleftrightarrow> render_thread_turn lib a = (Inr (), a')"

section \<open>The table of handlers\<close>

lemmas main_keys =
  key_render key_draw_pixel key_draw_text key_draw_number key_clear key_width key_height key_pixel
  key_set_rotate key_set_transparent key_set_background key_set_auto_render

lemma main_keys_distinct: "distinct (map (\<lambda>h. MD5Hash32 (c_str (fst h))) main_handlers)"
  by (simp add: main_handlers_def main_keys)

text \<open>The table of the router: every handler under its key.\<close>

definition table :: "(string \<times> 'b) list \<Rightarrow> (32 word \<times> string \<times> 'b) list" where
  "table hs = map (\<lambda>(name, h). (MD5Hash32 (c_str name), name, h)) hs"

lemma register_all_lookup:
  assumes "distinct (map (\<lambda>h. MD5Hash32 (c_str (fst h))) hs)"
    and "\<forall>h \<in> set hs. key2func_name r (MD5Hash32 (c_str (fst h))) = None"
  shows "map_invokers (register_all lib hs r) key =
      (case map_of (table hs) key of
         None \<Rightarrow> map_invokers r key | Some (name, ts, f) \<Rightarrow> Some (main_invoker lib ts f)) \<and>
    key2func_name (register_all lib hs r) key =
      (case map_of (table hs) key of None \<Rightarrow> key2func_name r key | Some (name, ts, f) \<Rightarrow> Some name)"
  using assms
proof (induction hs arbitrary: r)
  case (Cons h hs)
  obtain n us g where h: "h = (n, us, g)" by (cases h)
  let ?k = "MD5Hash32 (c_str n)"
  let ?r = "register_handler n (main_invoker lib us g) r"
  have names: "key2func_name ?r k = (if k = ?k then Some n else key2func_name r k)" for k
    using Cons.prems(2) by (simp add: h register_handler_def register_nonmember_func_def Let_def)
  have funs: "map_invokers ?r k = (if k = ?k then Some (main_invoker lib us g) else map_invokers r k)" for k
    by (simp add: register_handler_def register_nonmember_func_def Let_def)
  have d: "distinct (map (\<lambda>h. MD5Hash32 (c_str (fst h))) hs)"
    "?k \<notin> (\<lambda>h. MD5Hash32 (c_str (fst h))) ` set hs"
    using Cons.prems(1) by (simp_all add: h)
  then have other: "\<forall>h \<in> set hs. MD5Hash32 (c_str (fst h)) \<noteq> ?k" by (metis image_eqI)
  have "\<forall>h \<in> set hs. key2func_name ?r (MD5Hash32 (c_str (fst h))) = None"
    using Cons.prems(2) other by (simp add: names h)
  note ih = Cons.IH [OF d(1) this]
  have "map_of (table hs) ?k = None"
    using other by (force simp: map_of_eq_None_iff table_def)
  then show ?case
    using ih by (cases "map_of (table hs) key"; cases "key = ?k") (auto simp: h names funs table_def)
qed (simp add: table_def)

lemma main_router_table:
  "map_invokers (main_router lib) key =
     map_option (\<lambda>(name, ts, f). main_invoker lib ts f) (map_of (table main_handlers) key) \<and>
   key2func_name (main_router lib) key = map_option fst (map_of (table main_handlers) key)"
  using register_all_lookup [OF main_keys_distinct, of router_new lib key]
  by (auto simp: main_router_def router_new_def split: option.split)

lemma main_router_lookup:
  assumes "(name, ts, f) \<in> set main_handlers"
  shows "map_invokers (main_router lib) (MD5Hash32 (c_str name)) = Some (main_invoker lib ts f)"
    "get_name_by_key (main_router lib) (MD5Hash32 (c_str name)) = name"
proof -
  have "map fst (table main_handlers) = map (\<lambda>h. MD5Hash32 (c_str (fst h))) main_handlers"
    by (auto simp: table_def)
  then have "distinct (map fst (table main_handlers))" using main_keys_distinct by simp
  moreover have "(MD5Hash32 (c_str name), name, ts, f) \<in> set (table main_handlers)"
    using assms by (force simp: table_def)
  ultimately have "map_of (table main_handlers) (MD5Hash32 (c_str name)) = Some (name, ts, f)"
    by (rule map_of_is_SomeI)
  then show "map_invokers (main_router lib) (MD5Hash32 (c_str name)) = Some (main_invoker lib ts f)"
    "get_name_by_key (main_router lib) (MD5Hash32 (c_str name)) = name"
    using main_router_table [of lib "MD5Hash32 (c_str name)"] by (simp_all add: get_name_by_key_def)
qed

lemma main_router_range:
  assumes "map_invokers (main_router lib) key = Some ivk"
  shows "\<exists>ts f. ivk = main_invoker lib ts f"
  using conjunct1 [OF main_router_table [of lib key]] assms
  by (cases "map_of (table main_handlers) key") (auto split: prod.splits)

section \<open>The contract of the service\<close>

lemma replying_keeps: "keeps P m \<Longrightarrow> keeps P (replying m)"
  unfolding replying_def by (intro keeps_and_then) (simp_all add: keeps_def)

text \<open>If the library keeps its promises, the strip stays sound.\<close>

definition sound_app :: "ws2811_lib \<Rightarrow> app \<Rightarrow> bool" where
  "sound_app lib a \<longleftrightarrow> (ws2811_lib_ok lib \<longrightarrow> app_ok a)"

lemma handle_keeps_sound: "keeps (sound_app lib) (handle lib req)"
  using handle_keeps [of lib req] by (auto simp: keeps_def sound_app_def)

interpretation main_service: service_contract "main_router lib" "render_thread lib" "sound_app lib"
  for lib
proof
  show "service_router (sound_app lib) (main_router lib)"
    unfolding service_router_def
  proof (intro allI impI)
    fix key ivk assume "map_invokers (main_router lib) key = Some ivk"
    then obtain ts f where "ivk = main_invoker lib ts f" using main_router_range by blast
    then show "exec_model ivk = Sync \<and>
        (\<exists>h. invoker_func ivk = on_service h \<and> (\<forall>as. keeps (sound_app lib) (h as)))"
      using handle_keeps_sound replying_keeps unfolding main_invoker_def by force
  qed
  show "render_thread lib a a' \<Longrightarrow> sound_app lib a \<Longrightarrow> sound_app lib a'" for a a'
    using render_turn_keeps [of lib] by (auto simp: render_thread_def sound_app_def dest: keepsD)
qed

section \<open>Requests\<close>

text \<open>How a client writes a request.\<close>

fun request_name :: "request \<Rightarrow> string" where
  "request_name Render = ''render''"
| "request_name (Draw_Pixel x y c) = ''draw_pixel''"
| "request_name (Draw_Text x y t c b) = ''draw_text''"
| "request_name (Draw_Number x y n c b) = ''draw_number''"
| "request_name Clear = ''clear''"
| "request_name Get_Width = ''width''"
| "request_name Get_Height = ''height''"
| "request_name (Pixel x y) = ''pixel''"
| "request_name (Set_Rotate a fx fy) = ''set_rotate''"
| "request_name (Set_Transparent t) = ''set_transparent''"
| "request_name (Set_Background c) = ''set_background''"
| "request_name (Set_Auto_Render b) = ''set_auto_render''"

abbreviation (input) "an_int i \<equiv> Int_Arg (word_of_int i)"
abbreviation (input) "a_text t \<equiv> String_Arg (map of_char t)"

fun request_args :: "request \<Rightarrow> arg list" where
  "request_args Render = []"
| "request_args (Draw_Pixel x y c) = [an_int x, an_int y, Unsigned_Arg c]"
| "request_args (Draw_Text x y t c b) = [an_int x, an_int y, a_text t, Unsigned_Arg c, Unsigned_Arg b]"
| "request_args (Draw_Number x y n c b) = [an_int x, an_int y, an_int n, Unsigned_Arg c, Unsigned_Arg b]"
| "request_args Clear = []"
| "request_args Get_Width = []"
| "request_args Get_Height = []"
| "request_args (Pixel x y) = [an_int x, an_int y]"
| "request_args (Set_Rotate a fx fy) = [an_int a, Bool_Arg fx, Bool_Arg fy]"
| "request_args (Set_Transparent t) = [Bool_Arg t]"
| "request_args (Set_Background c) = [Unsigned_Arg c]"
| "request_args (Set_Auto_Render b) = [Bool_Arg b]"

text \<open>Integers of 32 bits, and a text that fits into a message.\<close>

fun request_fits :: "request \<Rightarrow> bool" where
  "request_fits (Draw_Pixel x y c) \<longleftrightarrow> is_int32 x \<and> is_int32 y"
| "request_fits (Draw_Text x y t c b) \<longleftrightarrow> is_int32 x \<and> is_int32 y \<and> length t < 2 ^ 31"
| "request_fits (Draw_Number x y n c b) \<longleftrightarrow> is_int32 x \<and> is_int32 y \<and> is_int32 n"
| "request_fits (Pixel x y) \<longleftrightarrow> is_int32 x \<and> is_int32 y"
| "request_fits (Set_Rotate a fx fy) \<longleftrightarrow> is_int32 a"
| "request_fits _ \<longleftrightarrow> True"

lemma sint_of_int32: "is_int32 i \<Longrightarrow> sint (word_of_int i :: 32 word) = i"
  using narrow_int32_id [of i] by (simp add: narrow_int32_def)

lemma request_handler:
  assumes "request_fits req"
  shows "\<exists>f. (request_name req, map type_of_arg (request_args req), f) \<in> set main_handlers \<and>
    f (request_args req) = req"
  using assms
  by (cases req)
    (auto simp: main_handlers_def sint_of_int32 char_of_byte comp_def)

lemma request_args_ok:
  assumes "request_fits req"
  shows "list_all arg_ok (request_args req)" "list_all is_value (request_args req)"
    "length (request_args req) \<le> 5"
    "fits unpack_limit_default 1 (ARRAY (map object_of_arg (request_args req)))"
proof -
  show "list_all arg_ok (request_args req)" using assms by (cases req) simp_all
  show "list_all is_value (request_args req)" by (cases req) (simp_all add: is_value_def)
  show len: "length (request_args req) \<le> 5" by (cases req) simp_all
  have "fits unpack_limit_default 2 (object_of_arg a)" if "arg_ok a" for a
    using that by (cases a) (auto simp: object_int_defs unpack_limit_default_def
        intro: order_trans [OF length_c_str_less])
  with \<open>list_all arg_ok (request_args req)\<close> have "list_all (fits unpack_limit_default 2) (map object_of_arg (request_args req))"
    by (simp add: list_all_iff)
  then show "fits unpack_limit_default 1 (ARRAY (map object_of_arg (request_args req)))"
    using len by (simp add: unpack_limit_default_def numeral_2_eq_2)
qed

end
