(* ===== verification/Rpc_Main_Correct.thy ===== *)
theory Rpc_Main_Correct
  imports Rpc_Main
begin

text \<open>
  A request from end to end: the bytes of its body are decoded, the handler runs on
  the strip, and the bytes of the reply are queued on the connection it came from.
\<close>

text \<open>The outcome of a handler as the router sees it, and what is sent for it.\<close>

fun reply_outcome :: "reply result \<Rightarrow> arg option result" where
  "reply_outcome (Inr v) = Inr (reply_arg v)"
| "reply_outcome (Inl e) = Inl e"

definition reply_content :: "reply result \<Rightarrow> byte list" where
  "reply_content res = outcome_bytes (reply_outcome res)"

lemma replying_outcome: "m s = (res, s') \<Longrightarrow> replying m s = (reply_outcome res, s')"
  by (cases res) (simp_all add: replying_def and_then_def)

lemma length_enc_integer: "length (enc (object_signed_int v)) \<le> 9" "length (enc (object_unsigned_int v)) \<le> 9"
  by (simp_all add: object_int_defs length_enc_int)

lemma value_bytes_short: "length (enc (object_of_arg a)) \<le> 100 \<Longrightarrow> length (value_bytes code [a]) \<le> 200"
  using length_enc_integer(1) [of "code_value code"] by (simp add: value_bytes_def enc_array_def)

lemma reply_short:
  assumes "reply_arg v = Some a"
  shows "arg_short a" "length (value_bytes OK [a]) < MAX_BUF_LEN"
proof -
  have "arg_ok a" "length (enc (object_of_arg a)) \<le> 9"
    using assms length_enc_integer by (cases v; auto simp: object_bool_def)+
  then show "arg_short a" "length (value_bytes OK [a]) < MAX_BUF_LEN"
    using value_bytes_short [of a OK] by (simp_all add: arg_short_def MAX_BUF_LEN_def)
qed

lemma rotate_error_short:
  "exn_short (Invalid_Argument ''IRotatablePaintDevice::set_rotate'')"
  "length (value_bytes FAIL [what_arg (Invalid_Argument ''IRotatablePaintDevice::set_rotate'')]) < MAX_BUF_LEN"
proof -
  let ?m = "''IRotatablePaintDevice::set_rotate''"
  have "length (enc (object_of_arg (what_arg (Invalid_Argument ?m)))) \<le> 100"
    using length_enc_str [of "length (takeWhile (\<lambda>b. b \<noteq> 0) (c_str ?m))"]
      length_takeWhile_le [of "\<lambda>b. b \<noteq> 0" "c_str ?m"]
    by (simp add: what_arg_def c_str_def)
  from value_bytes_short [OF this, of FAIL] show
    "length (value_bytes FAIL [what_arg (Invalid_Argument ?m)]) < MAX_BUF_LEN"
    unfolding MAX_BUF_LEN_def by linarith
  show "exn_short (Invalid_Argument ?m)" by (simp add: exn_short_def)
qed

lemma handle_outcome:
  assumes "app_ok a" "request_safe a req" "handle lib req a = (res, a')"
  shows "outcome_ok (reply_outcome res)" "length (reply_content res) < MAX_BUF_LEN"
proof -
  have empty: "length (value_bytes OK []) < MAX_BUF_LEN"
    using length_enc_integer(1) [of "code_value OK"] by (simp add: value_bytes_def enc_array_def MAX_BUF_LEN_def)
  consider (ok) v where "res = Inr v" | (bad) "res = Inl (Throw (Invalid_Argument ''IRotatablePaintDevice::set_rotate''))"
    using handle_safe [OF assms(1,2), of lib] assms(3) by auto
  then have "outcome_ok (reply_outcome res) \<and> length (reply_content res) < MAX_BUF_LEN"
  proof cases
    case ok
    then show ?thesis
      using empty reply_short by (cases "reply_arg v") (auto simp: reply_content_def)
  next
    case bad
    then show ?thesis using rotate_error_short by (simp only: reply_content_def reply_outcome.simps
      outcome_bytes.simps outcome_ok.simps)
  qed
  then show "outcome_ok (reply_outcome res)" "length (reply_content res) < MAX_BUF_LEN" by simp_all
qed

lemma length_request_name: "length (request_name req) < 1048576"
  by (cases req) simp_all

text \<open>The router of \<open>main\<close> on the bytes of a request.\<close>

lemma main_route:
  fixes c :: connection
  assumes mem: "endless M" and app: "app_ok (service s)" "request_safe (service s) req" "request_fits req"
    and run: "handle lib req (service s) = (res, a')" and ok: "conn_ok c"
  shows "\<exists>c'. route M connection_ops (main_router lib) (MD5Hash32 (c_str (request_name req)))
      (enc (ARRAY (map object_of_arg (request_args req)))) (s, c) = (Inr (), (s\<lparr>service := a'\<rparr>, c')) \<and>
    conn_ok c' \<and> wire c' = wire c \<and> has_closed c' = has_closed c \<and> submitted c' = submitted c @
      [\<lparr>msg_req_id = req_id c, msg_req_type = req_res, content = reply_content res\<rparr>]"
proof -
  let ?as = "request_args req" and ?name = "request_name req" and ?r = "main_router lib"
  obtain f where f: "(?name, map type_of_arg ?as, f) \<in> set main_handlers" "f ?as = req"
    using request_handler [OF app(3)] by blast
  let ?ivk = "main_invoker lib (map type_of_arg ?as) f"
  note args = request_args_ok [OF app(3)]
  have "codec_unpack M (map type_of_arg ?as) (enc (ARRAY (map object_of_arg ?as))) = Inr ?as"
    using codec_unpack_args [OF mem args(1,2), of "[]" "[]"] args(3,4) by simp
  then have handled: "handled M ?ivk (enc (ARRAY (map object_of_arg ?as))) (s, c) =
      (reply_outcome res, (s\<lparr>service := a'\<rparr>, c))"
    using replying_outcome [of "handle lib req", OF run]
    by (simp add: handled_def main_invoker_def and_then_def eval_expr_def on_service_def f(2))
  note short = handle_outcome [OF app(1,2) run]
  from connection_response_ok [OF ok short(2), of "req_id c" req_res] obtain c' where
    c': "connection_response (req_id c) req_res (reply_content res) c = (Inr (), c')" "conn_ok c'"
      "wire c' = wire c" "has_closed c' = has_closed c" "submitted c' = submitted c @ [\<lparr>msg_req_id = req_id c, msg_req_type = req_res, content = reply_content res\<rparr>]"
    by auto
  have bytes: "reply_bytes ?name (reply_outcome res) = reply_content res"
    using short(2) by (simp add: reply_bytes_def reply_content_def)
  have "route M connection_ops ?r (MD5Hash32 (c_str ?name)) (enc (ARRAY (map object_of_arg ?as))) (s, c) =
      (Inr (), (s\<lparr>service := a'\<rparr>, c'))"
  proof (rule route_handled [OF mem main_router_lookup(1) [OF f(1)] _ _ _ handled short(1)])
    show "exec_model ?ivk = Sync" by (simp add: main_invoker_def)
    show "alive connection_ops (s, c)" by (simp add: connection_ops_def)
    show "length (get_name_by_key ?r (MD5Hash32 (c_str ?name))) < 1048576"
      by (simp add: main_router_lookup(2) [OF f(1)] length_request_name)
    show "response connection_ops (request_id connection_ops (s, c))
        (reply_bytes (get_name_by_key ?r (MD5Hash32 (c_str ?name))) (reply_outcome res)) (s\<lparr>service := a'\<rparr>, c) =
      (Inr (), (s\<lparr>service := a'\<rparr>, c'))"
      by (simp add: main_router_lookup(2) [OF f(1)] bytes connection_ops_def on_connection_def c'(1))
  qed
  with c' show ?thesis by blast
qed

lemma main_request_answered:
  assumes mem: "endless M" and s: "server_ok s" "i < length (accepted s)"
    and c: "socket_open (accepted s ! i)" "req_type (accepted s ! i) = req_res"
    and app: "app_ok (service s)" "request_safe (service s) req" "request_fits req"
    and run: "handle lib req (service s) = (res, a')"
  shows "\<exists>s'. on_conn i (body_done M (main_router lib) (subscribe i) (MD5Hash32 (c_str (request_name req))) None
        (enc (ARRAY (map object_of_arg (request_args req))))) s = (Inr (), s') \<and>
    server_ok s' \<and> service s' = a' \<and> length (accepted s') = length (accepted s) \<and>
    wire (accepted s' ! i) = wire (accepted s ! i) \<and>
    has_closed (accepted s' ! i) = has_closed (accepted s ! i) \<and>
    submitted (accepted s' ! i) = submitted (accepted s ! i) @
      [\<lparr>msg_req_id = req_id (accepted s ! i), msg_req_type = req_res, content = reply_content res\<rparr>] \<and>
    (\<forall>j. j \<noteq> i \<longrightarrow> accepted s' ! j = accepted s ! j)"
proof -
  let ?c = "cancel_timer ((accepted s ! i)\<lparr>reading := No_Read\<rparr>)"
  let ?d = "read_head ?c"
  have "conn_ok ?d" using s by (simp add: server_ok_def)
  from main_route [OF mem app run this] obtain c' where
    c': "route M connection_ops (main_router lib) (MD5Hash32 (c_str (request_name req)))
      (enc (ARRAY (map object_of_arg (request_args req)))) (s, ?d) = (Inr (), (s\<lparr>service := a'\<rparr>, c'))"
      "submitted c' = submitted ?d @ [\<lparr>msg_req_id = req_id ?d, msg_req_type = req_res, content = reply_content res\<rparr>]"
      "wire c' = wire ?d" "has_closed c' = has_closed ?d"
    by blast
  have "req_type ?d = req_res" "socket_open ?c" using c by simp_all
  then have "body_done M (main_router lib) (subscribe i) (MD5Hash32 (c_str (request_name req))) None
      (enc (ARRAY (map object_of_arg (request_args req)))) (s, accepted s ! i) = (Inr (), (s\<lparr>service := a'\<rparr>, c'))"
    using c'(1) by (simp add: body_done_def on_read_body_def and_then_def change_def modify_def)
  then have run: "on_conn i (body_done M (main_router lib) (subscribe i) (MD5Hash32 (c_str (request_name req))) None
      (enc (ARRAY (map object_of_arg (request_args req))))) s =
    (Inr (), s\<lparr>service := a', accepted := (accepted s)[i := c']\<rparr>)"
    by (simp add: on_conn_def)
  have "sound_app lib (service s)" using app(1) by (simp add: sound_app_def)
  from body_done_ok(1) [OF s main_service.handlers this run] run show ?thesis
    using s(2) c'(2-4) by simp
qed

end
