(* ===== verification/Rpc_Round_Trip.thy ===== *)
theory Rpc_Round_Trip
  imports Rpc_Client Rpc_Main_Correct
begin

text \<open>
  The client and the server of \<open>main\<close> together: the bytes that one has written are
  the bytes that the other reads, and a call returns what its handler returned.
\<close>

section \<open>What the client writes\<close>

lemma pack_args_enc:
  assumes "endless M" "list_all arg_ok as" "length as < 2 ^ 32"
    and "length (enc (ARRAY (map object_of_arg as))) < 2 ^ 64"
  shows "\<exists>b. pack_args M as = Inr b \<and> buffer_bytes b = enc (ARRAY (map object_of_arg as))"
proof -
  have big: "\<not> avail M < 2 ^ 64" using assms(1) by (simp add: endless_def)
  then have "init_size \<le> avail M" by (simp add: init_size_def)
  then obtain b where b: "sbuffer_new (avail M) init_size = Inr b"
    by (auto simp: sbuffer_new_def init_size_def)
  from sbuffer_new_good [OF _ b] have good: "sbuffer_good b" "sbuffer_content b = []"
    by (simp_all add: init_size_def)
  from sbuffer.emits_total [OF sbuffer.emits_pack_tuple [OF assms(2,3)] big good(1)] assms(4) good(2)
  obtain b' where "pack_tuple (sbuffer_write (avail M)) b as = Inr b'"
    "sbuffer_content b' = enc (ARRAY (map object_of_arg as))" by auto
  then show ?thesis by (simp add: pack_args_def b buffer_bytes_def sbuffer_content_def)
qed

text \<open>A client that waits for nothing but the next reply.\<close>

definition client_idle :: "rpc_client \<Rightarrow> bool" where
  "client_idle c \<longleftrightarrow>
     c_open c \<and> outbox c = [] \<and> c_in_flight c = [] \<and> client_language c = CPP \<and>
     drop_bit 63 (fu_id c + 1) = 0"

text \<open>A write of the client completes: header and content are on the wire.\<close>

definition client_write_done :: "unit client_stm" where
  "client_write_done = (\<lambda>c.
     on_client_write None (c\<lparr>c_in_flight := tl (c_in_flight c),
       c_wire := c_wire c @ [(c_header c, hd (c_in_flight c))]\<rparr>))"

lemma call_written:
  assumes "endless M" "client_idle c" "list_all arg_ok as" "length as < 2 ^ 32"
    and "length (enc (ARRAY (map object_of_arg as))) < MAX_BUF_LEN"
  shows "\<exists>c' h. and_then (async_call_future M name as) (\<lambda>k.
        and_then client_write_done (\<lambda>_ c. (Inr k, c))) c = (Inr (fu_id c + 1), c') \<and>
    c_wire c' = c_wire c @ [(h, enc (ARRAY (map object_of_arg as)))] \<and> magic h = MAGIC_NUM \<and>
    hdr_req_type h = req_res \<and> hdr_req_id h = fu_id c + 1 \<and> hdr_func_id h = MD5Hash32 (c_str name) \<and>
    unat (body_len h) = length (enc (ARRAY (map object_of_arg as))) \<and>
    c_open c' \<and> client_language c' = CPP \<and> fu_id c + 1 \<in> future_map c' \<and> c_reading c' = c_reading c"
proof -
  define d where "d = enc (ARRAY (map object_of_arg as))"
  have short: "length d < MAX_BUF_LEN" using assms(5) by (simp add: d_def)
  then have "length d < 2 ^ 64" by (simp add: MAX_BUF_LEN_def)
  with pack_args_enc [OF assms(1,3,4)] obtain b where b: "pack_args M as = Inr b" "buffer_bytes b = d"
    by (auto simp: d_def)
  have n: "unat (of_nat (length d) :: 32 word) = length d"
    using short by (simp add: MAX_BUF_LEN_def unat_of_nat)
  show ?thesis
    unfolding d_def [symmetric]
    using assms(2) short n
    by (simp add: client_idle_def async_call_future_def packed_args_def eval_expr_def b and_then_def modify_def
        client_write_def client_start_write_def client_write_done_def on_client_write_def
        header_of_client_message_def Let_def)
qed

section \<open>From one side to the other\<close>

definition on_client :: "(rpc_client, 'b) stm \<Rightarrow> (rpc_client \<times> 'a rpc_server, 'b) stm" where
  "on_client m = (\<lambda>(c, s). case m c of (r, c) \<Rightarrow> (r, (c, s)))"

definition on_server :: "('a rpc_server, 'b) stm \<Rightarrow> (rpc_client \<times> 'a rpc_server, 'b) stm" where
  "on_server m = (\<lambda>(c, s). case m s of (r, s) \<Rightarrow> (r, (c, s)))"

text \<open>The last message that the client has written arrives at connection \<open>i\<close>.\<close>

definition deliver_request ::
    "memory \<Rightarrow> ('a rpc_server \<times> connection) router \<Rightarrow> byte list \<Rightarrow> nat \<Rightarrow> (rpc_client \<times> 'a rpc_server, unit) stm" where
  "deliver_request M r pad i = (\<lambda>(c, s).
     case last (c_wire c) of (h, d) \<Rightarrow>
       on_server (and_then (on_conn i (change (head_done None (header_bytes pad h)))) (\<lambda>_.
         on_conn i (body_done M r (subscribe i) (hdr_func_id h) None d))) (c, s))"

text \<open>The last message that connection \<open>i\<close> has written arrives at the client.\<close>

definition deliver_reply :: "memory \<Rightarrow> byte list \<Rightarrow> nat \<Rightarrow> (rpc_client \<times> 'a rpc_server, unit) stm" where
  "deliver_reply M pad i = (\<lambda>(c, s).
     case last (wire (accepted s ! i)) of (h, d) \<Rightarrow>
       on_client (and_then (on_client_head None (header_bytes pad h)) (\<lambda>_.
         on_client_body M (hdr_req_id h) (hdr_req_type h) None d)) (c, s))"

text \<open>A call with a future, from its request to its reply.\<close>

definition call_trip ::
    "memory \<Rightarrow> ('a rpc_server \<times> connection) router \<Rightarrow> byte list \<Rightarrow> nat \<Rightarrow> string \<Rightarrow> arg list
     \<Rightarrow> (rpc_client \<times> 'a rpc_server, 64 word) stm" where
  "call_trip M r pad i name as =
     and_then (on_client (and_then (async_call_future M name as) (\<lambda>k.
       and_then client_write_done (\<lambda>_ c. (Inr k, c))))) (\<lambda>k.
     and_then (deliver_request M r pad i) (\<lambda>_.
     and_then (on_server (on_conn i (on_connection (write_done None)))) (\<lambda>_.
     and_then (deliver_reply M pad i) (\<lambda>_ w. (Inr k, w)))))"

text \<open>A connection that is open, waits for a request, and has nothing to write.\<close>

definition conn_idle :: "'a rpc_server \<Rightarrow> nat \<Rightarrow> bool" where
  "conn_idle s i \<longleftrightarrow>
     i < length (accepted s) \<and> \<not> has_closed (accepted s ! i) \<and> write_queue (accepted s ! i) = []"

lemma request_header_read:
  assumes ok: "server_ok s" "conn_idle s i" and pad: "length pad = 2"
    and h: "magic h = MAGIC_NUM" "0 < unat (body_len h)" "unat (body_len h) < MAX_BUF_LEN"
  shows "\<exists>s'. on_conn i (change (head_done None (header_bytes pad h))) s = (Inr (), s') \<and> server_ok s' \<and>
    conn_idle s' i \<and> service s' = service s \<and> req_id (accepted s' ! i) = hdr_req_id h \<and>
    req_type (accepted s' ! i) = hdr_req_type h \<and> reading (accepted s' ! i) = Read_Body (hdr_func_id h) (unat (body_len h)) \<and>
    submitted (accepted s' ! i) = submitted (accepted s ! i) \<and>
    (\<forall>j. j \<noteq> i \<longrightarrow> accepted s' ! j = accepted s ! j)"
proof -
  have i: "i < length (accepted s)" "\<not> has_closed (accepted s ! i)" "write_queue (accepted s ! i) = []"
    using ok(2) by (simp_all add: conn_idle_def)
  then have "conn_ok (accepted s ! i)" using ok(1) by (simp add: server_ok_def)
  then have open_i: "socket_open (accepted s ! i)" using i(2) by (simp add: conn_ok_def)
  obtain s' where s': "on_conn i (change (head_done None (header_bytes pad h))) s = (Inr (), s')"
    by (simp add: on_conn_def change_def modify_def)
  moreover have "server_ok s'" using change_ok [OF ok(1) i(1) s'] head_done_ok by blast
  moreover have "s' = s\<lparr>accepted := (accepted s)[i := head_done None (header_bytes pad h) (accepted s ! i)]\<rparr>"
    using s' by (simp add: on_conn_def change_def modify_def)
  ultimately show ?thesis
    using i open_i h header_of_header_bytes [OF pad, of h]
    by (simp add: conn_idle_def head_done_def on_read_head_def read_body_def Let_def)
qed

lemma queue_after_request:
  assumes "server_ok s" "server_ok s'" "conn_idle s i" "length (accepted s') = length (accepted s)"
    and "wire (accepted s' ! i) = wire (accepted s ! i)" "has_closed (accepted s' ! i) = has_closed (accepted s ! i)"
    and "submitted (accepted s' ! i) = submitted (accepted s ! i) @ [m]"
  shows "write_queue (accepted s' ! i) = [m] \<and> in_flight (accepted s' ! i) \<noteq> []"
proof -
  have "conn_ok (accepted s ! i)" "conn_ok (accepted s' ! i)"
    using assms(1-4) by (simp_all add: server_ok_def conn_idle_def)
  with assms(3-7) show ?thesis by (auto simp: conn_ok_def conn_idle_def)
qed

lemma value_bytes_nonempty: "value_bytes code as \<noteq> []"
  using enc_nonempty [of "ARRAY (map object_of_arg (Int_Arg (code_value code) # as))"] by (simp add: value_bytes_def)

lemma reply_content_nonempty:
  assumes "outcome_ok (reply_outcome res)"
  shows "reply_content res \<noteq> []"
proof (cases "reply_outcome res")
  case (Inl e)
  with assms show ?thesis by (cases e) (simp_all add: reply_content_def value_bytes_nonempty)
next
  case (Inr v)
  then show ?thesis by (cases v) (simp_all add: reply_content_def value_bytes_nonempty)
qed

text \<open>The client takes a reply.\<close>

lemma reply_taken:
  assumes c: "c_open c" "client_language c = CPP" "k \<in> future_map c" "drop_bit 63 k = 0"
    and pad: "length pad = 2" and d: "d \<noteq> []" "length d < MAX_BUF_LEN"
    and h: "hdr_req_id h = k" "hdr_req_type h = req_res" "unat (body_len h) = length d"
  shows "\<exists>c'. and_then (on_client_head None (header_bytes pad h)) (\<lambda>_.
      on_client_body M (hdr_req_id h) (hdr_req_type h) None d) c = (Inr (), c') \<and> futures c' k = Value d"
  using assms header_of_header_bytes [OF pad, of h]
  by (simp add: and_then_def on_client_head_def client_read_body_def modify_def Let_def on_client_body_def
      call_back_def do_read_def)

lemma call_trip_replies:
  assumes mem: "endless M" and s: "server_ok s" "conn_idle s i" and c: "client_idle c" and pad: "length pad = 2"
    and app: "app_ok (service s)" "request_safe (service s) req" "request_fits req"
    and size: "length (enc (ARRAY (map object_of_arg (request_args req)))) < MAX_BUF_LEN"
    and run: "handle lib req (service s) = (res, a')"
  shows "\<exists>c' s'. call_trip M (main_router lib) pad i (request_name req) (request_args req) (c, s) =
      (Inr (fu_id c + 1), (c', s')) \<and> service s' = a' \<and> futures c' (fu_id c + 1) = Value (reply_content res) \<and>
    submitted (accepted s' ! i) = submitted (accepted s ! i) @
      [\<lparr>msg_req_id = fu_id c + 1, msg_req_type = req_res, content = reply_content res\<rparr>] \<and>
    (\<forall>j. j \<noteq> i \<longrightarrow> accepted s' ! j = accepted s ! j)"
proof -
  let ?as = "request_args req" and ?k = "fu_id c + 1"
  let ?d = "enc (ARRAY (map object_of_arg ?as))"
  note args = request_args_ok [OF app(3)]
  from args(3) have few: "length ?as < 2 ^ 32" by simp
  from call_written [OF mem c args(1) few size, of "request_name req"] obtain c1 h where
    c1: "and_then (async_call_future M (request_name req) ?as) (\<lambda>k.
        and_then client_write_done (\<lambda>_ c. (Inr k, c))) c = (Inr ?k, c1)"
      "c_wire c1 = c_wire c @ [(h, ?d)]" "c_open c1" "client_language c1 = CPP" "?k \<in> future_map c1"
    and h: "magic h = MAGIC_NUM" "hdr_req_type h = req_res" "hdr_req_id h = ?k"
      "hdr_func_id h = MD5Hash32 (c_str (request_name req))" "unat (body_len h) = length ?d" by blast
  have "?d \<noteq> []" by (rule enc_nonempty)
  then have len: "0 < unat (body_len h)" "unat (body_len h) < MAX_BUF_LEN" using size by (simp_all add: h(5))
  from request_header_read [OF s pad h(1) len] obtain s1 where
    s1: "on_conn i (change (head_done None (header_bytes pad h))) s = (Inr (), s1)" "server_ok s1" "conn_idle s1 i"
      "service s1 = service s" "req_id (accepted s1 ! i) = ?k" "req_type (accepted s1 ! i) = req_res"
      "submitted (accepted s1 ! i) = submitted (accepted s ! i)" "\<forall>j. j \<noteq> i \<longrightarrow> accepted s1 ! j = accepted s ! j"
    by (auto simp: h(2,3))
  have i: "i < length (accepted s1)" "conn_ok (accepted s1 ! i)"
    using s1(2,3) by (simp_all add: server_ok_def conn_idle_def)
  then have "socket_open (accepted s1 ! i)" using s1(3) by (simp add: conn_ok_def conn_idle_def)
  from main_request_answered [OF mem s1(2) i(1) this s1(6), of req lib res a'] app run s1(4,5) obtain s2 where
    s2: "on_conn i (body_done M (main_router lib) (subscribe i) (hdr_func_id h) None ?d) s1 = (Inr (), s2)"
      "server_ok s2" "service s2 = a'" "length (accepted s2) = length (accepted s1)"
      "wire (accepted s2 ! i) = wire (accepted s1 ! i)" "has_closed (accepted s2 ! i) = has_closed (accepted s1 ! i)"
      "submitted (accepted s2 ! i) = submitted (accepted s1 ! i) @
        [\<lparr>msg_req_id = ?k, msg_req_type = req_res, content = reply_content res\<rparr>]"
      "\<forall>j. j \<noteq> i \<longrightarrow> accepted s2 ! j = accepted s1 ! j"
    by (auto simp: h(4))
  let ?m = "\<lparr>msg_req_id = ?k, msg_req_type = req_res, content = reply_content res\<rparr>"
  from queue_after_request [OF s1(2) s2(2) s1(3) s2(4-7)] have
    q: "write_queue (accepted s2 ! i) = [?m]" "in_flight (accepted s2 ! i) \<noteq> []" by simp_all
  have "conn_ok (accepted s2 ! i)" using s2(2,4) i(1) by (simp add: server_ok_def)
  from write_done_ok [OF this q(2), of None] obtain d where
    d: "write_done None (accepted s2 ! i) = (Inr (), d)"
      "wire d = wire (accepted s2 ! i) @ [(header_of_message ?m, reply_content res)]"
      "submitted d = submitted (accepted s2 ! i)"
    by (auto simp: q(1))
  note short = handle_outcome [OF app(1,2) run]
  have "unat (body_len (header_of_message ?m)) = length (reply_content res)"
    using short(2) by (simp add: header_of_message_def MAX_BUF_LEN_def unat_of_nat)
  moreover have "drop_bit 63 ?k = 0" using c by (simp add: client_idle_def)
  ultimately obtain c2 where c2: "and_then (on_client_head None (header_bytes pad (header_of_message ?m))) (\<lambda>_.
      on_client_body M ?k req_res None (reply_content res)) c1 = (Inr (), c2)" "futures c2 ?k = Value (reply_content res)"
    using reply_taken [OF c1(3,4,5) _ pad reply_content_nonempty [OF short(1)] short(2),
        of "header_of_message ?m" M]
    by (auto simp: header_of_message_def)
  let ?s3 = "s2\<lparr>accepted := (accepted s2)[i := d]\<rparr>"
  have "on_conn i (on_connection (write_done None)) s2 = (Inr (), ?s3)"
    by (simp add: on_conn_def on_connection_def d(1))
  moreover have "deliver_request M (main_router lib) pad i (c1, s) = (Inr (), (c1, s2))"
    using s1(1) s2(1) by (simp add: deliver_request_def c1(2) on_server_def and_then_def)
  moreover have "deliver_reply M pad i (c1, ?s3) = (Inr (), (c2, ?s3))"
    using c2(1) s2(4) i(1)
    by (simp add: deliver_reply_def d(2) on_client_def) (simp add: header_of_message_def)
  ultimately have "call_trip M (main_router lib) pad i (request_name req) ?as (c, s) = (Inr ?k, (c2, ?s3))"
    using c1(1) by (simp add: call_trip_def on_client_def on_server_def and_then_def)
  then show ?thesis
    using c2(2) s2(3,4,7,8) s1(7,8) d(3) i(1) by auto
qed

section \<open>What the client gets\<close>

lemma fits_small: "arg_ok a \<Longrightarrow> fits unpack_limit_default k (object_of_arg a)"
  by (cases a) (auto simp: object_int_defs unpack_limit_default_def intro: order_trans [OF length_c_str_less])

lemma unpack_reply:
  assumes "endless M" "arg_ok a" "is_value a"
  shows "codec_unpack M [Int_T] (value_bytes code [a]) = Inr [Int_Arg (code_value code)]"
    "codec_unpack M [Int_T, type_of_arg a] (value_bytes code [a]) = Inr [Int_Arg (code_value code), a]"
    "codec_unpack M [Int_T] (value_bytes code []) = Inr [Int_Arg (code_value code)]"
proof -
  have fits: "fits unpack_limit_default 1 (ARRAY (object_of_arg (Int_Arg (code_value code)) # xs))"
    if "xs = [] \<or> xs = [object_of_arg a]" for xs
    using that fits_small [OF assms(2)] fits_small [of "Int_Arg (code_value code)"]
    by (auto simp: unpack_limit_default_def)
  show "codec_unpack M [Int_T] (value_bytes code [a]) = Inr [Int_Arg (code_value code)]"
    using codec_unpack_args [OF assms(1), of "[Int_Arg (code_value code)]" "[object_of_arg a]" "[]"]
      fits [of "[object_of_arg a]"] object_of_arg_ok [OF assms(2)]
    by (simp add: value_bytes_def is_value_def)
  show "codec_unpack M [Int_T, type_of_arg a] (value_bytes code [a]) = Inr [Int_Arg (code_value code), a]"
    using codec_unpack_args [OF assms(1), of "[Int_Arg (code_value code), a]" "[]" "[]"] fits [of "[object_of_arg a]"] assms(2,3)
    by (simp add: value_bytes_def is_value_def)
  show "codec_unpack M [Int_T] (value_bytes code []) = Inr [Int_Arg (code_value code)]"
    using codec_unpack_args [OF assms(1), of "[Int_Arg (code_value code)]" "[]" "[]"] fits [of "[]"]
    by (simp add: value_bytes_def is_value_def)
qed

lemma reply_as_value:
  assumes "endless M" "reply_arg v = Some a"
  shows "req_result_as M (type_of_arg a) (reply_content (Inr v)) = Inr a"
proof -
  have "arg_ok a" "is_value a" using assms(2) by (cases v; auto simp: is_value_def)+
  from unpack_reply [OF assms(1) this, of OK] assms(2) show ?thesis
    by (simp add: req_result_as_def req_result_check_def has_error_def get_result_def reply_content_def
        value_bytes_nonempty)
qed

lemma reply_as_void:
  assumes "endless M" "reply_arg v = None"
  shows "req_result_check M (reply_content (Inr v)) = Inr ()"
  using unpack_reply(3) [OF assms(1), of "Bool_Arg True" OK] assms(2)
  by (simp add: req_result_check_def has_error_def reply_content_def value_bytes_nonempty is_value_def)

lemma what_string: "char_of (0 :: nat) \<notin> set m \<Longrightarrow> takeWhile (\<lambda>b. b \<noteq> 0) (c_str m) = map of_char m"
proof -
  have "(of_char c :: 8 word) \<noteq> 0" if "c \<noteq> char_of (0 :: nat)" for c
    using char_of_byte [of c] that by auto
  then show "char_of (0 :: nat) \<notin> set m \<Longrightarrow> ?thesis"
    by (auto simp: c_str_def takeWhile_tail) (metis takeWhile_eq_all_conv takeWhile_append2)
qed

lemma reply_as_error:
  assumes "endless M" "char_of (0 :: nat) \<notin> set m" "length m < 2 ^ 31"
  shows "req_result_check M (reply_content (Inl (Throw (Invalid_Argument m)))) = Inl (Throw (Logic_Error m))"
proof -
  let ?a = "String_Arg (map of_char m)"
  have "arg_ok ?a" "is_value ?a" using assms(3) by (simp_all add: is_value_def)
  note u = unpack_reply [OF assms(1) this, of FAIL]
  have "value_bytes FAIL [what_arg (Invalid_Argument m)] = value_bytes FAIL [?a]"
    by (simp add: value_bytes_def what_arg_def what_string [OF assms(2)])
  then show ?thesis
    using u by (simp add: req_result_check_def has_error_def get_error_msg_def reply_content_def
        value_bytes_nonempty char_of_byte comp_def)
qed

end
