(* ===== verification/Rpc_Properties.thy ===== *)
theory Rpc_Properties
  imports Rpc_Round_Trip Display_Properties
begin

text \<open>
  Properties of the server: a request from end to end, what holds in every order of
  events, and what happens to the queue of a connection and to a broken one.
\<close>

section \<open>Requests\<close>

text \<open>A server that has accepted one connection, and memory that does not run out.\<close>

definition demo_memory :: memory where
  "demo_memory = \<lparr>the_malloc = (\<lambda>h n. Some 4096), live = [], avail = 2 ^ 64\<rparr>"

definition demo_unset :: unset where
  "demo_unset = (7, 0, \<lparr>magic = 0, hdr_req_type = 0, body_len = 0, hdr_req_id = 0, hdr_func_id = 0\<rparr>)"

lemma demo_server:
  assumes "main_start lib = Inr a"
  obtains s where "server_reachable M r background a 1 15 s" "service s = a" "length (accepted s) = 1"
    "accepted s ! 0 = set_conn_id 0 (start ((connection_new 15 7 0
        \<lparr>magic = 0, hdr_req_type = 0, body_len = 0, hdr_req_id = 0, hdr_func_id = 0\<rparr>)\<lparr>socket_open := True\<rparr>))"
    "connections s = [(0, 0)]"
proof -
  obtain s where s: "rpc_server_new a 1 15 demo_unset = Inr s" "service s = a" "accepted s = []"
    "acceptor_open s" "next_conn_id s = 0" "connections s = []" "on_net_err_callback s = False"
    "accepting s = connection_new 15 7 0
        \<lparr>magic = 0, hdr_req_type = 0, body_len = 0, hdr_req_id = 0, hdr_func_id = 0\<rparr>"
    by (simp add: rpc_server_new_def io_service_pool_new_def do_accept_def demo_unset_def)
  obtain t where t: "on_accept demo_unset False s = (Inr (), t)" "service t = a"
    "connections t = [(0, 0)]" "accepted t = [set_conn_id 0 (start ((accepting s)\<lparr>socket_open := True\<rparr>))]"
    using s by (simp add: on_accept_def and_then_def accept_connection_def Let_def modify_def do_accept_def
        demo_unset_def)
  with s show ?thesis
    using that [of t] server_run [OF server_start [OF s(1)] accept [OF t(1)]] by simp
qed

text \<open>C5: a call of a handler of \<open>main\<close> by the client of the library, taken through
  its packing, the two headers, the router and the decoding of the reply, runs the handler once on
  the state of the service, queues exactly one response and touches no other connection, and gives
  the caller what the handler returned, or a \<open>logic_error\<close> with the text of the exception it threw;
  provided that memory does not run out, the message is below the limit of 10 MB,
  client and connection are idle, and the request is one that the handler takes without undefined
  behaviour.\<close>

theorem call_returns:
  assumes "endless M" "server_ok s" "conn_idle s i" "client_idle c" "length pad = 2"
    and "app_ok (service s)" "request_safe (service s) req" "request_fits req"
    and "length (enc (ARRAY (map object_of_arg (request_args req)))) < MAX_BUF_LEN"
    and "handle lib req (service s) = (res, a')"
  shows "\<exists>k c' s'. call_trip M (main_router lib) pad i (request_name req) (request_args req) (c, s) =
      (Inr k, (c', s')) \<and> service s' = a' \<and>
    (\<exists>m. submitted (accepted s' ! i) = submitted (accepted s ! i) @ [m]) \<and>
    (\<forall>j. j \<noteq> i \<longrightarrow> accepted s' ! j = accepted s ! j) \<and>
    (case res of
       Inr v \<Rightarrow>
         (case reply_arg v of
            None \<Rightarrow> call_void M k c' = (Inr (), c')
          | Some a \<Rightarrow> call_result M (type_of_arg a) k c' = (Inr a, c'))
     | Inl e \<Rightarrow> call_void M k c' = (Inl (Throw (Logic_Error ''IRotatablePaintDevice::set_rotate'')), c'))"
proof -
  from call_trip_replies [OF assms] obtain c' s' where
    trip: "call_trip M (main_router lib) pad i (request_name req) (request_args req) (c, s) =
      (Inr (fu_id c + 1), (c', s'))" "service s' = a'"
      "\<exists>m. submitted (accepted s' ! i) = submitted (accepted s ! i) @ [m]"
      "\<forall>j. j \<noteq> i \<longrightarrow> accepted s' ! j = accepted s ! j"
    and reply: "futures c' (fu_id c + 1) = Value (reply_content res)" by blast
  consider (void) v where "res = Inr v" "reply_arg v = None" | (data) v a where "res = Inr v" "reply_arg v = Some a"
    | (bad) "res = Inl (Throw (Invalid_Argument ''IRotatablePaintDevice::set_rotate''))"
    using handle_safe [OF assms(6,7), of lib] assms(10) by (cases res) auto
  then show ?thesis
  proof cases
    case void
    with trip reply reply_as_void [OF assms(1) void(2)] show ?thesis
      by (intro exI [of _ "fu_id c + 1"] exI [of _ c'] exI [of _ s'])
        (simp add: call_void_def call_future_def eval_expr_def and_then_def)
  next
    case data
    with trip reply reply_as_value [OF assms(1) data(2)] show ?thesis
      by (intro exI [of _ "fu_id c + 1"] exI [of _ c'] exI [of _ s'])
        (simp add: call_result_def call_future_def eval_expr_def and_then_def)
  next
    case bad
    have "req_result_check M (reply_content res) = Inl (Throw (Logic_Error ''IRotatablePaintDevice::set_rotate''))"
      unfolding bad by (rule reply_as_error [OF assms(1)]) (simp_all add: char_of_def)
    with bad trip reply show ?thesis
      by (intro exI [of _ "fu_id c + 1"] exI [of _ c'] exI [of _ s'])
        (simp add: call_void_def call_future_def eval_expr_def and_then_def)
  qed
qed

text \<open>A client that is connected.\<close>

definition demo_client :: rpc_client where
  "demo_client = (rpc_client_new CPP ''127.0.0.1'' 9000
     \<lparr>magic = 0, hdr_req_type = 0, body_len = 0, hdr_req_id = 0, hdr_func_id = 0\<rparr>)
     \<lparr>c_open := True, has_connected := True, c_reading := C_Head\<rparr>"

lemma call_returns_witness:
  "\<exists>s k c' s'. call_trip demo_memory (main_router demo_lib) [0, 0] 0 ''width'' [] (demo_client, s) =
      (Inr k, (c', s')) \<and> call_result demo_memory Int_T k c' = (Inr (Int_Arg 16), c')"
proof -
  obtain a where a: "main_start demo_lib = Inr a" "app_ok a"
    using main_start_ok [OF demo_lib_ok, unfolded init_succeeds_def] by (auto simp: demo_lib_def)
  obtain s where s: "server_reachable demo_memory (main_router demo_lib) (render_thread demo_lib) a 1 15 s"
    "service s = a" "length (accepted s) = 1"
    "accepted s ! 0 = set_conn_id 0 (start ((connection_new 15 7 0
        \<lparr>magic = 0, hdr_req_type = 0, body_len = 0, hdr_req_id = 0, hdr_func_id = 0\<rparr>)\<lparr>socket_open := True\<rparr>))"
    using demo_server [OF a(1)] by metis
  have ok: "server_ok s"
    using main_service.server_reachable_ok [OF s(1)] a(2) by (simp add: sound_app_def)
  have mem: "endless demo_memory" by (simp add: endless_def demo_memory_def)
  have width: "logic_width_m (the_strip a) = 16"
    using a(1) by (auto simp: main_start_def WS2811Strip_def WS2811Strip_init_def modify_def
        IRotatablePaintDevice_def rotatable.defs c_ops split: if_splits)
  have run: "handle demo_lib Get_Width (service s) = (Inr (Int_Reply 16), a)"
    by (simp add: handler_width_def eval_expr_def s(2) width)
  have idle: "conn_idle s 0"
    using s(3,4) by (simp add: conn_idle_def connection_new_def start_def read_head_def reset_timer_def set_conn_id_def)
  have client: "client_idle demo_client"
    by (simp add: client_idle_def demo_client_def rpc_client_new_def)
  have safe: "app_ok (service s)" "request_safe (service s) Get_Width" "request_fits Get_Width"
    "length (enc (ARRAY (map object_of_arg (request_args Get_Width)))) < MAX_BUF_LEN" "length [0, 0 :: byte] = 2"
    using s(2) a(2) by (simp_all add: enc_array_def MAX_BUF_LEN_def)
  from call_returns [OF mem ok idle client safe(5,1-4) run] show ?thesis by auto
qed

section \<open>Every order of events\<close>

text \<open>C6: for a library that keeps its promises and whose \<open>init\<close> succeeds
  (\<open>main\<close> does not look at its result): whatever the order in which connections are accepted, bytes
  arrive, writes complete or fail, timers fire, the cleaners and the render thread run and requests
  are handled, as long as each of these events ends normally, as a whole and before the next one
  (one that ends in undefined behaviour or with an exception that nothing catches ends the program,
  and nothing is said of it), the strip stays sound; every connection that is not closed is in the table under its
  number; and on every connection the messages that were written are, complete, in order and under
  headers with their length and identifier, a beginning of those that were queued, followed, while
  the connection is open, by exactly those still in its queue.\<close>

theorem server_always_sound:
  assumes "main_start lib = Inr a" "ws2811_lib_ok lib" "init_succeeds lib"
    and "server_reachable M (main_router lib) (render_thread lib) a n 15 s"
  shows "strip_ok (the_strip (service s)) \<and>
    (\<forall>i < length (accepted s).
       (\<not> has_closed (accepted s ! i) \<longrightarrow> (int i, i) \<in> set (connections s)) \<and>
       (\<forall>w \<in> set (wire (accepted s ! i)). framed w) \<and>
       (\<exists>rest. submitted (accepted s ! i) = map message_of (wire (accepted s ! i)) @ rest \<and>
          (\<not> has_closed (accepted s ! i) \<longrightarrow> rest = write_queue (accepted s ! i))))"
proof -
  have "app_ok a" using main_start_ok [OF assms(2,3)] assms(1) by auto
  then have "server_ok s" "app_ok (service s)"
    using main_service.server_reachable_ok [OF assms(4)] assms(2) by (auto simp: sound_app_def)
  moreover have "\<exists>rest. submitted c = map message_of (wire c) @ rest \<and> (\<not> has_closed c \<longrightarrow> rest = write_queue c)"
    if "conn_ok c" for c
    using that unfolding conn_ok_def by blast
  moreover have "\<forall>w \<in> set (wire (accepted s ! i)). framed w" if "i < length (accepted s)" for i
  proof -
    have "conn_ok (accepted s ! i)" using that \<open>server_ok s\<close> by (simp add: server_ok_def)
    then show ?thesis unfolding conn_ok_def by blast
  qed
  ultimately show ?thesis by (simp add: app_ok_def server_ok_def tables_ok_def)
qed

lemma server_always_sound_witness:
  "\<exists>a (s :: app rpc_server). main_start demo_lib = Inr a \<and> service s = a \<and> length (accepted s) = 1 \<and>
     strip_ok (the_strip (service s)) \<and> (int 0, 0) \<in> set (connections s)"
proof -
  have init: "init_succeeds demo_lib" by (simp add: init_succeeds_def demo_lib_def)
  obtain a where a: "main_start demo_lib = Inr a"
    using main_start_ok [OF demo_lib_ok init] by blast
  obtain s where s: "server_reachable demo_memory (main_router demo_lib) (render_thread demo_lib) a 1 15 s"
    "service s = a" "length (accepted s) = 1" "connections s = [(0, 0)]"
    using demo_server [OF a] by metis
  have "strip_ok (the_strip (service s))"
    using server_always_sound [OF a demo_lib_ok init s(1)] by blast
  with a s(2-4) show ?thesis by (intro exI [of _ a] exI [of _ s]) simp
qed

section \<open>The queue of a connection\<close>

text \<open>C37: while writes complete, every queued message gets written: after as many
  completed writes as there are messages in the queue of an open connection, the queue is empty and
  what was written is everything that was ever queued, in that order.\<close>

theorem queue_drains:
  assumes "conn_ok c" "\<not> has_closed c"
  shows "\<exists>c'. writes_done (length (write_queue c)) c = (Inr (), c') \<and> write_queue c' = [] \<and>
    in_flight c' = [] \<and> map message_of (wire c') = submitted c"
  using writes_done_drain [OF assms refl] by blast

lemma queue_drains_witness:
  "\<exists>c c'. snd (connection_response 5 0 [1, 2] (snd (connection_response 4 0 [3]
       ((connection_new 15 7 0 (header_of_message \<lparr>msg_req_id = 0, msg_req_type = 0, content = []\<rparr>))
          \<lparr>socket_open := True\<rparr>)))) = c \<and>
     writes_done 2 c = (Inr (), c') \<and> map (content \<circ> message_of) (wire c') = [[3], [1, 2]]"
proof -
  let ?c0 = "(connection_new 15 7 0 (header_of_message \<lparr>msg_req_id = 0, msg_req_type = 0, content = []\<rparr>))
      \<lparr>socket_open := True\<rparr>"
  have ok: "conn_ok ?c0"
    by (simp add: connection_new_def conn_ok_def writes_front_def MAX_BUF_LEN_def INIT_BUF_SIZE_def)
  have short: "length ([3] :: byte list) < MAX_BUF_LEN" "length ([1, 2] :: byte list) < MAX_BUF_LEN"
    by (simp_all add: MAX_BUF_LEN_def)
  from connection_response_ok [OF ok short(1), of 4 0] obtain c1 where c1:
    "connection_response 4 0 [3] ?c0 = (Inr (), c1)" "conn_ok c1" "\<not> has_closed c1"
    "submitted c1 = [\<lparr>msg_req_id = 4, msg_req_type = 0, content = [3]\<rparr>]"
    by (auto simp: connection_new_def)
  from connection_response_ok [OF c1(2) short(2), of 5 0] obtain c2 where c2:
    "connection_response 5 0 [1, 2] c1 = (Inr (), c2)" "conn_ok c2" "\<not> has_closed c2"
    "submitted c2 = [\<lparr>msg_req_id = 4, msg_req_type = 0, content = [3]\<rparr>,
       \<lparr>msg_req_id = 5, msg_req_type = 0, content = [1, 2]\<rparr>]"
    using c1(3,4) by auto
  have "write_queue c2 = submitted c2"
    using c1(1) c2(1)
    by (auto simp: connection_response_def start_write_def Let_def connection_new_def MAX_BUF_LEN_def
        split: if_splits)
  then have "length (write_queue c2) = 2" by (simp add: c2(4))
  with queue_drains [OF c2(2,3)] c1(1) c2(1,4) show ?thesis by (auto simp flip: map_map)
qed

section \<open>A broken connection\<close>

text \<open>C40: an error while the body of a request is read neither closes the
  connection nor reads on: the socket stays open with no read under way and no timer armed, so
  that neither the peer nor the time-out can end it, and the cleaner keeps the connection in the
  table.\<close>

theorem body_error_leaks:
  assumes "server_ok s" "i < length (accepted s)" "reading (accepted s ! i) = Read_Body f n"
    and "\<not> has_closed (accepted s ! i)" "timeout_seconds (accepted s ! i) \<noteq> 0"
  shows "\<exists>s'. on_conn i (body_done M r (subscribe i) f (Some e) data) s = (Inr (), s') \<and>
    socket_open (accepted s' ! i) \<and> reading (accepted s' ! i) = No_Read \<and>
    \<not> timer_armed (accepted s' ! i) \<and> (int i, i) \<in> set (connections (clean_pass s'))"
proof -
  let ?c = "accepted s ! i"
  have "socket_open ?c" "(int i, i) \<in> set (connections s)"
    using assms(1,2,4) by (auto simp: server_ok_def tables_ok_def conn_ok_def)
  with assms(2,4,5) show ?thesis
    by (auto simp: on_conn_def body_done_def on_read_body_def and_then_def change_def modify_def
        cancel_timer_def notify_def clean_pass_eq)
qed

lemma body_error_leaks_witness:
  "\<exists>(s :: unit rpc_server) s'. on_conn 0 (body_done demo_memory router_new (subscribe 0) 1 (Some ''End of file'') []) s = (Inr (), s') \<and>
     socket_open (accepted s' ! 0) \<and> reading (accepted s' ! 0) = No_Read \<and>
     (0, 0) \<in> set (connections (clean_pass s'))"
proof -
  let ?c = "(connection_new 15 7 0 (header_of_message \<lparr>msg_req_id = 0, msg_req_type = 0, content = []\<rparr>))
      \<lparr>socket_open := True, reading := Read_Body 1 10\<rparr>"
  let ?s = "\<lparr>service = (), pool = \<lparr>io_services = 1, next_io_service = 0, pool_stopped = False\<rparr>, acceptor_open = True,
      accepting = connection_new 15 7 0 (header_of_message \<lparr>msg_req_id = 0, msg_req_type = 0, content = []\<rparr>),
      accepted = [?c], connections = [(0, 0)], next_conn_id = 1, conn_timeout = 15,
      conn_timeout_callback = False, timed_out = [], on_net_err_callback = False, stop_check = False,
      sub_map = [], token_list = {}, stop_check_pub_sub = False, has_stoped = False\<rparr>"
  have ok: "server_ok ?s"
    by (auto simp: server_ok_def tables_ok_def pool_ok_def fresh_connection_def connection_new_def conn_ok_def
        writes_front_def MAX_BUF_LEN_def INIT_BUF_SIZE_def)
  have "0 < length (accepted ?s)" "reading (accepted ?s ! 0) = Read_Body 1 10" "\<not> has_closed (accepted ?s ! 0)"
    "timeout_seconds (accepted ?s ! 0) \<noteq> 0"
    by (simp_all add: connection_new_def)
  from body_error_leaks [OF ok this, of demo_memory router_new "''End of file''" "[]"] obtain s' where
    "on_conn 0 (body_done demo_memory router_new (subscribe 0) 1 (Some ''End of file'') []) ?s = (Inr (), s')"
    "socket_open (accepted s' ! 0)" "reading (accepted s' ! 0) = No_Read"
    "(0, 0) \<in> set (connections (clean_pass s'))"
    by auto
  then show ?thesis by blast
qed

end
