(* ===== verification/Spec2Isabelle.thy ===== *)
theory Spec2Isabelle
  imports
    Display_Properties Text_Properties Window_Properties App_Properties
    Md5_Properties Msgpack_Properties Unpacker_Properties Rpc_Properties
begin

text \<open>
  The verification of \<open>ws2812strip\<close>: a display of WS2812 LEDs on a Raspberry Pi that
  clients paint on through remote procedure calls.

  \<^bold>\<open>The program.\<close> \<open>src/src/main.cpp\<close> builds a strip of 16 by 32 LEDs, registers twelve
  handlers with a server of \<open>rest_rpc\<close>, starts a thread that renders the strip every ten
  milliseconds while \<open>auto_render\<close> is set, and runs the server. Everything that is painted
  (devices, glyphs, windows) is in \<open>src/src/inc/render.hpp\<close>. The server
  (\<open>src/3rd/inc/rest_rpc\<close>) reads requests as a header and a body, finds the handler by the
  MD5 hash of its name, and packs arguments and replies with \<open>msgpack\<close>
  (\<open>src/3rd/inc/msgpack\<close>, API version 1).

  \<^bold>\<open>How it is modelled.\<close> A C++ expression is a \<open>result\<close>: a value, an exception, or undefined
  behaviour with its kind (a failed assertion and \<open>std::terminate\<close> are listed there too); a
  statement is a function from a state to a result and the next state, so that effects before
  an exception stay (\<open>Prelude\<close>). An \<open>int\<close> of \<open>render.hpp\<close> is an integer whose operations are
  undefined outside 32 bits; the integers of \<open>msgpack\<close> and \<open>rest_rpc\<close> are words of their
  width. Classes are records, virtual functions are records of functions, objects that point
  to each other live in a heap (\<open>Window\<close>), and an asynchronous operation of \<open>asio\<close> is split at
  its completion, whose outcome is an argument.

  \<^bold>\<open>The display, \<open>render.hpp\<close>.\<close>
  \<^item> \<open>Strip_Index\<close>: \<open>IStripIndex\<close> with its two layouts and \<open>StripRotateHelper\<close>; the locales
    \<open>rect_index\<close> and \<open>strip_index\<close> state that an index numbers a rectangle without gaps.
  \<^item> \<open>Paint_Device\<close>: \<open>IPaintSource\<close>, \<open>IPaintDevice\<close> (\<open>clear\<close>, \<open>draw\<close>, \<open>flip\<close>); the locale
    \<open>paint_device\<close> is the contract of a device, and inside it the three operations are shown
    to compute an image given by formulas.
  \<^item> \<open>Rotatable\<close>: \<open>IRotatablePaintDevice\<close>, \<open>Pixmap\<close>; \<open>Strip\<close>: \<open>WS2811Strip\<close>, over a parameter
    for the C library \<open>rpi_ws281x\<close>, of which \<open>ws2811_lib_ok\<close> says what its documentation
    promises. Both interpret \<open>array_device\<close>.
  \<^item> \<open>Glyphs\<close>: the fonts, single characters, texts and numbers.
  \<^item> \<open>Window\<close>, \<open>Window_Links\<close>, \<open>Window_Runs\<close>, \<open>Window_Pixels\<close>: windows in a heap with
    children and parents, the debug device, the links that disciplined runs keep, and what the
    pixels of a tree of windows are.
  \<^item> \<open>App\<close>, \<open>App_Correct\<close>: the handlers of \<open>main.cpp\<close>, the render thread, the interleavings.

  \<^bold>\<open>The messages, \<open>msgpack\<close>.\<close>
  \<^item> \<open>Msgpack_Bytes\<close> (\<open>sysdep.hpp\<close>), \<open>Sbuffer\<close> (the growing buffer, and the locale \<open>stream\<close>
    of what a packer needs of its output), \<open>Msgpack_Pack\<close> (\<open>packer\<close>, and \<open>int_format\<close>, the
    formats of integers as msgpack specifies them), \<open>Msgpack_Object\<close>,
    \<open>Msgpack_Traversal\<close>, \<open>Msgpack_Visitors\<close> (objects, \<open>object_parser\<close> and its visitors; \<open>enc\<close>
    is the format as a recursive function), \<open>Msgpack_Compare\<close> (equality of objects),
    \<open>Msgpack_Print\<close> (objects as text), \<open>Msgpack_Clone\<close> and \<open>Msgpack_Clone_Deep\<close> (copies
    into a zone, with memory as bytes and cells),
    \<open>Msgpack_Unpack\<close> (the decoder's state machine), \<open>Msgpack_Safe\<close>, \<open>Msgpack_Typed\<close> and
    \<open>Msgpack_Roundtrip\<close> (it ends on all bytes, gives well-formed objects, and inverts \<open>enc\<close>),
    \<open>Msgpack_Resume\<close> (it can stop where the bytes end and go on when there are more),
    \<open>Msgpack_Unpacker\<close> and \<open>Msgpack_Unpacker_Correct\<close> (the streaming class \<open>unpacker\<close> with
    its counted buffers, over operations on a zone, and what a client takes out of it),
    \<open>Msgpack_Progress\<close>, \<open>Msgpack_Unpacker_Counts\<close>, \<open>Msgpack_Unpacker_Client\<close> (who owns these
    buffers, for a client that calls anything in any order; the locale \<open>finalizing_zone\<close> is what
    the unpacker needs of a zone) and \<open>Msgpack_Unpacker_Zone\<close> (its interpretation on the zone),
    \<open>Msgpack_Zone\<close>, \<open>Msgpack_Zone_Safe\<close> (memory in chunks), \<open>Msgpack_Convert\<close> (adaptors for
    integers, \<open>bool\<close>, strings and tuples).

  \<^bold>\<open>The server and its client, \<open>rest_rpc\<close>.\<close>
  \<^item> \<open>Md5\<close>, \<open>Md5_Eval\<close>: \<open>md5.hpp\<close>; MD5 as RFC 1321 has it, with its own tables and
    functions (\<open>rfc_md5\<close>), which the code is shown to compute; and the keys of the twelve handlers,
    computed in the kernel.
  \<^item> \<open>Rpc_Codec\<close>, \<open>Rpc_Router\<close>, \<open>Rpc_Router_Correct\<close>: \<open>codec.h\<close> and \<open>router.h\<close>. The locale
    \<open>responder\<close> is what the router needs of a connection; in it, routing sends one answer.
  \<^item> \<open>Rpc_Connection\<close>, \<open>Rpc_Connection_Safe\<close>: \<open>connection.h\<close>, its invariant \<open>conn_ok\<close>, the
    interpretation of \<open>responder\<close>, and the queue of responses.
  \<^item> \<open>Rpc_Server\<close>, \<open>Rpc_Server_Safe\<close>: \<open>rpc_server.h\<close> and \<open>io_service_pool.h\<close> as a step
    relation \<open>server_step\<close>; the locale \<open>service_contract\<close> is what the server needs of the
    program behind it, interpreted in \<open>Rpc_Main\<close> on the router of \<open>main.cpp\<close>.
  \<^item> \<open>Rpc_Main\<close>, \<open>Rpc_Main_Correct\<close>: the registration in \<open>main\<close>, and a request from its bytes
    to the bytes of its reply. \<open>Rpc_Client\<close>, \<open>Rpc_Round_Trip\<close>: \<open>rpc_client.hpp\<close>, and a call of
    the client through the server and back.

  \<^bold>\<open>The properties\<close> are in the theories named \<open>_Properties\<close>, each with a number: that pixels
  are numbered without gaps in all rotations; what drawing, flipping, clearing, texts and
  numbers show; what windows show and which links they keep, and what misuse breaks; that the
  program stays sound in every interleaving and answers safe requests; that the format is
  packed and unpacked faithfully on all integers and objects, also when the bytes arrive in
  pieces, that the decoder ends on all bytes, that objects decoded without copying stay
  valid, that objects are compared by value and that a clone shares no memory with the
  original; that the hash is MD5; that a call returns what its handler returned; that the
  server keeps its tables and the order of its responses whatever happens, and drains its
  queues.
  Those of kind error state how the code goes wrong.

  \<^bold>\<open>Bounds.\<close> Recursion through windows takes the depth of the stack as an argument; as many
  frames as there are objects in the heap are enough for windows that are linked properly
  (\<open>stack_suffices\<close>). The loops of the object parser and of the decoder are partial functions
  with values in \<open>option\<close>, and both are shown to end. \<open>dims_ok\<close> bounds the sizes of devices by
  what 32 bits hold. The packer's results are stated for less than \<open>2 ^ 64\<close> bytes, the zone's
  for chunks below \<open>2 ^ 62\<close> bytes, the hash's for messages below \<open>2 ^ 29\<close> bytes. A client of
  the streaming decoder asks for at most \<open>2 ^ 62\<close> bytes at a time and holds fewer than
  \<open>2 ^ 32 - 1\<close> objects, since the counts have 32 bits.

  \<^bold>\<open>The platform.\<close> 64 bits, little-endian, with assertions, without TLS
  (\<open>CINATRA_ENABLE_SSL\<close>); \<open>asio\<close> and the C++ library do what they document. The allocator is a
  parameter of the buffers and the zone; allocations inside \<open>std::string\<close>, containers and
  \<open>std::function\<close> succeed. A \<open>float\<close> of a message is its 32 bits: the decoder stores it as a
  \<open>double\<close> and the packer turns it back, which gives the same bits, except that the processor may
  make a signalling NaN quiet on the way; that is not modelled.

  \<^bold>\<open>Not modelled.\<close> The code holds no lock on the strip although handlers run on several
  threads: the steps of \<open>app_step\<close> and \<open>server_step\<close> are whole handlers, which the code does not
  ensure (the manifest lists it as a finding). A step of \<open>server_step\<close> is an event that ends
  normally; one that ends in undefined behaviour or with an exception that nothing catches ends
  the program, and no state comes after it. Time appears only as events. The adaptors of
  \<open>msgpack\<close> for types that no handler uses, moving an \<open>unpacker\<close>, and the numbered copies of
  its generated templates are left out, as are the blocking waits of the client, logging, the
  build files, and the vendored \<open>asio\<close>; \<open>spdlog\<close>, \<open>catch2\<close> and \<open>rpi_ws281x\<close> are
  submodules whose directories are empty.
\<close>

end
